(* ===== verification/Prelude.thy ===== *)
theory Prelude
  imports Main "HOL-Library.Char_ord" "HOL-Library.List_Lexorder" "HOL-Library.Sublist"
    "HOL-Library.AList" "HOL-Library.Multiset" "HOL-Library.Word"
begin

text \<open>
  What every component of the development shares: Go's error values and results, Go maps as
  association lists, the pieces of Go's standard library the sources call (decimal printing and
  parsing, \<open>strings.Split\<close>, \<open>path.Join\<close>), and the interface to serialised messages.

  Conventions used throughout:
  \<^item> a Go \<open>string\<close> or \<open>[]byte\<close> is a \<^typ>\<open>string\<close>, one \<^typ>\<open>char\<close> per byte, ordered bytewise;
  \<^item> a function that returns \<open>(T, error)\<close> returns \<open>err + T\<close>, a function that returns \<open>error\<close>
    and changes state returns the new state and an \<^typ>\<open>'a option\<close> error, so that what was
    written before a failure stays visible;
  \<^item> a Go map is an association list with distinct keys; the order of the list is the order
    in which a \<open>range\<close> loop visits the map, and every theorem holds for every such order;
  \<^item> \<open>time.Now()\<close> and freshly drawn identifiers are arguments.
\<close>

section \<open>Errors and results\<close>

text \<open>
  \<open>ErrMsg\<close> is an error made by \<open>errors.New\<close> or \<open>fmt.Errorf\<close>; \<open>Sentinel\<close> is an error variable
  of a package, compared by identity; \<open>GrpcErr\<close> carries a gRPC status code; \<open>Panic\<close> is a
  run-time panic (a nil dereference, an index out of range), which no caller handles.
\<close>

datatype err = ErrMsg string | Sentinel string | GrpcErr nat string | Panic string

type_synonym 'a res = "err + 'a"

definition is_panic :: "err \<Rightarrow> bool" where
  "is_panic e = (case e of Panic _ \<Rightarrow> True | _ \<Rightarrow> False)"

definition ok :: "'a res \<Rightarrow> bool" where
  "ok r = (case r of Inl _ \<Rightarrow> False | Inr _ \<Rightarrow> True)"

lemma ok_simps [simp]: "ok (Inr v)" "\<not> ok (Inl e)"
  by (simp_all add: ok_def)

lemma ok_iff: "ok r \<longleftrightarrow> (\<exists>v. r = Inr v)"
  by (cases r) auto

section \<open>Go maps as association lists\<close>

type_synonym ('k, 'v) gomap = "('k \<times> 'v) list"

abbreviation gomap_ok :: "('k, 'v) gomap \<Rightarrow> bool" where
  "gomap_ok m \<equiv> distinct (map fst m)"

abbreviation gomap_keys :: "('k, 'v) gomap \<Rightarrow> 'k set" where
  "gomap_keys m \<equiv> fst ` set m"

lemma gomap_ok_update [simp, intro]: "gomap_ok m \<Longrightarrow> gomap_ok (AList.update k v m)"
  by (rule distinct_update)

lemma gomap_ok_delete [simp, intro]: "gomap_ok m \<Longrightarrow> gomap_ok (AList.delete k m)"
  by (rule distinct_delete)

lemma keys_update [simp]: "gomap_keys (AList.update k v m) = insert k (gomap_keys m)"
  by (induction m) auto

lemma keys_delete [simp]: "gomap_keys (AList.delete k m) = gomap_keys m - {k}"
  by (auto simp: AList.delete_eq image_iff)

lemma map_of_delete [simp]: "map_of (AList.delete k m) = (map_of m)(k := None)"
  by (rule delete_conv')

lemma map_of_update [simp]: "map_of (AList.update k v m) = (map_of m)(k \<mapsto> v)"
  by (rule update_conv')

lemma map_of_Some_keys: "map_of m k = Some v \<Longrightarrow> k \<in> gomap_keys m"
  by (metis domI dom_map_of_conv_image_fst)

lemma map_of_None_keys: "map_of m k = None \<longleftrightarrow> k \<notin> gomap_keys m"
  by (rule map_of_eq_None_iff)

lemma keys_map_of: "k \<in> gomap_keys m \<longleftrightarrow> (\<exists>v. map_of m k = Some v)"
  by (metis map_of_None_keys not_None_eq)

section \<open>Sequencing\<close>

text \<open>
  \<open>if err := f(); err != nil { return err }\<close> after a call that changes the state
  (\<open>and_then\<close>), after one that only reads (\<open>with_res\<close>, \<open>bind_res\<close>), and as the body of a
  \<open>for\<close> loop (\<open>for_each\<close>).
\<close>

definition and_then :: "'s \<times> err option \<Rightarrow> ('s \<Rightarrow> 's \<times> err option) \<Rightarrow> 's \<times> err option" where
  "and_then r f = (case r of (s, None) \<Rightarrow> f s | (s, Some e) \<Rightarrow> (s, Some e))"

definition with_res :: "'a res \<Rightarrow> 's \<Rightarrow> ('a \<Rightarrow> 's \<times> err option) \<Rightarrow> 's \<times> err option" where
  "with_res r s f = (case r of Inl e \<Rightarrow> (s, Some e) | Inr v \<Rightarrow> f v)"

definition bind_res :: "'a res \<Rightarrow> ('a \<Rightarrow> 'b res) \<Rightarrow> 'b res" where
  "bind_res r f = (case r of Inl e \<Rightarrow> Inl e | Inr v \<Rightarrow> f v)"

fun for_each :: "('s \<Rightarrow> 'a \<Rightarrow> 's \<times> err option) \<Rightarrow> 's \<Rightarrow> 'a list \<Rightarrow> 's \<times> err option" where
  "for_each f s [] = (s, None)"
| "for_each f s (x # xs) = and_then (f s x) (\<lambda>s'. for_each f s' xs)"

fun map_res :: "('a \<Rightarrow> 'b res) \<Rightarrow> 'a list \<Rightarrow> 'b list res" where
  "map_res f [] = Inr []"
| "map_res f (x # xs) = bind_res (f x) (\<lambda>y. bind_res (map_res f xs) (\<lambda>ys. Inr (y # ys)))"

lemma and_then_simps [simp]: "and_then (s, None) f = f s" "and_then (s, Some e) f = (s, Some e)"
  by (simp_all add: and_then_def)

lemma with_res_simps [simp]: "with_res (Inr v) s f = f v" "with_res (Inl e) s f = (s, Some e)"
  by (simp_all add: with_res_def)

lemma bind_res_simps [simp]: "bind_res (Inr v) f = f v" "bind_res (Inl e) f = Inl e"
  by (simp_all add: bind_res_def)

lemma and_then_None_iff:
  "and_then r f = (s', None) \<longleftrightarrow> (\<exists>s. r = (s, None) \<and> f s = (s', None))"
  by (auto simp: and_then_def split: prod.splits option.splits)

lemma and_then_Some_iff:
  "and_then r f = (s', Some e) \<longleftrightarrow> r = (s', Some e) \<or> (\<exists>s. r = (s, None) \<and> f s = (s', Some e))"
  by (auto simp: and_then_def split: prod.splits option.splits)

lemma with_res_None_iff: "with_res r s f = (s', None) \<longleftrightarrow> (\<exists>v. r = Inr v \<and> f v = (s', None))"
  by (cases r) auto

lemma with_res_Some_iff:
  "with_res r s f = (s', Some e) \<longleftrightarrow> r = Inl e \<and> s' = s \<or> (\<exists>v. r = Inr v \<and> f v = (s', Some e))"
  by (cases r) auto

lemma bind_res_Inr_iff: "bind_res r f = Inr y \<longleftrightarrow> (\<exists>v. r = Inr v \<and> f v = Inr y)"
  by (cases r) auto

lemma bind_res_Inl_iff: "bind_res r f = Inl e \<longleftrightarrow> r = Inl e \<or> (\<exists>v. r = Inr v \<and> f v = Inl e)"
  by (cases r) auto

lemmas seq_iffs = and_then_None_iff and_then_Some_iff with_res_None_iff with_res_Some_iff
  bind_res_Inr_iff bind_res_Inl_iff

lemma for_each_invariant:
  assumes "I s" and "\<And>s x. x \<in> set xs \<Longrightarrow> I s \<Longrightarrow> I (fst (f s x))"
  shows "I (fst (for_each f s xs))"
  using assms
proof (induction xs arbitrary: s)
  case (Cons x xs)
  obtain s' r where f: "f s x = (s', r)" by fastforce
  with Cons.prems have "I s'" by (metis fst_conv list.set_intros(1))
  with Cons f show ?case by (cases r) simp_all
qed simp

section \<open>Iteration over a map\<close>

text \<open>
  Go visits the entries of a map in an unspecified order. Where the source builds a map and then
  ranges over it, the order is an argument that permutes the keys.
\<close>

type_synonym range_order = "string list \<Rightarrow> string list"

definition range_order_ok :: "('k list \<Rightarrow> 'k list) \<Rightarrow> bool" where
  "range_order_ok rng \<longleftrightarrow> (\<forall>ks. mset (rng ks) = mset ks)"

definition go_range :: "('k list \<Rightarrow> 'k list) \<Rightarrow> ('k, 'v) gomap \<Rightarrow> ('k \<times> 'v) list" where
  "go_range rng m = map (\<lambda>k. (k, the (map_of m k))) (rng (map fst m))"

lemma range_order_id [simp]: "range_order_ok id" "range_order_ok rev"
  by (simp_all add: range_order_ok_def)

lemma map_fst_go_range [simp]: "map fst (go_range rng m) = rng (map fst m)"
  by (simp add: go_range_def comp_def)

lemma range_order_set: "range_order_ok rng \<Longrightarrow> set (rng ks) = set ks"
  by (metis range_order_ok_def set_mset_mset)

lemma range_order_distinct: "range_order_ok rng \<Longrightarrow> distinct (rng ks) \<longleftrightarrow> distinct ks"
  by (metis range_order_ok_def mset_eq_imp_distinct_iff)

lemma set_go_range:
  assumes "range_order_ok rng" and "gomap_ok m"
  shows "set (go_range rng m) = set m"
proof -
  have "set (go_range rng m) = (\<lambda>k. (k, the (map_of m k))) ` gomap_keys m"
    using range_order_set [OF assms(1), of "map fst m"] by (simp add: go_range_def)
  also have "\<dots> = set m" using assms(2) by (force simp: image_iff)
  finally show ?thesis .
qed

lemma map_of_go_range:
  assumes "range_order_ok rng" and "gomap_ok m"
  shows "map_of (go_range rng m) = map_of m"
proof -
  have "gomap_ok (go_range rng m)"
    using assms by (simp add: range_order_distinct)
  with assms show ?thesis
    by (metis map_of_inject_set set_go_range)
qed

section \<open>Slices\<close>

text \<open>
  \<open>s[idx] = s[len(s)-1]; s = s[:len(s)-1]\<close>: the removal idiom that does not keep the order.
\<close>

definition swap_remove :: "nat \<Rightarrow> 'a list \<Rightarrow> 'a list" where
  "swap_remove i xs = butlast (xs[i := last xs])"

text \<open>The search loops \<open>idx := -1; for i, x := range xs { if p(x) { idx = i; break } }\<close>.\<close>

fun find_index :: "('a \<Rightarrow> bool) \<Rightarrow> 'a list \<Rightarrow> nat option" where
  "find_index p [] = None"
| "find_index p (x # xs) = (if p x then Some 0 else map_option Suc (find_index p xs))"

lemma find_index_SomeD:
  "find_index p xs = Some i \<Longrightarrow> i < length xs \<and> p (xs ! i) \<and> (\<forall>j<i. \<not> p (xs ! j))"
proof (induction xs arbitrary: i)
  case (Cons x xs)
  then show ?case
    by (auto split: if_splits simp: less_Suc_eq_0_disj)
qed simp

lemma find_index_None_iff: "find_index p xs = None \<longleftrightarrow> (\<forall>x\<in>set xs. \<not> p x)"
  by (induction xs) auto

lemma mset_swap_remove:
  assumes "i < length xs"
  shows "add_mset (xs ! i) (mset (swap_remove i xs)) = mset xs"
proof (cases xs rule: rev_cases)
  case Nil
  with assms show ?thesis by simp
next
  case (snoc ys y)
  show ?thesis
  proof (cases "i = length ys")
    case True
    with snoc show ?thesis by (simp add: swap_remove_def)
  next
    case False
    with assms snoc have i: "i < length ys" by simp
    have upd: "(ys @ [y])[i := y] = ys[i := y] @ [y]"
      using i by (simp add: list_update_append)
    have "add_mset (ys ! i) (mset (ys[i := y])) = add_mset y (mset ys)"
      using i by (simp add: mset_update)
    with snoc i show ?thesis by (simp add: swap_remove_def upd nth_append)
  qed
qed

lemma set_swap_remove:
  assumes "i < length xs" and "distinct xs"
  shows "set (swap_remove i xs) = set xs - {xs ! i}" and "distinct (swap_remove i xs)"
proof -
  have m: "add_mset (xs ! i) (mset (swap_remove i xs)) = mset xs"
    using assms(1) by (rule mset_swap_remove)
  have d: "distinct (xs ! i # swap_remove i xs)"
    using m assms(2) by (metis mset.simps(2) mset_eq_imp_distinct_iff)
  then show "distinct (swap_remove i xs)" by simp
  have "set xs = insert (xs ! i) (set (swap_remove i xs))"
    using m by (metis set_mset_add_mset_insert set_mset_mset)
  with d show "set (swap_remove i xs) = set xs - {xs ! i}" by auto
qed

section \<open>Decimal numbers: \<open>fmt.Sprint\<close>, \<open>strconv.ParseUint\<close>, the verb \<open>%20d\<close>\<close>

definition digit :: "nat \<Rightarrow> char" where
  "digit d = char_of (48 + d)"

fun nat_dec :: "nat \<Rightarrow> string" where
  "nat_dec n = (if n < 10 then [digit n] else nat_dec (n div 10) @ [digit (n mod 10)])"

declare nat_dec.simps [simp del]

definition is_digit :: "char \<Rightarrow> bool" where
  "is_digit c \<longleftrightarrow> 48 \<le> (of_char c :: nat) \<and> (of_char c :: nat) < 58"

definition digit_val :: "char \<Rightarrow> nat" where
  "digit_val c = of_char c - 48"

fun dec_val :: "nat \<Rightarrow> string \<Rightarrow> nat" where
  "dec_val a [] = a"
| "dec_val a (c # cs) = dec_val (10 * a + digit_val c) cs"

text \<open>\<open>strconv.ParseUint(s, 10, bits)\<close>: a non-empty string of digits whose value fits.\<close>

definition parse_uint :: "nat \<Rightarrow> string \<Rightarrow> nat res" where
  "parse_uint bits s =
     (if s = [] \<or> \<not> list_all is_digit s then Inl (ErrMsg ''invalid syntax'')
      else if int (dec_val 0 s) < 2 ^ bits then Inr (dec_val 0 s)
      else Inl (ErrMsg ''value out of range''))"

lemma of_char_digit [simp]: "d < 10 \<Longrightarrow> (of_char (digit d) :: nat) = 48 + d"
  by (simp add: digit_def of_char_of)

lemma is_digit_digit [simp]: "d < 10 \<Longrightarrow> is_digit (digit d)"
  by (simp add: is_digit_def)

lemma digit_val_digit [simp]: "d < 10 \<Longrightarrow> digit_val (digit d) = d"
  by (simp add: digit_val_def)

lemma nat_dec_digits: "list_all is_digit (nat_dec n)"
proof (induction n rule: nat_dec.induct)
  case (1 n)
  show ?case
    by (subst nat_dec.simps) (use 1 in simp)
qed

lemma nat_dec_nonempty [simp]: "nat_dec n \<noteq> []"
  by (subst nat_dec.simps) simp

lemma dec_val_append: "dec_val a (xs @ ys) = dec_val (dec_val a xs) ys"
  by (induction xs arbitrary: a) auto

lemma dec_val_nat_dec [simp]: "dec_val 0 (nat_dec n) = n"
proof (induction n rule: nat_dec.induct)
  case (1 n)
  show ?case
  proof (cases "n < 10")
    case True
    then show ?thesis by (simp add: nat_dec.simps [of n])
  next
    case False
    with 1 show ?thesis by (simp add: nat_dec.simps [of n] dec_val_append)
  qed
qed

lemma nat_dec_inj [simp]: "nat_dec m = nat_dec n \<longleftrightarrow> m = n"
  by (metis dec_val_nat_dec)

lemma parse_uint_nat_dec:
  "parse_uint bits (nat_dec n) =
     (if n < 2 ^ bits then Inr n else Inl (ErrMsg ''value out of range''))"
  by (simp add: parse_uint_def nat_dec_digits)

text \<open>\<open>%20d\<close> pads on the left with blanks to a width of twenty.\<close>

definition pad_left :: "nat \<Rightarrow> string \<Rightarrow> string" where
  "pad_left w s = replicate (w - length s) CHR '' '' @ s"

definition int_dec :: "int \<Rightarrow> string" where
  "int_dec i = (if i < 0 then CHR ''-'' # nat_dec (nat (- i)) else nat_dec (nat i))"

definition fmt_d20 :: "int \<Rightarrow> string" where
  "fmt_d20 i = pad_left 20 (int_dec i)"

lemma length_nat_dec: "n < 10 ^ k \<Longrightarrow> 0 < k \<Longrightarrow> length (nat_dec n) \<le> k"
proof (induction n arbitrary: k rule: nat_dec.induct)
  case (1 n)
  show ?case
  proof (cases "n < 10")
    case True
    with 1 show ?thesis by (simp add: nat_dec.simps [of n])
  next
    case False
    with 1 obtain j where k: "k = Suc j" and j: "0 < j"
      by (metis One_nat_def Suc_pred not_gr_zero power_one_right)
    from 1 k have "n div 10 < 10 ^ j"
      by (simp add: less_mult_imp_div_less mult.commute)
    with 1 False j have "length (nat_dec (n div 10)) \<le> j" by blast
    with False k show ?thesis by (simp add: nat_dec.simps [of n])
  qed
qed

lemma length_fmt_d20: "0 \<le> i \<Longrightarrow> i < 10 ^ 20 \<Longrightarrow> length (fmt_d20 i) = 20"
proof -
  assume "0 \<le> i" "i < 10 ^ 20"
  then have "nat i < 10 ^ 20" by (simp add: nat_less_iff)
  then have "length (nat_dec (nat i)) \<le> 20" by (rule length_nat_dec) simp
  with \<open>0 \<le> i\<close> show ?thesis by (simp add: fmt_d20_def pad_left_def int_dec_def)
qed

section \<open>The bytewise order of strings\<close>

lemma append_less_cancel [simp]: "(xs :: string) @ ys < xs @ zs \<longleftrightarrow> ys < zs"
  by (induction xs) auto

lemma append_le_cancel [simp]: "(xs :: string) @ ys \<le> xs @ zs \<longleftrightarrow> ys \<le> zs"
  by (induction xs) auto

lemma less_append_same_length:
  "length xs = length ys \<Longrightarrow>
   (xs :: string) @ us < ys @ vs \<longleftrightarrow> xs < ys \<or> xs = ys \<and> us < vs"
proof (induction xs ys rule: list_induct2)
  case (Cons x xs y ys)
  then show ?case by (cases "x = y") auto
qed simp

lemma prefix_imp_le: "prefix xs ys \<Longrightarrow> (xs :: string) \<le> ys"
  by (auto simp: prefix_def) (metis append.right_neutral append_le_cancel Nil_le_Cons neq_Nil_conv order_refl)

lemma dec_val_bound: "list_all is_digit xs \<Longrightarrow> dec_val a xs < (a + 1) * 10 ^ length xs"
proof (induction xs arbitrary: a)
  case (Cons c cs)
  have d: "digit_val c < 10"
    using Cons.prems by (auto simp: is_digit_def digit_val_def)
  have "dec_val (10 * a + digit_val c) cs < (10 * a + digit_val c + 1) * 10 ^ length cs"
    using Cons by simp
  also have "\<dots> \<le> (10 * a + 10) * 10 ^ length cs"
    using d by (intro mult_right_mono) auto
  finally show ?case by (simp add: algebra_simps)
qed simp

lemma dec_val_lower: "a * 10 ^ length xs \<le> dec_val a xs"
proof (induction xs arbitrary: a)
  case (Cons c cs)
  have "a * 10 ^ length (c # cs) \<le> (10 * a + digit_val c) * 10 ^ length cs"
    by (simp add: algebra_simps)
  also have "\<dots> \<le> dec_val (10 * a + digit_val c) cs" by (rule Cons.IH)
  finally show ?case by simp
qed simp

lemma less_char_digit: "is_digit c \<Longrightarrow> is_digit d \<Longrightarrow> c < d \<longleftrightarrow> digit_val c < digit_val d"
  by (auto simp: less_char_def is_digit_def digit_val_def)

lemma digit_val_inj: "is_digit c \<Longrightarrow> is_digit d \<Longrightarrow> digit_val c = digit_val d \<longleftrightarrow> c = d"
  by (auto simp: is_digit_def digit_val_def) (metis char_of_char le_add_diff_inverse)

lemma dec_val_less_head:
  assumes "list_all is_digit xs" and "length xs = length ys" and "a < b"
  shows "dec_val a xs < dec_val b ys"
proof -
  have "dec_val a xs < (a + 1) * 10 ^ length xs" using assms(1) by (rule dec_val_bound)
  also have "\<dots> \<le> b * 10 ^ length ys"
    using assms(2,3) by (simp only: Suc_eq_plus1 [symmetric] Suc_le_eq mult_le_mono1)
  also have "\<dots> \<le> dec_val b ys" by (rule dec_val_lower)
  finally show ?thesis .
qed

lemma digits_less_iff:
  "length xs = length ys \<Longrightarrow> list_all is_digit xs \<Longrightarrow> list_all is_digit ys \<Longrightarrow>
   (xs < ys) = (dec_val a xs < dec_val a ys)"
proof (induction xs ys arbitrary: a rule: list_induct2)
  case (Cons x xs y ys)
  consider "x = y" | "x < y" | "y < x" by fastforce
  then show ?case
  proof cases
    case 1
    with Cons show ?thesis by simp
  next
    case 2
    with Cons have "digit_val x < digit_val y" by (simp add: less_char_digit)
    with Cons 2 show ?thesis by (simp add: dec_val_less_head)
  next
    case 3
    with Cons have "digit_val y < digit_val x" by (simp add: less_char_digit)
    with Cons 3 have "dec_val (10 * a + digit_val y) ys < dec_val (10 * a + digit_val x) xs"
      by (simp add: dec_val_less_head)
    with 3 show ?thesis by auto
  qed
qed simp

lemma length_nat_dec_mono: "m \<le> n \<Longrightarrow> length (nat_dec m) \<le> length (nat_dec n)"
proof (induction n arbitrary: m rule: nat_dec.induct)
  case (1 n)
  show ?case
  proof (cases "n < 10")
    case True
    with 1 show ?thesis by (simp add: nat_dec.simps [of n] nat_dec.simps [of m])
  next
    case False
    have "length (nat_dec (m div 10)) \<le> length (nat_dec (n div 10))"
      using 1 False by (simp add: div_le_mono)
    with False show ?thesis
      by (simp add: nat_dec.simps [of n] nat_dec.simps [of m])
  qed
qed

lemma pad_left_less_shorter:
  assumes "length (nat_dec m) < length (nat_dec n)" and "length (nat_dec n) \<le> w"
  shows "pad_left w (nat_dec m) < pad_left w (nat_dec n)"
proof -
  define b where "b = w - length (nat_dec n)"
  obtain a where a: "w - length (nat_dec m) = b + Suc a"
    using assms unfolding b_def by (metis add_Suc_right diff_less_mono2 less_imp_Suc_add less_le_trans)
  obtain c cs where c: "nat_dec n = c # cs" and dc: "is_digit c"
    using nat_dec_digits [of n] by (cases "nat_dec n") auto
  have "CHR '' '' < c"
    using dc by (simp add: less_char_def is_digit_def)
  then have "replicate (Suc a) CHR '' '' @ nat_dec m < nat_dec n" by (simp add: c)
  then have "replicate b CHR '' '' @ replicate (Suc a) CHR '' '' @ nat_dec m
      < replicate b CHR '' '' @ nat_dec n"
    by (simp only: append_less_cancel)
  then show ?thesis
    by (simp only: pad_left_def a replicate_add append_assoc b_def [symmetric])
qed

lemma fmt_d20_less_iff:
  assumes "0 \<le> i" "0 \<le> j" "i < 10 ^ 20" "j < 10 ^ 20"
  shows "fmt_d20 i < fmt_d20 j \<longleftrightarrow> i < j"
proof -
  let ?m = "nat_dec (nat i)" and ?n = "nat_dec (nat j)"
  have lm: "length ?m \<le> 20" and ln: "length ?n \<le> 20"
    using assms by (auto intro!: length_nat_dec simp: nat_less_iff)
  have d: "fmt_d20 i = pad_left 20 ?m" "fmt_d20 j = pad_left 20 ?n"
    using assms by (simp_all add: fmt_d20_def int_dec_def)
  consider "length ?m < length ?n" | "length ?n < length ?m" | "length ?m = length ?n"
    by linarith
  then show ?thesis
  proof cases
    case 1
    then have "i < j" by (metis length_nat_dec_mono linorder_not_le nat_le_iff nat_mono)
    with 1 d ln show ?thesis by (simp add: pad_left_less_shorter)
  next
    case 2
    then have "j < i" by (metis length_nat_dec_mono linorder_not_le nat_le_iff nat_mono)
    moreover have "fmt_d20 j < fmt_d20 i" using 2 d lm by (simp add: pad_left_less_shorter)
    ultimately show ?thesis by auto
  next
    case 3
    then have "fmt_d20 i < fmt_d20 j \<longleftrightarrow> ?m < ?n" using d by (simp add: pad_left_def)
    also have "\<dots> \<longleftrightarrow> dec_val 0 ?m < dec_val 0 ?n"
      using 3 nat_dec_digits by (rule digits_less_iff)  (rule nat_dec_digits)
    finally show ?thesis using assms by auto
  qed
qed

section \<open>\<open>strings.Split\<close> and \<open>path.Join\<close>\<close>

fun split_on :: "char \<Rightarrow> string \<Rightarrow> string list" where
  "split_on c [] = [[]]"
| "split_on c (x # xs) =
     (if x = c then [] # split_on c xs
      else (case split_on c xs of [] \<Rightarrow> [[x]] | y # ys \<Rightarrow> (x # y) # ys))"

fun str_join :: "string \<Rightarrow> string list \<Rightarrow> string" where
  "str_join sep [] = []"
| "str_join sep [x] = x"
| "str_join sep (x # xs) = x @ sep @ str_join sep xs"

lemma split_on_nonempty [simp]: "split_on c s \<noteq> []"
  by (induction s) (auto split: list.splits)

lemma split_on_no_sep: "c \<notin> set s \<Longrightarrow> split_on c s = [s]"
  by (induction s) auto

lemma split_on_append: "c \<notin> set s \<Longrightarrow> split_on c (s @ c # t) = s # split_on c t"
  by (induction s) auto

lemma str_join_split_on: "str_join [c] (split_on c s) = s"
proof (induction s)
  case (Cons x xs)
  obtain y ys where "split_on c xs = y # ys" by (meson neq_Nil_conv split_on_nonempty)
  with Cons show ?case by (cases ys) auto
qed simp

text \<open>
  \<open>path.Clean\<close>: drop empty elements and \<open>.\<close>, let \<open>..\<close> cancel the element before it, and let
  \<open>..\<close> at the root of a rooted path stand for the root. The stack is kept in reverse.
\<close>

fun clean_step :: "bool \<Rightarrow> string list \<Rightarrow> string \<Rightarrow> string list" where
  "clean_step rooted st seg =
     (if seg = [] \<or> seg = ''.'' then st
      else if seg = ''..'' then
        (case st of
           [] \<Rightarrow> (if rooted then [] else [seg])
         | t # ts \<Rightarrow> (if t = ''..'' then seg # st else ts))
      else seg # st)"

definition path_Clean :: "string \<Rightarrow> string" where
  "path_Clean p =
     (if p = [] then ''.''
      else let rooted = (hd p = CHR ''/'');
               segs = rev (foldl (clean_step rooted) [] (split_on CHR ''/'' p));
               body = str_join ''/'' segs
           in if rooted then CHR ''/'' # body else if body = [] then ''.'' else body)"

definition path_Join :: "string list \<Rightarrow> string" where
  "path_Join es =
     (case dropWhile (\<lambda>e. e = []) es of [] \<Rightarrow> [] | es' \<Rightarrow> path_Clean (str_join ''/'' es'))"

text \<open>A path element that \<open>path.Join\<close> keeps as it is.\<close>

definition path_seg :: "string \<Rightarrow> bool" where
  "path_seg s \<longleftrightarrow> s \<noteq> [] \<and> s \<noteq> ''.'' \<and> s \<noteq> ''..'' \<and> CHR ''/'' \<notin> set s"

lemma path_seg_split: "path_seg s \<Longrightarrow> split_on CHR ''/'' s = [s]"
  by (simp add: path_seg_def split_on_no_sep)

lemma path_seg_clean [simp]: "path_seg s \<Longrightarrow> clean_step r st s = s # st"
  by (simp add: path_seg_def)

lemma clean_step_empty [simp]: "clean_step r st [] = st"
  by simp

declare clean_step.simps [simp del]

lemma path_seg_nonempty [simp]: "path_seg s \<Longrightarrow> s \<noteq> []"
  by (simp add: path_seg_def)

lemma split_on_str_join:
  "xs \<noteq> [] \<Longrightarrow> (\<And>x. x \<in> set xs \<Longrightarrow> c \<notin> set x) \<Longrightarrow> split_on c (str_join [c] xs) = xs"
proof (induction xs rule: induct_list012)
  case (2 x)
  then show ?case by (simp add: split_on_no_sep)
next
  case (3 x y zs)
  then have "split_on c (str_join [c] (y # zs)) = y # zs" by simp
  with 3 show ?case by (simp add: split_on_append)
qed simp

lemma clean_segs: "list_all path_seg xs \<Longrightarrow> foldl (clean_step r) st xs = rev xs @ st"
  by (induction xs arbitrary: st) simp_all

lemma path_Join_segs:
  assumes "list_all path_seg (a # ss)"
  shows "path_Join ((CHR ''/'' # a) # ss) = CHR ''/'' # str_join ''/'' (a # ss)"
proof -
  have j: "str_join ''/'' ((CHR ''/'' # a) # ss) = CHR ''/'' # str_join ''/'' (a # ss)"
    by (cases ss) simp_all
  have "split_on CHR ''/'' (str_join ''/'' (a # ss)) = a # ss"
    using assms by (intro split_on_str_join) (auto simp: list_all_iff path_seg_def)
  then have "path_Clean (CHR ''/'' # str_join ''/'' (a # ss)) = CHR ''/'' # str_join ''/'' (a # ss)"
    using clean_segs [OF assms, of True "[]"] by (simp add: path_Clean_def)
  with j show ?thesis by (simp add: path_Join_def)
qed

lemma path_Join_dir:
  assumes "list_all path_seg (a # s # ss)"
  shows "path_Join ((CHR ''/'' # a @ ''/'') # s # ss) = CHR ''/'' # str_join ''/'' (a # s # ss)"
proof -
  have a: "CHR ''/'' \<notin> set a" using assms by (simp add: path_seg_def)
  have "split_on CHR ''/'' (str_join ''/'' (s # ss)) = s # ss"
    using assms by (intro split_on_str_join) (auto simp: list_all_iff path_seg_def)
  then have "split_on CHR ''/'' (a @ CHR ''/'' # CHR ''/'' # str_join ''/'' (s # ss)) = a # [] # s # ss"
    using a by (simp add: split_on_append)
  moreover have "foldl (clean_step True) [] (a # [] # s # ss) = rev (a # s # ss)"
    using assms clean_segs [of "s # ss" True "[a]"] by simp
  ultimately have "path_Clean (CHR ''/'' # a @ CHR ''/'' # CHR ''/'' # str_join ''/'' (s # ss)) =
      CHR ''/'' # str_join ''/'' (a # s # ss)"
    by (simp add: path_Clean_def)
  then show ?thesis by (simp add: path_Join_def)
qed

lemma split_on_app: "split_on c (s @ c # t) = split_on c s @ split_on c t"
  by (induction s) (auto split: list.splits)

lemma path_Clean_id: "list_all path_seg (split_on CHR ''/'' p) \<Longrightarrow> path_Clean (CHR ''/'' # p) = CHR ''/'' # p"
  using clean_segs [of "split_on CHR ''/'' p" True "[]"] by (simp add: path_Clean_def str_join_split_on)

section \<open>Serialised messages\<close>

text \<open>
  The protocol buffer code is generated at build time and is a parameter of every definition
  that stores or reads a message. What the sources rely on is \<open>codec_ok\<close>: a message that was
  marshalled without an error unmarshals to itself.
\<close>

record 'm codec =
  Marshal :: "'m \<Rightarrow> string res"
  Unmarshal :: "string \<Rightarrow> 'm res"

definition codec_ok :: "'m codec \<Rightarrow> bool" where
  "codec_ok C \<longleftrightarrow> (\<forall>m b. Marshal C m = Inr b \<longrightarrow> Unmarshal C b = Inr m)"

lemma codec_okD: "codec_ok C \<Longrightarrow> Marshal C m = Inr b \<Longrightarrow> Unmarshal C b = Inr m"
  by (simp add: codec_ok_def)

text \<open>
  A codec over a fixed table of messages, each marshalled to its number in the table. It shows
  that \<open>codec_ok\<close> can be met and serves the concrete runs.
\<close>

definition table_codec :: "'m list \<Rightarrow> 'm codec" where
  "table_codec xs =
     \<lparr>Marshal = (\<lambda>m. case find_index (\<lambda>x. x = m) xs of
        None \<Rightarrow> Inl (ErrMsg ''unknown message'')
      | Some i \<Rightarrow> Inr (replicate (Suc i) CHR ''#'')),
      Unmarshal = (\<lambda>b. if b \<noteq> [] \<and> length b \<le> length xs then Inr (xs ! (length b - 1))
        else Inl (ErrMsg ''cannot unmarshal''))\<rparr>"

lemma table_codec_ok [simp]: "codec_ok (table_codec xs)"
  by (auto simp: codec_ok_def table_codec_def Suc_le_eq split: option.splits
      dest: find_index_SomeD)

section \<open>\<open>strconv.ParseInt\<close>\<close>

text \<open>For base ten and 64 bits: an optional sign and a non-empty string of digits whose value fits.\<close>

definition parse_int64 :: "string \<Rightarrow> int res" where
  "parse_int64 s =
     (let neg = (s \<noteq> [] \<and> hd s = CHR ''-'');
          ds = (if s \<noteq> [] \<and> (hd s = CHR ''-'' \<or> hd s = CHR ''+'') then tl s else s)
      in if ds = [] \<or> \<not> list_all is_digit ds then Inl (ErrMsg ''invalid syntax'')
         else let n = int (dec_val 0 ds) in
              if neg then (if n \<le> 2 ^ 63 then Inr (- n) else Inl (ErrMsg ''value out of range''))
              else (if n < 2 ^ 63 then Inr n else Inl (ErrMsg ''value out of range'')))"

lemma parse_int64_nat_dec: "parse_int64 (nat_dec n) = (if n < 2 ^ 63 then Inr (int n) else Inl (ErrMsg ''value out of range''))"
proof -
  obtain c cs where c: "nat_dec n = c # cs" by (meson nat_dec_nonempty neq_Nil_conv)
  have "is_digit c" using nat_dec_digits [of n] c by simp
  then have "c \<noteq> CHR ''-''" "c \<noteq> CHR ''+''" by (auto simp: is_digit_def)
  moreover have "int n < 2 ^ 63 \<longleftrightarrow> n < 2 ^ 63" by (metis of_nat_less_iff of_nat_numeral of_nat_power)
  ultimately show ?thesis using c nat_dec_digits [of n] dec_val_nat_dec [of n]
    by (simp add: parse_int64_def Let_def)
qed

section \<open>64-bit integers and times\<close>

text \<open>
  A time is a number of nanoseconds since the epoch. Arithmetic on \<open>int64\<close> wraps; the difference of two
  times (\<open>Time.Sub\<close>) saturates.
\<close>

definition wrap64 :: "int \<Rightarrow> int" where
  "wrap64 i = (i + 2 ^ 63) mod 2 ^ 64 - 2 ^ 63"

definition duration_sub :: "int \<Rightarrow> int \<Rightarrow> int" where
  "duration_sub a b = max (- (2 ^ 63)) (min (2 ^ 63 - 1) (a - b))"

definition Second :: int where
  "Second = 1000000000"

lemma wrap64_id: "- (2 ^ 63) \<le> i \<Longrightarrow> i < 2 ^ 63 \<Longrightarrow> wrap64 i = i"
  by (simp add: wrap64_def)

lemma wrap64_nat: "int n < 2 ^ 63 \<Longrightarrow> wrap64 (int n) = int n"
  by (simp add: wrap64_def)

end
