(* ===== verification/Datastore.thy ===== *)
theory Datastore
  imports Prelude
begin

text \<open>
  The key-value stores of \<open>src/vizier/utils/datastore\<close>: the interface every store of the
  metadata service is written against (\<open>datastore.go\<close>), the implementation on an embedded
  Pebble database with its reaper of expired keys (\<open>pebbledb/\<close>), and the implementation on an
  etcd client with its splitting of large transactions (\<open>etcd/\<close>).

  Pebble and the etcd client are third-party libraries. They are records of operations that the
  definitions take as an argument, and the locales \<open>pebble_db\<close> and \<open>etcd_db\<close> name what the
  sources rely on. The locale \<open>kv_store\<close> is the contract of the Go interface; both
  implementations are shown to meet it by a \<^theory_text>\<open>sublocale\<close>.
\<close>

section \<open>The interface\<close>

text \<open>
  \<open>MultiGetterSetterDeleterCloser\<close>. \<open>Get\<close> of an absent key returns \<open>nil, nil\<close>, here
  \<open>Inr None\<close>. Times and durations are nanoseconds.
\<close>

record 'd kvops =
  kv_Get :: "'d \<Rightarrow> string \<Rightarrow> string option res"
  kv_GetWithRange :: "'d \<Rightarrow> string \<Rightarrow> string \<Rightarrow> (string list \<times> string list) res"
  kv_GetWithPrefix :: "'d \<Rightarrow> string \<Rightarrow> (string list \<times> string list) res"
  kv_Set :: "'d \<Rightarrow> string \<Rightarrow> string \<Rightarrow> 'd \<times> err option"
  kv_SetWithTTL :: "int \<Rightarrow> 'd \<Rightarrow> string \<Rightarrow> string \<Rightarrow> int \<Rightarrow> 'd \<times> err option"
  kv_Delete :: "'d \<Rightarrow> string \<Rightarrow> 'd \<times> err option"
  kv_DeleteAll :: "'d \<Rightarrow> string list \<Rightarrow> 'd \<times> err option"
  kv_DeleteWithPrefix :: "'d \<Rightarrow> string \<Rightarrow> 'd \<times> err option"
  kv_Close :: "'d \<Rightarrow> 'd \<times> err option"

text \<open>The keys a store may use for its own bookkeeping.\<close>

definition reserved_key :: "string \<Rightarrow> bool" where
  "reserved_key k \<longleftrightarrow> prefix ''___ttl'' k"

text \<open>A listing of the part of a store whose keys satisfy \<open>p\<close>.\<close>

definition lists_keys :: "(string \<rightharpoonup> string) \<Rightarrow> (string \<Rightarrow> bool) \<Rightarrow> string list \<Rightarrow> string list \<Rightarrow> bool"
  where
  "lists_keys m p ks vs \<longleftrightarrow>
     distinct ks \<and> set ks = {k. p k \<and> k \<in> dom m} \<and> map Some vs = map m ks"

lemma lists_keys_zip:
  assumes "lists_keys m p ks vs"
  shows "(k, b) \<in> set (zip ks vs) \<longleftrightarrow> p k \<and> m k = Some b"
proof -
  have l: "length vs = length ks" and s: "set ks = {k. p k \<and> k \<in> dom m}" and d: "distinct ks"
    and m: "map Some vs = map m ks"
    using assms by (auto simp: lists_keys_def dest: map_eq_imp_length_eq)
  have at: "Some (vs ! i) = m (ks ! i)" if "i < length ks" for i
    using m that l by (metis nth_map)
  show ?thesis
  proof
    assume "(k, b) \<in> set (zip ks vs)"
    then obtain i where "i < length ks" "k = ks ! i" "b = vs ! i" using l by (auto simp: in_set_zip)
    with at s show "p k \<and> m k = Some b" by (metis (mono_tags, lifting) mem_Collect_eq nth_mem)
  next
    assume a: "p k \<and> m k = Some b"
    then have "k \<in> set ks" using s by auto
    then obtain i where i: "i < length ks" "k = ks ! i" by (metis in_set_conv_nth)
    with at a have "b = vs ! i" by (metis option.inject)
    with i l show "(k, b) \<in> set (zip ks vs)" by (auto simp: in_set_zip)
  qed
qed

locale kv_store =
  fixes D :: "'d kvops"
    and view :: "'d \<Rightarrow> string \<rightharpoonup> string"
  assumes get: "kv_Get D d k = Inr r \<Longrightarrow> r = view d k"
    and get_range: "to \<noteq> [] \<Longrightarrow> kv_GetWithRange D d from to = Inr (ks, vs) \<Longrightarrow>
      lists_keys (view d) (\<lambda>k. from \<le> k \<and> k < to) ks vs"
    and get_prefix: "kv_GetWithPrefix D d p = Inr (ks, vs) \<Longrightarrow>
      lists_keys (view d) (prefix p) ks vs"
    and set_ok: "kv_Set D d k v = (d', None) \<Longrightarrow> view d' = (view d)(k \<mapsto> v)"
    and set_err: "kv_Set D d k v = (d', Some e) \<Longrightarrow> view d' = view d"
    and set_ttl_ok: "kv_SetWithTTL D now d k v ttl = (d', None) \<Longrightarrow> \<not> reserved_key k \<Longrightarrow>
      \<not> reserved_key k' \<Longrightarrow> view d' k' = ((view d)(k \<mapsto> v)) k'"
    and set_ttl_err: "kv_SetWithTTL D now d k v ttl = (d', Some e) \<Longrightarrow> view d' = view d"
    and delete_ok: "kv_Delete D d k = (d', None) \<Longrightarrow> view d' = (view d)(k := None)"
    and delete_all_ok: "kv_DeleteAll D d ks = (d', None) \<Longrightarrow>
      view d' = (view d) |` (- set ks)"
    and delete_prefix_ok: "kv_DeleteWithPrefix D d p = (d', None) \<Longrightarrow>
      view d' = (view d) |` {k. \<not> prefix p k}"

text \<open>A store that is up, does not fail and stays up.\<close>

definition kv_available :: "'d kvops \<Rightarrow> ('d \<Rightarrow> bool) \<Rightarrow> bool" where
  "kv_available D up \<longleftrightarrow>
     (\<forall>d. up d \<longrightarrow> (\<forall>k. ok (kv_Get D d k)) \<and>
        (\<forall>k v. snd (kv_Set D d k v) = None \<and> up (fst (kv_Set D d k v))))"

lemma kv_availableD:
  assumes "kv_available D up" and "up d"
  shows "\<exists>r. kv_Get D d k = Inr r" and "\<exists>d'. kv_Set D d k v = (d', None) \<and> up d'"
proof -
  show "\<exists>r. kv_Get D d k = Inr r" using assms by (simp add: kv_available_def ok_iff)
  have "snd (kv_Set D d k v) = None" "up (fst (kv_Set D d k v))" using assms by (simp_all add: kv_available_def)
  then show "\<exists>d'. kv_Set D d k v = (d', None) \<and> up d'" by (metis prod.collapse)
qed

context kv_store
begin

lemma bind_get: "bind_res (kv_Get D d k) f = bind_res (kv_Get D d k) (\<lambda>_. f (view d k))"
  using get [of d k] by (cases "kv_Get D d k") simp_all

lemma with_get: "with_res (kv_Get D d k) s f = with_res (kv_Get D d k) s (\<lambda>_. f (view d k))"
  using get [of d k] by (cases "kv_Get D d k") simp_all

lemma set_other: "kv_Set D d k v = (d', r) \<Longrightarrow> k' \<noteq> k \<Longrightarrow> view d' k' = view d k'"
  using set_ok [of d k v d'] set_err [of d k v d'] by (cases r) simp_all

end

section \<open>The upper bound of the keys with a given prefix\<close>

definition byte_inc :: "char \<Rightarrow> char" where
  "byte_inc c = char_of ((of_char c + 1 :: nat) mod 256)"

text \<open>The loop of \<open>KeyUpperBound\<close>, with \<open>i + 1\<close> as its counter.\<close>

fun key_upper_loop :: "nat \<Rightarrow> string \<Rightarrow> string option" where
  "key_upper_loop 0 e = None"
| "key_upper_loop (Suc i) e =
     (let e' = e[i := byte_inc (e ! i)]
      in if e' ! i \<noteq> CHR 0x00 then Some (take (Suc i) e') else key_upper_loop i e')"

definition KeyUpperBound :: "string \<Rightarrow> string option" where
  "KeyUpperBound b = key_upper_loop (length b) b"

lemma of_char_byte_inc: "(of_char (byte_inc c) :: nat) = (of_char c + 1) mod 256"
  by (simp add: byte_inc_def of_char_of)

lemma of_char_less_256 [simp]: "(of_char (c :: char) :: nat) < 256"
proof -
  have "(of_char c :: nat) mod 256 = of_char c" by (rule of_char_mod_256)
  then show ?thesis by (metis mod_less_divisor zero_less_numeral)
qed

lemma byte_inc_zero: "byte_inc c = CHR 0x00 \<longleftrightarrow> of_char c = (255 :: nat)"
proof -
  have "byte_inc c = CHR 0x00 \<longleftrightarrow> (of_char (byte_inc c) :: nat) = of_char CHR 0x00"
    by (simp only: of_char_eq_iff)
  also have "\<dots> \<longleftrightarrow> (of_char c + 1 :: nat) mod 256 = 0"
    by (simp add: of_char_byte_inc)
  also have "\<dots> \<longleftrightarrow> of_char c = (255 :: nat)"
    using of_char_less_256 [of c] by arith
  finally show ?thesis .
qed

lemma byte_inc_next:
  assumes "byte_inc c \<noteq> CHR 0x00"
  shows "x < byte_inc c \<longleftrightarrow> x \<le> c"
proof -
  have "(of_char c :: nat) \<noteq> 255" using assms by (simp add: byte_inc_zero)
  with of_char_less_256 [of c] have "(of_char c :: nat) + 1 < 256" by linarith
  then show ?thesis by (auto simp: less_char_def less_eq_char_def of_char_byte_inc)
qed

lemma byte_inc_max:
  assumes "byte_inc c = CHR 0x00" and "c \<le> x"
  shows "x = c"
proof -
  have "(of_char c :: nat) = 255" using assms(1) by (simp add: byte_inc_zero)
  moreover have "(of_char c :: nat) \<le> of_char x" using assms(2) by (simp add: less_eq_char_def)
  ultimately have "(of_char x :: nat) = of_char c" using of_char_less_256 [of x] by linarith
  then show ?thesis by (simp only: of_char_eq_iff)
qed

lemma single_byte_range:
  assumes "byte_inc c \<noteq> CHR 0x00"
  shows "[c] \<le> k \<and> k < [byte_inc c] \<longleftrightarrow> prefix [c] k"
proof (cases k)
  case (Cons x xs)
  have "x < byte_inc c \<longleftrightarrow> x \<le> c" using assms by (rule byte_inc_next)
  with Cons show ?thesis by (auto simp del: not_less)
qed simp

lemma between_prefix: "(p :: string) \<le> k \<Longrightarrow> k < p @ s \<Longrightarrow> prefix p k"
proof (induction p arbitrary: k)
  case (Cons a p)
  then show ?case by (cases k) auto
qed simp

lemma key_upper_loop_spec:
  "i \<le> length e \<Longrightarrow> key_upper_loop i e = Some u \<Longrightarrow>
   take i e \<le> k \<and> k < u \<longleftrightarrow> prefix (take i e) k"
proof (induction i arbitrary: e k)
  case (Suc i)
  let ?c = "e ! i" and ?p = "take i e"
  let ?e' = "e[i := byte_inc ?c]"
  have i: "i < length e" using Suc.prems by simp
  have split: "take (Suc i) e = ?p @ [?c]" "take (Suc i) ?e' = ?p @ [byte_inc ?c]"
    using i by (simp_all add: take_Suc_conv_app_nth)
  show ?case
  proof (cases "byte_inc ?c = CHR 0x00")
    case False
    with Suc.prems i split have u: "u = ?p @ [byte_inc ?c]" by (simp add: Let_def)
    show ?thesis
    proof
      assume a: "take (Suc i) e \<le> k \<and> k < u"
      have "?p \<le> ?p @ [?c]" by (rule prefix_imp_le) simp
      with a have "?p \<le> k" unfolding split(1) by (blast intro: order_trans)
      with a u have "prefix ?p k" by (blast intro: between_prefix)
      then obtain r where "k = ?p @ r" by (auto simp: prefix_def)
      with a single_byte_range [OF False] u split show "prefix (take (Suc i) e) k" by simp
    next
      assume "prefix (take (Suc i) e) k"
      then obtain r where "k = ?p @ r" "prefix [?c] r" by (auto simp: split prefix_def)
      with single_byte_range [OF False] u split show "take (Suc i) e \<le> k \<and> k < u" by simp
    qed
  next
    case True
    with Suc.prems i have rec: "key_upper_loop i ?e' = Some u" by (simp add: Let_def)
    have IH: "?p \<le> k \<and> k < u \<longleftrightarrow> prefix ?p k"
      using Suc.IH [OF _ rec, of k] i by simp
    show ?thesis
    proof
      assume a: "take (Suc i) e \<le> k \<and> k < u"
      have "?p \<le> ?p @ [?c]" by (rule prefix_imp_le) simp
      with a have "?p \<le> k" unfolding split(1) by (blast intro: order_trans)
      with IH a obtain r where k: "k = ?p @ r" by (auto simp: prefix_def)
      with a split have "[?c] \<le> r" by simp
      then obtain x xs where "r = x # xs" "?c \<le> x" by (cases r) auto
      moreover have "x = ?c" using True \<open>?c \<le> x\<close> by (rule byte_inc_max)
      ultimately show "prefix (take (Suc i) e) k" using k split(1) by simp
    next
      assume a: "prefix (take (Suc i) e) k"
      then have "prefix ?p k" unfolding split(1) by (rule append_prefixD)
      with IH have "k < u" by blast
      with a show "take (Suc i) e \<le> k \<and> k < u" by (blast intro: prefix_imp_le)
    qed
  qed
qed simp

lemma KeyUpperBound_range:
  "KeyUpperBound b = Some u \<Longrightarrow> b \<le> k \<and> k < u \<longleftrightarrow> prefix b k"
  using key_upper_loop_spec [of "length b" b u k] by (simp add: KeyUpperBound_def)

end
