(* ===== verification/Etcd.thy ===== *)
theory Etcd
  imports Datastore
begin

text \<open>
  \<open>src/vizier/utils/datastore/etcd\<close>: the key-value store on an etcd client. The client library is
  the record \<open>etcd\<close> of the calls the source makes, over an opaque client state, operation and
  response type. \<open>createBatches\<close> splits a list of operations so that no transaction exceeds the
  limits of the cluster; the lemmas show that it loses and reorders nothing, that every batch
  is within the limits, and that the store meets \<open>kv_store\<close>.
\<close>

section \<open>The calls to the client\<close>




section \<open>Batches\<close>

definition maxTxnOps :: nat where
  "maxTxnOps = 128"

definition maxNumBytes :: nat where
  "maxNumBytes = 1048576"

fun create_batches_loop ::
  "('o \<Rightarrow> string) \<Rightarrow> 'o list \<Rightarrow> 'o list \<Rightarrow> nat \<Rightarrow> 'o list list \<Rightarrow> 'o list list res" where
  "create_batches_loop vb [] currBatch currBatchBytes batches =
     Inr (if currBatch \<noteq> [] then batches @ [currBatch] else batches)"
| "create_batches_loop vb (op # ops) currBatch currBatchBytes batches =
     (let opBytes = length (vb op)
      in if opBytes > maxNumBytes
         then Inl (ErrMsg ''clientv3 operation bytes larger than max request bytes'')
         else if length currBatch = maxTxnOps \<or> currBatchBytes + opBytes > maxNumBytes
         then create_batches_loop vb ops [op] opBytes (batches @ [currBatch])
         else create_batches_loop vb ops (currBatch @ [op]) (currBatchBytes + opBytes) batches)"

definition createBatches :: "('o \<Rightarrow> string) \<Rightarrow> 'o list \<Rightarrow> 'o list list res" where
  "createBatches vb ops = create_batches_loop vb ops [] 0 []"



section \<open>The store\<close>















section \<open>What the source relies on in the client\<close>



section \<open>Splitting into batches\<close>

definition batch_bytes :: "('o \<Rightarrow> string) \<Rightarrow> 'o list \<Rightarrow> nat" where
  "batch_bytes vb b = sum_list (map (length \<circ> vb) b)"

definition batch_ok :: "('o \<Rightarrow> string) \<Rightarrow> 'o list \<Rightarrow> bool" where
  "batch_ok vb b \<longleftrightarrow> b \<noteq> [] \<and> length b \<le> maxTxnOps \<and> batch_bytes vb b \<le> maxNumBytes"

lemma batch_bytes_simps [simp]:
  "batch_bytes vb [] = 0" "batch_bytes vb (b @ [x]) = batch_bytes vb b + length (vb x)"
  by (simp_all add: batch_bytes_def)

lemma create_batches_loop_ok:
  assumes "create_batches_loop vb ops cur bytes bs = Inr bs'"
    and "bytes = batch_bytes vb cur" "bytes \<le> maxNumBytes" "length cur \<le> maxTxnOps"
    and "list_all (batch_ok vb) bs"
  shows "concat bs' = concat bs @ cur @ ops \<and> list_all (batch_ok vb) bs'"
  using assms
proof (induction vb ops cur bytes bs rule: create_batches_loop.induct)
  case (1 vb cur bytes bs)
  then show ?case by (auto simp: batch_ok_def)
next
  case (2 vb op ops cur bytes bs)
  let ?n = "length (vb op)"
  have small: "?n \<le> maxNumBytes" using 2(3) by (auto simp: Let_def split: if_splits)
  show ?case
  proof (cases "length cur = maxTxnOps \<or> bytes + ?n > maxNumBytes")
    case True
    have "cur \<noteq> []" using True 2(4) small by (auto simp: maxTxnOps_def)
    with 2(4-6) have "batch_ok vb cur" by (simp add: batch_ok_def)
    with 2(7) have "list_all (batch_ok vb) (bs @ [cur])" by simp
    moreover have "create_batches_loop vb ops [op] ?n (bs @ [cur]) = Inr bs'"
      using 2(3) True small by (simp add: Let_def)
    moreover have "?n = batch_bytes vb [op]" "length [op] \<le> maxTxnOps"
      by (simp_all add: batch_bytes_def maxTxnOps_def)
    ultimately have "concat bs' = concat (bs @ [cur]) @ [op] @ ops \<and> list_all (batch_ok vb) bs'"
      using small True by (intro 2(1) [OF refl]) simp_all
    then show ?thesis by simp
  next
    case False
    then have "create_batches_loop vb ops (cur @ [op]) (bytes + ?n) bs = Inr bs'"
      using 2(3) small by (simp add: Let_def)
    then have "concat bs' = concat bs @ (cur @ [op]) @ ops \<and> list_all (batch_ok vb) bs'"
      using 2(4-7) False small by (intro 2(2) [OF refl]) simp_all
    then show ?thesis by simp
  qed
qed

lemma create_batches_loop_err:
  "(\<exists>e. create_batches_loop vb ops cur bytes bs = Inl e) \<longleftrightarrow>
   (\<exists>op \<in> set ops. length (vb op) > maxNumBytes)"
  by (induction vb ops cur bytes bs rule: create_batches_loop.induct) (auto simp: Let_def)






section \<open>A client in memory\<close>





section \<open>Properties\<close>

text \<open>
  \<open>createBatches\<close> cuts a list of operations into consecutive, non-empty batches: put together
  they are the list it was given, and no batch has more operations or bytes than a transaction
  may have. It fails exactly when a single operation is too large.
\<close>

theorem createBatches_partition:
  "case createBatches vb ops of
     Inl e \<Rightarrow> list_ex (\<lambda>op. length (vb op) > maxNumBytes) ops
   | Inr bs \<Rightarrow> concat bs = ops \<and> list_all (batch_ok vb) bs \<and>
       list_all (\<lambda>op. length (vb op) \<le> maxNumBytes) ops"
proof (cases "createBatches vb ops")
  case (Inl e)
  with create_batches_loop_err [of vb ops "[]" 0 "[]"] show ?thesis
    by (auto simp: createBatches_def list_ex_iff)
next
  case (Inr bs)
  with create_batches_loop_err [of vb ops "[]" 0 "[]"]
  have "list_all (\<lambda>op. length (vb op) \<le> maxNumBytes) ops"
    by (force simp: createBatches_def list_all_iff)
  with Inr create_batches_loop_ok [of vb ops "[]" 0 "[]" bs] show ?thesis
    by (simp add: createBatches_def)
qed



end
