(* ===== verification/Pebbledb.thy ===== *)
theory Pebbledb
  imports Datastore
begin

text \<open>
  \<open>src/vizier/utils/datastore/pebbledb/pebbledb.go\<close>: the key-value store on an embedded Pebble
  database. Pebble itself is the record \<open>'p pebble\<close> of the calls the source makes; a batch is
  the list of its operations, an iterator is the list of the positions it visits, with what
  \<open>iter.Error()\<close> reports at each, and what \<open>iter.Close()\<close> returns.

  The reaper (\<open>ttlWatcher\<close>) is one function per tick, \<open>ttl_tick\<close>. The lemmas show that the
  store meets \<open>kv_store\<close>, that a tick removes only keys whose recorded expiry has passed, and
  that it does remove them; two runs show where expiry is lost or applied to a later value.
\<close>

section \<open>Instants\<close>

text \<open>
  \<open>time.Time\<close> is a number of nanoseconds since the Unix epoch. \<open>MarshalBinary\<close> writes a
  version byte, the seconds since the year one, the nanoseconds and the zone offset in minutes
  (minus one for UTC), big-endian.
\<close>

definition time_Unix :: "int \<Rightarrow> int" where
  "time_Unix t = t div 1000000000"

definition unix_to_internal :: int where
  "unix_to_internal = 62135596800"

fun be_bytes :: "nat \<Rightarrow> int \<Rightarrow> string" where
  "be_bytes 0 x = []"
| "be_bytes (Suc n) x = be_bytes n (x div 256) @ [char_of (nat (x mod 256))]"

definition be_val :: "string \<Rightarrow> int" where
  "be_val s = foldl (\<lambda>a c. 256 * a + of_char c) 0 s"

definition time_MarshalBinary :: "int \<Rightarrow> string" where
  "time_MarshalBinary t =
     CHR 0x01 # be_bytes 8 (time_Unix t + unix_to_internal) @ be_bytes 4 (t mod 1000000000)
       @ [CHR 0xFF, CHR 0xFF]"

definition time_UnmarshalBinary :: "string \<Rightarrow> int res" where
  "time_UnmarshalBinary s =
     (if s = [] then Inl (ErrMsg ''Time.UnmarshalBinary: no data'')
      else if hd s \<noteq> CHR 0x01 \<and> hd s \<noteq> CHR 0x02
      then Inl (ErrMsg ''Time.UnmarshalBinary: unsupported version'')
      else if length s \<noteq> (if hd s = CHR 0x02 then 16 else 15)
      then Inl (ErrMsg ''Time.UnmarshalBinary: invalid length'')
      else let u = be_val (take 8 (drop 1 s));
               sec = (if u < 2 ^ 63 then u else u - 2 ^ 64);
               nsec = be_val (take 4 (drop 9 s))
           in Inr ((sec - unix_to_internal) * 1000000000 + nsec))"

lemma length_be_bytes [simp]: "length (be_bytes n x) = n"
  by (induction n arbitrary: x) auto

lemma be_val_snoc [simp]: "be_val (s @ [c]) = 256 * be_val s + of_char c"
  by (simp add: be_val_def)

lemma of_char_low_byte: "(of_char (char_of (nat (x mod 256)) :: char) :: int) = x mod 256"
proof -
  have "(of_char (char_of (nat (x mod 256)) :: char) :: int) =
      int (of_char (char_of (nat (x mod 256)) :: char))"
    by (simp only: of_nat_of_char)
  also have "\<dots> = int (nat (x mod 256) mod 256)" by (simp only: of_char_of)
  also have "\<dots> = x mod 256" by (simp add: nat_mod_distrib)
  finally show ?thesis .
qed

lemma be_val_be_bytes: "be_val (be_bytes n x) = x mod 256 ^ n"
proof (induction n arbitrary: x)
  case (Suc n)
  have "be_val (be_bytes (Suc n) x) = 256 * (x div 256 mod 256 ^ n) + x mod 256"
    by (simp only: be_bytes.simps be_val_snoc Suc of_char_low_byte)
  also have "\<dots> = x mod (256 * 256 ^ n)"
    using zmod_zmult2_eq [of "256 ^ n" x 256] by simp
  finally show ?case by simp
qed (simp add: be_val_def)

lemma time_binary_roundtrip:
  assumes "0 \<le> t" and "time_Unix t + unix_to_internal < 2 ^ 63"
  shows "time_UnmarshalBinary (time_MarshalBinary t) = Inr t"
proof -
  let ?s = "time_Unix t + unix_to_internal"
  have "0 \<le> ?s" using assms(1) by (simp add: time_Unix_def unix_to_internal_def pos_imp_zdiv_nonneg_iff)
  with assms(2) have s: "?s mod 256 ^ 8 = ?s" by (intro mod_pos_pos_trivial) auto
  have n: "t mod 1000000000 mod 256 ^ 4 = t mod 1000000000"
    by (intro mod_pos_pos_trivial order.strict_trans [OF pos_mod_bound]) auto
  have "time_Unix t * 1000000000 + t mod 1000000000 = t" by (simp add: time_Unix_def)
  with s n assms(2) show ?thesis
    by (simp add: time_UnmarshalBinary_def time_MarshalBinary_def be_val_be_bytes Let_def)
qed

section \<open>The calls to Pebble\<close>

datatype pb_get = PbNotFound | PbErr err | PbVal string "err option"

datatype batch_op = BSet string string | BDelete string

record 'p pebble =
  pb_Get :: "'p \<Rightarrow> string \<Rightarrow> pb_get"
  pb_Set :: "'p \<Rightarrow> string \<Rightarrow> string \<Rightarrow> 'p \<times> err option"
  pb_Delete :: "'p \<Rightarrow> string \<Rightarrow> 'p \<times> err option"
  pb_DeleteRange :: "'p \<Rightarrow> string \<Rightarrow> string \<Rightarrow> 'p \<times> err option"
  pb_Iter :: "'p \<Rightarrow> string \<Rightarrow> string \<Rightarrow> (string \<times> string \<times> err option) list \<times> err option"
  pb_BatchAdd :: "'p \<Rightarrow> batch_op list \<Rightarrow> batch_op \<Rightarrow> batch_op list res"
  pb_Commit :: "'p \<Rightarrow> batch_op list \<Rightarrow> 'p \<times> err option"
  pb_Close :: "'p \<Rightarrow> err option"

fun batch_apply :: "batch_op list \<Rightarrow> (string \<rightharpoonup> string) \<Rightarrow> string \<rightharpoonup> string" where
  "batch_apply [] m = m"
| "batch_apply (BSet k v # ops) m = batch_apply ops (m(k \<mapsto> v))"
| "batch_apply (BDelete k # ops) m = batch_apply ops (m(k := None))"

section \<open>Bookkeeping keys\<close>

definition ttlByKeyPrefix :: string where
  "ttlByKeyPrefix = ''___ttl___''"

definition ttlByTimePrefix :: string where
  "ttlByTimePrefix = ''___ttl_time___''"

definition getKeyForTTLByKey :: "string \<Rightarrow> string" where
  "getKeyForTTLByKey key = ttlByKeyPrefix @ ''/'' @ key"

definition getKeyForTTLByTime :: "string \<Rightarrow> int \<Rightarrow> string" where
  "getKeyForTTLByTime key expiresAt =
     ttlByTimePrefix @ ''/'' @ fmt_d20 (time_Unix expiresAt) @ ''/'' @ key"

definition getRangeForTTLByTime :: "int \<Rightarrow> string \<times> string" where
  "getRangeForTTLByTime now =
     (ttlByTimePrefix @ ''/'', ttlByTimePrefix @ ''/'' @ fmt_d20 (time_Unix now + 1) @ ''/'')"

definition getKeyToDeleteFromTTLByTime :: "string \<Rightarrow> string res" where
  "getKeyToDeleteFromTTLByTime ttlByTimeKey =
     (if \<not> prefix ttlByTimePrefix ttlByTimeKey
      then Inl (ErrMsg ''input key is not a TTLByTime key'')
      else let prefixLen = length (ttlByTimePrefix @ ''/'' @ fmt_d20 0 @ ''/'')
           in if length ttlByTimeKey < prefixLen
              then Inl (ErrMsg ''input key is a badly formatted TTLByTime key'')
              else Inr (drop prefixLen ttlByTimeKey))"

section \<open>The store\<close>

text \<open>\<open>DataStore\<close>: the database handle, nil once closed, and whether \<open>done\<close> has been closed.\<close>

record 'p pebble_ds =
  ds_db :: "'p option"
  ds_done :: bool

definition nil_db :: err where
  "nil_db = Panic ''nil pointer dereference: DataStore.db''"

definition pebble_New :: "'p \<Rightarrow> 'p pebble_ds" where
  "pebble_New db = \<lparr>ds_db = Some db, ds_done = False\<rparr>"

definition lift_db :: "'p pebble_ds \<Rightarrow> ('p \<Rightarrow> 'p \<times> err option) \<Rightarrow> 'p pebble_ds \<times> err option" where
  "lift_db w f =
     (case ds_db w of
        None \<Rightarrow> (w, Some nil_db)
      | Some d \<Rightarrow> (case f d of (d', e) \<Rightarrow> (w\<lparr>ds_db := Some d'\<rparr>, e)))"

definition pebble_Set :: "'p pebble \<Rightarrow> 'p pebble_ds \<Rightarrow> string \<Rightarrow> string \<Rightarrow> 'p pebble_ds \<times> err option"
  where
  "pebble_Set P w key value = lift_db w (\<lambda>d. pb_Set P d key value)"

text \<open>A batch is filled one operation at a time; the first failure abandons it.\<close>

fun batch_fill :: "'p pebble \<Rightarrow> 'p \<Rightarrow> batch_op list \<Rightarrow> batch_op list \<Rightarrow> batch_op list res" where
  "batch_fill P d b [] = Inr b"
| "batch_fill P d b (x # xs) =
     (case pb_BatchAdd P d b x of Inl e \<Rightarrow> Inl e | Inr b' \<Rightarrow> batch_fill P d b' xs)"

definition batch_run :: "'p pebble \<Rightarrow> 'p pebble_ds \<Rightarrow> batch_op list \<Rightarrow> 'p pebble_ds \<times> err option" where
  "batch_run P w ops =
     lift_db w (\<lambda>d. case batch_fill P d [] ops of Inl e \<Rightarrow> (d, Some e) | Inr b \<Rightarrow> pb_Commit P d b)"

definition pebble_SetWithTTL ::
  "'p pebble \<Rightarrow> int \<Rightarrow> 'p pebble_ds \<Rightarrow> string \<Rightarrow> string \<Rightarrow> int \<Rightarrow> 'p pebble_ds \<times> err option" where
  "pebble_SetWithTTL P now w key value ttl =
     (let expiresAt = now + ttl;
          encodedExpiry = time_MarshalBinary expiresAt
      in batch_run P w
           [BSet key value,
            BSet (getKeyForTTLByKey key) encodedExpiry,
            BSet (getKeyForTTLByTime key expiresAt) []])"

text \<open>
  On an error other than \<open>ErrNotFound\<close> Pebble returns a nil closer, on which the source calls
  \<open>Close\<close>.
\<close>

definition pebble_Get :: "'p pebble \<Rightarrow> 'p pebble_ds \<Rightarrow> string \<Rightarrow> string option res" where
  "pebble_Get P w key =
     (case ds_db w of
        None \<Rightarrow> Inl nil_db
      | Some d \<Rightarrow>
          (case pb_Get P d key of
             PbNotFound \<Rightarrow> Inr None
           | PbErr e \<Rightarrow> Inl (Panic ''nil pointer dereference: closer'')
           | PbVal v None \<Rightarrow> Inr (Some v)
           | PbVal v (Some e) \<Rightarrow> Inl e))"

fun iter_collect :: "(string \<times> string \<times> err option) list \<Rightarrow> (string list \<times> string list) res" where
  "iter_collect [] = Inr ([], [])"
| "iter_collect ((k, v, e) # xs) =
     (case e of
        Some e' \<Rightarrow> Inl e'
      | None \<Rightarrow> (case iter_collect xs of
                   Inl e' \<Rightarrow> Inl e'
                 | Inr (ks, vs) \<Rightarrow> Inr (k # ks, v # vs)))"

definition pebble_GetWithRange ::
  "'p pebble \<Rightarrow> 'p pebble_ds \<Rightarrow> string \<Rightarrow> string \<Rightarrow> (string list \<times> string list) res" where
  "pebble_GetWithRange P w from to =
     (case ds_db w of
        None \<Rightarrow> Inl nil_db
      | Some d \<Rightarrow>
          (case pb_Iter P d from to of (items, closeErr) \<Rightarrow>
             (case iter_collect items of
                Inl e \<Rightarrow> Inl e
              | Inr kvs \<Rightarrow> (case closeErr of None \<Rightarrow> Inr kvs | Some e \<Rightarrow> Inl e))))"

definition pebble_GetWithPrefix ::
  "'p pebble \<Rightarrow> 'p pebble_ds \<Rightarrow> string \<Rightarrow> (string list \<times> string list) res" where
  "pebble_GetWithPrefix P w p =
     (case KeyUpperBound p of
        None \<Rightarrow> Inl (ErrMsg ''unsupported prefix'')
      | Some ub \<Rightarrow> pebble_GetWithRange P w p ub)"

definition pebble_Delete :: "'p pebble \<Rightarrow> 'p pebble_ds \<Rightarrow> string \<Rightarrow> 'p pebble_ds \<times> err option" where
  "pebble_Delete P w key = lift_db w (\<lambda>d. pb_Delete P d key)"

definition pebble_DeleteAll :: "'p pebble \<Rightarrow> 'p pebble_ds \<Rightarrow> string list \<Rightarrow> 'p pebble_ds \<times> err option"
  where
  "pebble_DeleteAll P w keys = batch_run P w (map BDelete keys)"

definition pebble_DeleteWithPrefix ::
  "'p pebble \<Rightarrow> 'p pebble_ds \<Rightarrow> string \<Rightarrow> 'p pebble_ds \<times> err option" where
  "pebble_DeleteWithPrefix P w p =
     (case KeyUpperBound p of
        None \<Rightarrow> (w, Some (ErrMsg ''unsupported prefix''))
      | Some ub \<Rightarrow> lift_db w (\<lambda>d. pb_DeleteRange P d p ub))"

definition pebble_Close :: "'p pebble \<Rightarrow> 'p pebble_ds \<Rightarrow> 'p pebble_ds \<times> err option" where
  "pebble_Close P w =
     (case ds_db w of
        None \<Rightarrow> (w\<lparr>ds_done := True\<rparr>, None)
      | Some d \<Rightarrow> (w\<lparr>ds_done := True, ds_db := None\<rparr>, pb_Close P d))"

definition pebble_kv :: "'p pebble \<Rightarrow> 'p pebble_ds kvops" where
  "pebble_kv P =
     \<lparr>kv_Get = pebble_Get P, kv_GetWithRange = pebble_GetWithRange P,
      kv_GetWithPrefix = pebble_GetWithPrefix P, kv_Set = pebble_Set P,
      kv_SetWithTTL = pebble_SetWithTTL P, kv_Delete = pebble_Delete P,
      kv_DeleteAll = pebble_DeleteAll P, kv_DeleteWithPrefix = pebble_DeleteWithPrefix P,
      kv_Close = pebble_Close P\<rparr>"

subsection \<open>The reaper\<close>

text \<open>
  The loop over the expired entries of the time index. \<open>Inl\<close> is a panic of the goroutine;
  every other failure of a step skips the entry.
\<close>

fun ttl_scan ::
  "'p pebble \<Rightarrow> int \<Rightarrow> 'p pebble_ds \<Rightarrow> (string \<times> string \<times> err option) list \<Rightarrow> string list
     \<Rightarrow> string list res" where
  "ttl_scan P now w [] deleteKeys = Inr deleteKeys"
| "ttl_scan P now w ((k, v, e) # xs) deleteKeys =
     (if e \<noteq> None then Inr deleteKeys
      else (case getKeyToDeleteFromTTLByTime k of
              Inl _ \<Rightarrow> ttl_scan P now w xs deleteKeys
            | Inr keyToCheck \<Rightarrow>
                (case pebble_Get P w (getKeyForTTLByKey keyToCheck) of
                   Inl err \<Rightarrow> (if is_panic err then Inl err else ttl_scan P now w xs deleteKeys)
                 | Inr r \<Rightarrow>
                     (case time_UnmarshalBinary (case r of None \<Rightarrow> [] | Some b \<Rightarrow> b) of
                        Inl _ \<Rightarrow> ttl_scan P now w xs deleteKeys
                      | Inr expiresAt \<Rightarrow>
                          ttl_scan P now w xs
                            (if expiresAt < now
                             then deleteKeys @ [getKeyForTTLByKey keyToCheck, keyToCheck]
                             else deleteKeys)))))"

definition ttl_tick :: "'p pebble \<Rightarrow> int \<Rightarrow> 'p pebble_ds \<Rightarrow> 'p pebble_ds \<times> err option" where
  "ttl_tick P now w =
     (case ds_db w of
        None \<Rightarrow> (w, Some nil_db)
      | Some d \<Rightarrow>
          (case getRangeForTTLByTime now of (from, to) \<Rightarrow>
             (case ttl_scan P now w (fst (pb_Iter P d from to)) [] of
                Inl err \<Rightarrow> (w, Some err)
              | Inr deleteKeys \<Rightarrow>
                  (case pebble_DeleteAll P w deleteKeys of
                     (w', Some err) \<Rightarrow> (w', if is_panic err then Some err else None)
                   | (w', None) \<Rightarrow>
                       (case lift_db w' (\<lambda>d'. pb_DeleteRange P d' from to) of
                          (w'', Some err) \<Rightarrow> (w'', if is_panic err then Some err else None)
                        | (w'', None) \<Rightarrow> (w'', None))))))"

section \<open>What the source relies on in Pebble\<close>

text \<open>
  \<open>pview d\<close> is the content of the database. Reads return it, a single write or a committed
  batch changes it at once or not at all, and an iterator visits entries between its bounds, all
  of them when \<open>Close\<close> reports no error.
\<close>

locale pebble_db =
  fixes P :: "'p pebble"
    and pview :: "'p \<Rightarrow> string \<rightharpoonup> string"
  assumes pb_get_val: "pb_Get P d k = PbVal v ce \<Longrightarrow> pview d k = Some v"
    and pb_get_absent: "pb_Get P d k = PbNotFound \<Longrightarrow> pview d k = None"
    and pb_set_ok: "pb_Set P d k v = (d', None) \<Longrightarrow> pview d' = (pview d)(k \<mapsto> v)"
    and pb_set_err: "pb_Set P d k v = (d', Some e) \<Longrightarrow> pview d' = pview d"
    and pb_delete_ok: "pb_Delete P d k = (d', None) \<Longrightarrow> pview d' = (pview d)(k := None)"
    and pb_delrange_ok: "pb_DeleteRange P d lo hi = (d', None) \<Longrightarrow>
      pview d' = pview d |` {k. \<not> (lo \<le> k \<and> k < hi)}"
    and pb_delrange_err: "pb_DeleteRange P d lo hi = (d', Some e) \<Longrightarrow> pview d' = pview d"
    and pb_iter_sound: "hi \<noteq> [] \<Longrightarrow> pb_Iter P d lo hi = (items, ce) \<Longrightarrow> (k, v, ie) \<in> set items \<Longrightarrow>
      ie = None \<and> lo \<le> k \<and> k < hi \<and> pview d k = Some v"
    and pb_iter_distinct: "pb_Iter P d lo hi = (items, ce) \<Longrightarrow> distinct (map fst items)"
    and pb_iter_complete: "hi \<noteq> [] \<Longrightarrow> pb_Iter P d lo hi = (items, None) \<Longrightarrow>
      lo \<le> k \<Longrightarrow> k < hi \<Longrightarrow> k \<in> dom (pview d) \<Longrightarrow> k \<in> fst ` set items"
    and pb_batch_add: "pb_BatchAdd P d b x = Inr b' \<Longrightarrow> b' = b @ [x]"
    and pb_commit_ok: "pb_Commit P d b = (d', None) \<Longrightarrow> pview d' = batch_apply b (pview d)"
    and pb_commit_err: "pb_Commit P d b = (d', Some e) \<Longrightarrow> pview d' = pview d"

definition pebble_view :: "('p \<Rightarrow> string \<rightharpoonup> string) \<Rightarrow> 'p pebble_ds \<Rightarrow> string \<rightharpoonup> string" where
  "pebble_view pview w = (case ds_db w of None \<Rightarrow> Map.empty | Some d \<Rightarrow> pview d)"

text \<open>A database on which no call fails.\<close>

definition pebble_reliable :: "'p pebble \<Rightarrow> bool" where
  "pebble_reliable P \<longleftrightarrow>
     (\<forall>d k. pb_Get P d k = PbNotFound \<or> (\<exists>v. pb_Get P d k = PbVal v None)) \<and>
     (\<forall>d lo hi. snd (pb_Iter P d lo hi) = None) \<and>
     (\<forall>d b x. \<exists>b'. pb_BatchAdd P d b x = Inr b') \<and>
     (\<forall>d b. snd (pb_Commit P d b) = None) \<and>
     (\<forall>d lo hi. snd (pb_DeleteRange P d lo hi) = None)"

lemma batch_apply_deletes: "batch_apply (map BDelete ks) m = m |` (- set ks)"
  by (induction ks arbitrary: m) (auto simp: restrict_map_def fun_eq_iff)

lemma iter_collect_ok:
  "iter_collect items = Inr (ks, vs) \<Longrightarrow>
   ks = map fst items \<and> vs = map (\<lambda>(k, v, e). v) items"
proof (induction items arbitrary: ks vs rule: iter_collect.induct)
  case (2 k v e xs)
  then show ?case by (auto split: option.splits sum.splits)
qed simp

lemma key_upper_loop_nonempty: "i \<le> length e \<Longrightarrow> key_upper_loop i e = Some u \<Longrightarrow> u \<noteq> []"
proof (induction i arbitrary: e)
  case (Suc i)
  then show ?case by (fastforce simp: Let_def split: if_splits)
qed simp

lemma KeyUpperBound_nonempty: "KeyUpperBound b = Some u \<Longrightarrow> u \<noteq> []"
  by (auto simp: KeyUpperBound_def dest: key_upper_loop_nonempty [rotated])

context pebble_db
begin

lemma batch_fill_ok: "batch_fill P d b ops = Inr b' \<Longrightarrow> b' = b @ ops"
proof (induction ops arbitrary: b)
  case (Cons x xs)
  then obtain b1 where "pb_BatchAdd P d b x = Inr b1" "batch_fill P d b1 xs = Inr b'"
    by (auto split: sum.splits)
  with Cons.IH pb_batch_add show ?case by fastforce
qed simp

lemma batch_run_ok:
  "batch_run P w ops = (w', None) \<Longrightarrow>
   pebble_view pview w' = batch_apply ops (pebble_view pview w)"
  using pb_commit_ok
  by (fastforce simp: batch_run_def lift_db_def pebble_view_def
      split: option.splits sum.splits prod.splits dest: batch_fill_ok)

lemma batch_run_err:
  "batch_run P w ops = (w', Some e) \<Longrightarrow> pebble_view pview w' = pebble_view pview w"
  using pb_commit_err
  by (fastforce simp: batch_run_def lift_db_def pebble_view_def
      split: option.splits sum.splits prod.splits)

lemma pebble_Get_view: "pebble_Get P w k = Inr r \<Longrightarrow> r = pebble_view pview w k"
  using pb_get_val pb_get_absent
  by (fastforce simp: pebble_Get_def pebble_view_def split: option.splits pb_get.splits)

lemma pebble_range_lists:
  assumes "to \<noteq> []" and "pebble_GetWithRange P w from to = Inr (ks, vs)"
  shows "lists_keys (pebble_view pview w) (\<lambda>k. from \<le> k \<and> k < to) ks vs"
proof -
  obtain d items where d: "ds_db w = Some d" and it: "pb_Iter P d from to = (items, None)"
    and col: "iter_collect items = Inr (ks, vs)"
    using assms(2)
    by (auto simp: pebble_GetWithRange_def split: option.splits prod.splits sum.splits)
  have kv: "ks = map fst items" "vs = map (\<lambda>(k, v, e). v) items"
    using iter_collect_ok [OF col] by auto
  have sound: "\<forall>(k, v, e) \<in> set items. from \<le> k \<and> k < to \<and> pview d k = Some v"
    using pb_iter_sound [OF assms(1) it] by blast
  have "set ks = {k. (from \<le> k \<and> k < to) \<and> k \<in> dom (pview d)}"
    using sound pb_iter_complete [OF assms(1) it] unfolding kv by fastforce
  moreover have "map Some vs = map (pview d) ks"
    using sound unfolding kv by auto
  ultimately show ?thesis
    using pb_iter_distinct [OF it] d by (simp add: lists_keys_def pebble_view_def kv)
qed

lemma pebble_prefix_lists:
  assumes "pebble_GetWithPrefix P w p = Inr (ks, vs)"
  shows "lists_keys (pebble_view pview w) (prefix p) ks vs"
proof -
  obtain ub where ub: "KeyUpperBound p = Some ub"
    and r: "pebble_GetWithRange P w p ub = Inr (ks, vs)"
    using assms by (auto simp: pebble_GetWithPrefix_def split: option.splits)
  have "(\<lambda>k. p \<le> k \<and> k < ub) = prefix p"
    using KeyUpperBound_range [OF ub] by blast
  with pebble_range_lists [OF KeyUpperBound_nonempty [OF ub] r] show ?thesis by simp
qed

lemma pebble_delete_prefix:
  assumes "pebble_DeleteWithPrefix P w p = (w', None)"
  shows "pebble_view pview w' = pebble_view pview w |` {k. \<not> prefix p k}"
proof -
  obtain ub d d' where ub: "KeyUpperBound p = Some ub" and d: "ds_db w = Some d"
    and r: "pb_DeleteRange P d p ub = (d', None)" and w': "w' = w\<lparr>ds_db := Some d'\<rparr>"
    using assms
    by (auto simp: pebble_DeleteWithPrefix_def lift_db_def split: option.splits prod.splits)
  have "pview d' = pview d |` {k. \<not> prefix p k}"
    using pb_delrange_ok [OF r] KeyUpperBound_range [OF ub] by simp
  with d w' show ?thesis by (simp add: pebble_view_def)
qed

lemma pebble_ttl_view:
  assumes "pebble_SetWithTTL P now w k v ttl = (w', None)"
  shows "pebble_view pview w' =
    (pebble_view pview w)(k \<mapsto> v, getKeyForTTLByKey k \<mapsto> time_MarshalBinary (now + ttl),
      getKeyForTTLByTime k (now + ttl) \<mapsto> [])"
  using batch_run_ok [OF assms [unfolded pebble_SetWithTTL_def Let_def]] by simp

end

lemma reserved_ttl_keys [simp]:
  "reserved_key (getKeyForTTLByKey k)" "reserved_key (getKeyForTTLByTime k t)"
  by (simp_all add: reserved_key_def getKeyForTTLByKey_def getKeyForTTLByTime_def
      ttlByKeyPrefix_def ttlByTimePrefix_def)

lemma unreserved_neq [simp]:
  "\<not> reserved_key k \<Longrightarrow> k \<noteq> getKeyForTTLByKey k'"
  "\<not> reserved_key k \<Longrightarrow> k \<noteq> getKeyForTTLByTime k' t"
  by auto

sublocale pebble_db \<subseteq> kv: kv_store "pebble_kv P" "pebble_view pview"
proof (unfold_locales, goal_cases)
  case (1 d k r)
  then show ?case by (simp add: pebble_kv_def pebble_Get_view)
next
  case (2 hi d lo ks vs)
  then show ?case by (simp add: pebble_kv_def pebble_range_lists)
next
  case (3 d p ks vs)
  then show ?case by (simp add: pebble_kv_def pebble_prefix_lists)
next
  case (4 d k v d')
  then show ?case
    by (auto simp: pebble_kv_def pebble_Set_def lift_db_def pebble_view_def pb_set_ok
        split: option.splits prod.splits)
next
  case (5 d k v d' e)
  then show ?case
    by (auto simp: pebble_kv_def pebble_Set_def lift_db_def pebble_view_def pb_set_err
        split: option.splits prod.splits)
next
  case (6 now d k v ttl d' k')
  then show ?case by (simp add: pebble_kv_def pebble_ttl_view)
next
  case (7 now d k v ttl d' e)
  then show ?case
    by (auto simp: pebble_kv_def pebble_SetWithTTL_def Let_def dest: batch_run_err)
next
  case (8 d k d')
  then show ?case
    by (auto simp: pebble_kv_def pebble_Delete_def lift_db_def pebble_view_def pb_delete_ok
        split: option.splits prod.splits)
next
  case (9 d ks d')
  then show ?case
    by (simp add: pebble_kv_def pebble_DeleteAll_def batch_run_ok batch_apply_deletes)
next
  case (10 d p d')
  then show ?case by (simp add: pebble_kv_def pebble_delete_prefix)
qed

context pebble_db
begin

lemma kv_contract: "kv_store (pebble_kv P) (pebble_view pview)"
  by (rule kv.kv_store_axioms)

end

section \<open>The reaper\<close>

definition index_prefix_len :: nat where
  "index_prefix_len = 36"

lemma fmt_d20_length_0: "length (ttlByTimePrefix @ ''/'' @ fmt_d20 0 @ ''/'') = index_prefix_len"
  using length_fmt_d20 [of 0] by (simp add: ttlByTimePrefix_def index_prefix_len_def)

lemma index_key_to_delete:
  assumes "0 \<le> time_Unix t" "time_Unix t < 10 ^ 20"
  shows "getKeyToDeleteFromTTLByTime (getKeyForTTLByTime k t) = Inr k"
proof -
  define pre where "pre = ttlByTimePrefix @ ''/'' @ fmt_d20 (time_Unix t) @ ''/''"
  have len: "length pre = index_prefix_len"
    using length_fmt_d20 [OF assms] by (simp add: pre_def ttlByTimePrefix_def index_prefix_len_def)
  have key: "getKeyForTTLByTime k t = pre @ k"
    by (simp add: getKeyForTTLByTime_def pre_def)
  have "prefix ttlByTimePrefix (pre @ k)" by (simp add: pre_def)
  then show ?thesis
    unfolding getKeyToDeleteFromTTLByTime_def fmt_d20_length_0 Let_def key len [symmetric]
    by simp
qed

text \<open>An index entry lies in the scanned range exactly when its second has begun.\<close>

lemma index_key_in_range:
  assumes "getRangeForTTLByTime now = (lo, hi)"
    and "0 \<le> time_Unix t" "time_Unix t < 10 ^ 20" "0 \<le> time_Unix now" "time_Unix now + 1 < 10 ^ 20"
  shows "lo \<le> getKeyForTTLByTime k t \<and> getKeyForTTLByTime k t < hi \<longleftrightarrow> time_Unix t \<le> time_Unix now"
proof -
  let ?p = "ttlByTimePrefix @ ''/''"
  have lo: "lo = ?p" and hi: "hi = ?p @ fmt_d20 (time_Unix now + 1) @ ''/''"
    using assms(1) by (auto simp: getRangeForTTLByTime_def)
  have key: "getKeyForTTLByTime k t = ?p @ fmt_d20 (time_Unix t) @ ''/'' @ k"
    by (simp add: getKeyForTTLByTime_def)
  have le: "lo \<le> getKeyForTTLByTime k t"
    unfolding lo key by (rule prefix_imp_le) (simp add: prefix_def)
  have len: "length (fmt_d20 (time_Unix t)) = length (fmt_d20 (time_Unix now + 1))"
    using assms(2-5) by (simp add: length_fmt_d20)
  have "getKeyForTTLByTime k t < hi \<longleftrightarrow>
      fmt_d20 (time_Unix t) @ ''/'' @ k < fmt_d20 (time_Unix now + 1) @ ''/''"
    unfolding key hi by (simp only: append_less_cancel)
  also have "\<dots> \<longleftrightarrow> fmt_d20 (time_Unix t) < fmt_d20 (time_Unix now + 1)"
    using less_append_same_length [OF len, of "''/'' @ k" "''/''"] by simp
  also have "\<dots> \<longleftrightarrow> time_Unix t < time_Unix now + 1"
    using assms(2-5) by (intro fmt_d20_less_iff) auto
  finally show ?thesis using le by auto
qed

lemma scanned_range_reserved:
  assumes "getRangeForTTLByTime now = (lo, hi)" and "lo \<le> k" and "k < hi"
  shows "reserved_key k"
proof -
  have hi: "hi = lo @ fmt_d20 (time_Unix now + 1) @ ''/''" and lo: "lo = ttlByTimePrefix @ ''/''"
    using assms(1) by (auto simp: getRangeForTTLByTime_def)
  have "prefix lo k" using assms(2,3) unfolding hi by (rule between_prefix)
  then show ?thesis
    by (auto simp: lo reserved_key_def ttlByTimePrefix_def prefix_def)
qed

text \<open>The key \<open>k\<close> has a recorded expiry that has passed at \<open>now\<close>.\<close>

definition expired :: "int \<Rightarrow> (string \<rightharpoonup> string) \<Rightarrow> string \<Rightarrow> bool" where
  "expired now m k \<longleftrightarrow>
     (\<exists>b t. m (getKeyForTTLByKey k) = Some b \<and> time_UnmarshalBinary b = Inr t \<and> t < now)"

context pebble_db
begin

lemma ttl_scan_sound:
  "ttl_scan P now w items acc = Inr ks \<Longrightarrow> k \<in> set ks \<Longrightarrow> k \<in> set acc \<or>
   (\<exists>x K v. (k = x \<or> k = getKeyForTTLByKey x) \<and> (K, v, None) \<in> set items \<and>
      getKeyToDeleteFromTTLByTime K = Inr x \<and> expired now (pebble_view pview w) x)"
proof (induction items arbitrary: acc)
  case (Cons it items)
  obtain K v e where it: "it = (K, v, e)" by (cases it)
  show ?case
  proof (cases "ttl_scan P now w items acc = Inr ks")
    case True
    with Cons.IH [OF True Cons.prems(2)] show ?thesis by auto
  next
    case False
    show ?thesis
    proof (cases "ks = acc")
      case True
      with Cons.prems show ?thesis by simp
    next
      case ks: False
      obtain x r t where x: "getKeyToDeleteFromTTLByTime K = Inr x"
        and r: "pebble_Get P w (getKeyForTTLByKey x) = Inr r"
        and t: "time_UnmarshalBinary (case r of None \<Rightarrow> [] | Some b \<Rightarrow> b) = Inr t"
        and e: "e = None" and lt: "t < now"
        and rec: "ttl_scan P now w items (acc @ [getKeyForTTLByKey x, x]) = Inr ks"
        using Cons.prems(1) False ks it by (auto split: if_splits sum.splits)
      obtain b where "r = Some b"
        using t by (cases r) (auto simp: time_UnmarshalBinary_def)
      with r t lt have "expired now (pebble_view pview w) x"
        using pebble_Get_view by (fastforce simp: expired_def)
      with Cons.IH [OF rec Cons.prems(2)] x it e show ?thesis by fastforce
    qed
  qed
qed simp

lemma ttl_scan_mono: "ttl_scan P now w items acc = Inr ks \<Longrightarrow> set acc \<subseteq> set ks"
proof (induction items arbitrary: acc)
  case (Cons it items)
  then show ?case
    by (cases it) (fastforce split: if_splits sum.splits)
qed simp

lemma pebble_Get_total:
  assumes "pebble_reliable P" and "ds_db w = Some d"
  shows "pebble_Get P w k = Inr (pebble_view pview w k)"
proof -
  have "pb_Get P d k = PbNotFound \<or> (\<exists>v. pb_Get P d k = PbVal v None)"
    using assms(1) by (simp add: pebble_reliable_def)
  then show ?thesis
    using assms(2) pb_get_val pb_get_absent by (auto simp: pebble_Get_def pebble_view_def)
qed

lemma ttl_scan_total:
  assumes "pebble_reliable P" and "ds_db w = Some d"
  shows "\<exists>ks. ttl_scan P now w items acc = Inr ks"
proof (induction items arbitrary: acc)
  case (Cons it items)
  then show ?case
    by (cases it) (simp add: pebble_Get_total [OF assms] split: sum.splits)
qed simp

lemma ttl_scan_complete:
  assumes "pebble_reliable P" and "ds_db w = Some d"
    and "getKeyToDeleteFromTTLByTime K = Inr x" and "expired now (pebble_view pview w) x"
  shows "ttl_scan P now w items acc = Inr ks \<Longrightarrow> \<forall>it \<in> set items. snd (snd it) = None \<Longrightarrow>
    K \<in> fst ` set items \<Longrightarrow> x \<in> set ks"
proof (induction items arbitrary: acc)
  case (Cons it items)
  obtain K' v where it: "it = (K', v, None)" using Cons.prems(2) by (cases it) auto
  show ?case
  proof (cases "K \<in> fst ` set items")
    case True
    have "\<exists>acc'. ttl_scan P now w items acc' = Inr ks"
      using Cons.prems(1) it by (auto simp: pebble_Get_total [OF assms(1,2)] split: sum.splits)
    with Cons.IH Cons.prems(2) True show ?thesis by auto
  next
    case False
    with Cons.prems(3) it have "K' = K" by auto
    with Cons.prems(1) it assms(3,4)
    have "ttl_scan P now w items (acc @ [getKeyForTTLByKey x, x]) = Inr ks"
      by (auto simp: pebble_Get_total [OF assms(1,2)] expired_def)
    from ttl_scan_mono [OF this] show ?thesis by simp
  qed
qed simp

lemma delete_all_view:
  "pebble_DeleteAll P w ks = (w', None) \<Longrightarrow>
   pebble_view pview w' = pebble_view pview w |` (- set ks)"
  by (simp add: pebble_DeleteAll_def batch_run_ok batch_apply_deletes)

lemma delete_all_err:
  "pebble_DeleteAll P w ks = (w', Some e) \<Longrightarrow> pebble_view pview w' = pebble_view pview w"
  unfolding pebble_DeleteAll_def by (rule batch_run_err)

lemma delete_range_view:
  assumes "lift_db w (\<lambda>d. pb_DeleteRange P d lo hi) = (w', r)"
  shows "pebble_view pview w' = pebble_view pview w \<or>
    pebble_view pview w' = pebble_view pview w |` {k. \<not> (lo \<le> k \<and> k < hi)}"
proof (cases "ds_db w")
  case None
  with assms show ?thesis by (simp add: lift_db_def)
next
  case (Some d)
  obtain d' e where d': "pb_DeleteRange P d lo hi = (d', e)" by fastforce
  with assms Some have "w' = w\<lparr>ds_db := Some d'\<rparr>" by (simp add: lift_db_def)
  with Some d' pb_delrange_ok [of d lo hi d'] pb_delrange_err [of d lo hi d'] show ?thesis
    by (cases e) (simp_all add: pebble_view_def)
qed

lemma range_hi_nonempty: "getRangeForTTLByTime now = (lo, hi) \<Longrightarrow> hi \<noteq> []"
  by (auto simp: getRangeForTTLByTime_def)

lemma ttl_tick_only_expired:
  assumes tick: "ttl_tick P now w = (w', r)" and k: "\<not> reserved_key k"
    and ch: "pebble_view pview w' k \<noteq> pebble_view pview w k"
  shows "pebble_view pview w' k = None" and "expired now (pebble_view pview w) k"
    and "\<exists>K \<in> dom (pebble_view pview w). getKeyToDeleteFromTTLByTime K = Inr k"
proof -
  obtain lo hi where rng: "getRangeForTTLByTime now = (lo, hi)" by fastforce
  obtain d where d: "ds_db w = Some d"
    using tick ch by (auto simp: ttl_tick_def split: option.splits)
  obtain items ce where it: "pb_Iter P d lo hi = (items, ce)" by fastforce
  obtain ks where ks: "ttl_scan P now w items [] = Inr ks"
    using tick ch d rng it by (auto simp: ttl_tick_def split: sum.splits)
  obtain w1 e1 where del: "pebble_DeleteAll P w ks = (w1, e1)" by fastforce
  have "e1 = None"
  proof (rule ccontr)
    assume "e1 \<noteq> None"
    then obtain e where e: "e1 = Some e" by blast
    have "w' = w1" using tick d rng it ks del e by (simp add: ttl_tick_def)
    with delete_all_err [of w ks w1 e] del e ch show False by simp
  qed
  with del have v1: "pebble_view pview w1 = pebble_view pview w |` (- set ks)"
    by (simp add: delete_all_view)
  obtain e2 where "lift_db w1 (\<lambda>d'. pb_DeleteRange P d' lo hi) = (w', e2)"
    using tick d rng it ks del \<open>e1 = None\<close>
    by (auto simp: ttl_tick_def split: prod.splits option.splits)
  from delete_range_view [OF this] have "pebble_view pview w' k = pebble_view pview w1 k"
    using scanned_range_reserved [OF rng, of k] k by (auto simp: restrict_map_def)
  with v1 ch have "k \<in> set ks" and gone: "pebble_view pview w' k = None"
    by (auto simp: restrict_map_def split: if_splits)
  from ttl_scan_sound [OF ks this(1)] obtain x K v
    where x: "k = x \<or> k = getKeyForTTLByKey x" and K: "(K, v, None) \<in> set items"
      and kx: "getKeyToDeleteFromTTLByTime K = Inr x" and ex: "expired now (pebble_view pview w) x"
    by (elim disjE exE conjE) (simp, blast, blast)
  have "x = k" using x k by auto
  have "pview d K = Some v" using pb_iter_sound [OF range_hi_nonempty [OF rng] it K] by simp
  with d have "K \<in> dom (pebble_view pview w)" by (auto simp: pebble_view_def)
  with gone ex kx \<open>x = k\<close> show "pebble_view pview w' k = None"
    and "expired now (pebble_view pview w) k"
    and "\<exists>K \<in> dom (pebble_view pview w). getKeyToDeleteFromTTLByTime K = Inr k"
    by auto
qed

lemma batch_fill_total: "pebble_reliable P \<Longrightarrow> \<exists>b'. batch_fill P d b ops = Inr b'"
proof (induction ops arbitrary: b)
  case (Cons x xs)
  obtain b1 where "pb_BatchAdd P d b x = Inr b1"
    using Cons.prems unfolding pebble_reliable_def by blast
  with Cons show ?case by simp
qed simp

lemma batch_run_total:
  assumes "pebble_reliable P" and "ds_db w = Some d"
  shows "\<exists>d'. batch_run P w ops = (w\<lparr>ds_db := Some d'\<rparr>, None)"
proof -
  obtain b where b: "batch_fill P d [] ops = Inr b" using batch_fill_total assms(1) by blast
  obtain d' where "pb_Commit P d b = (d', None)"
    using assms(1) by (metis pebble_reliable_def prod.collapse)
  with b assms(2) have "batch_run P w ops = (w\<lparr>ds_db := Some d'\<rparr>, None)"
    by (simp add: batch_run_def lift_db_def)
  then show ?thesis by blast
qed

lemma delete_range_total:
  assumes "pebble_reliable P" and "ds_db w = Some d"
  shows "\<exists>d'. lift_db w (\<lambda>d. pb_DeleteRange P d lo hi) = (w\<lparr>ds_db := Some d'\<rparr>, None) \<and>
    pview d' = pview d |` {k. \<not> (lo \<le> k \<and> k < hi)}"
proof -
  obtain d' where d': "pb_DeleteRange P d lo hi = (d', None)"
    using assms(1) by (metis pebble_reliable_def prod.collapse)
  then have "lift_db w (\<lambda>d. pb_DeleteRange P d lo hi) = (w\<lparr>ds_db := Some d'\<rparr>, None)"
    using assms(2) by (simp add: lift_db_def)
  with pb_delrange_ok [OF d'] show ?thesis by blast
qed

lemma ttl_tick_reliable:
  assumes rel: "pebble_reliable P" and d: "ds_db w = Some d"
    and rng: "getRangeForTTLByTime now = (lo, hi)"
  shows "\<exists>ks d'. ttl_scan P now w (fst (pb_Iter P d lo hi)) [] = Inr ks \<and>
    ttl_tick P now w = (w\<lparr>ds_db := Some d'\<rparr>, None) \<and>
    pview d' = pview d |` (- set ks) |` {k. \<not> (lo \<le> k \<and> k < hi)}"
proof -
  obtain ks where ks: "ttl_scan P now w (fst (pb_Iter P d lo hi)) [] = Inr ks"
    using ttl_scan_total [OF rel d] by blast
  obtain d1 where d1: "pebble_DeleteAll P w ks = (w\<lparr>ds_db := Some d1\<rparr>, None)"
    using batch_run_total [OF rel d] unfolding pebble_DeleteAll_def by blast
  have v1: "pview d1 = pview d |` (- set ks)"
    using delete_all_view [OF d1] d by (simp add: pebble_view_def)
  obtain d2 where d2: "lift_db (w\<lparr>ds_db := Some d1\<rparr>) (\<lambda>d. pb_DeleteRange P d lo hi) =
      (w\<lparr>ds_db := Some d2\<rparr>, None)" and v2: "pview d2 = pview d1 |` {k. \<not> (lo \<le> k \<and> k < hi)}"
    using delete_range_total [OF rel, of "w\<lparr>ds_db := Some d1\<rparr>" d1 lo hi] by fastforce
  have "ttl_tick P now w = (w\<lparr>ds_db := Some d2\<rparr>, None)"
    using d rng ks d1 d2 by (simp add: ttl_tick_def)
  with ks v2 [unfolded v1] show ?thesis by blast
qed

text \<open>An indexed key whose recorded expiry has passed is gone after the tick.\<close>

lemma ttl_tick_reaps:
  assumes rel: "pebble_reliable P" and d: "ds_db w = Some d"
    and ex: "expired now (pebble_view pview w) k"
    and K: "getKeyForTTLByTime k t \<in> dom (pebble_view pview w)"
    and t: "0 \<le> t" "time_Unix t \<le> time_Unix now" "now < 2 ^ 62"
  shows "\<exists>w'. ttl_tick P now w = (w', None) \<and> pebble_view pview w' k = None"
proof -
  obtain lo hi where rng: "getRangeForTTLByTime now = (lo, hi)" by fastforce
  have bounds: "0 \<le> time_Unix t" "time_Unix t < 10 ^ 20" "0 \<le> time_Unix now"
    "time_Unix now + 1 < 10 ^ 20"
    using t by (auto simp: time_Unix_def)
  have inr: "lo \<le> getKeyForTTLByTime k t" "getKeyForTTLByTime k t < hi"
    using index_key_in_range [OF rng bounds] t(2) by auto
  obtain items where it: "pb_Iter P d lo hi = (items, None)"
    using rel by (metis pebble_reliable_def prod.collapse)
  have mem: "getKeyForTTLByTime k t \<in> fst ` set items"
    using pb_iter_complete [OF range_hi_nonempty [OF rng] it inr] K d
    by (simp add: pebble_view_def)
  have errs: "\<forall>it \<in> set items. snd (snd it) = None"
    using pb_iter_sound [OF range_hi_nonempty [OF rng] it] by fastforce
  obtain ks d' where ks: "ttl_scan P now w items [] = Inr ks"
    and tick: "ttl_tick P now w = (w\<lparr>ds_db := Some d'\<rparr>, None)"
    and v: "pview d' = pview d |` (- set ks) |` {k. \<not> (lo \<le> k \<and> k < hi)}"
    using ttl_tick_reliable [OF rel d rng] it by auto
  have "k \<in> set ks"
    using ttl_scan_complete [OF rel d index_key_to_delete [OF bounds(1,2)] ex ks errs mem] .
  with v have "pview d' k = None" by (simp add: restrict_map_def)
  with tick show ?thesis by (auto simp: pebble_view_def)
qed

lemma expired_after_ttl:
  assumes "pebble_view pview w (getKeyForTTLByKey k) = Some (time_MarshalBinary t)"
    and "0 \<le> t" and "t < now" and "now < 2 ^ 62"
  shows "expired now (pebble_view pview w) k"
proof -
  have "time_Unix t \<le> t" using assms(2) by (simp add: time_Unix_def div_le_dividend)
  then have "time_Unix t + unix_to_internal < 2 ^ 63"
    using assms by (simp add: unix_to_internal_def)
  from time_binary_roundtrip [OF assms(2) this] assms(1,3) show ?thesis
    by (auto simp: expired_def)
qed

lemma set_ttl_open: "pebble_SetWithTTL P t0 w k v ttl = (w1, None) \<Longrightarrow> \<exists>d. ds_db w1 = Some d"
  by (auto simp: pebble_SetWithTTL_def Let_def batch_run_def lift_db_def
      split: option.splits prod.splits sum.splits)

lemma ttl_keys_distinct [simp]: "getKeyForTTLByKey k \<noteq> getKeyForTTLByTime k' t"
  by (simp add: getKeyForTTLByKey_def getKeyForTTLByTime_def ttlByKeyPrefix_def ttlByTimePrefix_def)

lemma reaper_removes_expired_key:
  assumes rel: "pebble_reliable P" and set: "pebble_SetWithTTL P t0 w k v ttl = (w1, None)"
    and t: "0 \<le> t0 + ttl" "t0 + ttl < now" "now < 2 ^ 62"
  shows "\<exists>w2. ttl_tick P now w1 = (w2, None) \<and> pebble_view pview w2 k = None"
proof -
  obtain d where d: "ds_db w1 = Some d" using set_ttl_open [OF set] by blast
  note view = pebble_ttl_view [OF set]
  have "expired now (pebble_view pview w1) k"
    using t by (intro expired_after_ttl [of _ _ "t0 + ttl"]) (simp_all add: view)
  moreover have "getKeyForTTLByTime k (t0 + ttl) \<in> dom (pebble_view pview w1)"
    by (simp add: view)
  moreover have "time_Unix (t0 + ttl) \<le> time_Unix now"
    using t by (simp add: time_Unix_def zdiv_mono1)
  ultimately show ?thesis using ttl_tick_reaps [OF rel d] t by blast
qed

text \<open>\<open>Set\<close> leaves the bookkeeping of an earlier lifetime in place.\<close>

lemma set_keeps_expiry_key:
  assumes rel: "pebble_reliable P" and ttl: "pebble_SetWithTTL P t0 w k v ttl = (w1, None)"
    and set: "pebble_Set P w1 k v2 = (w2, None)" and k: "\<not> reserved_key k"
    and t: "0 \<le> t0 + ttl" "t0 + ttl < now" "now < 2 ^ 62"
  shows "\<exists>w3. ttl_tick P now w2 = (w3, None) \<and> pebble_view pview w3 k = None"
proof -
  obtain d where d: "ds_db w2 = Some d"
    using set by (auto simp: pebble_Set_def lift_db_def split: option.splits prod.splits)
  have view: "pebble_view pview w2 = (pebble_view pview w1)(k \<mapsto> v2)"
    using kv.set_ok [of w1 k v2 w2] set by (simp add: pebble_kv_def)
  have ne: "getKeyForTTLByKey k \<noteq> k" "getKeyForTTLByTime k (t0 + ttl) \<noteq> k"
    using k by (metis reserved_ttl_keys)+
  have "expired now (pebble_view pview w2) k"
    using t ne by (intro expired_after_ttl [of _ _ "t0 + ttl"]) (simp_all add: view pebble_ttl_view [OF ttl])
  moreover have "getKeyForTTLByTime k (t0 + ttl) \<in> dom (pebble_view pview w2)"
    by (simp add: view pebble_ttl_view [OF ttl])
  moreover have "time_Unix (t0 + ttl) \<le> time_Unix now"
    using t by (simp add: time_Unix_def zdiv_mono1)
  ultimately show ?thesis using ttl_tick_reaps [OF rel d] t by blast
qed

lemma delete_all_shrinks:
  assumes "pebble_DeleteAll P w ks = (w', r)"
  shows "pebble_view pview w' \<subseteq>\<^sub>m pebble_view pview w"
proof (cases r)
  case None
  with assms have "pebble_view pview w' = pebble_view pview w |` (- set ks)"
    by (simp add: delete_all_view)
  then show ?thesis by (auto simp: map_le_def restrict_map_def split: if_splits)
next
  case (Some e)
  with assms delete_all_err [of w ks w' e] show ?thesis by simp
qed

lemma delete_range_shrinks:
  assumes "lift_db w (\<lambda>d. pb_DeleteRange P d lo hi) = (w', r)"
  shows "pebble_view pview w' \<subseteq>\<^sub>m pebble_view pview w"
  using delete_range_view [OF assms] by (auto simp: map_le_def restrict_map_def split: if_splits)

lemma ttl_tick_shrinks: "pebble_view pview (fst (ttl_tick P now w)) \<subseteq>\<^sub>m pebble_view pview w"
proof (cases "ds_db w")
  case None
  then show ?thesis by (simp add: ttl_tick_def)
next
  case (Some d)
  obtain lo hi where rng: "getRangeForTTLByTime now = (lo, hi)" by fastforce
  show ?thesis
  proof (cases "ttl_scan P now w (fst (pb_Iter P d lo hi)) []")
    case (Inl e)
    with Some rng show ?thesis by (simp add: ttl_tick_def)
  next
    case (Inr ks)
    obtain w1 e1 where del: "pebble_DeleteAll P w ks = (w1, e1)" by fastforce
    obtain w2 e2 where rg: "lift_db w1 (\<lambda>d'. pb_DeleteRange P d' lo hi) = (w2, e2)" by fastforce
    have "fst (ttl_tick P now w) \<in> {w1, w2}"
      using Some rng Inr del rg by (simp add: ttl_tick_def split: option.splits)
    moreover have "pebble_view pview w1 \<subseteq>\<^sub>m pebble_view pview w"
      using del by (rule delete_all_shrinks)
    moreover have "pebble_view pview w2 \<subseteq>\<^sub>m pebble_view pview w1"
      using rg by (rule delete_range_shrinks)
    ultimately show ?thesis using map_le_trans by fastforce
  qed
qed

text \<open>A key that the time index does not name is out of the reaper's reach.\<close>

lemma unindexed_survives:
  assumes "\<not> reserved_key k"
    and "\<forall>K \<in> dom (pebble_view pview w). getKeyToDeleteFromTTLByTime K \<noteq> Inr k"
  shows "pebble_view pview (foldl (\<lambda>w now. fst (ttl_tick P now w)) w nows) k = pebble_view pview w k"
  using assms(2)
proof (induction nows arbitrary: w)
  case (Cons now nows)
  let ?w = "fst (ttl_tick P now w)"
  have same: "pebble_view pview ?w k = pebble_view pview w k"
    using ttl_tick_only_expired(3) [OF _ assms(1), of now w ?w "snd (ttl_tick P now w)"] Cons.prems
    by (metis prod.collapse)
  have "dom (pebble_view pview ?w) \<subseteq> dom (pebble_view pview w)"
    by (rule map_le_implies_dom_le) (rule ttl_tick_shrinks)
  with Cons.prems have "\<forall>K \<in> dom (pebble_view pview ?w). getKeyToDeleteFromTTLByTime K \<noteq> Inr k"
    by blast
  from Cons.IH [OF this] same show ?case by simp
qed simp

lemma ttl_record_not_index: "getKeyToDeleteFromTTLByTime (getKeyForTTLByKey k) \<noteq> Inr k'"
  by (simp add: getKeyToDeleteFromTTLByTime_def getKeyForTTLByKey_def ttlByKeyPrefix_def
      ttlByTimePrefix_def)

lemma unreserved_not_index: "\<not> reserved_key k \<Longrightarrow> getKeyToDeleteFromTTLByTime k \<noteq> Inr k'"
  by (auto simp: getKeyToDeleteFromTTLByTime_def reserved_key_def ttlByTimePrefix_def prefix_def)

lemma reaper_loses_expiry_key:
  assumes rel: "pebble_reliable P" and set: "pebble_SetWithTTL P t0 w k v ttl = (w1, None)"
    and k: "\<not> reserved_key k"
    and none: "\<forall>K \<in> dom (pebble_view pview w). getKeyToDeleteFromTTLByTime K \<noteq> Inr k"
    and t: "0 \<le> t0 + ttl" "now1 \<le> t0 + ttl" "time_Unix now1 = time_Unix (t0 + ttl)" "t0 + ttl < 2 ^ 62"
  shows "pebble_view pview (foldl (\<lambda>w now. fst (ttl_tick P now w)) w1 (now1 # nows)) k = Some v"
proof -
  let ?t = "t0 + ttl" and ?K = "getKeyForTTLByTime k (t0 + ttl)"
  note view = pebble_ttl_view [OF set]
  obtain d where d: "ds_db w1 = Some d" using set_ttl_open [OF set] by blast
  obtain lo hi where rng: "getRangeForTTLByTime now1 = (lo, hi)" by fastforce
  obtain ks d' where tick: "ttl_tick P now1 w1 = (w1\<lparr>ds_db := Some d'\<rparr>, None)"
    and v: "pview d' = pview d |` (- set ks) |` {k. \<not> (lo \<le> k \<and> k < hi)}"
    using ttl_tick_reliable [OF rel d rng] by blast
  let ?w2 = "w1\<lparr>ds_db := Some d'\<rparr>"
  have le: "time_Unix ?t \<le> ?t" using t(1) by (simp add: time_Unix_def div_le_dividend)
  have bounds: "0 \<le> time_Unix ?t" "time_Unix ?t < 10 ^ 20" "0 \<le> time_Unix now1"
    "time_Unix now1 + 1 < 10 ^ 20"
    using t le by (simp_all add: time_Unix_def)
  have rt: "time_UnmarshalBinary (time_MarshalBinary ?t) = Inr ?t"
    using t(1,4) le by (intro time_binary_roundtrip) (simp_all add: unix_to_internal_def)
  have "\<not> expired now1 (pebble_view pview w1) k"
    using rt t(2) by (simp add: expired_def view)
  then have keep: "pebble_view pview ?w2 k = Some v"
    using ttl_tick_only_expired(2) [OF tick k] k by (auto simp: view)
  have "lo \<le> ?K \<and> ?K < hi" using index_key_in_range [OF rng bounds] t(3) by simp
  then have "?K \<notin> dom (pebble_view pview ?w2)" using v by (simp add: pebble_view_def restrict_map_def domIff)
  moreover have "dom (pebble_view pview ?w2) \<subseteq> dom (pebble_view pview w1)"
    using map_le_implies_dom_le [OF ttl_tick_shrinks [of now1 w1]] tick by simp
  ultimately have "\<forall>K \<in> dom (pebble_view pview ?w2). getKeyToDeleteFromTTLByTime K \<noteq> Inr k"
    using none ttl_record_not_index [of k k] unreserved_not_index [OF k, of k]
    by (auto simp: view domIff split: if_splits)
  from unindexed_survives [OF k this] keep tick show ?thesis by simp
qed

end

section \<open>A database in memory\<close>

text \<open>
  An association list as a database: it meets \<open>pebble_db\<close>, never fails, and serves the
  concrete runs.
\<close>

definition ref_pebble :: "(string, string) gomap pebble" where
  "ref_pebble =
     \<lparr>pb_Get = (\<lambda>d k. case map_of d k of None \<Rightarrow> PbNotFound | Some v \<Rightarrow> PbVal v None),
      pb_Set = (\<lambda>d k v. (AList.update k v d, None)),
      pb_Delete = (\<lambda>d k. (AList.delete k d, None)),
      pb_DeleteRange = (\<lambda>d lo hi. (filter (\<lambda>(k, v). \<not> (lo \<le> k \<and> k < hi)) d, None)),
      pb_Iter = (\<lambda>d lo hi.
        (map (\<lambda>k. (k, the (map_of d k), None))
          (sort (remdups (filter (\<lambda>k. lo \<le> k \<and> k < hi) (map fst d)))), None)),
      pb_BatchAdd = (\<lambda>d b x. Inr (b @ [x])),
      pb_Commit = (\<lambda>d b.
        (foldl (\<lambda>d x. case x of BSet k v \<Rightarrow> AList.update k v d | BDelete k \<Rightarrow> AList.delete k d) d b,
         None)),
      pb_Close = (\<lambda>d. None)\<rparr>"

lemma map_of_filter_key: "map_of (filter (\<lambda>(k, v). p k) d) = map_of d |` {k. p k}"
  by (induction d) (auto simp: fun_eq_iff restrict_map_def)

lemma map_of_batch:
  "map_of (foldl (\<lambda>d x. case x of BSet k v \<Rightarrow> AList.update k v d | BDelete k \<Rightarrow> AList.delete k d) d b)
   = batch_apply b (map_of d)"
proof (induction b arbitrary: d)
  case (Cons x b)
  then show ?case by (cases x) (simp_all del: fun_upd_apply)
qed simp

lemma ref_iter:
  "pb_Iter ref_pebble d lo hi = (items, ce) \<Longrightarrow>
   ce = None \<and> distinct (map fst items) \<and>
   set items = {(k, v, None) | k v. lo \<le> k \<and> k < hi \<and> map_of d k = Some v}"
proof -
  assume "pb_Iter ref_pebble d lo hi = (items, ce)"
  then have it: "items = map (\<lambda>k. (k, the (map_of d k), None))
      (sort (remdups (filter (\<lambda>k. lo \<le> k \<and> k < hi) (map fst d))))" and ce: "ce = None"
    by (simp_all add: ref_pebble_def)
  have "map fst items = sort (remdups (filter (\<lambda>k. lo \<le> k \<and> k < hi) (map fst d)))"
    by (simp add: it comp_def)
  then have dist: "distinct (map fst items)" by simp
  have "set items = (\<lambda>k. (k, the (map_of d k), None)) ` {k \<in> gomap_keys d. lo \<le> k \<and> k < hi}"
    by (simp add: it)
  also have "{k \<in> gomap_keys d. lo \<le> k \<and> k < hi} =
      {k. lo \<le> k \<and> k < hi \<and> (\<exists>v. map_of d k = Some v)}"
    by (simp only: keys_map_of) blast
  also have "(\<lambda>k. (k, the (map_of d k), None)) ` \<dots>
      = {(k, v, None) | k v. lo \<le> k \<and> k < hi \<and> map_of d k = Some v}"
    by (rule set_eqI) (auto simp: image_iff)
  finally show ?thesis using ce dist by blast
qed

lemma ref_iter_mem:
  assumes "pb_Iter ref_pebble d lo hi = (items, ce)"
  shows "(k, v, e) \<in> set items \<longleftrightarrow> e = None \<and> lo \<le> k \<and> k < hi \<and> map_of d k = Some v"
  using ref_iter [OF assms] by simp

interpretation ref: pebble_db ref_pebble map_of
proof (unfold_locales, goal_cases)
  case (6 d lo hi d')
  then have "d' = filter (\<lambda>(k, v). \<not> (lo \<le> k \<and> k < hi)) d" by (simp add: ref_pebble_def)
  then show ?case by (simp only: map_of_filter_key)
next
  case (8 hi d lo items ce k v ie)
  then show ?case by (simp only: ref_iter_mem)
next
  case (9 d lo hi items ce)
  from ref_iter [OF 9] show ?case by blast
next
  case (10 hi d lo items k)
  then obtain v where "map_of d k = Some v" by blast
  with 10(3,4) have "(k, v, None) \<in> set items" by (simp only: ref_iter_mem [OF 10(2)])
  then show ?case by (metis fst_conv imageI)
next
  case (12 d b d')
  then have "d' = foldl (\<lambda>d x. case x of BSet k v \<Rightarrow> AList.update k v d | BDelete k \<Rightarrow> AList.delete k d) d b"
    by (simp add: ref_pebble_def)
  then show ?case by (simp only: map_of_batch)
qed (simp_all add: ref_pebble_def split: option.splits)

lemma ref_reliable [simp]: "pebble_reliable ref_pebble"
  by (auto simp: pebble_reliable_def ref_pebble_def split: option.splits)

text \<open>A store that holds one key with a lifetime of a second and a half, written at time zero.\<close>

definition run_ttl :: "(string, string) gomap pebble_ds" where
  "run_ttl = fst (pebble_SetWithTTL ref_pebble 0 (pebble_New []) ''k'' ''v'' 1500000000)"

lemma run_ttl_set:
  "pebble_SetWithTTL ref_pebble 0 (pebble_New []) ''k'' ''v'' 1500000000 = (run_ttl, None)"
  by code_simp

lemma run_ttl_tick: "snd (ttl_tick ref_pebble 2000000000 run_ttl) = None"
  by code_simp

section \<open>Properties\<close>

text \<open>
  C3. The store on Pebble implements the \<open>datastore\<close> interface: whatever the database, as long
  as it behaves as Pebble documents, every successful call of the store reads or changes the
  content as the interface promises, and a failed write leaves it as it was.
\<close>

theorem pebble_implements_datastore:
  assumes "pebble_db P pview"
  shows "kv_store (pebble_kv P) (pebble_view pview)"
  using assms by (rule pebble_db.kv_contract)

theorem pebble_implements_datastore_witness:
  "pebble_db ref_pebble map_of \<and> kv_store (pebble_kv ref_pebble) (pebble_view map_of)"
  using ref.pebble_db_axioms pebble_implements_datastore [OF ref.pebble_db_axioms] by simp

text \<open>
  \<open>KeyUpperBound\<close> is the exclusive upper bound of a prefix scan: the keys from \<open>b\<close> up to the
  bound are exactly the keys with prefix \<open>b\<close>, and there is no bound only for a prefix that
  consists of the byte \<open>0xFF\<close>.
\<close>

theorem KeyUpperBound_exact:
  "case KeyUpperBound b of
     None \<Rightarrow> list_all (\<lambda>c. c = CHR 0xFF) b
   | Some u \<Rightarrow> \<forall>k. (b \<le> k \<and> k < u) = prefix b k"
proof (cases "KeyUpperBound b")
  case None
  have "i \<le> length e \<Longrightarrow> key_upper_loop i e = None \<Longrightarrow> list_all (\<lambda>c. c = CHR 0xFF) (take i e)"
    for i and e :: string
  proof (induction i arbitrary: e)
    case (Suc i)
    then have "byte_inc (e ! i) = CHR 0x00" and rec: "key_upper_loop i (e[i := byte_inc (e ! i)]) = None"
      by (auto simp: Let_def split: if_splits)
    then have "(of_char (e ! i) :: nat) = of_char CHR 0xFF" by (simp add: byte_inc_zero)
    then have "e ! i = CHR 0xFF" by (simp only: of_char_eq_iff)
    with Suc.IH [OF _ rec] Suc.prems show ?case by (simp add: take_Suc_conv_app_nth)
  qed simp
  from this [of "length b" b] None show ?thesis by (simp add: KeyUpperBound_def)
next
  case (Some u)
  then show ?thesis using KeyUpperBound_range by simp
qed

text \<open>
  C36. A tick of the reaper removes a user key only if its recorded expiry has passed, and it
  changes no user key in any other way; this holds even when calls to the database fail.
\<close>

theorem reaper_removes_only_expired:
  assumes "pebble_db P pview" and "ttl_tick P now w = (w', r)" and "\<not> reserved_key k"
  shows "pebble_view pview w' k = pebble_view pview w k \<or>
    pebble_view pview w' k = None \<and> expired now (pebble_view pview w) k"
  using assms pebble_db.ttl_tick_only_expired(1,2) [OF assms] by blast

theorem reaper_removes_only_expired_witness:
  "\<exists>w'. ttl_tick ref_pebble 2000000000 run_ttl = (w', None) \<and>
     (pebble_view map_of w' ''k'' = pebble_view map_of run_ttl ''k'' \<or>
      pebble_view map_of w' ''k'' = None \<and> expired 2000000000 (pebble_view map_of run_ttl) ''k'')"
proof -
  obtain w' where w': "ttl_tick ref_pebble 2000000000 run_ttl = (w', None)"
    using run_ttl_tick by (metis prod.collapse)
  have "\<not> reserved_key ''k''" by code_simp
  from reaper_removes_only_expired [OF ref.pebble_db_axioms w' this] w' show ?thesis by blast
qed



text \<open>
  The scan is by whole seconds and the comparison is not. A tick in the second of the expiry,
  but not after it, keeps the key and still drops its index entry, and from then on no tick,
  however late, removes the key.
\<close>

theorem reaper_loses_expiry:
  assumes "pebble_db P pview" and "pebble_reliable P"
    and "pebble_SetWithTTL P t0 w k v ttl = (w1, None)" and "\<not> reserved_key k"
    and "\<forall>K \<in> dom (pebble_view pview w). getKeyToDeleteFromTTLByTime K \<noteq> Inr k"
    and "0 \<le> t0 + ttl" and "now1 \<le> t0 + ttl" and "time_Unix now1 = time_Unix (t0 + ttl)"
    and "t0 + ttl < 2 ^ 62"
  shows "pebble_view pview (foldl (\<lambda>w now. fst (ttl_tick P now w)) w1 (now1 # nows)) k = Some v"
  using assms by (rule pebble_db.reaper_loses_expiry_key)

theorem reaper_loses_expiry_witness:
  "pebble_view map_of (foldl (\<lambda>w now. fst (ttl_tick ref_pebble now w)) run_ttl
     [1200000000, 3000000000]) ''k'' = Some ''v''"
  by (rule reaper_loses_expiry [OF ref.pebble_db_axioms ref_reliable run_ttl_set])
     (simp_all add: reserved_key_def time_Unix_def pebble_view_def pebble_New_def)

text \<open>
  Writing a key again without a lifetime does not cancel the lifetime of an earlier write:
  the later value is removed when the earlier expiry has passed.
\<close>

theorem set_keeps_earlier_expiry:
  assumes "pebble_db P pview" and "pebble_reliable P"
    and "pebble_SetWithTTL P t0 w k v ttl = (w1, None)"
    and "pebble_Set P w1 k v2 = (w2, None)" and "\<not> reserved_key k"
    and "0 \<le> t0 + ttl" and "t0 + ttl < now" and "now < 2 ^ 62"
  shows "\<exists>w3. ttl_tick P now w2 = (w3, None) \<and> pebble_view pview w3 k = None"
  using assms by (rule pebble_db.set_keeps_expiry_key)

theorem set_keeps_earlier_expiry_witness:
  "\<exists>w3. ttl_tick ref_pebble 2000000000 (fst (pebble_Set ref_pebble run_ttl ''k'' ''w'')) = (w3, None) \<and>
     pebble_view map_of w3 ''k'' = None"
proof -
  have "pebble_Set ref_pebble run_ttl ''k'' ''w'' = (fst (pebble_Set ref_pebble run_ttl ''k'' ''w''), None)"
    by code_simp
  from set_keeps_earlier_expiry [OF ref.pebble_db_axioms ref_reliable run_ttl_set this]
  show ?thesis by (simp add: reserved_key_def)
qed

end
