(* ===== verification/Uuid.thy ===== *)
theory Uuid
  imports Prelude
begin

unbundle bit_operations_syntax

text \<open>
  \<open>src/utils/uuid.go\<close>: conversions between UUIDs, their protocol buffer form (two 64-bit halves)
  and their text form. A UUID is its sixteen bytes read as one 128-bit number, most significant
  byte first. The text form belongs to a third-party package: it is the parameter \<open>uuid_ops\<close>, and
  \<open>uuid_ok\<close> is what the sources rely on, that the text parses back, is one
  path element and has the same length for every UUID.
\<close>

type_synonym uuid = "128 word"

record uuidpb =
  HighBits :: "64 word"
  LowBits :: "64 word"

definition uuid_high :: "uuid \<Rightarrow> 64 word" where
  "uuid_high u = ucast (drop_bit 64 u)"

definition uuid_low :: "uuid \<Rightarrow> 64 word" where
  "uuid_low u = ucast u"

definition uuid_of_halves :: "64 word \<Rightarrow> 64 word \<Rightarrow> uuid" where
  "uuid_of_halves h l = push_bit 64 (ucast h) OR ucast l"

definition uuid_Nil :: uuid where
  "uuid_Nil = 0"

section \<open>Protocol buffer form\<close>

definition UUIDFromProto :: "uuidpb option \<Rightarrow> uuid res" where
  "UUIDFromProto pb =
     (case pb of
        None \<Rightarrow> Inl (ErrMsg ''nil proto given'')
      | Some p \<Rightarrow>
          if HighBits p \<noteq> 0 \<and> LowBits p \<noteq> 0 then Inr (uuid_of_halves (HighBits p) (LowBits p))
          else Inl (ErrMsg ''uuid data in proto is nil''))"

definition UUIDFromProtoOrNil :: "uuidpb option \<Rightarrow> uuid" where
  "UUIDFromProtoOrNil pb = (case UUIDFromProto pb of Inl _ \<Rightarrow> uuid_Nil | Inr u \<Rightarrow> u)"

definition ProtoFromUUID :: "uuid \<Rightarrow> uuidpb" where
  "ProtoFromUUID u = \<lparr>HighBits = uuid_high u, LowBits = uuid_low u\<rparr>"

definition IsNilUUID :: "uuid \<Rightarrow> bool" where
  "IsNilUUID u \<longleftrightarrow> u = uuid_Nil"

definition IsNilUUIDProto :: "uuidpb option \<Rightarrow> bool" where
  "IsNilUUIDProto pb =
     (case pb of
        None \<Rightarrow> True
      | Some p \<Rightarrow> if HighBits p \<noteq> 0 \<and> LowBits p \<noteq> 0 then False else True)"

definition AreSameUUID :: "uuidpb option \<Rightarrow> uuidpb option \<Rightarrow> bool res" where
  "AreSameUUID pb1 pb2 =
     (case (pb1, pb2) of
        (Some p, Some q) \<Rightarrow> Inr (HighBits p = HighBits q \<and> LowBits p = LowBits q)
      | _ \<Rightarrow> Inl (Panic ''nil pointer dereference: UUID''))"

section \<open>Text form\<close>

record uuid_ops =
  uuid_String :: "uuid \<Rightarrow> string"
  uuid_FromString :: "string \<Rightarrow> uuid res"

definition uuid_ok :: "uuid_ops \<Rightarrow> bool" where
  "uuid_ok U \<longleftrightarrow>
     (\<forall>u. uuid_FromString U (uuid_String U u) = Inr u \<and> path_seg (uuid_String U u)) \<and>
     (\<forall>u v. length (uuid_String U u) = length (uuid_String U v))"

definition uuid_FromStringOrNil :: "uuid_ops \<Rightarrow> string \<Rightarrow> uuid" where
  "uuid_FromStringOrNil U s = (case uuid_FromString U s of Inl _ \<Rightarrow> uuid_Nil | Inr u \<Rightarrow> u)"

definition ProtoFromUUIDStrOrNil :: "uuid_ops \<Rightarrow> string \<Rightarrow> uuidpb" where
  "ProtoFromUUIDStrOrNil U s = ProtoFromUUID (uuid_FromStringOrNil U s)"

definition ProtoToUUIDStr :: "uuid_ops \<Rightarrow> uuidpb option \<Rightarrow> string" where
  "ProtoToUUIDStr U pb = uuid_String U (UUIDFromProtoOrNil pb)"

definition uuidsToStrings :: "uuid_ops \<Rightarrow> uuid list \<Rightarrow> string list" where
  "uuidsToStrings U ids = map (uuid_String U) ids"

text \<open>
  \<open>HashUUIDs\<close> sorts the slice it is given in place; the result is the sorted slice and the
  digest. The hash is a parameter.
\<close>

definition HashUUIDs :: "uuid_ops \<Rightarrow> (string \<Rightarrow> string) \<Rightarrow> uuid list \<Rightarrow> uuid list \<times> string" where
  "HashUUIDs U sha256hex ids =
     (let sorted_ids = sort_key (uuid_String U) ids
      in (sorted_ids, sha256hex (concat (uuidsToStrings U sorted_ids))))"

section \<open>Lemmas\<close>

lemma uuid_ok_inj: "uuid_ok U \<Longrightarrow> uuid_String U u = uuid_String U v \<longleftrightarrow> u = v"
  by (metis sum.inject(2) uuid_ok_def)

lemma uuid_ok_seg [simp]: "uuid_ok U \<Longrightarrow> path_seg (uuid_String U u)"
  by (simp add: uuid_ok_def)

lemma uuid_halves [simp]: "uuid_of_halves (uuid_high u) (uuid_low u) = u"
  unfolding uuid_of_halves_def uuid_high_def uuid_low_def
  by (rule bit_word_eqI) (auto simp: bit_simps)

lemma uuid_of_halves_high [simp]: "uuid_high (uuid_of_halves h l) = h"
  unfolding uuid_of_halves_def uuid_high_def
  by (rule bit_word_eqI) (auto simp: bit_simps dest: bit_imp_le_length)

lemma uuid_of_halves_low [simp]: "uuid_low (uuid_of_halves h l) = l"
  unfolding uuid_of_halves_def uuid_low_def
  by (rule bit_word_eqI) (auto simp: bit_simps)

lemma ProtoFromUUID_inj [simp]: "ProtoFromUUID u = ProtoFromUUID v \<longleftrightarrow> u = v"
  by (metis ProtoFromUUID_def uuid_halves uuidpb.ext_inject)

lemma IsNilUUIDProto_iff: "IsNilUUIDProto pb \<longleftrightarrow> \<not> ok (UUIDFromProto pb)"
  by (simp add: IsNilUUIDProto_def UUIDFromProto_def split: option.splits)

lemma UUIDFromProto_Some: "UUIDFromProto (Some p) = Inr u \<Longrightarrow> ProtoFromUUID u = p"
  by (auto simp: UUIDFromProto_def ProtoFromUUID_def split: if_splits)

text \<open>The UUIDs whose protocol buffer form is taken for a value rather than for nil.\<close>

definition proto_uuid :: "uuid \<Rightarrow> bool" where
  "proto_uuid u \<longleftrightarrow> uuid_high u \<noteq> 0 \<and> uuid_low u \<noteq> 0"

lemma UUIDFromProto_ProtoFromUUID:
  "UUIDFromProto (Some (ProtoFromUUID u)) =
     (if proto_uuid u then Inr u else Inl (ErrMsg ''uuid data in proto is nil''))"
  by (simp add: UUIDFromProto_def ProtoFromUUID_def proto_uuid_def)

lemma UUIDFromProtoOrNil_proto [simp]:
  "proto_uuid u \<Longrightarrow> UUIDFromProtoOrNil (Some (ProtoFromUUID u)) = u"
  by (simp add: UUIDFromProtoOrNil_def UUIDFromProto_ProtoFromUUID)

lemma uuid_ok_length: "uuid_ok U \<Longrightarrow> length (uuid_String U u) = length (uuid_String U v)"
  by (simp add: uuid_ok_def)

lemma uuid_ok_prefix: "uuid_ok U \<Longrightarrow> prefix (uuid_String U u) (uuid_String U v) \<longleftrightarrow> u = v"
  by (metis append_eq_conv_conj prefix_def prefix_order.order_refl take_all_iff order_refl
      uuid_ok_inj uuid_ok_length)

section \<open>A text form for concrete runs\<close>

fun num_bits :: "num \<Rightarrow> string" where
  "num_bits num.One = ''1''"
| "num_bits (num.Bit0 n) = CHR ''0'' # num_bits n"
| "num_bits (num.Bit1 n) = CHR ''1'' # num_bits n"

definition int_bits :: "int \<Rightarrow> string" where
  "int_bits k = (if k \<le> 0 then [] else num_bits (num_of_nat (nat k)))"

definition uuid_bits :: "uuid \<Rightarrow> string" where
  "uuid_bits u = map (\<lambda>n. if bit u n then CHR ''1'' else CHR ''0'') [0..<128]"

definition ref_uuid :: uuid_ops where
  "ref_uuid =
     \<lparr>uuid_String = uuid_bits,
      uuid_FromString = (\<lambda>s.
        if length s = 128 \<and> list_all (\<lambda>c. c = CHR ''0'' \<or> c = CHR ''1'') s
        then Inr (horner_sum of_bool 2 (map (\<lambda>c. c = CHR ''1'') s))
        else Inl (ErrMsg ''uuid: incorrect UUID format''))\<rparr>"

text \<open>The digits of a numeral are read off its binary representation.\<close>

lemma int_bits_code [code]: "int_bits 0 = []" "int_bits (Int.Pos n) = num_bits n" "int_bits (Int.Neg n) = []"
  by (simp_all add: int_bits_def num_of_nat_numeral_eq)

lemma int_bits_cases: "0 \<le> (k :: int) \<Longrightarrow> k = 0 \<or> (\<exists>n. k = numeral n)"
  by (metis int_of_integer_code numeral_num_of_nat nat_0_le of_nat_numeral order_le_less zero_less_nat_eq)

lemma num_bits_nth: "i < length (num_bits n) \<Longrightarrow>
    num_bits n ! i = (if bit (numeral n :: int) i then CHR ''1'' else CHR ''0'')"
proof (induction n arbitrary: i)
  case (Bit0 n)
  then show ?case by (cases i) simp_all
next
  case (Bit1 n)
  then show ?case by (cases i) simp_all
qed simp

lemma num_bits_last: "num_bits n \<noteq> []" "bit (numeral n :: int) (length (num_bits n) - 1)"
  "length (num_bits n) \<le> i \<Longrightarrow> \<not> bit (numeral n :: int) i"
proof (induction n arbitrary: i)
  case (Bit0 n)
  { case 1 show ?case by simp
  next case 2 show ?case using Bit0(1,2) by (cases "length (num_bits n)") auto
  next case 3 then show ?case using Bit0(3) by (cases i) auto }
next
  case (Bit1 n)
  { case 1 show ?case by simp
  next case 2 show ?case using Bit1(1,2) by (cases "length (num_bits n)") auto
  next case 3 then show ?case using Bit1(3) by (cases i) auto }
qed (auto simp: bit_1_iff)

lemma uuid_bits_code [code]:
  "uuid_bits u = (let s = int_bits (uint u) in s @ replicate (128 - length s) CHR ''0'')"
proof -
  let ?s = "int_bits (uint u)"
  have b: "bit u i \<longleftrightarrow> bit (uint u) i" for i using bit_imp_le_length [of u i] by (auto simp: bit_uint_iff)
  have len: "length ?s \<le> 128"
    and nth: "i < length ?s \<Longrightarrow> ?s ! i = (if bit (uint u) i then CHR ''1'' else CHR ''0'')"
    and big: "length ?s \<le> i \<Longrightarrow> \<not> bit (uint u) i" for i
  proof -
    consider "uint u = 0" | n where "uint u = numeral n"
      using unsigned_greater_eq [of u] by (metis int_bits_cases)
    then have "length ?s \<le> 128 \<and> (i < length ?s \<longrightarrow> ?s ! i = (if bit (uint u) i then CHR ''1'' else CHR ''0'')) \<and>
        (length ?s \<le> i \<longrightarrow> \<not> bit (uint u) i)"
    proof cases
      case 2
      then have s: "?s = num_bits n" by (simp add: int_bits_def num_of_nat_numeral_eq)
      have "bit (uint u) (length ?s - 1)" using num_bits_last(2) [of n] 2 s by simp
      then have "bit u (length ?s - 1)" using b by simp
      then have "length ?s - 1 < LENGTH(128)" by (rule bit_imp_le_length)
      with s num_bits_nth [of i n] num_bits_last(1,3) [of n] 2 show ?thesis by auto
    qed (simp add: int_bits_def)
    then show "length ?s \<le> 128"
      "i < length ?s \<Longrightarrow> ?s ! i = (if bit (uint u) i then CHR ''1'' else CHR ''0'')"
      "length ?s \<le> i \<Longrightarrow> \<not> bit (uint u) i" by blast+
  qed
  have "uuid_bits u = ?s @ replicate (128 - length ?s) CHR ''0''"
  proof (rule nth_equalityI)
    fix i assume "i < length (uuid_bits u)"
    then show "uuid_bits u ! i = (?s @ replicate (128 - length ?s) CHR ''0'') ! i"
      using nth [of i] big [of i] b [of i]
      by (cases "i < length ?s") (simp_all add: uuid_bits_def nth_append del: upt.simps)
  qed (use len in \<open>simp add: uuid_bits_def del: upt.simps\<close>)
  then show ?thesis by (simp add: Let_def)
qed

lemma ref_uuid_String: "uuid_String ref_uuid u = map (\<lambda>n. if bit u n then CHR ''1'' else CHR ''0'') [0..<128]"
  by (simp add: ref_uuid_def uuid_bits_def del: upt.simps)

lemma ref_uuid_ok [simp]: "uuid_ok ref_uuid"
proof -
  have l: "length (uuid_String ref_uuid u) = 128" for u by (simp add: ref_uuid_String del: upt.simps)
  have c: "set (uuid_String ref_uuid u) \<subseteq> {CHR ''0'', CHR ''1''}" for u
    by (auto simp: ref_uuid_String simp del: upt.simps)
  have "path_seg (uuid_String ref_uuid u)" for u
  proof -
    have "uuid_String ref_uuid u \<noteq> []" "uuid_String ref_uuid u \<noteq> ''.''" "uuid_String ref_uuid u \<noteq> ''..''"
      using l [of u] by (auto simp del: upt.simps)
    moreover have "CHR ''/'' \<notin> set (uuid_String ref_uuid u)" using c [of u] by auto
    ultimately show ?thesis by (simp add: path_seg_def)
  qed
  moreover have "uuid_FromString ref_uuid (uuid_String ref_uuid u) = Inr u" for u
  proof -
    have "map (\<lambda>c. c = CHR ''1'') (uuid_String ref_uuid u) = map (bit u) [0..<128]"
      by (simp add: ref_uuid_String del: upt.simps)
    then have "horner_sum of_bool 2 (map (\<lambda>c. c = CHR ''1'') (uuid_String ref_uuid u)) = take_bit 128 u"
      by (simp only: horner_sum_bit_eq_take_bit)
    moreover have "take_bit 128 u = u" using take_bit_word_eq_self [of 128 u] by simp
    moreover have "list_all (\<lambda>c. c = CHR ''0'' \<or> c = CHR ''1'') (uuid_String ref_uuid u)"
      using c [of u] by (auto simp: list_all_iff)
    ultimately show ?thesis using l [of u] by (simp add: ref_uuid_def del: upt.simps)
  qed
  ultimately show ?thesis using l by (simp add: uuid_ok_def)
qed

section \<open>Properties\<close>

text \<open>
  The protocol buffer form determines the UUID, and converting it back returns the UUID
  unless one of its 64-bit halves is zero, in which case it is reported as nil.
\<close>

theorem uuid_proto_roundtrip:
  "(ProtoFromUUID u = ProtoFromUUID v) = (u = v) \<and>
   UUIDFromProto (Some (ProtoFromUUID u)) =
     (if uuid_high u = 0 \<or> uuid_low u = 0 then Inl (ErrMsg ''uuid data in proto is nil'') else Inr u)"
  by (simp add: UUIDFromProto_ProtoFromUUID proto_uuid_def)

text \<open>
  \<open>HashUUIDs\<close> depends only on which UUIDs it is given, each as often as it occurs, and not on
  their order.
\<close>

theorem HashUUIDs_order_independent:
  assumes "uuid_ok U" and "mset ids = mset ids'"
  shows "HashUUIDs U h ids = HashUUIDs U h ids'"
proof -
  have "inj_on (uuid_String U) (set ids)" using uuid_ok_inj [OF assms(1)] by (auto intro: inj_onI)
  with assms(2) have "sort_key (uuid_String U) ids = sort_key (uuid_String U) ids'"
    by (metis (no_types, lifting) mset_sort properties_for_sort_key sorted_sort_key
        sort_key_inj_key_eq)
  then show ?thesis by (simp add: HashUUIDs_def)
qed

theorem HashUUIDs_order_independent_witness:
  "mset [1, 2, 1 :: uuid] = mset [2, 1, 1] \<and> HashUUIDs ref_uuid id [1, 2, 1] = HashUUIDs ref_uuid id [2, 1, 1]"
proof -
  have "mset [1, 2, 1 :: uuid] = mset [2, 1, 1]" by simp
  with HashUUIDs_order_independent [OF ref_uuid_ok this] show ?thesis by blast
qed

end
