(* ===== verification/Upid.thy ===== *)
theory Upid
  imports Prelude
begin

text \<open>
  \<open>src/shared/types/gotypes/types.go\<close> and \<open>src/shared/k8s/upid.go\<close>: 128-bit numbers and the
  cluster-wide process identifier (UPID), which packs the agent's short id and the process id
  into the high word and the start time into the low word. Its text form \<open>asid:pid:start\<close> is the
  key of a process in the metadata store.
\<close>

record uint128 =
  High :: "64 word"
  Low :: "64 word"

definition UInt128_Equal :: "uint128 \<Rightarrow> uint128 \<Rightarrow> bool" where
  "UInt128_Equal u v \<longleftrightarrow> High u = High v \<and> Low u = Low v"

definition UInt128_Compare :: "uint128 \<Rightarrow> uint128 \<Rightarrow> int" where
  "UInt128_Compare u v =
     (if High u > High v then 1
      else if High u < High v then -1
      else if Low u > Low v then 1
      else if Low u < Low v then -1
      else 0)"

definition ASIDFromUPID :: "uint128 \<Rightarrow> 32 word" where
  "ASIDFromUPID u = ucast (drop_bit 32 (High u))"

definition PIDFromUPID :: "uint128 \<Rightarrow> 32 word" where
  "PIDFromUPID u = ucast (High u)"

definition StartTSFromUPID :: "uint128 \<Rightarrow> 64 word" where
  "StartTSFromUPID u = Low u"

definition StringFromUPID :: "uint128 \<Rightarrow> string" where
  "StringFromUPID u =
     nat_dec (unat (ASIDFromUPID u)) @ '':'' @ nat_dec (unat (PIDFromUPID u)) @ '':''
       @ nat_dec (unat (StartTSFromUPID u))"

text \<open>\<open>strconv.Atoi\<close>: an optional sign and digits, in the range of a 64-bit integer.\<close>

definition strconv_Atoi :: "string \<Rightarrow> int res" where
  "strconv_Atoi s =
     (let neg = (s \<noteq> [] \<and> hd s = CHR ''-'');
          ds = (if s \<noteq> [] \<and> (hd s = CHR ''-'' \<or> hd s = CHR ''+'') then tl s else s);
          n = int (dec_val 0 ds)
      in if ds = [] \<or> \<not> list_all is_digit ds then Inl (ErrMsg ''invalid syntax'')
         else if neg then (if n \<le> 2 ^ 63 then Inr (- n) else Inl (ErrMsg ''value out of range''))
         else if n < 2 ^ 63 then Inr n else Inl (ErrMsg ''value out of range''))"

definition UPIDFromString :: "string \<Rightarrow> uint128 res" where
  "UPIDFromString upidString =
     (case split_on CHR '':'' upidString of
        [a, p, t] \<Rightarrow>
          (case strconv_Atoi a of
             Inl e \<Rightarrow> Inl e
           | Inr asid \<Rightarrow>
               (case strconv_Atoi p of
                  Inl e \<Rightarrow> Inl e
                | Inr pid \<Rightarrow>
                    (case strconv_Atoi t of
                       Inl e \<Rightarrow> Inl e
                     | Inr ts \<Rightarrow>
                         Inr \<lparr>High = push_bit 32 (word_of_int asid) + word_of_int pid,
                              Low = word_of_int ts\<rparr>)))
      | _ \<Rightarrow> Inl (ErrMsg ''UPID string malformed''))"

section \<open>Lemmas\<close>

lemma nat_dec_hd_digit: "is_digit (hd (nat_dec n))"
  using nat_dec_digits [of n] by (cases "nat_dec n") auto

lemma not_digits: "\<not> is_digit CHR ''-''" "\<not> is_digit CHR ''+''" "\<not> is_digit CHR '':''"
  "\<not> is_digit CHR ''/''" "\<not> is_digit CHR ''.''"
  by code_simp+

lemma strconv_Atoi_nat_dec:
  "strconv_Atoi (nat_dec n) =
     (if n < 2 ^ 63 then Inr (int n) else Inl (ErrMsg ''value out of range''))"
proof -
  have "hd (nat_dec n) \<noteq> CHR ''-''" "hd (nat_dec n) \<noteq> CHR ''+''"
    using nat_dec_hd_digit [of n] not_digits by auto
  moreover have "int n < 2 ^ 63 \<longleftrightarrow> n < 2 ^ 63" by (metis of_nat_less_iff of_nat_numeral of_nat_power)
  ultimately show ?thesis by (simp add: strconv_Atoi_def Let_def nat_dec_digits)
qed

lemma nat_dec_no_colon: "CHR '':'' \<notin> set (nat_dec n)"
  using nat_dec_digits [of n] not_digits by (auto simp: list_all_iff)

lemma upid_high_parts:
  "push_bit 32 (of_nat (unat (ASIDFromUPID u))) + of_nat (unat (PIDFromUPID u)) = High u"
proof -
  let ?h = "unat (High u)"
  have lt: "?h < 2 ^ 64" using unsigned_less [of "High u"] by simp
  have "?h div 2 ^ 32 < 2 ^ 32"
    using lt by (simp add: less_mult_imp_div_less)
  have d: "unat (drop_bit 32 (High u)) = ?h div 2 ^ 32"
    unfolding unat_drop_bit_eq by (rule drop_bit_eq_div)
  have a: "unat (ASIDFromUPID u) = ?h div 2 ^ 32"
    unfolding ASIDFromUPID_def unsigned_ucast_eq take_bit_eq_mod d
    using \<open>?h div 2 ^ 32 < 2 ^ 32\<close> by simp
  have p: "unat (PIDFromUPID u) = ?h mod 2 ^ 32"
    by (simp add: PIDFromUPID_def unsigned_ucast_eq take_bit_eq_mod)
  have "push_bit 32 (of_nat (?h div 2 ^ 32)) + of_nat (?h mod 2 ^ 32) =
      (of_nat (?h div 2 ^ 32 * 2 ^ 32 + ?h mod 2 ^ 32) :: 64 word)"
    by (simp only: push_bit_eq_mult of_nat_add of_nat_mult of_nat_power of_nat_numeral)
  also have "\<dots> = High u" by (simp only: div_mult_mod_eq) simp
  finally show ?thesis by (simp only: a p)
qed

lemma StringFromUPID_inj: "StringFromUPID u = StringFromUPID v \<longleftrightarrow> u = v"
proof
  assume eq: "StringFromUPID u = StringFromUPID v"
  have "split_on CHR '':'' (StringFromUPID w) =
      [nat_dec (unat (ASIDFromUPID w)), nat_dec (unat (PIDFromUPID w)), nat_dec (unat (Low w))]" for w
    by (simp add: StringFromUPID_def StartTSFromUPID_def split_on_append split_on_no_sep nat_dec_no_colon)
  with eq have "unat (ASIDFromUPID u) = unat (ASIDFromUPID v)"
    "unat (PIDFromUPID u) = unat (PIDFromUPID v)" "unat (Low u) = unat (Low v)"
    by (metis list.inject nat_dec_inj)+
  with upid_high_parts [of u] upid_high_parts [of v] have "High u = High v" "Low u = Low v"
    by (simp_all add: word_unat_eq_iff)
  then show "u = v" by simp
qed simp

lemma StringFromUPID_path_seg: "path_seg (StringFromUPID u)"
proof -
  have "CHR ''/'' \<notin> set (nat_dec n)" for n
    using nat_dec_digits [of n] not_digits by (auto simp: list_all_iff)
  moreover have "length (StringFromUPID u) > 2"
    using nat_dec_nonempty by (cases "nat_dec (unat (ASIDFromUPID u))") (auto simp: StringFromUPID_def)
  moreover have "StringFromUPID u \<noteq> ''.''" "StringFromUPID u \<noteq> ''..''"
    using \<open>length (StringFromUPID u) > 2\<close> by auto
  ultimately show ?thesis by (auto simp: path_seg_def StringFromUPID_def)
qed

lemma pack_less:
  fixes a b c d M :: int
  assumes "a < c" and "b < M" and "0 \<le> d" and "0 \<le> M"
  shows "a * M + b < c * M + d"
proof -
  have "(a + 1) * M \<le> c * M" using assms by (intro mult_right_mono) simp_all
  with assms show ?thesis by (simp add: distrib_right)
qed

section \<open>Properties\<close>

text \<open>
  C38. The text form of a UPID is injective, and parsing it returns the UPID exactly when the
  start time is below $2^{63}$: from there on \<open>strconv.Atoi\<close> rejects it.
\<close>

theorem upid_string_roundtrip:
  "(StringFromUPID u = StringFromUPID v) = (u = v) \<and>
   UPIDFromString (StringFromUPID u) =
     (if unat (Low u) < 2 ^ 63 then Inr u else Inl (ErrMsg ''value out of range''))"
proof -
  have "unat (ASIDFromUPID u) < 2 ^ 32" using unsigned_less [of "ASIDFromUPID u"] by simp
  moreover have "unat (PIDFromUPID u) < 2 ^ 32" using unsigned_less [of "PIDFromUPID u"] by simp
  ultimately have small: "unat (ASIDFromUPID u) < 2 ^ 63" "unat (PIDFromUPID u) < 2 ^ 63"
    by simp_all
  have "split_on CHR '':'' (StringFromUPID u) =
      [nat_dec (unat (ASIDFromUPID u)), nat_dec (unat (PIDFromUPID u)), nat_dec (unat (Low u))]"
    by (simp add: StringFromUPID_def StartTSFromUPID_def split_on_append split_on_no_sep nat_dec_no_colon)
  then have "UPIDFromString (StringFromUPID u) =
      (if unat (Low u) < 2 ^ 63
       then Inr \<lparr>High = push_bit 32 (of_nat (unat (ASIDFromUPID u))) + of_nat (unat (PIDFromUPID u)),
                Low = of_nat (unat (Low u))\<rparr>
       else Inl (ErrMsg ''value out of range''))"
    using small by (simp add: UPIDFromString_def strconv_Atoi_nat_dec del: word_of_nat_eq_iff)
  then show ?thesis unfolding upid_high_parts by (simp add: StringFromUPID_inj)
qed

text \<open>
  \<open>Compare\<close> is the numeric order of the 128-bit values, and it is zero exactly for \<open>Equal\<close> ones.
\<close>

theorem UInt128_Compare_numeric:
  "UInt128_Compare u v =
     sgn ((uint (High u) * 2 ^ 64 + uint (Low u)) - (uint (High v) * 2 ^ 64 + uint (Low v))) \<and>
   (UInt128_Compare u v = 0) = UInt128_Equal u v"
proof -
  let ?M = "2 ^ 64 :: int"
  have "uint (Low w) < 2 ^ LENGTH(64)" for w by (rule unsigned_less)
  then have b: "uint (Low u) < ?M" "uint (Low v) < ?M" by simp_all
  have eq: "High u = High v \<longleftrightarrow> uint (High u) = uint (High v)" "Low u = Low v \<longleftrightarrow> uint (Low u) = uint (Low v)"
    by (simp_all add: word_uint_eq_iff)
  have "uint (High u) < uint (High v) \<Longrightarrow>
      uint (High u) * ?M + uint (Low u) < uint (High v) * ?M + uint (Low v)"
    using b by (intro pack_less) simp_all
  moreover have "uint (High v) < uint (High u) \<Longrightarrow>
      uint (High v) * ?M + uint (Low v) < uint (High u) * ?M + uint (Low u)"
    using b by (intro pack_less) simp_all
  ultimately show ?thesis
    unfolding UInt128_Compare_def UInt128_Equal_def word_less_def eq sgn_if by (auto simp: not_less)
qed

end
