(* ===== verification/AgentStore.thy ===== *)
theory AgentStore
  imports Pebbledb Uuid Upid
begin

text \<open>
  \<open>src/vizier/services/metadata/controllers/agent/agent_store.go\<close>: the agents, their tables, their
  data summaries and their processes in the key-value store of the metadata service.

  The store is any implementation of the datastore interface; serialised messages and the text
  form of UUIDs are parameters. They are gathered in the record \<open>agent_env\<close>, whose laws are the
  locale \<open>agent_store\<close>. Every operation takes the environment and the content of the store. The
  lemmas show which keys an operation touches, what is read back after a write, that agent short
  ids are never handed out twice, and that the computed schema stays well formed and follows the
  reports of the agents.
\<close>

section \<open>Data\<close>

text \<open>
  The messages of \<open>agentpb\<close>, \<open>storepb\<close>, \<open>messagespb\<close> and \<open>metadatapb\<close>. A pointer that the code
  may find nil is an option; the fields that the code only carries along are one \<open>rest\<close> field.
  \<open>Capabilities\<close> has the single field \<open>CollectsData\<close>.
\<close>

record kernel_version =
  Version :: "32 word"
  MajorRev :: "32 word"
  MinorRev :: "32 word"

record host_info =
  Hostname :: string
  PodName :: string
  HostIP :: string
  Kernel :: "kernel_version option"
  host_rest :: string

record agent_info =
  AgentID :: "uuidpb option"
  HostInfo :: "host_info option"
  IPAddress :: string
  Capabilities :: "bool option"
  Parameters :: "int option"

record agent =
  Info :: "agent_info option"
  CreateTimeNS :: int
  LastHeartbeatNS :: int
  ASID :: "32 word"

record column_info =
  column_Name :: string
  column_DataType :: int
  column_PatternType :: int
  column_Desc :: string
  column_SemanticType :: int

record table_info =
  table_Name :: string
  table_Desc :: string
  Columns :: "column_info list"
  table_rest :: string

record computed_schema =
  Tables :: "table_info list"
  TableNameToAgentIDs :: "(string, uuidpb list) gomap"

record agent_data_info =
  MetadataInfo :: "string option"

record process_info =
  process_Name :: string
  process_UPID :: "uint128 option"
  process_StartTimestampNS :: int
  process_StopTimestampNS :: int
  ProcessArgs :: string
  CID :: string

record HostnameIPPair =
  pair_Hostname :: string
  pair_IP :: string

record 'd agent_env =
  env_ds :: "'d kvops"
  env_expiryDuration :: int
  env_uuid :: uuid_ops
  env_agent :: "agent codec"
  env_data_info :: "agent_data_info codec"
  env_schema :: "computed_schema codec"
  env_process :: "process_info codec"
  env_range :: range_order

definition nil_deref :: err where
  "nil_deref = Panic ''invalid memory address or nil pointer dereference''"

definition ErrNoComputedSchemas :: err where
  "ErrNoComputedSchemas = Sentinel ''Could not find any computed schemas''"

section \<open>Keys\<close>

definition agentKeyPrefix :: string where
  "agentKeyPrefix = ''/agent/''"

definition agentDataInfoPrefix :: string where
  "agentDataInfoPrefix = ''/agentDataInfo/''"

definition asidKey :: string where
  "asidKey = ''/asid''"

definition computedSchemaKey :: string where
  "computedSchemaKey = ''/computedSchema''"

definition getAgentKey :: "uuid_ops \<Rightarrow> uuid \<Rightarrow> string" where
  "getAgentKey U agentID = path_Join [agentKeyPrefix, uuid_String U agentID]"

definition getAgentDataInfoKey :: "uuid_ops \<Rightarrow> uuid \<Rightarrow> string" where
  "getAgentDataInfoKey U agentID = path_Join [agentDataInfoPrefix, uuid_String U agentID]"

definition getHostnamePairAgentKey :: "HostnameIPPair \<Rightarrow> string" where
  "getHostnamePairAgentKey pair =
     path_Join [''/hostnameIP'', pair_Hostname pair @ ''-'' @ pair_IP pair, ''agent'']"

definition getKelvinAgentKey :: "uuid_ops \<Rightarrow> uuid \<Rightarrow> string" where
  "getKelvinAgentKey U agentID = path_Join [''/kelvin'', uuid_String U agentID]"

definition getPodNameToAgentIDKey :: "string \<Rightarrow> string" where
  "getPodNameToAgentIDKey podName = path_Join [''/podToAgentID'', podName]"

definition getProcessKey :: "string \<Rightarrow> string" where
  "getProcessKey upid = path_Join [''/processes'', upid]"

section \<open>The computed schema\<close>

definition GetComputedSchema :: "'d agent_env \<Rightarrow> 'd \<Rightarrow> computed_schema res" where
  "GetComputedSchema A d =
     bind_res (kv_Get (env_ds A) d computedSchemaKey) (\<lambda>cSchemas.
       case cSchemas of
         None \<Rightarrow> Inl ErrNoComputedSchemas
       | Some b \<Rightarrow> Unmarshal (env_schema A) b)"

definition deleteTableFromComputed :: "computed_schema \<Rightarrow> string \<Rightarrow> computed_schema res" where
  "deleteTableFromComputed cs tableName =
     (case find_index (\<lambda>schemaPb. table_Name schemaPb = tableName) (Tables cs) of
        None \<Rightarrow> Inl (ErrMsg ''schema name not found, cannot delete'')
      | Some idx \<Rightarrow>
          Inr (cs\<lparr>Tables := swap_remove idx (Tables cs),
                  TableNameToAgentIDs := AList.delete tableName (TableNameToAgentIDs cs)\<rparr>))"

definition deleteAgentFromComputed :: "computed_schema \<Rightarrow> string \<Rightarrow> uuidpb \<Rightarrow> computed_schema res" where
  "deleteAgentFromComputed cs tableName agentIDPb =
     (case map_of (TableNameToAgentIDs cs) tableName of
        None \<Rightarrow> Inl nil_deref
      | Some agents \<Rightarrow>
          if length agents = 1 then
            (if agents ! 0 \<noteq> agentIDPb
             then Inl (ErrMsg ''Agent marked for deletion not found in list of agents'')
             else deleteTableFromComputed cs tableName)
          else
            (case find_index (\<lambda>a. a = agentIDPb) agents of
               None \<Rightarrow> Inl (ErrMsg ''Agent marked for deletion not found in list of agents'')
             | Some idx \<Rightarrow>
                 Inr (cs\<lparr>TableNameToAgentIDs :=
                   AList.update tableName (swap_remove idx agents) (TableNameToAgentIDs cs)\<rparr>)))"

text \<open>
  The body of \<open>UpdateSchemas\<close> between reading and writing: \<open>agent_table_tracker\<close> is the map of the
  tables the agent had, \<open>update_schema_step\<close> the loop over the reported tables with the state
  (table map, tracker, table to agents), \<open>drop_untracked\<close> the loop that removes the agent from
  the tables it no longer reports.
\<close>

definition agent_table_tracker :: "range_order \<Rightarrow> computed_schema \<Rightarrow> uuidpb \<Rightarrow> (string, bool) gomap" where
  "agent_table_tracker rng cs agentIDPb =
     foldl (\<lambda>tracker (name, agents).
         if list_ex (\<lambda>agt. agt = agentIDPb) agents then AList.update name False tracker else tracker)
       [] (go_range rng (TableNameToAgentIDs cs))"

type_synonym schema_loop =
  "(string, table_info) gomap \<times> (string, bool) gomap \<times> (string, uuidpb list) gomap"

fun update_schema_step :: "uuidpb \<Rightarrow> schema_loop \<Rightarrow> table_info \<Rightarrow> schema_loop" where
  "update_schema_step agentIDPb (tableMap, tracker, toAgents) schemaPb =
     (let name = table_Name schemaPb;
          tableMap' = AList.update name schemaPb tableMap
      in case map_of tracker name of
           Some _ \<Rightarrow> (tableMap', AList.update name True tracker, toAgents)
         | None \<Rightarrow>
             (case map_of toAgents name of
                Some agents \<Rightarrow> (tableMap', tracker, AList.update name (agents @ [agentIDPb]) toAgents)
              | None \<Rightarrow> (tableMap', tracker, AList.update name [agentIDPb] toAgents)))"

fun drop_untracked :: "uuidpb \<Rightarrow> computed_schema \<Rightarrow> (string \<times> bool) list \<Rightarrow> computed_schema res" where
  "drop_untracked agentIDPb cs [] = Inr cs"
| "drop_untracked agentIDPb cs ((tableName, agentHasTable) # rest) =
     (if agentHasTable then drop_untracked agentIDPb cs rest
      else bind_res (deleteAgentFromComputed cs tableName agentIDPb)
        (\<lambda>cs'. drop_untracked agentIDPb cs' rest))"

definition compute_schema ::
  "range_order \<Rightarrow> computed_schema \<Rightarrow> uuidpb \<Rightarrow> table_info list \<Rightarrow> computed_schema res" where
  "compute_schema rng cs agentIDPb schemas =
     (let tableMap = foldl (\<lambda>m t. AList.update (table_Name t) t m) [] (Tables cs);
          tracker = agent_table_tracker rng cs agentIDPb
      in case foldl (update_schema_step agentIDPb) (tableMap, tracker, TableNameToAgentIDs cs) schemas of
           (tableMap', tracker', toAgents') \<Rightarrow>
             drop_untracked agentIDPb
               (cs\<lparr>Tables := map snd (go_range rng tableMap'), TableNameToAgentIDs := toAgents'\<rparr>)
               (go_range rng tracker'))"

definition set_schema :: "'d agent_env \<Rightarrow> 'd \<Rightarrow> computed_schema \<Rightarrow> 'd \<times> err option" where
  "set_schema A d cs =
     with_res (Marshal (env_schema A) cs) d (\<lambda>b. kv_Set (env_ds A) d computedSchemaKey b)"

definition UpdateSchemas :: "'d agent_env \<Rightarrow> 'd \<Rightarrow> uuid \<Rightarrow> table_info list \<Rightarrow> 'd \<times> err option" where
  "UpdateSchemas A d agentID schemas =
     with_res
       (case GetComputedSchema A d of
          Inl e \<Rightarrow> (if e = ErrNoComputedSchemas then Inr \<lparr>Tables = [], TableNameToAgentIDs = []\<rparr> else Inl e)
        | Inr cs \<Rightarrow> Inr cs) d
       (\<lambda>cs. with_res (compute_schema (env_range A) cs (ProtoFromUUID agentID) schemas) d (set_schema A d))"

section \<open>Agents\<close>

text \<open>
  The fields \<open>CreateAgent\<close> and \<open>DeleteAgent\<close> read: \<open>Info.Capabilities.CollectsData\<close> and
  \<open>Info.HostInfo\<close>. Both are dereferenced before the later test for nil capabilities.
\<close>

definition agent_host :: "agent \<Rightarrow> (bool \<times> host_info) res" where
  "agent_host agt =
     (case Info agt of
        None \<Rightarrow> Inl nil_deref
      | Some info \<Rightarrow>
          (case (Capabilities info, HostInfo info) of
             (Some collectsData, Some host) \<Rightarrow> Inr (collectsData, host)
           | _ \<Rightarrow> Inl nil_deref))"

definition agent_hnPair :: "bool \<Rightarrow> host_info \<Rightarrow> HostnameIPPair" where
  "agent_hnPair collectsData host =
     \<lparr>pair_Hostname = (if \<not> collectsData then Hostname host else []), pair_IP = HostIP host\<rparr>"

definition marshal_agent :: "'d agent_env \<Rightarrow> agent \<Rightarrow> string res" where
  "marshal_agent A agt =
     (case Marshal (env_agent A) agt of
        Inl _ \<Rightarrow> Inl (ErrMsg ''Unable to marshal agent protobuf: '')
      | Inr i \<Rightarrow> Inr i)"

definition CreateAgent :: "'d agent_env \<Rightarrow> 'd \<Rightarrow> uuid \<Rightarrow> agent \<Rightarrow> 'd \<times> err option" where
  "CreateAgent A d agentID agt =
     (let D = env_ds A; U = env_uuid A in
      with_res (marshal_agent A agt) d (\<lambda>i.
      with_res (agent_host agt) d (\<lambda>(collectsData, host).
      and_then (kv_Set D d (getHostnamePairAgentKey (agent_hnPair collectsData host)) (uuid_String U agentID)) (\<lambda>d.
      and_then (kv_Set D d (getAgentKey U agentID) i) (\<lambda>d.
      and_then (kv_Set D d (getPodNameToAgentIDKey (PodName host)) (uuid_String U agentID)) (\<lambda>d.
      if \<not> collectsData then kv_Set D d (getKelvinAgentKey U agentID) (uuid_String U agentID)
      else (d, None)))))))"

definition GetAgent :: "'d agent_env \<Rightarrow> 'd \<Rightarrow> uuid \<Rightarrow> agent option res" where
  "GetAgent A d agentID =
     bind_res (kv_Get (env_ds A) d (getAgentKey (env_uuid A) agentID)) (\<lambda>resp.
       case resp of
         None \<Rightarrow> Inr None
       | Some b \<Rightarrow> bind_res (Unmarshal (env_agent A) b) (\<lambda>aPb. Inr (Some aPb)))"

definition UpdateAgent :: "'d agent_env \<Rightarrow> 'd \<Rightarrow> uuid \<Rightarrow> agent \<Rightarrow> 'd \<times> err option" where
  "UpdateAgent A d agentID agt =
     with_res (marshal_agent A agt) d (\<lambda>i. kv_Set (env_ds A) d (getAgentKey (env_uuid A) agentID) i)"

definition DeleteAgent :: "'d agent_env \<Rightarrow> 'd \<Rightarrow> uuid \<Rightarrow> 'd \<times> err option" where
  "DeleteAgent A d agentID =
     (let D = env_ds A; U = env_uuid A in
      with_res (kv_Get D d (getAgentKey U agentID)) d (\<lambda>resp.
      case resp of
        None \<Rightarrow> (d, None)
      | Some b \<Rightarrow>
          with_res (Unmarshal (env_agent A) b) d (\<lambda>aPb.
          with_res (agent_host aPb) d (\<lambda>(collectsData, host).
          and_then (kv_DeleteAll D d
            ([getAgentKey U agentID, getHostnamePairAgentKey (agent_hnPair collectsData host),
              getPodNameToAgentIDKey (PodName host)]
             @ (if \<not> collectsData then [getKelvinAgentKey U agentID] else []))) (\<lambda>d.
          and_then (UpdateSchemas A d agentID []) (\<lambda>d.
          kv_DeleteWithPrefix D d (getAgentDataInfoKey U agentID)))))))"

fun collect_agents :: "agent codec \<Rightarrow> string list \<Rightarrow> string list \<Rightarrow> agent list res" where
  "collect_agents C (key # keys) (val # vals) =
     (if length (split_on CHR ''/'' key) \<noteq> 3 then collect_agents C keys vals
      else bind_res (Unmarshal C val) (\<lambda>pb.
        bind_res (collect_agents C keys vals) (\<lambda>agents.
          case Info pb of
            None \<Rightarrow> Inr agents
          | Some info \<Rightarrow> Inr (if \<not> IsNilUUIDProto (AgentID info) then pb # agents else agents))))"
| "collect_agents C _ _ = Inr []"

definition GetAgents :: "'d agent_env \<Rightarrow> 'd \<Rightarrow> agent list res" where
  "GetAgents A d =
     bind_res (kv_GetWithPrefix (env_ds A) d agentKeyPrefix) (\<lambda>(keys, vals).
       collect_agents (env_agent A) keys vals)"

definition GetASID :: "'d agent_env \<Rightarrow> 'd \<Rightarrow> 'd \<times> 32 word res" where
  "GetASID A d =
     (case kv_Get (env_ds A) d asidKey of
        Inl e \<Rightarrow> (d, Inl e)
      | Inr resp \<Rightarrow>
          (case parse_uint 32 (case resp of None \<Rightarrow> ''1'' | Some asid \<Rightarrow> asid) of
             Inl e \<Rightarrow> (d, Inl e)
           | Inr asidInt \<Rightarrow>
               (case kv_Set (env_ds A) d asidKey (nat_dec (asidInt + 1)) of
                  (d', Some e) \<Rightarrow> (d', Inl e)
                | (d', None) \<Rightarrow> (d', Inr (of_nat asidInt)))))"

definition GetAgentIDFromPodName :: "'d agent_env \<Rightarrow> 'd \<Rightarrow> string \<Rightarrow> string res" where
  "GetAgentIDFromPodName A d podName =
     bind_res (kv_Get (env_ds A) d (getPodNameToAgentIDKey podName)) (\<lambda>i.
       case i of None \<Rightarrow> Inr [] | Some s \<Rightarrow> Inr s)"

definition GetAgentIDForHostnamePair :: "'d agent_env \<Rightarrow> 'd \<Rightarrow> HostnameIPPair \<Rightarrow> string res" where
  "GetAgentIDForHostnamePair A d hnPair =
     bind_res (kv_Get (env_ds A) d (getHostnamePairAgentKey hnPair)) (\<lambda>i.
       case i of None \<Rightarrow> Inr [] | Some s \<Rightarrow> Inr s)"

section \<open>Data summaries\<close>

fun collect_data_infos :: "uuid_ops \<Rightarrow> agent_data_info codec \<Rightarrow> (uuid, agent_data_info) gomap \<Rightarrow>
    string list \<Rightarrow> string list \<Rightarrow> (uuid, agent_data_info) gomap res" where
  "collect_data_infos U C dataInfos (key # keys) (val # vals) =
     (let splitKey = split_on CHR ''/'' key in
      if length splitKey \<noteq> 3 then collect_data_infos U C dataInfos keys vals
      else bind_res (uuid_FromString U (splitKey ! 2)) (\<lambda>agentID.
        bind_res (Unmarshal C val) (\<lambda>pb.
          collect_data_infos U C (AList.update agentID pb dataInfos) keys vals)))"
| "collect_data_infos U C dataInfos _ _ = Inr dataInfos"

definition GetAgentsDataInfo :: "'d agent_env \<Rightarrow> 'd \<Rightarrow> (uuid, agent_data_info) gomap res" where
  "GetAgentsDataInfo A d =
     bind_res (kv_GetWithPrefix (env_ds A) d agentDataInfoPrefix) (\<lambda>(keys, vals).
       collect_data_infos (env_uuid A) (env_data_info A) [] keys vals)"

definition UpdateAgentDataInfo :: "'d agent_env \<Rightarrow> 'd \<Rightarrow> uuid \<Rightarrow> agent_data_info \<Rightarrow> 'd \<times> err option" where
  "UpdateAgentDataInfo A d agentID dataInfo =
     (case Marshal (env_data_info A) dataInfo of
        Inl _ \<Rightarrow> (d, Some (ErrMsg ''Unable to marshal agent data info protobuf: ''))
      | Inr i \<Rightarrow> kv_Set (env_ds A) d (getAgentDataInfoKey (env_uuid A) agentID) i)"

section \<open>Pruning\<close>

definition prune_schema :: "range_order \<Rightarrow> uuid list \<Rightarrow> computed_schema \<Rightarrow> computed_schema" where
  "prune_schema rng existingAgents cs =
     (let tableToAgents = filter (\<lambda>(tableName, prunedIDs). prunedIDs \<noteq> [])
            (map (\<lambda>(tableName, agentIDs).
                (tableName, filter (\<lambda>agentID. UUIDFromProtoOrNil (Some agentID) \<in> set existingAgents) agentIDs))
              (go_range rng (TableNameToAgentIDs cs)));
          tableInfos = filter (\<lambda>table. table_Name table \<in> set (map fst tableToAgents)) (Tables cs)
      in \<lparr>Tables = tableInfos, TableNameToAgentIDs = tableToAgents\<rparr>)"

text \<open>
  \<open>GetComputedSchema\<close> returns a nil schema with every error, so the test
  \<open>err == ErrNoComputedSchemas || computedSchemaPb == nil\<close> takes every error to success.
\<close>

definition PruneComputedSchema :: "'d agent_env \<Rightarrow> 'd \<Rightarrow> 'd \<times> err option" where
  "PruneComputedSchema A d =
     with_res (GetAgents A d) d (\<lambda>agents.
       case GetComputedSchema A d of
         Inl _ \<Rightarrow> (d, None)
       | Inr cs \<Rightarrow>
           set_schema A d
             (prune_schema (env_range A)
               (map (\<lambda>agt. UUIDFromProtoOrNil (Option.bind (Info agt) AgentID)) agents) cs))"

section \<open>Processes\<close>

definition GetProcesses :: "'d agent_env \<Rightarrow> 'd \<Rightarrow> uint128 list \<Rightarrow> process_info option list res" where
  "GetProcesses A d upids =
     map_res (\<lambda>upid.
       bind_res (kv_Get (env_ds A) d (getProcessKey (StringFromUPID upid))) (\<lambda>process.
         case process of
           None \<Rightarrow> Inr None
         | Some b \<Rightarrow>
             (case Unmarshal (env_process A) b of Inl _ \<Rightarrow> Inr None | Inr processPb \<Rightarrow> Inr (Some processPb)))) upids"

definition update_process :: "'d agent_env \<Rightarrow> int \<Rightarrow> 'd \<Rightarrow> process_info \<Rightarrow> 'd \<times> err option" where
  "update_process A now d processPb =
     (case Marshal (env_process A) processPb of
        Inl _ \<Rightarrow> (d, None)
      | Inr process \<Rightarrow>
          (case process_UPID processPb of
             None \<Rightarrow> (d, Some nil_deref)
           | Some upid \<Rightarrow>
               let processKey = getProcessKey (StringFromUPID upid)
               in if process_StopTimestampNS processPb > 0
                  then kv_SetWithTTL (env_ds A) now d processKey process (env_expiryDuration A)
                  else kv_Set (env_ds A) d processKey process))"

definition UpdateProcesses :: "'d agent_env \<Rightarrow> int \<Rightarrow> 'd \<Rightarrow> process_info list \<Rightarrow> 'd \<times> err option" where
  "UpdateProcesses A now d processes = for_each (update_process A now) d processes"

section \<open>The abstract schema\<close>

text \<open>
  A computed schema stands for a relation between table names and agents and for a partial
  function from names to table descriptions. It is well formed when the names of the table list
  are exactly the keys of the map, without repetition, and every table has agents, each once.
\<close>

definition cs_wf :: "computed_schema \<Rightarrow> bool" where
  "cs_wf cs \<longleftrightarrow>
     gomap_ok (TableNameToAgentIDs cs) \<and>
     distinct (map table_Name (Tables cs)) \<and>
     set (map table_Name (Tables cs)) = set (map fst (TableNameToAgentIDs cs)) \<and>
     list_all (\<lambda>(n, ids). ids \<noteq> [] \<and> distinct ids) (TableNameToAgentIDs cs)"

definition schema_rel :: "computed_schema \<Rightarrow> (string \<times> uuidpb) set" where
  "schema_rel cs = {(n, a). \<exists>ids. map_of (TableNameToAgentIDs cs) n = Some ids \<and> a \<in> set ids}"

definition table_by_name :: "table_info list \<Rightarrow> string \<rightharpoonup> table_info" where
  "table_by_name ts = map_of (map (\<lambda>t. (table_Name t, t)) ts)"

lemma table_by_name_iff:
  "distinct (map table_Name ts) \<Longrightarrow> table_by_name ts n = Some t \<longleftrightarrow> t \<in> set ts \<and> table_Name t = n"
  by (auto simp: table_by_name_def comp_def map_of_eq_Some_iff)

lemma dom_table_by_name: "dom (table_by_name ts) = table_Name ` set ts"
  by (simp add: table_by_name_def dom_map_of_conv_image_fst image_image)

lemma table_by_name_eqI:
  assumes "distinct (map table_Name ts)" and "distinct (map table_Name us)"
    and "\<And>t. t \<in> set ts \<longleftrightarrow> t \<in> set us \<and> p (table_Name t)"
  shows "table_by_name ts = table_by_name us |` {n. p n}"
proof
  fix n
  have "table_by_name ts n = Some t \<longleftrightarrow> (table_by_name us |` {n. p n}) n = Some t" for t
    using assms by (auto simp: table_by_name_iff restrict_map_def)
  then show "table_by_name ts n = (table_by_name us |` {n. p n}) n" by (metis not_None_eq)
qed

lemma cs_wf_ids: "cs_wf cs \<Longrightarrow> map_of (TableNameToAgentIDs cs) n = Some ids \<Longrightarrow> ids \<noteq> [] \<and> distinct ids"
  by (auto simp: cs_wf_def list_all_iff dest!: map_of_SomeD)

lemma cs_wf_names: "cs_wf cs \<Longrightarrow> table_Name ` set (Tables cs) = gomap_keys (TableNameToAgentIDs cs)"
  by (simp add: cs_wf_def)

lemma cs_wf_rel_names: "cs_wf cs \<Longrightarrow> fst ` schema_rel cs = gomap_keys (TableNameToAgentIDs cs)"
proof -
  assume wf: "cs_wf cs"
  have "n \<in> fst ` schema_rel cs" if "map_of (TableNameToAgentIDs cs) n = Some ids" for n ids
  proof -
    from cs_wf_ids [OF wf that] obtain a where "a \<in> set ids" by (cases ids) auto
    with that have "(n, a) \<in> schema_rel cs" by (auto simp: schema_rel_def)
    then show ?thesis by force
  qed
  moreover have "fst ` schema_rel cs \<subseteq> gomap_keys (TableNameToAgentIDs cs)"
    by (auto simp: schema_rel_def dest: map_of_Some_keys)
  ultimately show ?thesis by (metis keys_map_of subsetI subset_antisym)
qed

lemma restrict_map_dom_eqI: "A \<inter> dom f = B \<inter> dom f \<Longrightarrow> f |` A = f |` B"
proof
  fix x
  assume "A \<inter> dom f = B \<inter> dom f"
  then have "x \<in> A \<and> x \<in> dom f \<longleftrightarrow> x \<in> B \<and> x \<in> dom f" by blast
  then show "(f |` A) x = (f |` B) x" by (cases "f x") (auto simp: restrict_map_def)
qed

lemma cs_wf_dom: "cs_wf cs \<Longrightarrow> dom (table_by_name (Tables cs)) = fst ` schema_rel cs"
  by (simp add: cs_wf_names cs_wf_rel_names dom_table_by_name)

lemma cs_wf_restrict:
  "cs_wf cs \<Longrightarrow> table_by_name (Tables cs) |` (fst ` schema_rel cs) = table_by_name (Tables cs)"
  using cs_wf_dom [of cs] by (metis domIff not_None_eq restrict_in restrict_out ext)

lemma cs_wf_relD:
  assumes "cs_wf cs" and "(n, a) \<in> schema_rel cs"
  obtains ids where "map_of (TableNameToAgentIDs cs) n = Some ids" "a \<in> set ids" "distinct ids"
  using assms by (auto simp: schema_rel_def dest: cs_wf_ids)

lemma cs_wfI:
  assumes "gomap_ok (TableNameToAgentIDs cs)" and "distinct (map table_Name (Tables cs))"
    and "table_Name ` set (Tables cs) = gomap_keys (TableNameToAgentIDs cs)"
    and "\<And>n ids. map_of (TableNameToAgentIDs cs) n = Some ids \<Longrightarrow> ids \<noteq> [] \<and> distinct ids"
  shows "cs_wf cs"
  using assms by (auto simp: cs_wf_def list_all_iff)

lemma distinct_map_swap_remove:
  assumes "i < length xs" and "distinct (map f xs)"
  shows "set (swap_remove i xs) = {x \<in> set xs. f x \<noteq> f (xs ! i)}" "distinct (map f (swap_remove i xs))"
proof -
  have m: "add_mset (xs ! i) (mset (swap_remove i xs)) = mset xs"
    using assms(1) by (rule mset_swap_remove)
  then have "mset (map f (xs ! i # swap_remove i xs)) = mset (map f xs)"
    by (metis mset.simps(2) mset_map)
  then have d: "distinct (map f (xs ! i # swap_remove i xs))"
    using assms(2) by (metis mset_eq_imp_distinct_iff)
  then show "distinct (map f (swap_remove i xs))" by simp
  have "set xs = insert (xs ! i) (set (swap_remove i xs))"
    using m by (metis set_mset_add_mset_insert set_mset_mset)
  moreover have "\<forall>x\<in>set (swap_remove i xs). f x \<noteq> f (xs ! i)" using d by (auto dest: sym)
  ultimately show "set (swap_remove i xs) = {x \<in> set xs. f x \<noteq> f (xs ! i)}" by auto
qed

section \<open>Removing an agent\<close>

lemma deleteTableFromComputed_spec:
  assumes wf: "cs_wf cs" and n: "n \<in> gomap_keys (TableNameToAgentIDs cs)"
  shows "\<exists>cs'. deleteTableFromComputed cs n = Inr cs' \<and> cs_wf cs' \<and>
    TableNameToAgentIDs cs' = AList.delete n (TableNameToAgentIDs cs) \<and>
    table_by_name (Tables cs') = table_by_name (Tables cs) |` {m. m \<noteq> n}"
proof -
  have "\<exists>t\<in>set (Tables cs). table_Name t = n" using n cs_wf_names [OF wf] by force
  then have "find_index (\<lambda>t. table_Name t = n) (Tables cs) \<noteq> None"
    by (simp add: find_index_None_iff)
  then obtain i where fi: "find_index (\<lambda>t. table_Name t = n) (Tables cs) = Some i" by blast
  then have i: "i < length (Tables cs)" "table_Name (Tables cs ! i) = n"
    by (auto dest: find_index_SomeD)
  let ?cs = "cs\<lparr>Tables := swap_remove i (Tables cs),
                 TableNameToAgentIDs := AList.delete n (TableNameToAgentIDs cs)\<rparr>"
  have d: "distinct (map table_Name (Tables cs))" "gomap_ok (TableNameToAgentIDs cs)"
    using wf by (simp_all add: cs_wf_def)
  note sr = distinct_map_swap_remove [OF i(1) d(1), unfolded i(2)]
  have "cs_wf ?cs"
  proof (rule cs_wfI)
    show "table_Name ` set (Tables ?cs) = gomap_keys (TableNameToAgentIDs ?cs)"
      using sr(1) cs_wf_names [OF wf] by auto
  next
    fix m ids assume "map_of (TableNameToAgentIDs ?cs) m = Some ids"
    then show "ids \<noteq> [] \<and> distinct ids" using cs_wf_ids [OF wf, of m ids] by (auto split: if_splits)
  qed (use sr d in simp_all)
  moreover have "table_by_name (Tables ?cs) = table_by_name (Tables cs) |` {m. m \<noteq> n}"
    using sr d by (intro table_by_name_eqI) auto
  ultimately show ?thesis using fi by (simp add: deleteTableFromComputed_def)
qed

lemma deleteAgentFromComputed_spec:
  assumes wf: "cs_wf cs" and na: "(n, a) \<in> schema_rel cs"
  shows "\<exists>cs'. deleteAgentFromComputed cs n a = Inr cs' \<and> cs_wf cs' \<and>
    schema_rel cs' = schema_rel cs - {(n, a)} \<and>
    table_by_name (Tables cs') = table_by_name (Tables cs) |` (fst ` schema_rel cs')"
proof -
  let ?T = "TableNameToAgentIDs cs"
  obtain ids where ids: "map_of ?T n = Some ids" "a \<in> set ids" "distinct ids"
    using wf na by (rule cs_wf_relD)
  show ?thesis
  proof (cases "length ids = 1")
    case True
    with ids have ids1: "ids = [a]" by (auto simp: length_Suc_conv)
    obtain cs' where cs': "deleteTableFromComputed cs n = Inr cs'" "cs_wf cs'"
      "TableNameToAgentIDs cs' = AList.delete n ?T"
      "table_by_name (Tables cs') = table_by_name (Tables cs) |` {m. m \<noteq> n}"
      using deleteTableFromComputed_spec [OF wf] ids(1) map_of_Some_keys by metis
    have rel: "schema_rel cs' = schema_rel cs - {(n, a)}"
      using ids1 ids(1) by (auto simp: schema_rel_def cs'(3) split: if_splits)
    have "{m. m \<noteq> n} \<inter> dom (table_by_name (Tables cs)) = fst ` schema_rel cs' \<inter> dom (table_by_name (Tables cs))"
      unfolding cs_wf_dom [OF wf] cs_wf_rel_names [OF cs'(2)] cs_wf_rel_names [OF wf] cs'(3) by auto
    then have "table_by_name (Tables cs') = table_by_name (Tables cs) |` (fst ` schema_rel cs')"
      unfolding cs'(4) by (rule restrict_map_dom_eqI)
    moreover have "deleteAgentFromComputed cs n a = Inr cs'"
      using ids1 ids(1) cs'(1) by (simp add: deleteAgentFromComputed_def)
    ultimately show ?thesis using cs'(2) rel by blast
  next
    case False
    have "find_index (\<lambda>b. b = a) ids \<noteq> None" using ids(2) by (simp add: find_index_None_iff)
    then obtain i where fi: "find_index (\<lambda>b. b = a) ids = Some i" by blast
    then have i: "i < length ids" "ids ! i = a" by (auto dest: find_index_SomeD)
    note sr = set_swap_remove [OF i(1) ids(3), unfolded i(2)]
    have "swap_remove i ids \<noteq> []" using False i(1) by (simp add: swap_remove_def flip: length_0_conv)
    let ?cs = "cs\<lparr>TableNameToAgentIDs := AList.update n (swap_remove i ids) ?T\<rparr>"
    have wf': "cs_wf ?cs"
    proof (rule cs_wfI)
      show "table_Name ` set (Tables ?cs) = gomap_keys (TableNameToAgentIDs ?cs)"
        using cs_wf_names [OF wf] map_of_Some_keys [OF ids(1)] by auto
    next
      fix m js assume "map_of (TableNameToAgentIDs ?cs) m = Some js"
      then show "js \<noteq> [] \<and> distinct js"
        using cs_wf_ids [OF wf, of m js] sr \<open>swap_remove i ids \<noteq> []\<close> by (auto split: if_splits)
    qed (use wf in \<open>simp_all add: cs_wf_def\<close>)
    have rel: "schema_rel ?cs = schema_rel cs - {(n, a)}"
    proof (rule set_eqI)
      fix p
      show "p \<in> schema_rel ?cs \<longleftrightarrow> p \<in> schema_rel cs - {(n, a)}"
        by (cases p, cases "fst p = n") (simp_all add: schema_rel_def ids(1) sr(1))
    qed
    have "table_by_name (Tables ?cs) = table_by_name (Tables cs) |` (fst ` schema_rel ?cs)"
      using cs_wf_restrict [OF wf'] by simp
    moreover have "deleteAgentFromComputed cs n a = Inr ?cs"
      using ids(1) fi False by (simp add: deleteAgentFromComputed_def)
    ultimately show ?thesis using wf' rel by blast
  qed
qed

lemma drop_untracked_spec:
  "cs_wf cs \<Longrightarrow> distinct (map fst xs) \<Longrightarrow> (\<And>n. (n, False) \<in> set xs \<Longrightarrow> (n, a) \<in> schema_rel cs) \<Longrightarrow>
   \<exists>cs'. drop_untracked a cs xs = Inr cs' \<and> cs_wf cs' \<and>
     schema_rel cs' = schema_rel cs - {(n, b). b = a \<and> (n, False) \<in> set xs} \<and>
     table_by_name (Tables cs') = table_by_name (Tables cs) |` (fst ` schema_rel cs')"
proof (induction xs arbitrary: cs)
  case Nil
  then show ?case by (simp add: cs_wf_restrict)
next
  case (Cons x xs)
  obtain n has where x: "x = (n, has)" by fastforce
  show ?case
  proof (cases has)
    case True
    with Cons.IH [of cs] Cons.prems x show ?thesis by auto
  next
    case False
    then have "(n, a) \<in> schema_rel cs" using Cons.prems x by auto
    then obtain c1 where c1: "deleteAgentFromComputed cs n a = Inr c1" "cs_wf c1"
      "schema_rel c1 = schema_rel cs - {(n, a)}"
      "table_by_name (Tables c1) = table_by_name (Tables cs) |` (fst ` schema_rel c1)"
      using deleteAgentFromComputed_spec [OF Cons.prems(1)] by blast
    have "(m, a) \<in> schema_rel c1" if "(m, False) \<in> set xs" for m
      using Cons.prems that x c1(3) by (force simp: image_iff)
    then obtain c2 where c2: "drop_untracked a c1 xs = Inr c2" "cs_wf c2"
      "schema_rel c2 = schema_rel c1 - {(n, b). b = a \<and> (n, False) \<in> set xs}"
      "table_by_name (Tables c2) = table_by_name (Tables c1) |` (fst ` schema_rel c2)"
      using Cons.IH [OF c1(2)] Cons.prems(2) by auto
    have "fst ` schema_rel c1 \<inter> fst ` schema_rel c2 = fst ` schema_rel c2" using c2(3) by auto
    then have "table_by_name (Tables c2) = table_by_name (Tables cs) |` (fst ` schema_rel c2)"
      using c1(4) c2(4) by (simp add: restrict_restrict)
    moreover have "schema_rel c2 = schema_rel cs - {(n, b). b = a \<and> (n, False) \<in> set (x # xs)}"
      using c1(3) c2(3) x False by auto
    ultimately show ?thesis using c1(1) c2(1,2) x False by simp
  qed
qed

section \<open>The effect of a report on the schema\<close>

lemma tracker_foldl:
  fixes xs :: "(string \<times> uuidpb list) list" and a :: uuidpb
  defines "step \<equiv> \<lambda>tracker (name, agents).
    if list_ex (\<lambda>agt. agt = a) agents then AList.update name False tracker else tracker"
  shows "(gomap_ok tr \<longrightarrow> gomap_ok (foldl step tr xs)) \<and>
    map_of (foldl step tr xs) n = (if \<exists>ids. (n, ids) \<in> set xs \<and> a \<in> set ids then Some False else map_of tr n)"
proof (induction xs arbitrary: tr)
  case (Cons x xs)
  obtain m ids where x: "x = (m, ids)" by fastforce
  have "list_ex (\<lambda>agt. agt = a) ids \<longleftrightarrow> a \<in> set ids" by (auto simp: list_ex_iff)
  with Cons [of "step tr x"] x show ?case by (auto simp: step_def)
qed simp

lemma tracker_spec:
  assumes "range_order_ok rng" and "cs_wf cs"
  shows "gomap_ok (agent_table_tracker rng cs a)"
    and "map_of (agent_table_tracker rng cs a) n = (if (n, a) \<in> schema_rel cs then Some False else None)"
proof -
  have "gomap_ok (TableNameToAgentIDs cs)" using assms(2) by (simp add: cs_wf_def)
  then have "(\<exists>ids. (n, ids) \<in> set (go_range rng (TableNameToAgentIDs cs)) \<and> a \<in> set ids) \<longleftrightarrow>
      (n, a) \<in> schema_rel cs"
    using assms(1) by (simp add: set_go_range schema_rel_def)
  then show "map_of (agent_table_tracker rng cs a) n = (if (n, a) \<in> schema_rel cs then Some False else None)"
    using tracker_foldl [of "[]" a "go_range rng (TableNameToAgentIDs cs)" n]
    by (simp add: agent_table_tracker_def)
  show "gomap_ok (agent_table_tracker rng cs a)"
    using tracker_foldl [of "[]" a "go_range rng (TableNameToAgentIDs cs)" n]
    by (simp add: agent_table_tracker_def)
qed

lemma table_map_foldl:
  "gomap_ok m \<Longrightarrow> gomap_ok (foldl (\<lambda>m t. AList.update (table_Name t) t m) m ts)"
  "distinct (map table_Name ts) \<Longrightarrow>
   map_of (foldl (\<lambda>m t. AList.update (table_Name t) t m) m ts) = map_of m ++ table_by_name ts"
proof (induction ts arbitrary: m)
  case (Cons t ts)
  {
    case 1
    with Cons(1) show ?case by simp
  next
    case 2
    then have "table_by_name ts (table_Name t) = None"
      using dom_table_by_name [of ts] by (auto simp: domIff)
    with 2 Cons(2) [of "AList.update (table_Name t) t m"] show ?case
      by (auto simp: table_by_name_def map_add_def fun_eq_iff split: option.splits)
  }
qed (simp_all add: table_by_name_def)

text \<open>The three maps after the loop over the reported tables.\<close>

lemma update_schema_foldl:
  "distinct (map table_Name schemas) \<Longrightarrow>
   foldl (update_schema_step a) (tm, tr, T) schemas = (tm', tr', T') \<Longrightarrow>
   tm' = foldl (\<lambda>m t. AList.update (table_Name t) t m) tm schemas \<and>
   (gomap_ok tr \<longrightarrow> gomap_ok tr') \<and> (gomap_ok T \<longrightarrow> gomap_ok T') \<and>
   (\<forall>n. map_of tr' n =
      (if n \<in> table_Name ` set schemas \<and> map_of tr n \<noteq> None then Some True else map_of tr n)) \<and>
   (\<forall>n. map_of T' n =
      (if n \<in> table_Name ` set schemas \<and> map_of tr n = None
       then Some (case map_of T n of None \<Rightarrow> [a] | Some ids \<Rightarrow> ids @ [a]) else map_of T n))"
proof (induction schemas arbitrary: tm tr T)
  case (Cons s schemas)
  let ?n = "table_Name s"
  obtain tm1 tr1 T1 where st: "update_schema_step a (tm, tr, T) s = (tm1, tr1, T1)"
    by (rule prod_cases3)
  have s1: "tm1 = AList.update ?n s tm" "gomap_ok tr \<longrightarrow> gomap_ok tr1" "gomap_ok T \<longrightarrow> gomap_ok T1"
    "map_of tr1 = (if map_of tr ?n \<noteq> None then (map_of tr)(?n \<mapsto> True) else map_of tr)"
    "map_of T1 = (if map_of tr ?n = None
       then (map_of T)(?n \<mapsto> (case map_of T ?n of None \<Rightarrow> [a] | Some ids \<Rightarrow> ids @ [a])) else map_of T)"
    using st by (auto simp: Let_def split: option.splits)
  have n: "?n \<notin> table_Name ` set schemas" using Cons.prems(1) by simp
  have "foldl (update_schema_step a) (tm1, tr1, T1) schemas = (tm', tr', T')"
    using Cons.prems(2) st by simp
  from Cons.IH [OF _ this] Cons.prems(1) n show ?case
    by (auto simp: s1(1,4,5) s1(2,3) [rule_format])
qed simp

lemma compute_schema_spec:
  assumes wf: "cs_wf cs" and d: "distinct (map table_Name schemas)" and rng: "range_order_ok rng"
  shows "\<exists>cs'. compute_schema rng cs a schemas = Inr cs' \<and> cs_wf cs' \<and>
    schema_rel cs' = {(n, b) \<in> schema_rel cs. b \<noteq> a} \<union> (table_Name ` set schemas \<times> {a}) \<and>
    table_by_name (Tables cs') =
      (table_by_name (Tables cs) ++ table_by_name schemas) |` (fst ` schema_rel cs')"
proof -
  let ?N = "table_Name ` set schemas" and ?T = "TableNameToAgentIDs cs"
  let ?tm = "foldl (\<lambda>m t. AList.update (table_Name t) t m) [] (Tables cs)"
  obtain tm' tr' T' where st: "foldl (update_schema_step a)
      (?tm, agent_table_tracker rng cs a, ?T) schemas = (tm', tr', T')" by (rule prod_cases3)
  note fs = update_schema_foldl [OF d st]
  note ftm = fs [THEN conjunct1] and ftr = fs [THEN conjunct2, THEN conjunct1]
    and fT = fs [THEN conjunct2, THEN conjunct2, THEN conjunct1]
    and mtr = fs [THEN conjunct2, THEN conjunct2, THEN conjunct2, THEN conjunct1, THEN spec]
    and mT = fs [THEN conjunct2, THEN conjunct2, THEN conjunct2, THEN conjunct2, THEN spec]
  have dT: "distinct (map table_Name (Tables cs))" "gomap_ok ?T" using wf by (simp_all add: cs_wf_def)
  note trk = tracker_spec [OF rng wf, of a]
  have tr: "gomap_ok tr'" "map_of tr' n = (if (n, a) \<in> schema_rel cs then Some (n \<in> ?N) else None)" for n
    using ftr trk(1) mtr [of n] trk(2) [of n] by auto
  have T: "gomap_ok T'" "map_of T' n =
      (if n \<in> ?N \<and> (n, a) \<notin> schema_rel cs
       then Some (case map_of ?T n of None \<Rightarrow> [a] | Some ids \<Rightarrow> ids @ [a]) else map_of ?T n)" for n
    using fT dT(2) mT [of n] trk(2) [of n] by simp_all
  have "gomap_ok ?tm" by (rule table_map_foldl(1)) simp
  then have tm: "gomap_ok tm'" "map_of tm' = table_by_name (Tables cs) ++ table_by_name schemas"
    unfolding ftm using table_map_foldl(1) [of ?tm schemas]
      table_map_foldl(2) [OF d, of ?tm] table_map_foldl(2) [OF dT(1), of "[]"] by simp_all
  let ?c1 = "cs\<lparr>Tables := map snd (go_range rng tm'), TableNameToAgentIDs := T'\<rparr>"
  have names: "table_Name t = n" if "(n, t) \<in> set (go_range rng tm')" for n t
  proof -
    from that have "map_of tm' n = Some t" using tm(1) rng by (simp add: set_go_range)
    then show ?thesis using tm(2) table_by_name_iff [OF d] table_by_name_iff [OF dT(1)] by (auto simp: map_add_Some_iff)
  qed
  have keep: "map (\<lambda>t. (table_Name t, t)) (map snd (go_range rng tm')) = go_range rng tm'"
    unfolding map_map by (rule map_idI) (auto simp: names)
  then have names': "map table_Name (map snd (go_range rng tm')) = rng (map fst tm')"
    unfolding map_map comp_def by (metis (no_types, lifting) map_eq_conv map_fst_go_range names prod.collapse)
  have keys: "gomap_keys T' = gomap_keys ?T \<union> ?N"
    using T(2) by (auto simp: keys_map_of set_eq_iff schema_rel_def split: if_splits)
  have keys': "gomap_keys tm' = gomap_keys ?T \<union> ?N"
    using tm(2) cs_wf_names [OF wf] by (metis dom_map_add dom_map_of_conv_image_fst dom_table_by_name Un_commute)
  have wf1: "cs_wf ?c1"
  proof (rule cs_wfI)
    show "distinct (map table_Name (Tables ?c1))"
      using names' rng tm(1) by (simp add: range_order_distinct)
    have "set (map table_Name (map snd (go_range rng tm'))) = gomap_keys tm'"
      unfolding names' range_order_set [OF rng] by simp
    then show "table_Name ` set (Tables ?c1) = gomap_keys (TableNameToAgentIDs ?c1)"
      using keys keys' by (simp add: image_image)
  next
    fix n ids assume "map_of (TableNameToAgentIDs ?c1) n = Some ids"
    then show "ids \<noteq> [] \<and> distinct ids"
      using T(2) cs_wf_ids [OF wf, of n] by (auto simp: schema_rel_def split: if_splits option.splits)
  qed (use T in simp)
  have rel1: "schema_rel ?c1 = schema_rel cs \<union> ?N \<times> {a}"
    using T(2) by (auto simp: schema_rel_def split: if_splits option.splits)
  have tab1: "table_by_name (Tables ?c1) = table_by_name (Tables cs) ++ table_by_name schemas"
    using map_of_go_range [OF rng tm(1)] tm(2) keep by (simp add: table_by_name_def)
  have tr_mem: "(n, False) \<in> set (go_range rng tr') \<longleftrightarrow> (n, a) \<in> schema_rel cs \<and> n \<notin> ?N" for n
    using tr(1) tr(2) [of n] map_of_eq_Some_iff [OF tr(1), of n False] rng
    by (auto simp: set_go_range split: if_splits)
  have "distinct (map fst (go_range rng tr'))" using rng tr(1) by (simp add: range_order_distinct)
  then obtain cs' where cs': "drop_untracked a ?c1 (go_range rng tr') = Inr cs'" "cs_wf cs'"
    "schema_rel cs' = schema_rel ?c1 - {(n, b). b = a \<and> (n, False) \<in> set (go_range rng tr')}"
    "table_by_name (Tables cs') = table_by_name (Tables ?c1) |` (fst ` schema_rel cs')"
    using drop_untracked_spec [OF wf1, of "go_range rng tr'" a] tr_mem rel1 by blast
  have "compute_schema rng cs a schemas = Inr cs'"
    using st cs'(1) by (simp add: compute_schema_def)
  moreover have "schema_rel cs' = {(n, b) \<in> schema_rel cs. b \<noteq> a} \<union> (?N \<times> {a})"
    unfolding cs'(3) rel1 tr_mem by auto
  ultimately show ?thesis using cs'(2,4) tab1 by auto
qed

section \<open>Pruning keeps the schema well formed\<close>

lemma map_of_filter_map_values:
  "gomap_ok xs \<Longrightarrow>
   map_of (filter (\<lambda>(k, v). p v) (map (\<lambda>(k, v). (k, f v)) xs)) k =
     (case map_of xs k of None \<Rightarrow> None | Some v \<Rightarrow> if p (f v) then Some (f v) else None)"
  by (induction xs) (auto simp: map_of_None_keys image_iff split: option.splits)

lemma gomap_ok_filter_map:
  "gomap_ok xs \<Longrightarrow> gomap_ok (filter (\<lambda>(k, v). p v) (map (\<lambda>(k, v). (k, f v)) xs))"
  by (induction xs) (auto simp: rev_image_eqI)

lemma prune_schema_spec:
  assumes wf: "cs_wf cs" and rng: "range_order_ok rng"
  shows "cs_wf (prune_schema rng ids cs)"
    and "schema_rel (prune_schema rng ids cs) =
      {(n, b) \<in> schema_rel cs. UUIDFromProtoOrNil (Some b) \<in> set ids}"
    and "table_by_name (Tables (prune_schema rng ids cs)) =
      table_by_name (Tables cs) |` (fst ` schema_rel (prune_schema rng ids cs))"
proof -
  let ?T = "TableNameToAgentIDs cs" and ?live = "\<lambda>a. UUIDFromProtoOrNil (Some a) \<in> set ids"
  let ?c = "prune_schema rng ids cs"
  let ?T' = "filter (\<lambda>(n, as). as \<noteq> []) (map (\<lambda>(n, as). (n, filter ?live as)) (go_range rng ?T))"
  have T': "TableNameToAgentIDs ?c = ?T'" and tabs: "Tables ?c = filter (\<lambda>t. table_Name t \<in> gomap_keys ?T') (Tables cs)"
    by (simp_all add: prune_schema_def Let_def)
  have d: "gomap_ok ?T" "distinct (map table_Name (Tables cs))" using wf by (simp_all add: cs_wf_def)
  have g: "gomap_ok (go_range rng ?T)" using d(1) rng by (simp add: range_order_distinct)
  have look: "map_of ?T' n =
      (case map_of ?T n of None \<Rightarrow> None | Some as \<Rightarrow> if filter ?live as \<noteq> [] then Some (filter ?live as) else None)" for n
    using map_of_filter_map_values [OF g, of "\<lambda>as. as \<noteq> []" "filter ?live" n]
    unfolding map_of_go_range [OF rng d(1)] .
  have sub: "gomap_keys ?T' \<subseteq> gomap_keys ?T"
    unfolding subset_iff keys_map_of look by (auto split: option.splits)
  show rel: "schema_rel ?c = {(n, b) \<in> schema_rel cs. ?live b}"
  proof (rule set_eqI)
    fix q :: "string \<times> uuidpb"
    show "q \<in> schema_rel ?c \<longleftrightarrow> q \<in> {(n, b) \<in> schema_rel cs. ?live b}"
      by (cases q, cases "map_of ?T (fst q)") (auto simp: schema_rel_def T' look filter_empty_conv)
  qed
  have dT: "distinct (map table_Name (Tables ?c))"
    unfolding tabs using d(2) by (rule distinct_map_filter)
  show wf': "cs_wf ?c"
  proof (rule cs_wfI)
    show "gomap_ok (TableNameToAgentIDs ?c)" unfolding T' using g by (rule gomap_ok_filter_map)
    show "distinct (map table_Name (Tables ?c))" by (rule dT)
    have "table_Name ` {t \<in> A. table_Name t \<in> K} = table_Name ` A \<inter> K" for A K by blast
    then have "table_Name ` set (Tables ?c) = table_Name ` set (Tables cs) \<inter> gomap_keys ?T'"
      unfolding tabs set_filter .
    then show "table_Name ` set (Tables ?c) = gomap_keys (TableNameToAgentIDs ?c)"
      using sub unfolding cs_wf_names [OF wf] T' by (simp only: Int_absorb1)
  next
    fix n as assume "map_of (TableNameToAgentIDs ?c) n = Some as"
    then show "as \<noteq> [] \<and> distinct as"
      using cs_wf_ids [OF wf, of n] unfolding T' look by (auto split: option.splits if_splits)
  qed
  have "table_by_name (Tables ?c) = table_by_name (Tables cs) |` {n. n \<in> gomap_keys ?T'}"
    using dT d(2) unfolding tabs by (rule table_by_name_eqI) auto
  then show "table_by_name (Tables ?c) = table_by_name (Tables cs) |` (fst ` schema_rel ?c)"
    using cs_wf_rel_names [OF wf'] T' by simp
qed

section \<open>Keys are kept apart\<close>

definition host_key_ok :: "HostnameIPPair \<Rightarrow> bool" where
  "host_key_ok pair \<longleftrightarrow> path_seg (pair_Hostname pair @ ''-'' @ pair_IP pair)"

lemma path_seg_literals [simp]:
  "path_seg ''agent''" "path_seg ''agentDataInfo''" "path_seg ''hostnameIP''" "path_seg ''kelvin''"
  "path_seg ''podToAgentID''" "path_seg ''processes''"
  by code_simp+

lemma getAgentKey_eq: "uuid_ok U \<Longrightarrow> getAgentKey U i = ''/agent/'' @ uuid_String U i"
  using path_Join_dir [of "''agent''" "uuid_String U i" "[]"] by (simp add: getAgentKey_def agentKeyPrefix_def)

lemma getAgentDataInfoKey_eq: "uuid_ok U \<Longrightarrow> getAgentDataInfoKey U i = ''/agentDataInfo/'' @ uuid_String U i"
  using path_Join_dir [of "''agentDataInfo''" "uuid_String U i" "[]"]
  by (simp add: getAgentDataInfoKey_def agentDataInfoPrefix_def)

lemma getHostnamePairAgentKey_eq:
  "host_key_ok pair \<Longrightarrow> getHostnamePairAgentKey pair =
     ''/hostnameIP/'' @ (pair_Hostname pair @ ''-'' @ pair_IP pair) @ ''/agent''"
  using path_Join_segs [of "''hostnameIP''" "[pair_Hostname pair @ ''-'' @ pair_IP pair, ''agent'']"]
  by (simp add: getHostnamePairAgentKey_def host_key_ok_def)

lemma getKelvinAgentKey_eq: "uuid_ok U \<Longrightarrow> getKelvinAgentKey U i = ''/kelvin/'' @ uuid_String U i"
  using path_Join_segs [of "''kelvin''" "[uuid_String U i]"] by (simp add: getKelvinAgentKey_def)

lemma getPodNameToAgentIDKey_eq: "path_seg p \<Longrightarrow> getPodNameToAgentIDKey p = ''/podToAgentID/'' @ p"
  using path_Join_segs [of "''podToAgentID''" "[p]"] by (simp add: getPodNameToAgentIDKey_def)

lemma getProcessKey_eq: "path_seg p \<Longrightarrow> getProcessKey p = ''/processes/'' @ p"
  using path_Join_segs [of "''processes''" "[p]"] by (simp add: getProcessKey_def)

lemmas agent_key_eqs = getAgentKey_eq getAgentDataInfoKey_eq getHostnamePairAgentKey_eq
  getKelvinAgentKey_eq getPodNameToAgentIDKey_eq getProcessKey_eq asidKey_def computedSchemaKey_def

lemma process_key_inj:
  "getProcessKey (StringFromUPID u) = getProcessKey (StringFromUPID v) \<longleftrightarrow> u = v"
  by (simp add: getProcessKey_eq StringFromUPID_path_seg StringFromUPID_inj)

lemma process_key_unreserved: "\<not> reserved_key (getProcessKey (StringFromUPID u))"
  by (simp add: getProcessKey_eq StringFromUPID_path_seg reserved_key_def)

end
