(* ===== verification/AgentStoreCorrect.thy ===== *)
theory AgentStoreCorrect
  imports AgentStore
begin

text \<open>
  What the operations of \<open>agent_store.go\<close> guarantee. The locale \<open>agent_store\<close> is the contract of
  the environment they run in: a key-value store, the text form of UUIDs and the codecs of the
  stored messages. Its lemmas describe every operation by its effect on the content of the store;
  the properties instantiate it with the Pebble-backed datastore in their witnesses.
\<close>

section \<open>The content of the store\<close>

definition agent_at :: "'d agent_env \<Rightarrow> (string \<rightharpoonup> string) \<Rightarrow> uuid \<Rightarrow> agent option" where
  "agent_at A m i =
     (case m (getAgentKey (env_uuid A) i) of
        None \<Rightarrow> None
      | Some b \<Rightarrow> (case Unmarshal (env_agent A) b of Inl _ \<Rightarrow> None | Inr a \<Rightarrow> Some a))"

definition schema_at :: "'d agent_env \<Rightarrow> (string \<rightharpoonup> string) \<Rightarrow> computed_schema option" where
  "schema_at A m =
     (case m computedSchemaKey of
        None \<Rightarrow> Some \<lparr>Tables = [], TableNameToAgentIDs = []\<rparr>
      | Some b \<Rightarrow> (case Unmarshal (env_schema A) b of Inl _ \<Rightarrow> None | Inr cs \<Rightarrow> Some cs))"

definition process_at :: "'d agent_env \<Rightarrow> (string \<rightharpoonup> string) \<Rightarrow> uint128 \<Rightarrow> process_info option" where
  "process_at A m u =
     (case m (getProcessKey (StringFromUPID u)) of
        None \<Rightarrow> None
      | Some b \<Rightarrow> (case Unmarshal (env_process A) b of Inl _ \<Rightarrow> None | Inr p \<Rightarrow> Some p))"

definition schema_ok :: "'d agent_env \<Rightarrow> (string \<rightharpoonup> string) \<Rightarrow> bool" where
  "schema_ok A m = (case schema_at A m of None \<Rightarrow> False | Some cs \<Rightarrow> cs_wf cs)"

text \<open>Which agents report which tables, and the description of each table.\<close>

definition reports :: "'d agent_env \<Rightarrow> (string \<rightharpoonup> string) \<Rightarrow> (string \<times> uuidpb) set" where
  "reports A m = (case schema_at A m of None \<Rightarrow> {} | Some cs \<Rightarrow> schema_rel cs)"

definition descriptions :: "'d agent_env \<Rightarrow> (string \<rightharpoonup> string) \<Rightarrow> string \<rightharpoonup> table_info" where
  "descriptions A m = (case schema_at A m of None \<Rightarrow> Map.empty | Some cs \<Rightarrow> table_by_name (Tables cs))"

lemma cs_wf_empty [simp]: "cs_wf \<lparr>Tables = [], TableNameToAgentIDs = []\<rparr>"
  by (simp add: cs_wf_def)

text \<open>What \<open>CreateAgent\<close> writes.\<close>

definition create_writes :: "uuid_ops \<Rightarrow> uuid \<Rightarrow> string \<Rightarrow> bool \<Rightarrow> host_info \<Rightarrow> string \<rightharpoonup> string" where
  "create_writes U i b c h =
     [getHostnamePairAgentKey (agent_hnPair c h) \<mapsto> uuid_String U i,
      getAgentKey U i \<mapsto> b,
      getPodNameToAgentIDKey (PodName h) \<mapsto> uuid_String U i] ++
     (if c then Map.empty else [getKelvinAgentKey U i \<mapsto> uuid_String U i])"

text \<open>The keys \<open>DeleteAgent\<close> deletes one by one.\<close>

definition agent_keys :: "uuid_ops \<Rightarrow> uuid \<Rightarrow> bool \<Rightarrow> host_info \<Rightarrow> string list" where
  "agent_keys U i c h =
     [getAgentKey U i, getHostnamePairAgentKey (agent_hnPair c h), getPodNameToAgentIDKey (PodName h)]
     @ (if \<not> c then [getKelvinAgentKey U i] else [])"

text \<open>A run of calls of \<open>GetASID\<close>, and the counter it starts from.\<close>

fun asid_calls :: "'d agent_env \<Rightarrow> nat \<Rightarrow> 'd \<Rightarrow> 'd \<times> 32 word res list" where
  "asid_calls A 0 d = (d, [])"
| "asid_calls A (Suc k) d =
     (let (d1, r) = GetASID A d; (d2, rs) = asid_calls A k d1 in (d2, r # rs))"

fun successes :: "'a res list \<Rightarrow> 'a list" where
  "successes [] = []"
| "successes (Inl e # rs) = successes rs"
| "successes (Inr v # rs) = v # successes rs"

definition asid_next :: "(string \<rightharpoonup> string) \<Rightarrow> nat \<Rightarrow> bool" where
  "asid_next m n \<longleftrightarrow>
     0 < n \<and> (case m asidKey of None \<Rightarrow> n = 1 | Some s \<Rightarrow> s = nat_dec n)"

lemma asid_one: "nat_dec 1 = ''1''"
  by code_simp

lemma find_append: "find P (xs @ ys) = (case find P xs of None \<Rightarrow> find P ys | Some x \<Rightarrow> Some x)"
  by (induction xs) auto

lemma schema_at_cong: "m computedSchemaKey = m' computedSchemaKey \<Longrightarrow> schema_at A m = schema_at A m'"
  by (simp add: schema_at_def)

section \<open>Laws of the environment\<close>

locale agent_store = kv_store "env_ds A" view
  for A :: "'d agent_env" and view :: "'d \<Rightarrow> string \<rightharpoonup> string" +
  assumes uuids: "uuid_ok (env_uuid A)"
    and agent_codec: "codec_ok (env_agent A)"
    and data_codec: "codec_ok (env_data_info A)"
    and schema_codec: "codec_ok (env_schema A)"
    and process_codec: "codec_ok (env_process A)"
    and ranges: "range_order_ok (env_range A)"
    and own_error: "kv_Get (env_ds A) d k \<noteq> Inl ErrNoComputedSchemas"
      "Unmarshal (env_schema A) b \<noteq> Inl ErrNoComputedSchemas"
begin

subsection \<open>The computed schema\<close>

lemma GetComputedSchema_at:
  "GetComputedSchema A d =
     bind_res (kv_Get (env_ds A) d computedSchemaKey) (\<lambda>_.
       case view d computedSchemaKey of
         None \<Rightarrow> Inl ErrNoComputedSchemas | Some b \<Rightarrow> Unmarshal (env_schema A) b)"
  unfolding GetComputedSchema_def by (rule bind_get)

lemma set_schema_ok:
  assumes "set_schema A d cs = (d', None)"
  shows "schema_at A (view d') = Some cs" and "k \<noteq> computedSchemaKey \<Longrightarrow> view d' k = view d k"
proof -
  obtain b where b: "Marshal (env_schema A) cs = Inr b" "kv_Set (env_ds A) d computedSchemaKey b = (d', None)"
    using assms by (auto simp: set_schema_def seq_iffs)
  with set_ok [OF b(2)] codec_okD [OF schema_codec b(1)]
  show "schema_at A (view d') = Some cs" "k \<noteq> computedSchemaKey \<Longrightarrow> view d' k = view d k"
    by (simp_all add: schema_at_def)
qed

lemma set_schema_err:
  assumes "set_schema A d cs = (d', Some e)"
  shows "view d' = view d"
proof (cases "Marshal (env_schema A) cs")
  case (Inl x)
  with assms show ?thesis by (simp add: set_schema_def)
next
  case (Inr b)
  with assms have "kv_Set (env_ds A) d computedSchemaKey b = (d', Some e)" by (simp add: set_schema_def)
  then show ?thesis by (rule set_err)
qed

text \<open>The schema that \<open>UpdateSchemas\<close> starts from.\<close>

lemma UpdateSchemas_unfold:
  assumes "schema_at A (view d) = Some cs" and "kv_Get (env_ds A) d computedSchemaKey = Inr r"
  shows "UpdateSchemas A d i schemas =
    with_res (compute_schema (env_range A) cs (ProtoFromUUID i) schemas) d (set_schema A d)"
proof (cases "view d computedSchemaKey")
  case None
  with assms have "GetComputedSchema A d = Inl ErrNoComputedSchemas" "cs = \<lparr>Tables = [], TableNameToAgentIDs = []\<rparr>"
    by (simp_all add: GetComputedSchema_at schema_at_def)
  then show ?thesis by (simp add: UpdateSchemas_def)
next
  case (Some b)
  with assms have "GetComputedSchema A d = Inr cs"
    by (simp add: GetComputedSchema_at schema_at_def split: sum.splits)
  then show ?thesis by (simp add: UpdateSchemas_def)
qed

lemma UpdateSchemas_get_err:
  assumes "kv_Get (env_ds A) d computedSchemaKey = Inl e"
  shows "UpdateSchemas A d i schemas = (d, Some e)"
  using assms own_error(1) [of d computedSchemaKey] by (auto simp: UpdateSchemas_def GetComputedSchema_def)

lemma UpdateSchemas_result:
  assumes "schema_ok A (view d)" and "distinct (map table_Name schemas)"
  shows "(\<exists>e. kv_Get (env_ds A) d computedSchemaKey = Inl e \<and> UpdateSchemas A d i schemas = (d, Some e)) \<or>
    (\<exists>cs'. cs_wf cs' \<and> UpdateSchemas A d i schemas = set_schema A d cs' \<and>
      schema_rel cs' = {(n, b) \<in> reports A (view d). b \<noteq> ProtoFromUUID i} \<union>
        (table_Name ` set schemas \<times> {ProtoFromUUID i}) \<and>
      table_by_name (Tables cs') =
        (descriptions A (view d) ++ table_by_name schemas) |` (fst ` schema_rel cs'))"
proof (cases "kv_Get (env_ds A) d computedSchemaKey")
  case (Inl e)
  with UpdateSchemas_get_err show ?thesis by blast
next
  case (Inr r)
  obtain cs where cs: "schema_at A (view d) = Some cs" "cs_wf cs"
    using assms(1) by (auto simp: schema_ok_def split: option.splits)
  obtain cs' where cs': "compute_schema (env_range A) cs (ProtoFromUUID i) schemas = Inr cs'" "cs_wf cs'"
    "schema_rel cs' = {(n, b) \<in> schema_rel cs. b \<noteq> ProtoFromUUID i} \<union>
      (table_Name ` set schemas \<times> {ProtoFromUUID i})"
    "table_by_name (Tables cs') = (table_by_name (Tables cs) ++ table_by_name schemas) |` (fst ` schema_rel cs')"
    using compute_schema_spec [OF cs(2) assms(2) ranges] by blast
  have "UpdateSchemas A d i schemas = set_schema A d cs'"
    unfolding UpdateSchemas_unfold [OF cs(1) Inr] cs'(1) by simp
  moreover have "reports A (view d) = schema_rel cs" "descriptions A (view d) = table_by_name (Tables cs)"
    using cs(1) by (simp_all add: reports_def descriptions_def)
  ultimately show ?thesis using cs'(2,3,4) by metis
qed

lemma UpdateSchemas_ok:
  assumes "schema_ok A (view d)" and "distinct (map table_Name schemas)"
    and "UpdateSchemas A d i schemas = (d', None)"
  shows "schema_ok A (view d')"
    and "reports A (view d') = {(n, b) \<in> reports A (view d). b \<noteq> ProtoFromUUID i} \<union>
      (table_Name ` set schemas \<times> {ProtoFromUUID i})"
    and "descriptions A (view d') =
      (descriptions A (view d) ++ table_by_name schemas) |` (fst ` reports A (view d'))"
    and "k \<noteq> computedSchemaKey \<Longrightarrow> view d' k = view d k"
proof -
  obtain cs' where cs': "cs_wf cs'" "set_schema A d cs' = (d', None)"
    "schema_rel cs' = {(n, b) \<in> reports A (view d). b \<noteq> ProtoFromUUID i} \<union>
      (table_Name ` set schemas \<times> {ProtoFromUUID i})"
    "table_by_name (Tables cs') = (descriptions A (view d) ++ table_by_name schemas) |` (fst ` schema_rel cs')"
    using UpdateSchemas_result [OF assms(1,2), of i] assms(3) by auto
  note st = set_schema_ok [OF cs'(2)]
  have eq: "reports A (view d') = schema_rel cs'" "descriptions A (view d') = table_by_name (Tables cs')"
    using st(1) by (simp_all add: reports_def descriptions_def)
  show "schema_ok A (view d')" using st(1) cs'(1) by (simp add: schema_ok_def)
  show "reports A (view d') = {(n, b) \<in> reports A (view d). b \<noteq> ProtoFromUUID i} \<union>
      (table_Name ` set schemas \<times> {ProtoFromUUID i})" using eq(1) cs'(3) by simp
  show "descriptions A (view d') =
      (descriptions A (view d) ++ table_by_name schemas) |` (fst ` reports A (view d'))"
    using eq cs'(4) by simp
  show "k \<noteq> computedSchemaKey \<Longrightarrow> view d' k = view d k" by (rule st(2))
qed

lemma UpdateSchemas_err:
  assumes "schema_ok A (view d)" and "distinct (map table_Name schemas)"
    and "UpdateSchemas A d i schemas = (d', Some e)"
  shows "view d' = view d" and "kv_Get (env_ds A) d computedSchemaKey = Inl e \<or>
    (\<exists>cs. snd (set_schema A d cs) = Some e)"
proof -
  consider "kv_Get (env_ds A) d computedSchemaKey = Inl e" "d' = d" |
    cs where "set_schema A d cs = (d', Some e)"
    using UpdateSchemas_result [OF assms(1,2), of i] assms(3) by auto
  then have "view d' = view d \<and> (kv_Get (env_ds A) d computedSchemaKey = Inl e \<or>
    (\<exists>cs. snd (set_schema A d cs) = Some e))"
  proof cases
    case (2 cs)
    then have "snd (set_schema A d cs) = Some e" by simp
    with set_schema_err [OF 2] show ?thesis by blast
  qed simp
  then show "view d' = view d" and "kv_Get (env_ds A) d computedSchemaKey = Inl e \<or>
    (\<exists>cs. snd (set_schema A d cs) = Some e)" by blast+
qed

lemma GetAgents_at:
  assumes "GetAgents A d = Inr agents"
  shows "set agents = {agt. \<exists>k b info. view d k = Some b \<and> prefix agentKeyPrefix k \<and>
    length (split_on CHR ''/'' k) = 3 \<and> Unmarshal (env_agent A) b = Inr agt \<and>
    Info agt = Some info \<and> \<not> IsNilUUIDProto (AgentID info)}"
proof -
  obtain ks vs where kv: "kv_GetWithPrefix (env_ds A) d agentKeyPrefix = Inr (ks, vs)"
    and c: "collect_agents (env_agent A) ks vs = Inr agents"
    using assms by (auto simp: GetAgents_def seq_iffs)
  have l: "lists_keys (view d) (prefix agentKeyPrefix) ks vs" using kv by (rule get_prefix)
  have "set agents = {agt. \<exists>k b info. (k, b) \<in> set (zip ks vs) \<and>
      length (split_on CHR ''/'' k) = 3 \<and> Unmarshal (env_agent A) b = Inr agt \<and>
      Info agt = Some info \<and> \<not> IsNilUUIDProto (AgentID info)}"
    using c
  proof (induction "env_agent A" ks vs arbitrary: agents rule: collect_agents.induct)
    case (1 key ks val vs)
    show ?case
    proof (cases "length (split_on CHR ''/'' key) = 3")
      case True
      with 1(3) obtain pb as where "Unmarshal (env_agent A) val = Inr pb"
        "collect_agents (env_agent A) ks vs = Inr as"
        "agents = (case Info pb of None \<Rightarrow> as
          | Some info \<Rightarrow> if \<not> IsNilUUIDProto (AgentID info) then pb # as else as)"
        by (auto simp: seq_iffs split: option.splits)
      with 1(2) True show ?thesis by (auto split: option.splits)
    next
      case False
      with 1(1) [OF False] 1(3) show ?thesis by auto
    qed
  qed auto
  moreover have "(k, b) \<in> set (zip ks vs) \<longleftrightarrow> prefix agentKeyPrefix k \<and> view d k = Some b" for k b
    using l lists_keys_zip by blast
  ultimately show ?thesis by auto
qed

lemma PruneComputedSchema_ok:
  assumes inv: "schema_ok A (view d)" and agents: "GetAgents A d = Inr agents"
    and get: "kv_Get (env_ds A) d computedSchemaKey = Inr r"
    and prune: "PruneComputedSchema A d = (d', None)"
  shows "schema_ok A (view d')"
    and "reports A (view d') = {(n, b) \<in> reports A (view d).
      \<exists>agt\<in>set agents. UUIDFromProtoOrNil (Some b) = UUIDFromProtoOrNil (Option.bind (Info agt) AgentID)}"
    and "descriptions A (view d') = descriptions A (view d) |` (fst ` reports A (view d'))"
    and "k \<noteq> computedSchemaKey \<Longrightarrow> view d' k = view d k"
proof -
  let ?ids = "map (\<lambda>agt. UUIDFromProtoOrNil (Option.bind (Info agt) AgentID)) agents"
  obtain cs where cs: "schema_at A (view d) = Some cs" "cs_wf cs"
    using inv by (auto simp: schema_ok_def split: option.splits)
  note ps = prune_schema_spec [OF cs(2) ranges, of ?ids]
  have old: "reports A (view d) = schema_rel cs" "descriptions A (view d) = table_by_name (Tables cs)"
    using cs(1) by (simp_all add: reports_def descriptions_def)
  obtain c where c: "schema_at A (view d') = Some c" "cs_wf c" "\<And>k. k \<noteq> computedSchemaKey \<Longrightarrow> view d' k = view d k"
    "schema_rel c = {(n, b) \<in> schema_rel cs. UUIDFromProtoOrNil (Some b) \<in> set ?ids}"
    "table_by_name (Tables c) = table_by_name (Tables cs) |` (fst ` schema_rel c)"
  proof (cases "view d computedSchemaKey")
    case None
    with cs(1) have "cs = \<lparr>Tables = [], TableNameToAgentIDs = []\<rparr>" by (simp add: schema_at_def)
    moreover have "d' = d" using prune agents get None
      by (simp add: PruneComputedSchema_def GetComputedSchema_at)
    ultimately show thesis using that [of cs] cs by (simp add: schema_rel_def table_by_name_def)
  next
    case (Some b)
    with cs(1) get have "GetComputedSchema A d = Inr cs"
      by (simp add: GetComputedSchema_at schema_at_def split: sum.splits)
    with prune agents have "set_schema A d (prune_schema (env_range A) ?ids cs) = (d', None)"
      by (simp add: PruneComputedSchema_def)
    from set_schema_ok [OF this] ps show thesis by (intro that [of "prune_schema (env_range A) ?ids cs"])
  qed
  have new: "reports A (view d') = schema_rel c" "descriptions A (view d') = table_by_name (Tables c)"
    using c(1) by (simp_all add: reports_def descriptions_def)
  show "schema_ok A (view d')" using c by (simp add: schema_ok_def)
  show "reports A (view d') = {(n, b) \<in> reports A (view d).
      \<exists>agt\<in>set agents. UUIDFromProtoOrNil (Some b) = UUIDFromProtoOrNil (Option.bind (Info agt) AgentID)}"
    unfolding new old c(4) by auto
  show "descriptions A (view d') = descriptions A (view d) |` (fst ` reports A (view d'))"
    unfolding new old by (rule c(5))
  show "k \<noteq> computedSchemaKey \<Longrightarrow> view d' k = view d k" by (rule c(3))
qed

subsection \<open>Agents\<close>

lemma GetAgent_at:
  assumes "view d (getAgentKey (env_uuid A) i) = Some b" and "Unmarshal (env_agent A) b = Inr agt"
  shows "GetAgent A d i = bind_res (kv_Get (env_ds A) d (getAgentKey (env_uuid A) i)) (\<lambda>_. Inr (Some agt))"
  unfolding GetAgent_def by (subst bind_get) (simp add: assms)

lemma GetAgent_absent:
  assumes "view d (getAgentKey (env_uuid A) i) = None"
  shows "GetAgent A d i = bind_res (kv_Get (env_ds A) d (getAgentKey (env_uuid A) i)) (\<lambda>_. Inr None)"
  unfolding GetAgent_def by (subst bind_get) (simp add: assms)

lemma CreateAgent_ok:
  assumes "CreateAgent A d i agt = (d', None)"
  obtains b c h where "Marshal (env_agent A) agt = Inr b" "agent_host agt = Inr (c, h)"
    "view d' = view d ++ create_writes (env_uuid A) i b c h"
proof -
  let ?U = "env_uuid A"
  obtain b where b: "Marshal (env_agent A) agt = Inr b"
    using assms by (cases "Marshal (env_agent A) agt") (auto simp: CreateAgent_def marshal_agent_def)
  then have mb: "marshal_agent A agt = Inr b" by (simp add: marshal_agent_def)
  obtain c h where ch: "agent_host agt = Inr (c, h)"
    using assms mb by (cases "agent_host agt") (auto simp: CreateAgent_def)
  obtain d1 d2 d3 where
    s1: "kv_Set (env_ds A) d (getHostnamePairAgentKey (agent_hnPair c h)) (uuid_String ?U i) = (d1, None)" and
    s2: "kv_Set (env_ds A) d1 (getAgentKey ?U i) b = (d2, None)" and
    s3: "kv_Set (env_ds A) d2 (getPodNameToAgentIDKey (PodName h)) (uuid_String ?U i) = (d3, None)" and
    s4: "(if \<not> c then kv_Set (env_ds A) d3 (getKelvinAgentKey ?U i) (uuid_String ?U i) else (d3, None)) = (d', None)"
    using assms mb ch by (auto simp: CreateAgent_def Let_def and_then_None_iff)
  have "view d3 = (view d)(getHostnamePairAgentKey (agent_hnPair c h) \<mapsto> uuid_String ?U i,
      getAgentKey ?U i \<mapsto> b, getPodNameToAgentIDKey (PodName h) \<mapsto> uuid_String ?U i)"
    by (simp only: set_ok [OF s1] set_ok [OF s2] set_ok [OF s3])
  moreover have "view d' = (if c then view d3 else (view d3)(getKelvinAgentKey ?U i \<mapsto> uuid_String ?U i))"
  proof (cases c)
    case False
    with s4 have "kv_Set (env_ds A) d3 (getKelvinAgentKey ?U i) (uuid_String ?U i) = (d', None)" by simp
    from set_ok [OF this] False show ?thesis by simp
  qed (use s4 in simp)
  ultimately have "view d' = view d ++ create_writes (env_uuid A) i b c h"
    by (auto simp: create_writes_def fun_eq_iff map_add_def)
  with b ch show thesis by (rule that)
qed

lemma DeleteAgent_ok:
  assumes del: "DeleteAgent A d i = (d', None)" and ag: "agent_at A (view d) i = Some agt"
    and host: "agent_host agt = Inr (c, h)" and inv: "schema_ok A (view d)"
    and keys: "host_key_ok (agent_hnPair c h)" "path_seg (PodName h)"
  shows "schema_ok A (view d')"
    and "reports A (view d') = {(n, b) \<in> reports A (view d). b \<noteq> ProtoFromUUID i}"
    and "descriptions A (view d') = descriptions A (view d) |` (fst ` reports A (view d'))"
    and "k \<noteq> computedSchemaKey \<Longrightarrow> view d' k =
      (if k \<in> set (agent_keys (env_uuid A) i c h) \<or> prefix (getAgentDataInfoKey (env_uuid A) i) k
       then None else view d k)"
proof -
  let ?U = "env_uuid A" and ?D = "env_ds A"
  obtain b where b: "view d (getAgentKey ?U i) = Some b" "Unmarshal (env_agent A) b = Inr agt"
    using ag by (auto simp: agent_at_def split: option.splits sum.splits)
  obtain d1 d2 where
    s1: "kv_DeleteAll ?D d (agent_keys ?U i c h) = (d1, None)" and
    s2: "UpdateSchemas A d1 i [] = (d2, None)" and
    s3: "kv_DeleteWithPrefix ?D d2 (getAgentDataInfoKey ?U i) = (d', None)"
    using del b host
    by (subst (asm) DeleteAgent_def, subst (asm) Let_def, subst (asm) Let_def, subst (asm) with_get)
      (auto simp: seq_iffs agent_keys_def)
  have v1: "view d1 k = (if k \<in> set (agent_keys ?U i c h) then None else view d k)" for k
    using delete_all_ok [OF s1] by (simp add: restrict_map_def)
  have v3: "view d' k = (if prefix (getAgentDataInfoKey ?U i) k then None else view d2 k)" for k
    using delete_prefix_ok [OF s3] by (simp add: restrict_map_def)
  have "computedSchemaKey \<notin> set (agent_keys ?U i c h)"
    using keys uuids by (simp add: agent_keys_def agent_key_eqs)
  then have at1: "schema_at A (view d1) = schema_at A (view d)" by (intro schema_at_cong) (simp add: v1)
  have at3: "schema_at A (view d') = schema_at A (view d2)"
    using uuids by (intro schema_at_cong) (simp add: v3 agent_key_eqs)
  have inv1: "schema_ok A (view d1)" using inv at1 by (simp add: schema_ok_def)
  have old: "reports A (view d1) = reports A (view d)" "descriptions A (view d1) = descriptions A (view d)"
    using at1 by (simp_all add: reports_def descriptions_def)
  have new: "reports A (view d') = reports A (view d2)" "descriptions A (view d') = descriptions A (view d2)"
    "schema_ok A (view d') = schema_ok A (view d2)"
    using at3 by (simp_all add: reports_def descriptions_def schema_ok_def)
  note us = UpdateSchemas_ok [OF inv1 _ s2, simplified]
  show "schema_ok A (view d')" using us(1) new(3) by simp
  show "reports A (view d') = {(n, b) \<in> reports A (view d). b \<noteq> ProtoFromUUID i}"
    using us(2) old(1) new(1) by simp
  show "descriptions A (view d') = descriptions A (view d) |` (fst ` reports A (view d'))"
    using us(3) old(2) new by (simp add: table_by_name_def)
  show "view d' k = (if k \<in> set (agent_keys ?U i c h) \<or> prefix (getAgentDataInfoKey ?U i) k
      then None else view d k)" if "k \<noteq> computedSchemaKey"
    using us(4) [OF that] v1 [of k] v3 [of k] by simp
qed

subsection \<open>Short ids\<close>

lemma GetASID_step:
  assumes "asid_next (view d) n"
  shows "(\<exists>d'. GetASID A d = (d', Inr (of_nat n)) \<and> n < 2 ^ 32 \<and> view d' = (view d)(asidKey \<mapsto> nat_dec (n + 1))) \<or>
    (\<exists>d' e. GetASID A d = (d', Inl e) \<and> view d' = view d)"
proof (cases "kv_Get (env_ds A) d asidKey")
  case (Inl e)
  then show ?thesis by (simp add: GetASID_def)
next
  case (Inr r)
  have "(case view d asidKey of None \<Rightarrow> ''1'' | Some asid \<Rightarrow> asid) = nat_dec n"
    using assms by (auto simp: asid_next_def asid_one [symmetric] split: option.splits)
  then have p: "parse_uint 32 (case r of None \<Rightarrow> ''1'' | Some asid \<Rightarrow> asid) =
      (if n < 2 ^ 32 then Inr n else Inl (ErrMsg ''value out of range''))"
    using get [OF Inr] by (simp add: parse_uint_nat_dec)
  show ?thesis
  proof (cases "n < 2 ^ 32")
    case True
    obtain d' e where s: "kv_Set (env_ds A) d asidKey (nat_dec (n + 1)) = (d', e)" by fastforce
    show ?thesis
    proof (cases e)
      case None
      with s have "kv_Set (env_ds A) d asidKey (nat_dec (n + 1)) = (d', None)" by simp
      from set_ok [OF this] s None p True Inr show ?thesis by (simp add: GetASID_def)
    next
      case (Some x)
      with s have "kv_Set (env_ds A) d asidKey (nat_dec (n + 1)) = (d', Some x)" by simp
      from set_err [OF this] s Some p True Inr show ?thesis by (simp add: GetASID_def)
    qed
  next
    case False
    with p Inr show ?thesis by (simp add: GetASID_def)
  qed
qed

lemma asid_calls_consecutive:
  assumes "asid_next (view d) n" and "asid_calls A k d = (d', rs)"
  shows "\<exists>j\<le>k. successes rs = map of_nat [n..<n + j] \<and> (j = 0 \<or> n + j \<le> 2 ^ 32) \<and> asid_next (view d') (n + j)"
  using assms
proof (induction k arbitrary: d n d' rs)
  case (Suc k)
  obtain d1 r where g: "GetASID A d = (d1, r)" by fastforce
  obtain d2 rs2 where c: "asid_calls A k d1 = (d2, rs2)" by fastforce
  have rs: "rs = r # rs2" "d' = d2" using Suc.prems(2) g c by simp_all
  consider "r = Inr (of_nat n)" "n < 2 ^ 32" "view d1 = (view d)(asidKey \<mapsto> nat_dec (n + 1))"
    | e where "r = Inl e" "view d1 = view d"
    using GetASID_step [OF Suc.prems(1)] g by auto
  then show ?case
  proof cases
    case 1
    then have "asid_next (view d1) (n + 1)" by (simp add: asid_next_def)
    from Suc.IH [OF this c] obtain j where j: "j \<le> k" "successes rs2 = map of_nat [n + 1..<n + 1 + j]"
      "j = 0 \<or> n + 1 + j \<le> 2 ^ 32" "asid_next (view d2) (n + 1 + j)" by blast
    have "successes rs = map of_nat [n..<n + Suc j]"
      using 1(1) j(2) rs upt_conv_Cons [of n "n + Suc j"] by (simp del: upt_Suc)
    moreover have "n + Suc j \<le> 2 ^ 32" using 1(2) j(3) by auto
    ultimately show ?thesis using j rs by (intro exI [of _ "Suc j"]) simp
  next
    case 2
    then have "asid_next (view d1) n" using Suc.prems(1) by simp
    from Suc.IH [OF this c] 2 rs show ?thesis by (auto intro: le_SucI)
  qed
qed auto

subsection \<open>Processes\<close>

lemma GetProcesses_at:
  assumes "GetProcesses A d us = Inr ps"
  shows "ps = map (process_at A (view d)) us"
  using assms unfolding GetProcesses_def
proof (induction us arbitrary: ps)
  case (Cons u us)
  then show ?case
    by (subst (asm) map_res.simps, subst (asm) bind_get)
      (auto simp: seq_iffs process_at_def split: option.splits sum.splits)
qed simp

lemma update_process_ok:
  assumes up: "update_process A now d p = (d', None)"
  shows "process_at A (view d') u =
    (if process_UPID p = Some u \<and> ok (Marshal (env_process A) p) then Some p else process_at A (view d) u)"
proof (cases "Marshal (env_process A) p")
  case (Inl e)
  with up show ?thesis by (simp add: update_process_def)
next
  case (Inr b)
  with up obtain v where v: "process_UPID p = Some v"
    by (auto simp: update_process_def split: option.splits)
  have un: "Unmarshal (env_process A) b = Inr p" using process_codec Inr by (rule codec_okD)
  let ?k = "\<lambda>u. getProcessKey (StringFromUPID u)"
  have "view d' (?k u) = ((view d)(?k v \<mapsto> b)) (?k u)"
  proof (cases "process_StopTimestampNS p > 0")
    case True
    with up Inr v have "kv_SetWithTTL (env_ds A) now d (?k v) b (env_expiryDuration A) = (d', None)"
      by (simp add: update_process_def)
    then show ?thesis using set_ttl_ok process_key_unreserved by blast
  next
    case False
    with up Inr v have "kv_Set (env_ds A) d (?k v) b = (d', None)" by (simp add: update_process_def)
    from set_ok [OF this] show ?thesis by simp
  qed
  with un v Inr show ?thesis by (simp add: process_at_def process_key_inj)
qed

lemma UpdateProcesses_ok:
  assumes "UpdateProcesses A now d ps = (d', None)"
  shows "process_at A (view d') u =
    (case find (\<lambda>p. process_UPID p = Some u \<and> ok (Marshal (env_process A) p)) (rev ps) of
       None \<Rightarrow> process_at A (view d) u | Some p \<Rightarrow> Some p)"
  using assms unfolding UpdateProcesses_def
proof (induction ps arbitrary: d)
  case (Cons p ps)
  then obtain d1 where d1: "update_process A now d p = (d1, None)" "for_each (update_process A now) d1 ps = (d', None)"
    by (auto simp: seq_iffs)
  from Cons.IH [OF d1(2)] update_process_ok [OF d1(1), of u] show ?case
    by (auto simp: find_append split: option.splits)
qed simp

subsection \<open>Data summaries\<close>

lemma UpdateAgentDataInfo_ok:
  assumes "UpdateAgentDataInfo A d i info = (d', None)"
  obtains b where "Marshal (env_data_info A) info = Inr b"
    "view d' = (view d)(getAgentDataInfoKey (env_uuid A) i \<mapsto> b)"
  using assms set_ok by (auto simp: UpdateAgentDataInfo_def split: sum.splits)

end

section \<open>Reachable stores\<close>

text \<open>
  An agent is storable when nothing \<open>CreateAgent\<close> or \<open>DeleteAgent\<close> dereferences is nil and its
  host and pod names are single path elements, as Kubernetes names are. \<open>agent_op\<close> is one
  successful call of an operation that writes.
\<close>

definition storable :: "agent \<Rightarrow> bool" where
  "storable agt =
     (case agent_host agt of
        Inl _ \<Rightarrow> False
      | Inr (c, h) \<Rightarrow> host_key_ok (agent_hnPair c h) \<and> path_seg (PodName h))"

inductive agent_op :: "'d agent_env \<Rightarrow> 'd \<Rightarrow> 'd \<Rightarrow> bool" for A where
  create: "storable agt \<Longrightarrow> CreateAgent A d i agt = (d', None) \<Longrightarrow> agent_op A d d'"
| update: "storable agt \<Longrightarrow> UpdateAgent A d i agt = (d', None) \<Longrightarrow> agent_op A d d'"
| delete: "DeleteAgent A d i = (d', None) \<Longrightarrow> agent_op A d d'"
| schemas: "distinct (map table_Name ts) \<Longrightarrow> UpdateSchemas A d i ts = (d', None) \<Longrightarrow> agent_op A d d'"
| prune: "PruneComputedSchema A d = (d', None) \<Longrightarrow> agent_op A d d'"
| asid: "GetASID A d = (d', Inr n) \<Longrightarrow> agent_op A d d'"
| data: "UpdateAgentDataInfo A d i info = (d', None) \<Longrightarrow> agent_op A d d'"
| processes: "UpdateProcesses A now d ps = (d', None) \<Longrightarrow> agent_op A d d'"

definition store_inv :: "'d agent_env \<Rightarrow> (string \<rightharpoonup> string) \<Rightarrow> bool" where
  "store_inv A m \<longleftrightarrow> schema_ok A m \<and> (\<forall>i agt. agent_at A m i = Some agt \<longrightarrow> storable agt)"

lemma agent_host_storable:
  assumes "storable agt"
  obtains c h where "agent_host agt = Inr (c, h)" "host_key_ok (agent_hnPair c h)" "path_seg (PodName h)"
  using assms by (auto simp: storable_def split: sum.splits)

lemma store_inv_cong:
  assumes "store_inv A m" and "m' computedSchemaKey = m computedSchemaKey"
    and "\<And>i agt. agent_at A m' i = Some agt \<Longrightarrow> storable agt \<or> agent_at A m i = Some agt"
  shows "store_inv A m'"
  using assms schema_at_cong [of m' m A, OF assms(2)] unfolding store_inv_def schema_ok_def by metis

lemma agent_at_cong: "m' (getAgentKey (env_uuid A) i) = m (getAgentKey (env_uuid A) i) \<Longrightarrow> agent_at A m' i = agent_at A m i"
  by (simp add: agent_at_def)

lemma create_writes_at:
  assumes "uuid_ok U" and "host_key_ok (agent_hnPair c h)" and "path_seg (PodName h)"
  shows "create_writes U i b c h (getAgentKey U j) = (if j = i then Some b else None)"
    and "create_writes U i b c h computedSchemaKey = None" and "create_writes U i b c h asidKey = None"
    and "create_writes U i b c h (getAgentDataInfoKey U j) = None"
    and "create_writes U i b c h (getHostnamePairAgentKey (agent_hnPair c h)) = Some (uuid_String U i)"
    and "create_writes U i b c h (getPodNameToAgentIDKey (PodName h)) = Some (uuid_String U i)"
  using assms by (simp_all add: create_writes_def map_add_def agent_key_eqs uuid_ok_inj)

context agent_store
begin

lemma keys_distinct [simp]:
  "getAgentKey (env_uuid A) i = getAgentKey (env_uuid A) j \<longleftrightarrow> i = j"
  "getAgentKey (env_uuid A) i \<noteq> computedSchemaKey" "getAgentKey (env_uuid A) i \<noteq> asidKey"
  "getAgentKey (env_uuid A) i \<noteq> getAgentDataInfoKey (env_uuid A) j"
  "getAgentKey (env_uuid A) i \<noteq> getKelvinAgentKey (env_uuid A) j"
  "getAgentDataInfoKey (env_uuid A) i \<noteq> computedSchemaKey" "getKelvinAgentKey (env_uuid A) i \<noteq> computedSchemaKey"
  "getAgentKey (env_uuid A) i \<noteq> getProcessKey (StringFromUPID u)"
  "\<not> prefix (getAgentDataInfoKey (env_uuid A) i) (getAgentKey (env_uuid A) j)"
  "asidKey \<noteq> computedSchemaKey" "computedSchemaKey \<noteq> getProcessKey (StringFromUPID u)"
  using uuids by (simp_all add: agent_key_eqs uuid_ok_inj StringFromUPID_path_seg)

lemmas keys_distinct_sym [simp] = keys_distinct(2,3,6,7,10,11) [THEN not_sym]

lemma CreateAgent_agents:
  assumes "CreateAgent A d i agt = (d', None)" and "storable agt"
  shows "agent_at A (view d') j = (if j = i then Some agt else agent_at A (view d) j)"
    and "view d' computedSchemaKey = view d computedSchemaKey" and "view d' asidKey = view d asidKey"
proof -
  obtain b c h where cr: "Marshal (env_agent A) agt = Inr b" "agent_host agt = Inr (c, h)"
    "view d' = view d ++ create_writes (env_uuid A) i b c h"
    using assms(1) by (rule CreateAgent_ok)
  have hk: "host_key_ok (agent_hnPair c h)" "path_seg (PodName h)"
    using assms(2) cr(2) by (simp_all add: storable_def)
  have un: "Unmarshal (env_agent A) b = Inr agt" using agent_codec cr(1) by (rule codec_okD)
  show "agent_at A (view d') j = (if j = i then Some agt else agent_at A (view d) j)"
    using un create_writes_at(1) [OF uuids hk, of i b j] by (simp add: agent_at_def cr(3) map_add_def)
  show "view d' computedSchemaKey = view d computedSchemaKey" "view d' asidKey = view d asidKey"
    using create_writes_at(2,3) [OF uuids hk, of i b] by (simp_all add: cr(3) map_add_def)
qed

lemma UpdateAgent_agents:
  assumes "UpdateAgent A d i agt = (d', None)"
  shows "agent_at A (view d') j = (if j = i then Some agt else agent_at A (view d) j)"
    and "k \<noteq> getAgentKey (env_uuid A) i \<Longrightarrow> view d' k = view d k"
proof -
  obtain b where b: "Marshal (env_agent A) agt = Inr b"
    "kv_Set (env_ds A) d (getAgentKey (env_uuid A) i) b = (d', None)"
    using assms by (auto simp: UpdateAgent_def marshal_agent_def seq_iffs split: sum.splits)
  with set_ok [OF b(2)] codec_okD [OF agent_codec b(1)]
  show "agent_at A (view d') j = (if j = i then Some agt else agent_at A (view d) j)"
    "k \<noteq> getAgentKey (env_uuid A) i \<Longrightarrow> view d' k = view d k"
    by (simp_all add: agent_at_def)
qed

lemma update_process_other:
  assumes "\<not> reserved_key k" and "\<And>u. k \<noteq> getProcessKey (StringFromUPID u)"
  shows "view (fst (update_process A now d p)) k = view d k"
proof (cases "Marshal (env_process A) p")
  case (Inr b)
  show ?thesis
  proof (cases "process_UPID p")
    case (Some u)
    let ?k = "getProcessKey (StringFromUPID u)"
    obtain d1 r1 where ttl: "kv_SetWithTTL (env_ds A) now d ?k b (env_expiryDuration A) = (d1, r1)" by fastforce
    obtain d2 r2 where plain: "kv_Set (env_ds A) d ?k b = (d2, r2)" by fastforce
    have "view d1 k = view d k"
    proof (cases r1)
      case None
      with ttl set_ttl_ok [of now d ?k b _ d1 k] assms process_key_unreserved show ?thesis by simp
    next
      case (Some e)
      with ttl set_ttl_err [of now d ?k b _ d1 e] show ?thesis by simp
    qed
    moreover have "view d2 k = view d k" using set_other [OF plain] assms(2) by simp
    ultimately show ?thesis using ttl plain Inr Some by (simp add: update_process_def Let_def)
  qed (simp add: update_process_def Inr)
qed (simp add: update_process_def)

lemma UpdateProcesses_other:
  assumes "\<not> reserved_key k" and "\<And>u. k \<noteq> getProcessKey (StringFromUPID u)"
  shows "view (fst (UpdateProcesses A now d ps)) k = view d k"
  unfolding UpdateProcesses_def
  by (rule for_each_invariant [of "\<lambda>d'. view d' k = view d k"]) (simp_all add: update_process_other assms)

lemma agent_key_unreserved: "\<not> reserved_key (getAgentKey (env_uuid A) i)" "\<not> reserved_key computedSchemaKey"
  using uuids by (simp_all add: reserved_key_def agent_key_eqs)

lemma store_inv_delete:
  assumes inv: "store_inv A (view d)" and del: "DeleteAgent A d i = (d', None)"
  shows "store_inv A (view d')"
proof (cases "agent_at A (view d) i")
  case None
  show ?thesis
  proof (cases "view d (getAgentKey (env_uuid A) i)")
    case None
    with del have "d' = d"
      by (subst (asm) DeleteAgent_def, subst (asm) Let_def, subst (asm) Let_def, subst (asm) with_get)
        (auto simp: seq_iffs)
    with inv show ?thesis by simp
  next
    case (Some b)
    with None obtain e where "Unmarshal (env_agent A) b = Inl e"
      by (auto simp: agent_at_def split: sum.splits)
    with del Some have False
      by (subst (asm) DeleteAgent_def, subst (asm) Let_def, subst (asm) Let_def, subst (asm) with_get)
        (auto simp: seq_iffs)
    then show ?thesis ..
  qed
next
  case (Some agt)
  then have "storable agt" using inv by (simp add: store_inv_def)
  then obtain c h where ch: "agent_host agt = Inr (c, h)" "host_key_ok (agent_hnPair c h)" "path_seg (PodName h)"
    by (rule agent_host_storable)
  note D = DeleteAgent_ok [OF del Some ch(1) _ ch(2,3)]
  have so: "schema_ok A (view d)" using inv by (simp add: store_inv_def)
  have "storable a" if "agent_at A (view d') j = Some a" for j a
  proof -
    have "view d' (getAgentKey (env_uuid A) j) = None \<or>
        view d' (getAgentKey (env_uuid A) j) = view d (getAgentKey (env_uuid A) j)"
      using D(4) [OF so, of "getAgentKey (env_uuid A) j"] by auto
    then have "agent_at A (view d) j = Some a" using that by (auto simp: agent_at_def)
    then show ?thesis using inv by (simp add: store_inv_def)
  qed
  with D(1) [OF so] show ?thesis by (simp add: store_inv_def)
qed

lemma store_inv_step:
  assumes inv: "store_inv A (view d)" and step: "agent_op A d d'"
  shows "store_inv A (view d')"
  using step
proof cases
  case (create agt i)
  from CreateAgent_agents [OF create(2,1)] create(1) inv show ?thesis
    by (intro store_inv_cong [OF inv]) (auto split: if_splits)
next
  case (update agt i)
  from UpdateAgent_agents(1) [OF update(2)] UpdateAgent_agents(2) [OF update(2) keys_distinct(2) [THEN not_sym]]
    update(1) show ?thesis
    by (intro store_inv_cong [OF inv]) (auto split: if_splits)
next
  case (delete i)
  with inv show ?thesis by (rule store_inv_delete)
next
  case (schemas ts i)
  have "schema_ok A (view d)" using inv by (simp add: store_inv_def)
  from UpdateSchemas_ok [OF this schemas] inv show ?thesis
    by (simp add: store_inv_def agent_at_def)
next
  case prune
  have so: "schema_ok A (view d)" using inv by (simp add: store_inv_def)
  obtain agents where ag: "GetAgents A d = Inr agents"
    using prune by (auto simp: PruneComputedSchema_def seq_iffs)
  show ?thesis
  proof (cases "kv_Get (env_ds A) d computedSchemaKey")
    case (Inl e)
    with prune ag inv show ?thesis by (simp add: PruneComputedSchema_def GetComputedSchema_def)
  next
    case (Inr r)
    from PruneComputedSchema_ok [OF so ag Inr prune] inv show ?thesis
      by (simp add: store_inv_def agent_at_def)
  qed
next
  case (asid n)
  then obtain v where "kv_Set (env_ds A) d asidKey v = (d', None)"
    by (auto simp: GetASID_def split: sum.splits prod.splits option.splits)
  from set_other [OF this] show ?thesis
    by (intro store_inv_cong [OF inv]) (auto simp: agent_at_def)
next
  case (data i info)
  then obtain b where "view d' = (view d)(getAgentDataInfoKey (env_uuid A) i \<mapsto> b)"
    by (rule UpdateAgentDataInfo_ok)
  then show ?thesis by (intro store_inv_cong [OF inv]) (auto simp: agent_at_def)
next
  case (processes now ps)
  then have "d' = fst (UpdateProcesses A now d ps)" by simp
  with UpdateProcesses_other agent_key_unreserved show ?thesis
    by (intro store_inv_cong [OF inv]) (auto simp: agent_at_def)
qed

lemma store_inv_reachable:
  assumes "(agent_op A)\<^sup>*\<^sup>* d d'" and "store_inv A (view d)"
  shows "store_inv A (view d')"
  using assms by (induction rule: rtranclp_induct) (auto intro: store_inv_step)

end

section \<open>A concrete environment\<close>

definition sample_host :: host_info where
  "sample_host = \<lparr>Hostname = ''node-1'', PodName = ''kelvin-0'', HostIP = ''10.0.0.1'',
     Kernel = Some \<lparr>Version = 5, MajorRev = 4, MinorRev = 0\<rparr>, host_rest = []\<rparr>"

definition sample_id :: uuid where
  "sample_id = 18446744073709551617"

definition sample_info :: agent_info where
  "sample_info = \<lparr>AgentID = Some (ProtoFromUUID sample_id), HostInfo = Some sample_host, IPAddress = ''10.0.0.2'',
     Capabilities = Some False, Parameters = None\<rparr>"

definition sample_agent :: agent where
  "sample_agent = \<lparr>Info = Some sample_info, CreateTimeNS = 5, LastHeartbeatNS = 5, ASID = 1\<rparr>"

text \<open>An agent as older versions stored it, without capabilities.\<close>

definition older_agent :: agent where
  "older_agent = sample_agent\<lparr>Info := Some (sample_info\<lparr>Capabilities := None\<rparr>)\<rparr>"

definition sample_table :: table_info where
  "sample_table = \<lparr>table_Name = ''http_events'', table_Desc = [],
     Columns = [\<lparr>column_Name = ''latency'', column_DataType = 2, column_PatternType = 0,
       column_Desc = [], column_SemanticType = 1\<rparr>], table_rest = []\<rparr>"

definition sample_schema :: computed_schema where
  "sample_schema = \<lparr>Tables = [sample_table], TableNameToAgentIDs = [(''http_events'', [ProtoFromUUID sample_id])]\<rparr>"

definition sample_process :: process_info where
  "sample_process = \<lparr>process_Name = ''nginx'', process_UPID = Some \<lparr>High = 9, Low = 3\<rparr>,
     process_StartTimestampNS = 3, process_StopTimestampNS = 4, ProcessArgs = [], CID = ''c1''\<rparr>"

definition sample_env :: "(string, string) gomap pebble_ds agent_env" where
  "sample_env =
     \<lparr>env_ds = pebble_kv ref_pebble, env_expiryDuration = 1000000000, env_uuid = ref_uuid,
      env_agent = table_codec [sample_agent, older_agent], env_data_info = table_codec [\<lparr>MetadataInfo = None\<rparr>],
      env_schema = table_codec [sample_schema, \<lparr>Tables = [], TableNameToAgentIDs = []\<rparr>],
      env_process = table_codec [sample_process, sample_process\<lparr>process_StopTimestampNS := 0\<rparr>], env_range = rev\<rparr>"

definition sample_store :: "(string, string) gomap pebble_ds" where
  "sample_store = fst (UpdateSchemas sample_env (fst (CreateAgent sample_env (pebble_New []) sample_id sample_agent))
     sample_id [sample_table])"

interpretation sample: agent_store sample_env "pebble_view map_of"
proof (rule agent_store.intro)
  show "kv_store (env_ds sample_env) (pebble_view map_of)"
    using ref.kv_contract by (simp add: sample_env_def)
  show "agent_store_axioms sample_env"
  proof
    show "kv_Get (env_ds sample_env) d k \<noteq> Inl ErrNoComputedSchemas" for d k
      by (simp add: sample_env_def pebble_kv_def pebble_Get_def ref_pebble_def nil_db_def
          ErrNoComputedSchemas_def split: option.splits)
    show "Unmarshal (env_schema sample_env) b \<noteq> Inl ErrNoComputedSchemas" for b
      by (simp add: sample_env_def table_codec_def ErrNoComputedSchemas_def)
  qed (simp_all add: sample_env_def)
qed

lemma sample_create:
  "CreateAgent sample_env (pebble_New []) sample_id sample_agent =
     (fst (CreateAgent sample_env (pebble_New []) sample_id sample_agent), None)"
  by (rule prod_eqI) (simp, code_simp)

lemma sample_update:
  "UpdateSchemas sample_env (fst (CreateAgent sample_env (pebble_New []) sample_id sample_agent)) sample_id [sample_table]
     = (sample_store, None)"
  unfolding sample_store_def by (rule prod_eqI) (simp, code_simp)

lemma sample_delete: "DeleteAgent sample_env sample_store sample_id = (fst (DeleteAgent sample_env sample_store sample_id), None)"
  by (rule prod_eqI) (simp, code_simp)

lemma sample_facts:
  "agent_at sample_env (pebble_view map_of sample_store) sample_id = Some sample_agent"
  "agent_host sample_agent = Inr (False, sample_host)" "storable sample_agent"
  "host_key_ok (agent_hnPair False sample_host)" "path_seg (PodName sample_host)"
  "schema_ok sample_env (pebble_view map_of sample_store)"
  "schema_ok sample_env (pebble_view map_of (pebble_New []))"
  "schema_ok sample_env (pebble_view map_of (fst (CreateAgent sample_env (pebble_New []) sample_id sample_agent)))"
  by code_simp+

section \<open>Properties\<close>

text \<open>
  After a successful \<open>CreateAgent\<close> the agent is found by its id, by its host name and address,
  and by its pod name, unless the store fails to answer; every other agent, the short id counter,
  the schema and all data summaries are as before.
\<close>

theorem CreateAgent_readback:
  assumes "agent_store A view" and "CreateAgent A d i agt = (d', None)"
    and "agent_host agt = Inr (c, h)" and "host_key_ok (agent_hnPair c h)" and "path_seg (PodName h)"
  shows "GetAgent A d' i = bind_res (kv_Get (env_ds A) d' (getAgentKey (env_uuid A) i)) (\<lambda>_. Inr (Some agt)) \<and>
    GetAgentIDForHostnamePair A d' (agent_hnPair c h) =
      bind_res (kv_Get (env_ds A) d' (getHostnamePairAgentKey (agent_hnPair c h)))
        (\<lambda>_. Inr (uuid_String (env_uuid A) i)) \<and>
    GetAgentIDFromPodName A d' (PodName h) =
      bind_res (kv_Get (env_ds A) d' (getPodNameToAgentIDKey (PodName h)))
        (\<lambda>_. Inr (uuid_String (env_uuid A) i)) \<and>
    (\<forall>j. j = i \<or> agent_at A (view d') j = agent_at A (view d) j) \<and>
    view d' asidKey = view d asidKey \<and> view d' computedSchemaKey = view d computedSchemaKey \<and>
    (\<forall>j. view d' (getAgentDataInfoKey (env_uuid A) j) = view d (getAgentDataInfoKey (env_uuid A) j))"
proof -
  note u = agent_store.uuids [OF assms(1)]
  have st: "storable agt" using assms(3,4,5) by (simp add: storable_def)
  obtain b c' h' where w: "Marshal (env_agent A) agt = Inr b" "agent_host agt = Inr (c', h')"
    "view d' = view d ++ create_writes (env_uuid A) i b c' h'"
    using agent_store.CreateAgent_ok [OF assms(1,2)] by blast
  then have v: "view d' = view d ++ create_writes (env_uuid A) i b c h" using assms(3) by simp
  note cw = create_writes_at [OF u assms(4,5), of i b]
  note bind = kv_store.bind_get [OF agent_store.axioms(1) [OF assms(1)]]
  have un: "Unmarshal (env_agent A) b = Inr agt"
    using agent_store.agent_codec [OF assms(1)] w(1) by (rule codec_okD)
  show ?thesis
  proof (intro conjI allI)
    show "GetAgent A d' i = bind_res (kv_Get (env_ds A) d' (getAgentKey (env_uuid A) i)) (\<lambda>_. Inr (Some agt))"
      unfolding GetAgent_def by (subst bind) (simp add: v cw map_add_def un)
    show "GetAgentIDForHostnamePair A d' (agent_hnPair c h) =
      bind_res (kv_Get (env_ds A) d' (getHostnamePairAgentKey (agent_hnPair c h)))
        (\<lambda>_. Inr (uuid_String (env_uuid A) i))"
      unfolding GetAgentIDForHostnamePair_def by (subst bind) (simp add: v cw map_add_def)
    show "GetAgentIDFromPodName A d' (PodName h) =
      bind_res (kv_Get (env_ds A) d' (getPodNameToAgentIDKey (PodName h)))
        (\<lambda>_. Inr (uuid_String (env_uuid A) i))"
      unfolding GetAgentIDFromPodName_def by (subst bind) (simp add: v cw map_add_def)
    show "j = i \<or> agent_at A (view d') j = agent_at A (view d) j" for j
      using agent_store.CreateAgent_agents(1) [OF assms(1,2) st, of j] by simp
  qed (simp_all add: v cw map_add_def)
qed

theorem CreateAgent_readback_witness:
  "let d' = fst (CreateAgent sample_env (pebble_New []) sample_id sample_agent)
   in GetAgent sample_env d' sample_id =
        bind_res (kv_Get (env_ds sample_env) d' (getAgentKey (env_uuid sample_env) sample_id)) (\<lambda>_. Inr (Some sample_agent))"
  using CreateAgent_readback [OF sample.agent_store_axioms sample_create sample_facts(2,4,5)]
  by (simp only: Let_def)

text \<open>
  C33. After a successful \<open>DeleteAgent\<close> of a stored agent no trace of it is left: its record, its
  host, pod and Kelvin entries and its data summary are gone, no table is attributed to it and a
  table that only it reported is gone, while every other agent and its data summary is kept.
\<close>

theorem DeleteAgent_removes:
  assumes "agent_store A view" and "DeleteAgent A d i = (d', None)"
    and "agent_at A (view d) i = Some agt" and "agent_host agt = Inr (c, h)"
    and "schema_ok A (view d)" and "host_key_ok (agent_hnPair c h)" and "path_seg (PodName h)"
  shows "list_all (\<lambda>k. view d' k = None) (getAgentDataInfoKey (env_uuid A) i # agent_keys (env_uuid A) i c h) \<and>
    schema_ok A (view d') \<and>
    reports A (view d') = {(n, b) \<in> reports A (view d). b \<noteq> ProtoFromUUID i} \<and>
    descriptions A (view d') = descriptions A (view d) |` (fst ` reports A (view d')) \<and>
    (\<forall>j. j = i \<or> agent_at A (view d') j = agent_at A (view d) j \<and>
       view d' (getAgentDataInfoKey (env_uuid A) j) = view d (getAgentDataInfoKey (env_uuid A) j))"
proof -
  note u = agent_store.uuids [OF assms(1)]
  note D = agent_store.DeleteAgent_ok [OF assms(1,2,3,4,5,6,7)]
  have ks: "set (agent_keys (env_uuid A) i c h) \<inter> {computedSchemaKey} = {}"
    using assms(6,7) u by (simp add: agent_keys_def agent_key_eqs)
  have "view d' k = None" if "k \<in> set (getAgentDataInfoKey (env_uuid A) i # agent_keys (env_uuid A) i c h)" for k
  proof -
    have "k \<noteq> computedSchemaKey" using that ks u by (auto simp: agent_key_eqs)
    from D(4) [OF this] that show ?thesis by auto
  qed
  moreover have "view d' (getAgentKey (env_uuid A) j) = view d (getAgentKey (env_uuid A) j)"
    and "view d' (getAgentDataInfoKey (env_uuid A) j) = view d (getAgentDataInfoKey (env_uuid A) j)"
    if "j \<noteq> i" for j
    using that u assms(6,7) D(4) [of "getAgentKey (env_uuid A) j"] D(4) [of "getAgentDataInfoKey (env_uuid A) j"]
      uuid_ok_prefix [OF u, of i j]
    by (simp_all add: agent_keys_def agent_key_eqs uuid_ok_inj)
  ultimately show ?thesis using D(1,2,3) by (auto simp: list_all_iff agent_at_def)
qed

theorem DeleteAgent_removes_witness:
  "let v = pebble_view map_of; d' = fst (DeleteAgent sample_env sample_store sample_id)
   in (''http_events'', ProtoFromUUID sample_id) \<in> reports sample_env (v sample_store) \<and>
      reports sample_env (v d') = {(n, b) \<in> reports sample_env (v sample_store). b \<noteq> ProtoFromUUID sample_id}"
proof -
  have "schema_at sample_env (pebble_view map_of sample_store) = Some sample_schema" by code_simp
  then have "(''http_events'', ProtoFromUUID sample_id) \<in> reports sample_env (pebble_view map_of sample_store)"
    by (simp add: reports_def schema_rel_def sample_schema_def)
  with DeleteAgent_removes [OF sample.agent_store_axioms sample_delete sample_facts(1,2,6,4,5)]
  show ?thesis by (simp only: Let_def simp_thms)
qed

text \<open>
  C4. \<open>UpdateSchemas\<close> refines the abstract schema: if the table names of a report are distinct,
  afterwards the agent reports exactly these tables, every other attribution is kept, a reported
  table has its new description, and a table without agents is gone. The stored schema stays well
  formed, and no other key changes.
\<close>

theorem UpdateSchemas_refines:
  assumes "agent_store A view" and "schema_ok A (view d)" and "distinct (map table_Name schemas)"
    and "UpdateSchemas A d i schemas = (d', None)"
  shows "schema_ok A (view d') \<and>
    reports A (view d') = {(n, b) \<in> reports A (view d). b \<noteq> ProtoFromUUID i} \<union>
      (table_Name ` set schemas \<times> {ProtoFromUUID i}) \<and>
    descriptions A (view d') =
      (descriptions A (view d) ++ table_by_name schemas) |` (fst ` reports A (view d')) \<and>
    view d' |` (- {computedSchemaKey}) = view d |` (- {computedSchemaKey})"
proof -
  note U = agent_store.UpdateSchemas_ok [OF assms]
  from U(4) have "view d' |` (- {computedSchemaKey}) = view d |` (- {computedSchemaKey})"
    by (auto simp: restrict_map_def)
  with U(1,2,3) show ?thesis by blast
qed

theorem UpdateSchemas_refines_witness:
  "schema_ok sample_env (pebble_view map_of sample_store)"
  using UpdateSchemas_refines [OF sample.agent_store_axioms sample_facts(8) _ sample_update] by simp

text \<open>
  \<open>UpdateSchemas\<close> does not fail on a well-formed schema by itself: an error is an error of the
  store when it reads, or of serialising or writing the new schema, and the content is unchanged.
\<close>

theorem UpdateSchemas_errors:
  assumes "agent_store A view" and "schema_ok A (view d)" and "distinct (map table_Name schemas)"
    and "UpdateSchemas A d i schemas = (d', Some e)"
  shows "view d' = view d \<and>
    (kv_Get (env_ds A) d computedSchemaKey = Inl e \<or> (\<exists>cs. snd (set_schema A d cs) = Some e))"
  using agent_store.UpdateSchemas_err [OF assms] by blast

text \<open>The concrete codec does not know the schema of two tables, so serialising it fails.\<close>

theorem UpdateSchemas_errors_witness:
  "let ts = [sample_table, sample_table\<lparr>table_Name := ''dns_events''\<rparr>];
       r = UpdateSchemas sample_env (pebble_New []) sample_id ts
   in snd r = Some (ErrMsg ''unknown message'') \<and>
      pebble_view map_of (fst r) = pebble_view map_of (pebble_New [])"
proof -
  let ?ts = "[sample_table, sample_table\<lparr>table_Name := ''dns_events''\<rparr>]"
  let ?r = "UpdateSchemas sample_env (pebble_New []) sample_id ?ts"
  have e: "snd ?r = Some (ErrMsg ''unknown message'')" "distinct (map table_Name ?ts)" by code_simp+
  then have "?r = (fst ?r, Some (ErrMsg ''unknown message''))" by (metis prod.collapse)
  from UpdateSchemas_errors [OF sample.agent_store_axioms sample_facts(7) e(2) this] e(1)
  show ?thesis by (simp only: Let_def simp_thms)
qed

text \<open>
  \<open>PruneComputedSchema\<close> keeps the schema well formed and leaves exactly the attributions to
  agents that \<open>GetAgents\<close> returns; the tables that lose their last agent are dropped.
\<close>

theorem PruneComputedSchema_live:
  assumes "agent_store A view" and "schema_ok A (view d)" and "GetAgents A d = Inr agents"
    and "kv_Get (env_ds A) d computedSchemaKey = Inr r" and "PruneComputedSchema A d = (d', None)"
  shows "schema_ok A (view d') \<and>
    reports A (view d') = {(n, b) \<in> reports A (view d).
      \<exists>agt\<in>set agents. UUIDFromProtoOrNil (Some b) = UUIDFromProtoOrNil (Option.bind (Info agt) AgentID)} \<and>
    descriptions A (view d') = descriptions A (view d) |` (fst ` reports A (view d'))"
  using agent_store.PruneComputedSchema_ok(1,2,3) [OF assms] by blast

theorem PruneComputedSchema_live_witness:
  "let v = pebble_view map_of; d = fst (UpdateSchemas sample_env (pebble_New []) sample_id [sample_table]);
       d' = fst (PruneComputedSchema sample_env d)
   in GetAgents sample_env d = Inr [] \<and> reports sample_env (v d') = {}"
proof -
  let ?d = "fst (UpdateSchemas sample_env (pebble_New []) sample_id [sample_table])"
  have g: "GetAgents sample_env ?d = Inr []" "schema_ok sample_env (pebble_view map_of ?d)" by code_simp+
  have "ok (kv_Get (env_ds sample_env) ?d computedSchemaKey)" by code_simp
  then obtain r where r: "kv_Get (env_ds sample_env) ?d computedSchemaKey = Inr r" by (auto simp: ok_iff)
  have "snd (PruneComputedSchema sample_env ?d) = None" by code_simp
  then have p: "PruneComputedSchema sample_env ?d = (fst (PruneComputedSchema sample_env ?d), None)"
    by (metis prod.collapse)
  from PruneComputedSchema_live [OF sample.agent_store_axioms g(2,1) r p] g
  show ?thesis by (simp add: Let_def)
qed

text \<open>
  C39. Short ids are never handed out twice: the successful results of any number of calls of
  \<open>GetASID\<close>, whatever calls in between fail, are consecutive and distinct, and none reaches
  $2^{32}$.
\<close>

theorem GetASID_unique:
  assumes "agent_store A view" and "asid_next (view d) n" and "asid_calls A k d = (d', rs)"
  shows "distinct (successes rs) \<and>
    (\<exists>j\<le>k. successes rs = map of_nat [n..<n + j] \<and> (j = 0 \<or> n + j \<le> 2 ^ 32))"
proof -
  obtain j where j: "j \<le> k" "successes rs = map of_nat [n..<n + j]" "j = 0 \<or> n + j \<le> 2 ^ 32"
    using agent_store.asid_calls_consecutive [OF assms] by blast
  have "inj_on (of_nat :: nat \<Rightarrow> 32 word) {n..<n + j}"
  proof (rule inj_onI)
    fix x y assume "x \<in> {n..<n + j}" "y \<in> {n..<n + j}" and eq: "(of_nat x :: 32 word) = of_nat y"
    then have "x < 2 ^ 32" "y < 2 ^ 32" using j(3) by auto
    moreover have "unat (of_nat z :: 32 word) = z" if "z < 2 ^ 32" for z
      using take_bit_nat_eq_self [of z "LENGTH(32)"] that unfolding unsigned_of_nat by simp
    ultimately show "x = y" using eq by metis
  qed
  then have "distinct (successes rs)" by (simp add: j(2) distinct_map)
  with j show ?thesis by blast
qed

theorem GetASID_unique_witness:
  "distinct (successes (snd (asid_calls sample_env 3 (pebble_New [])))) \<and>
   successes (snd (asid_calls sample_env 3 (pebble_New []))) = [1, 2, 3]"
proof -
  have n: "asid_next (pebble_view map_of (pebble_New [])) 1"
    "successes (snd (asid_calls sample_env 3 (pebble_New []))) = [1, 2, 3]" by code_simp+
  obtain d' rs where "asid_calls sample_env 3 (pebble_New []) = (d', rs)" by fastforce
  with GetASID_unique [OF sample.agent_store_axioms n(1) this] n(2) show ?thesis by simp
qed

text \<open>
  \<open>GetProcesses\<close> returns what \<open>UpdateProcesses\<close> wrote: for every UPID the last process of the
  update that has it and could be serialised, and what was stored before where there is none.
\<close>

theorem UpdateProcesses_readback:
  assumes "agent_store A view" and "UpdateProcesses A now d ps = (d', None)"
    and "GetProcesses A d' upids = Inr rs"
  shows "rs = map (\<lambda>u. case find (\<lambda>p. process_UPID p = Some u \<and> ok (Marshal (env_process A) p)) (rev ps) of
      None \<Rightarrow> process_at A (view d) u | Some p \<Rightarrow> Some p) upids"
  using agent_store.GetProcesses_at [OF assms(1,3)] agent_store.UpdateProcesses_ok [OF assms(1,2)] by simp

theorem UpdateProcesses_readback_witness:
  "\<exists>d'. UpdateProcesses sample_env 0 (pebble_New []) [sample_process] = (d', None) \<and>
     GetProcesses sample_env d' [\<lparr>High = 9, Low = 3\<rparr>, \<lparr>High = 9, Low = 4\<rparr>] = Inr [Some sample_process, None]"
proof -
  let ?r = "UpdateProcesses sample_env 0 (pebble_New []) [sample_process]"
  let ?us = "[\<lparr>High = 9, Low = 3\<rparr>, \<lparr>High = 9, Low = 4\<rparr>]"
  have u: "?r = (fst ?r, None)" by (rule prod_eqI) (simp, code_simp)
  have "ok (GetProcesses sample_env (fst ?r) ?us)" by code_simp
  then obtain rs where rs: "GetProcesses sample_env (fst ?r) ?us = Inr rs" by (auto simp: ok_iff)
  have "map (\<lambda>u. case find (\<lambda>p. process_UPID p = Some u \<and> ok (Marshal (env_process sample_env) p)) (rev [sample_process]) of
      None \<Rightarrow> process_at sample_env (pebble_view map_of (pebble_New [])) u | Some p \<Rightarrow> Some p) ?us
    = [Some sample_process, None]" by code_simp
  with UpdateProcesses_readback [OF sample.agent_store_axioms u rs] rs
  have "GetProcesses sample_env (fst ?r) ?us = Inr [Some sample_process, None]" by simp
  with u show ?thesis by blast
qed

text \<open>
  An agent whose message has no capabilities, which the comment in \<open>DeleteAgent\<close> expects of
  older agents, crashes both \<open>CreateAgent\<close> and \<open>DeleteAgent\<close>: the field is dereferenced before it
  is compared with nil. Nothing has been written by then.
\<close>

theorem nil_capabilities_panic:
  assumes "agent_store A view" and "Info agt = Some info" and "Capabilities info = None"
    and "Marshal (env_agent A) agt = Inr b" and "agent_at A (view d) i = Some agt"
    and "kv_Get (env_ds A) d (getAgentKey (env_uuid A) i) = Inr r"
  shows "CreateAgent A d i agt = (d, Some nil_deref) \<and> DeleteAgent A d i = (d, Some nil_deref) \<and>
    is_panic nil_deref"
proof -
  have h: "agent_host agt = Inl nil_deref" using assms(2,3) by (simp add: agent_host_def)
  have "r = view d (getAgentKey (env_uuid A) i)"
    using kv_store.get [OF agent_store.axioms(1) [OF assms(1)] assms(6)] .
  with assms(5) obtain b' where "r = Some b'" "Unmarshal (env_agent A) b' = Inr agt"
    by (auto simp: agent_at_def split: option.splits sum.splits)
  with h assms(4,6) show ?thesis
    by (simp add: CreateAgent_def DeleteAgent_def marshal_agent_def nil_deref_def is_panic_def)
qed

theorem nil_capabilities_panic_witness:
  "let d = fst (UpdateAgent sample_env (pebble_New []) sample_id older_agent)
   in DeleteAgent sample_env d sample_id = (d, Some nil_deref)"
proof -
  let ?d = "fst (UpdateAgent sample_env (pebble_New []) sample_id older_agent)"
  have i: "Info older_agent = Some (sample_info\<lparr>Capabilities := None\<rparr>)" by (simp add: older_agent_def)
  have c: "Capabilities (sample_info\<lparr>Capabilities := None\<rparr>) = None" by simp
  have m: "Marshal (env_agent sample_env) older_agent = Inr ''##''"
    "agent_at sample_env (pebble_view map_of ?d) sample_id = Some older_agent"
    "kv_Get (env_ds sample_env) ?d (getAgentKey (env_uuid sample_env) sample_id) = Inr (Some ''##'')" by code_simp+
  from nil_capabilities_panic [OF sample.agent_store_axioms i c m] show ?thesis by (simp only: Let_def)
qed



end
