(* ===== verification/AgentManager.thy ===== *)
theory AgentManager
  imports AgentStoreCorrect
begin

text \<open>
  \<open>src/vizier/services/metadata/controllers/agent/agent.go\<close>: the agent manager. It writes the agent
  store and keeps, for every client that follows the agents, a tracker of the updates since the
  client last asked (\<open>GetAgentUpdates\<close>). \<open>src/vizier/utils/messagebus/topic.go\<close> names the topics.

  The state is the content of the store, the trackers and the messages handed to NATS. NATS, the
  CIDR provider and the serialised configuration message are parameters. Every wrapper first
  writes the store and then appends to the trackers, without a common lock; \<open>track_step\<close> lets a
  reader run between the two.
\<close>

section \<open>Topics\<close>

definition V2CTopic :: "string \<Rightarrow> string" where
  "V2CTopic topic = ''v2c'' @ ''.'' @ topic"

definition C2VTopic :: "string \<Rightarrow> string" where
  "C2VTopic topic = ''c2v'' @ ''.'' @ topic"

definition AgentTopic :: "string \<Rightarrow> string" where
  "AgentTopic agentID = path_Join [''Agent'', agentID]"

definition AgentUUIDTopic :: "uuid_ops \<Rightarrow> uuid \<Rightarrow> string" where
  "AgentUUIDTopic U agentID = AgentTopic (uuid_String U agentID)"

section \<open>State\<close>

datatype agent_change = ADeleted | AAgent agent | ADataInfo agent_data_info

record agent_update =
  upd_AgentID :: "uuidpb option"
  upd_Update :: agent_change

record agentUpdateTracker =
  tr_updates :: "agent_update list"
  schemaUpdated :: bool
  hasReadInitialState :: bool

record 'd manager =
  agtStore :: 'd
  agentUpdateTrackers :: "(uuid, agentUpdateTracker) gomap"
  published :: "(string \<times> string) list"

record 'd manager_env =
  me_store :: "'d agent_env"
  me_Publish :: "string \<Rightarrow> string \<Rightarrow> err option"
  me_config_msg :: "string \<Rightarrow> string \<Rightarrow> string res"
  me_service_cidr :: string
  me_pod_cidrs :: "string list"

record process_created =
  pc_UPID :: "uint128 option"
  pc_StartTimestampNS :: int
  pc_Cmdline :: string
  pc_CID :: string

record process_terminated =
  pt_UPID :: "uint128 option"
  pt_StopTimestampNS :: int

record agent_update_info =
  ui_Schema :: "table_info list"
  ProcessCreated :: "process_created list"
  ProcessTerminated :: "process_terminated list"
  ui_Data :: "agent_data_info option"
  DoesUpdateSchema :: bool

definition newAgentUpdateTracker :: agentUpdateTracker where
  "newAgentUpdateTracker = \<lparr>tr_updates = [], schemaUpdated = False, hasReadInitialState = False\<rparr>"

definition clearUpdates :: "agentUpdateTracker \<Rightarrow> agentUpdateTracker" where
  "clearUpdates t = t\<lparr>tr_updates := [], schemaUpdated := False\<rparr>"

definition NewManager :: "'d \<Rightarrow> 'd manager" where
  "NewManager d = \<lparr>agtStore = d, agentUpdateTrackers = [], published = []\<rparr>"

text \<open>The cursor is a random UUID drawn by the caller of the model.\<close>

definition NewAgentUpdateCursor :: "'d manager \<Rightarrow> uuid \<Rightarrow> 'd manager" where
  "NewAgentUpdateCursor m cursor =
     m\<lparr>agentUpdateTrackers := AList.update cursor newAgentUpdateTracker (agentUpdateTrackers m)\<rparr>"

definition DeleteAgentUpdateCursor :: "'d manager \<Rightarrow> uuid \<Rightarrow> 'd manager" where
  "DeleteAgentUpdateCursor m cursorID =
     m\<lparr>agentUpdateTrackers := AList.delete cursorID (agentUpdateTrackers m)\<rparr>"

section \<open>Writes that are tracked\<close>

text \<open>
  \<open>store_call\<close> runs an operation of the store; \<open>track\<close> appends an update to every tracker and
  \<open>track_schema\<close> marks every tracker, the locked second half of the wrappers.
\<close>

definition store_call :: "'d manager \<Rightarrow> ('d \<Rightarrow> 'd \<times> err option) \<Rightarrow> 'd manager \<times> err option" where
  "store_call m f = (case f (agtStore m) of (d', e) \<Rightarrow> (m\<lparr>agtStore := d'\<rparr>, e))"

definition track :: "agent_update \<Rightarrow> 'd manager \<Rightarrow> 'd manager" where
  "track u m = m\<lparr>agentUpdateTrackers :=
     map (\<lambda>(c, t). (c, t\<lparr>tr_updates := tr_updates t @ [u]\<rparr>)) (agentUpdateTrackers m)\<rparr>"

definition track_schema :: "'d manager \<Rightarrow> 'd manager" where
  "track_schema m = m\<lparr>agentUpdateTrackers :=
     map (\<lambda>(c, t). (c, t\<lparr>schemaUpdated := True\<rparr>)) (agentUpdateTrackers m)\<rparr>"

definition updateAgentSchemaWrapper ::
  "'d manager_env \<Rightarrow> 'd manager \<Rightarrow> uuid \<Rightarrow> table_info list \<Rightarrow> 'd manager \<times> err option" where
  "updateAgentSchemaWrapper E m agentID schema =
     and_then (store_call m (\<lambda>d. UpdateSchemas (me_store E) d agentID schema))
       (\<lambda>m. (track_schema m, None))"

definition deleteAgentWrapper :: "'d manager_env \<Rightarrow> 'd manager \<Rightarrow> uuid \<Rightarrow> 'd manager \<times> err option" where
  "deleteAgentWrapper E m agentID =
     and_then (store_call m (\<lambda>d. AgentStore.DeleteAgent (me_store E) d agentID))
       (\<lambda>m. (track \<lparr>upd_AgentID = Some (ProtoFromUUID agentID), upd_Update = ADeleted\<rparr> m, None))"

definition createAgentWrapper ::
  "'d manager_env \<Rightarrow> 'd manager \<Rightarrow> uuid \<Rightarrow> agent \<Rightarrow> 'd manager \<times> err option" where
  "createAgentWrapper E m agentID agentInfo =
     and_then (store_call m (\<lambda>d. CreateAgent (me_store E) d agentID agentInfo))
       (\<lambda>m. (track \<lparr>upd_AgentID = Some (ProtoFromUUID agentID), upd_Update = AAgent agentInfo\<rparr> m, None))"

definition updateAgentWrapper ::
  "'d manager_env \<Rightarrow> 'd manager \<Rightarrow> uuid \<Rightarrow> agent \<Rightarrow> 'd manager \<times> err option" where
  "updateAgentWrapper E m agentID agentInfo =
     and_then (store_call m (\<lambda>d. UpdateAgent (me_store E) d agentID agentInfo))
       (\<lambda>m. (track \<lparr>upd_AgentID = Some (ProtoFromUUID agentID), upd_Update = AAgent agentInfo\<rparr> m, None))"

definition updateAgentDataInfoWrapper ::
  "'d manager_env \<Rightarrow> 'd manager \<Rightarrow> uuid \<Rightarrow> agent_data_info \<Rightarrow> 'd manager \<times> err option" where
  "updateAgentDataInfoWrapper E m agentID agentDataInfo =
     and_then (store_call m (\<lambda>d. UpdateAgentDataInfo (me_store E) d agentID agentDataInfo))
       (\<lambda>m. (track \<lparr>upd_AgentID = Some (ProtoFromUUID agentID), upd_Update = ADataInfo agentDataInfo\<rparr> m, None))"

section \<open>Processes\<close>

definition handleCreatedProcesses ::
  "'d manager_env \<Rightarrow> int \<Rightarrow> 'd manager \<Rightarrow> process_created list \<Rightarrow> 'd manager \<times> err option" where
  "handleCreatedProcesses E now m processes =
     (if processes = [] then (m, None)
      else store_call m (\<lambda>d. UpdateProcesses (me_store E) now d
        (map (\<lambda>p. \<lparr>process_Name = [], process_UPID = pc_UPID p,
            process_StartTimestampNS = pc_StartTimestampNS p, process_StopTimestampNS = 0,
            ProcessArgs = pc_Cmdline p, CID = pc_CID p\<rparr>) processes)))"

fun stop_processes :: "process_info option list \<Rightarrow> process_terminated list \<Rightarrow> process_info list" where
  "stop_processes (Some p # ps) (t # ts) =
     p\<lparr>process_StopTimestampNS := pt_StopTimestampNS t\<rparr> # stop_processes ps ts"
| "stop_processes (None # ps) (t # ts) = stop_processes ps ts"
| "stop_processes _ _ = []"

definition handleTerminatedProcesses ::
  "'d manager_env \<Rightarrow> int \<Rightarrow> 'd manager \<Rightarrow> process_terminated list \<Rightarrow> 'd manager \<times> err option" where
  "handleTerminatedProcesses E now m processes =
     (if processes = [] then (m, None)
      else with_res (map_res (\<lambda>p. case pt_UPID p of None \<Rightarrow> Inl nil_deref | Some u \<Rightarrow> Inr u) processes) m (\<lambda>upids.
        with_res (GetProcesses (me_store E) (agtStore m) upids) m (\<lambda>pInfos.
          store_call m (\<lambda>d. UpdateProcesses (me_store E) now d (stop_processes pInfos processes)))))"

text \<open>An error that is only logged; a panic still ends the call.\<close>

definition log_err :: "'s \<times> err option \<Rightarrow> 's \<times> err option" where
  "log_err r = (case r of (s, Some e) \<Rightarrow> if is_panic e then (s, Some e) else (s, None) | (s, None) \<Rightarrow> (s, None))"

section \<open>The manager's operations\<close>

definition ApplyAgentUpdate ::
  "'d manager_env \<Rightarrow> int \<Rightarrow> 'd manager \<Rightarrow> uuid \<Rightarrow> agent_update_info \<Rightarrow> 'd manager \<times> err option" where
  "ApplyAgentUpdate E now m agentID info =
     with_res (GetAgent (me_store E) (agtStore m) agentID) m (\<lambda>resp.
       case resp of
         None \<Rightarrow> (m, None)
       | Some _ \<Rightarrow>
           and_then (log_err (handleCreatedProcesses E now m (ProcessCreated info))) (\<lambda>m.
           and_then (log_err (handleTerminatedProcesses E now m (ProcessTerminated info))) (\<lambda>m.
           and_then
             (case ui_Data info of
                None \<Rightarrow> (m, None)
              | Some data \<Rightarrow> updateAgentDataInfoWrapper E m agentID data) (\<lambda>m.
           if \<not> DoesUpdateSchema info then (m, None)
           else updateAgentSchemaWrapper E m agentID (ui_Schema info)))))"

text \<open>\<open>log.Fatal\<close> ends the process.\<close>

definition create_registered ::
  "'d manager_env \<Rightarrow> 'd manager \<Rightarrow> uuid \<Rightarrow> agent \<Rightarrow> 'd manager \<times> 32 word res" where
  "create_registered E m aUUID agt =
     (case createAgentWrapper E m aUUID agt of
        (m', Some e) \<Rightarrow> (m', Inl e)
      | (m', None) \<Rightarrow> (m', Inr (ASID agt)))"

definition RegisterAgent :: "'d manager_env \<Rightarrow> int \<Rightarrow> 'd manager \<Rightarrow> agent \<Rightarrow> 'd manager \<times> 32 word res" where
  "RegisterAgent E now m agt =
     (case Info agt of
        None \<Rightarrow> (m, Inl nil_deref)
      | Some info \<Rightarrow>
          if HostInfo info = None then (m, Inl nil_deref)
          else
            let aUUID = UUIDFromProtoOrNil (AgentID info) in
            case GetAgent (me_store E) (agtStore m) aUUID of
              Inl _ \<Rightarrow> (m, Inl (Panic ''fatal: Failed to get agent''))
            | Inr (Some resp) \<Rightarrow> (m, Inr (ASID resp))
            | Inr None \<Rightarrow>
                if ASID agt = 0 then
                  (case GetASID (me_store E) (agtStore m) of
                     (d', Inl e) \<Rightarrow> (m\<lparr>agtStore := d'\<rparr>, Inl e)
                   | (d', Inr asid) \<Rightarrow>
                       create_registered E (m\<lparr>agtStore := d'\<rparr>) aUUID
                         (agt\<lparr>ASID := asid, CreateTimeNS := now, LastHeartbeatNS := now\<rparr>))
                else create_registered E m aUUID agt)"

definition mgr_DeleteAgent :: "'d manager_env \<Rightarrow> 'd manager \<Rightarrow> uuid \<Rightarrow> 'd manager \<times> err option" where
  "mgr_DeleteAgent E m agentID =
     (case deleteAgentWrapper E m agentID of
        (m', None) \<Rightarrow> (m', None)
      | (m', Some _) \<Rightarrow> (m', Some (Panic ''fatal: Failed to delete agent from etcd'')))"

definition UpdateHeartbeat :: "'d manager_env \<Rightarrow> int \<Rightarrow> 'd manager \<Rightarrow> uuid \<Rightarrow> 'd manager \<times> err option" where
  "UpdateHeartbeat E now m agentID =
     with_res (GetAgent (me_store E) (agtStore m) agentID) m (\<lambda>agt.
       case agt of
         None \<Rightarrow> (m, Some (ErrMsg ''Agent does not exist''))
       | Some a \<Rightarrow> updateAgentWrapper E m agentID (a\<lparr>LastHeartbeatNS := now\<rparr>))"

definition GetActiveAgents :: "'d manager_env \<Rightarrow> 'd manager \<Rightarrow> agent list res" where
  "GetActiveAgents E m = GetAgents (me_store E) (agtStore m)"

text \<open>A message counts as published when \<open>Publish\<close> accepts it.\<close>

definition publish :: "'d manager_env \<Rightarrow> 'd manager \<Rightarrow> string \<Rightarrow> string \<Rightarrow> 'd manager \<times> err option" where
  "publish E m topic msg =
     (case me_Publish E topic msg of
        None \<Rightarrow> (m\<lparr>published := published m @ [(topic, msg)]\<rparr>, None)
      | Some e \<Rightarrow> (m, Some e))"

fun message_loop :: "'d manager_env \<Rightarrow> 'd manager \<Rightarrow> uuid list \<Rightarrow> string \<Rightarrow> err list \<Rightarrow> 'd manager \<times> err list" where
  "message_loop E m [] msg errs = (m, errs)"
| "message_loop E m (agentID # ids) msg errs =
     (case publish E m (AgentUUIDTopic (env_uuid (me_store E)) agentID) msg of
        (m', None) \<Rightarrow> message_loop E m' ids msg errs
      | (m', Some e) \<Rightarrow> message_loop E m' ids msg (errs @ [e]))"

definition MessageAgents :: "'d manager_env \<Rightarrow> 'd manager \<Rightarrow> uuid list \<Rightarrow> string \<Rightarrow> 'd manager \<times> err option" where
  "MessageAgents E m agentIDs msg =
     (case message_loop E m agentIDs msg [] of
        (m', []) \<Rightarrow> (m', None)
      | (m', e # _) \<Rightarrow> (m', Some e))"

definition MessageActiveAgents :: "'d manager_env \<Rightarrow> 'd manager \<Rightarrow> string \<Rightarrow> 'd manager \<times> err option" where
  "MessageActiveAgents E m msg =
     with_res (GetActiveAgents E m) m (\<lambda>agents.
       MessageAgents E m (map (\<lambda>a. UUIDFromProtoOrNil (Option.bind (Info a) AgentID)) agents) msg)"

definition UpdateConfig ::
  "'d manager_env \<Rightarrow> 'd manager \<Rightarrow> string \<Rightarrow> string \<Rightarrow> string \<Rightarrow> string \<Rightarrow> 'd manager \<times> err option" where
  "UpdateConfig E m ns podName key value =
     (case GetAgentIDFromPodName (me_store E) (agtStore m) podName of
        Inl _ \<Rightarrow> (m, Some (ErrMsg ''Could not find agent with the given name''))
      | Inr agentID \<Rightarrow>
          if agentID = [] then (m, Some (ErrMsg ''Could not find agent with the given name''))
          else with_res (me_config_msg E key value) m (\<lambda>msg. publish E m (AgentTopic agentID) msg))"

definition mgr_GetComputedSchema :: "'d manager_env \<Rightarrow> 'd manager \<Rightarrow> computed_schema res" where
  "mgr_GetComputedSchema E m = AgentStore.GetComputedSchema (me_store E) (agtStore m)"

definition mgr_GetAgentIDForHostnamePair :: "'d manager_env \<Rightarrow> 'd manager \<Rightarrow> HostnameIPPair \<Rightarrow> string res" where
  "mgr_GetAgentIDForHostnamePair E m hnPair = AgentStore.GetAgentIDForHostnamePair (me_store E) (agtStore m) hnPair"

definition GetServiceCIDR :: "'d manager_env \<Rightarrow> string" where
  "GetServiceCIDR E = me_service_cidr E"

definition GetPodCIDRs :: "'d manager_env \<Rightarrow> string list" where
  "GetPodCIDRs E = me_pod_cidrs E"

section \<open>Following the agents\<close>

text \<open>
  \<open>pop_tracker\<close> is the locked part of \<open>GetAgentUpdates\<close>: it takes the pending updates, clears the
  tracker and marks it as having read the initial state. \<open>read_updates\<close> is the part after the lock
  is released.
\<close>

definition pop_tracker :: "'d manager \<Rightarrow> uuid \<Rightarrow> 'd manager \<times> agentUpdateTracker res" where
  "pop_tracker m cursorID =
     (case map_of (agentUpdateTrackers m) cursorID of
        None \<Rightarrow> (m, Inl (ErrMsg ''Agent update cursor is not present in Manager''))
      | Some t \<Rightarrow>
          (m\<lparr>agentUpdateTrackers := AList.update cursorID ((clearUpdates t)\<lparr>hasReadInitialState := True\<rparr>)
               (agentUpdateTrackers m)\<rparr>, Inr t))"

definition initial_updates :: "agent list \<Rightarrow> (uuid, agent_data_info) gomap \<Rightarrow> agent_update list" where
  "initial_updates agents infos =
     map (\<lambda>a. \<lparr>upd_AgentID = Option.bind (Info a) AgentID, upd_Update = AAgent a\<rparr>) agents @
     map (\<lambda>(i, info). \<lparr>upd_AgentID = Some (ProtoFromUUID i), upd_Update = ADataInfo info\<rparr>) infos"

definition read_updates ::
  "'d manager_env \<Rightarrow> 'd \<Rightarrow> agentUpdateTracker \<Rightarrow> (agent_update list \<times> computed_schema option) res" where
  "read_updates E d t =
     bind_res
       (if \<not> hasReadInitialState t \<or> schemaUpdated t
        then bind_res (AgentStore.GetComputedSchema (me_store E) d) (\<lambda>cs. Inr (Some cs))
        else Inr None)
       (\<lambda>computedSchema.
         if hasReadInitialState t then Inr (tr_updates t, computedSchema)
         else
           bind_res (GetAgents (me_store E) d) (\<lambda>updatedAgents.
           bind_res (GetAgentsDataInfo (me_store E) d) (\<lambda>updatedAgentsDataInfo.
             Inr (initial_updates updatedAgents updatedAgentsDataInfo, computedSchema))))"

definition GetAgentUpdates ::
  "'d manager_env \<Rightarrow> 'd manager \<Rightarrow> uuid \<Rightarrow> 'd manager \<times> (agent_update list \<times> computed_schema option) res" where
  "GetAgentUpdates E m cursorID =
     (case pop_tracker m cursorID of
        (m', Inl e) \<Rightarrow> (m', Inl e)
      | (m', Inr t) \<Rightarrow> (m', read_updates E (agtStore m') t))"

end
