(* ===== verification/AgentManagerCorrect.thy ===== *)
theory AgentManagerCorrect
  imports AgentManager
begin

text \<open>
  What the clients of the agent manager see. A client replays the updates it is given
  (\<open>replay\<close>); the content of the store is \<open>content\<close>. \<open>follow_step\<close> interleaves one writer, which
  first writes the store and then appends to the trackers, with a reader, which first takes its
  tracker and then reads the store. The main result is that nothing is lost between these halves:
  at any time the client's state followed by what is still on its way to it is the content of the
  store. A second result shows the one case in which the initial state is lost for good.
\<close>

section \<open>Replaying updates\<close>

record followed =
  f_agents :: "uuidpb \<rightharpoonup> agent"
  f_infos :: "uuidpb \<rightharpoonup> agent_data_info"

definition nothing :: followed where
  "nothing = \<lparr>f_agents = Map.empty, f_infos = Map.empty\<rparr>"

definition apply_update :: "followed \<Rightarrow> agent_update \<Rightarrow> followed" where
  "apply_update s u =
     (case upd_AgentID u of
        None \<Rightarrow> s
      | Some i \<Rightarrow>
          (case upd_Update u of
             ADeleted \<Rightarrow> \<lparr>f_agents = (f_agents s)(i := None), f_infos = (f_infos s)(i := None)\<rparr>
           | AAgent a \<Rightarrow> s\<lparr>f_agents := (f_agents s)(i \<mapsto> a)\<rparr>
           | ADataInfo x \<Rightarrow> s\<lparr>f_infos := (f_infos s)(i \<mapsto> x)\<rparr>))"

definition replay :: "followed \<Rightarrow> agent_update list \<Rightarrow> followed" where
  "replay s us = foldl apply_update s us"

lemma replay_simps [simp]: "replay s [] = s" "replay s (us @ vs) = replay (replay s us) vs"
  "replay s [u] = apply_update s u"
  by (simp_all add: replay_def)

text \<open>An update list either fixes the value at an identifier or leaves it.\<close>

lemma replay_overwrites:
  "(\<forall>s. f_agents (replay s us) i = f_agents s i) \<or> (\<forall>s t. f_agents (replay s us) i = f_agents (replay t us) i)"
  "(\<forall>s. f_infos (replay s us) i = f_infos s i) \<or> (\<forall>s t. f_infos (replay s us) i = f_infos (replay t us) i)"
proof (induction us rule: rev_induct)
  case (snoc u us)
  {
    case 1
    with snoc(1) show ?case by (auto simp: apply_update_def split: option.splits agent_change.splits)
  next
    case 2
    with snoc(2) show ?case by (auto simp: apply_update_def split: option.splits agent_change.splits)
  }
qed simp_all

lemma followed_eqI: "(\<And>i. f_agents s i = f_agents t i) \<Longrightarrow> (\<And>i. f_infos s i = f_infos t i) \<Longrightarrow> s = (t :: followed)"
  by (cases s, cases t) auto

lemma replay_idem: "replay (replay s us) us = replay s us"
proof (rule followed_eqI)
  show "f_agents (replay (replay s us) us) i = f_agents (replay s us) i" for i
    using replay_overwrites(1) [of us i] by auto
  show "f_infos (replay (replay s us) us) i = f_infos (replay s us) i" for i
    using replay_overwrites(2) [of us i] by auto
qed

section \<open>The content of the store\<close>

definition proto_id :: "uuidpb \<Rightarrow> uuid" where
  "proto_id p = uuid_of_halves (HighBits p) (LowBits p)"

lemma proto_id_ProtoFromUUID [simp]: "proto_id (ProtoFromUUID i) = i"
  by (simp add: proto_id_def ProtoFromUUID_def)

lemma ProtoFromUUID_proto_id [simp]: "ProtoFromUUID (proto_id p) = p"
  by (simp add: proto_id_def ProtoFromUUID_def)

lemma proto_id_eq_iff: "proto_id p = i \<longleftrightarrow> p = ProtoFromUUID i"
  by (metis ProtoFromUUID_proto_id proto_id_ProtoFromUUID)

definition info_at :: "'d agent_env \<Rightarrow> (string \<rightharpoonup> string) \<Rightarrow> uuid \<Rightarrow> agent_data_info option" where
  "info_at A m i =
     (case m (getAgentDataInfoKey (env_uuid A) i) of
        None \<Rightarrow> None
      | Some b \<Rightarrow> (case Unmarshal (env_data_info A) b of Inl _ \<Rightarrow> None | Inr x \<Rightarrow> Some x))"

definition content :: "'d agent_env \<Rightarrow> (string \<rightharpoonup> string) \<Rightarrow> followed" where
  "content A m = \<lparr>f_agents = (\<lambda>p. agent_at A m (proto_id p)), f_infos = (\<lambda>p. info_at A m (proto_id p))\<rparr>"

text \<open>An agent under the key of its own identifier, which is not taken for nil.\<close>

definition own_id :: "uuid \<Rightarrow> agent \<Rightarrow> bool" where
  "own_id i agt \<longleftrightarrow> proto_uuid i \<and> Option.bind (Info agt) AgentID = Some (ProtoFromUUID i)"

definition agent_keys_ok :: "'d agent_env \<Rightarrow> (string \<rightharpoonup> string) \<Rightarrow> bool" where
  "agent_keys_ok A m \<longleftrightarrow>
     (\<forall>k b. m k = Some b \<longrightarrow> prefix agentKeyPrefix k \<longrightarrow>
        (\<exists>i agt. k = getAgentKey (env_uuid A) i \<and> Unmarshal (env_agent A) b = Inr agt \<and>
           own_id i agt \<and> storable agt))"

definition info_keys_ok :: "'d agent_env \<Rightarrow> (string \<rightharpoonup> string) \<Rightarrow> bool" where
  "info_keys_ok A m \<longleftrightarrow>
     (\<forall>k b. m k = Some b \<longrightarrow> prefix agentDataInfoPrefix k \<longrightarrow>
        (\<exists>i x. k = getAgentDataInfoKey (env_uuid A) i \<and> Unmarshal (env_data_info A) b = Inr x \<and>
           agent_at A m i \<noteq> None))"

definition canonical :: "'d agent_env \<Rightarrow> (string \<rightharpoonup> string) \<Rightarrow> bool" where
  "canonical A m \<longleftrightarrow> schema_ok A m \<and> agent_keys_ok A m \<and> info_keys_ok A m"

lemma agent_at_SomeI:
  "m (getAgentKey (env_uuid A) i) = Some b \<Longrightarrow> Unmarshal (env_agent A) b = Inr agt \<Longrightarrow> agent_at A m i = Some agt"
  by (simp add: agent_at_def)

lemma agent_at_SomeD:
  "agent_at A m i = Some agt \<Longrightarrow>
   \<exists>b. m (getAgentKey (env_uuid A) i) = Some b \<and> Unmarshal (env_agent A) b = Inr agt"
  by (auto simp: agent_at_def split: option.splits sum.splits)

lemmas agent_keys_okD = agent_keys_ok_def [THEN iffD1, rule_format]
lemmas info_keys_okD = info_keys_ok_def [THEN iffD1, rule_format]

context agent_store
begin

lemma agent_prefix: "prefix agentKeyPrefix (getAgentKey (env_uuid A) i)"
  "prefix agentDataInfoPrefix (getAgentDataInfoKey (env_uuid A) i)"
  "\<not> prefix agentDataInfoPrefix (getAgentKey (env_uuid A) i)"
  "\<not> prefix agentKeyPrefix (getAgentDataInfoKey (env_uuid A) i)"
  using uuids by (simp_all add: agent_key_eqs agentKeyPrefix_def agentDataInfoPrefix_def)

lemma agent_key_split:
  "split_on CHR ''/'' (getAgentKey (env_uuid A) i) = [[], ''agent'', uuid_String (env_uuid A) i]"
  "split_on CHR ''/'' (getAgentDataInfoKey (env_uuid A) i) = [[], ''agentDataInfo'', uuid_String (env_uuid A) i]"
  using uuids by (simp_all add: agent_key_eqs path_seg_split)

lemma info_key_inj: "getAgentDataInfoKey (env_uuid A) i = getAgentDataInfoKey (env_uuid A) j \<longleftrightarrow> i = j"
  using uuids by (simp add: agent_key_eqs uuid_ok_inj)

lemma agent_at_own:
  assumes "agent_keys_ok A m" and "agent_at A m i = Some agt"
  shows "own_id i agt \<and> storable agt"
proof -
  obtain b where "m (getAgentKey (env_uuid A) i) = Some b" "Unmarshal (env_agent A) b = Inr agt"
    using assms(2) by (auto simp: agent_at_def split: option.splits sum.splits)
  with agent_keys_okD [OF assms(1) this(1) agent_prefix(1)] show ?thesis by auto
qed

lemma GetAgents_canonical:
  assumes "agent_keys_ok A (view d)" and "GetAgents A d = Inr agents"
  shows "set agents = {agt. \<exists>i. agent_at A (view d) i = Some agt}"
proof -
  have "(\<exists>k b info. view d k = Some b \<and> prefix agentKeyPrefix k \<and>
      length (split_on CHR ''/'' k) = 3 \<and> Unmarshal (env_agent A) b = Inr agt \<and>
      Info agt = Some info \<and> \<not> IsNilUUIDProto (AgentID info)) \<longleftrightarrow> (\<exists>i. agent_at A (view d) i = Some agt)" for agt
  proof (intro iffI; elim exE conjE)
    fix k b info
    assume k: "view d k = Some b" "prefix agentKeyPrefix k" and u: "Unmarshal (env_agent A) b = Inr agt"
    then show "\<exists>i. agent_at A (view d) i = Some agt"
      using agent_keys_okD [OF assms(1) k] by (auto intro: agent_at_SomeI)
  next
    fix i assume at: "agent_at A (view d) i = Some agt"
    then obtain b where b: "view d (getAgentKey (env_uuid A) i) = Some b" "Unmarshal (env_agent A) b = Inr agt"
      by (auto simp: agent_at_def split: option.splits sum.splits)
    have "own_id i agt" using agent_at_own [OF assms(1) at] by simp
    then obtain info where "Info agt = Some info" "AgentID info = Some (ProtoFromUUID i)" "proto_uuid i"
      by (auto simp: own_id_def bind_eq_Some_conv)
    then show "\<exists>k b info. view d k = Some b \<and> prefix agentKeyPrefix k \<and>
      length (split_on CHR ''/'' k) = 3 \<and> Unmarshal (env_agent A) b = Inr agt \<and>
      Info agt = Some info \<and> \<not> IsNilUUIDProto (AgentID info)"
      using b agent_prefix(1) agent_key_split(1) by (fastforce simp: IsNilUUIDProto_iff UUIDFromProto_ProtoFromUUID)
  qed
  then show ?thesis unfolding GetAgents_at [OF assms(2)] by blast
qed

lemma collect_data_infos_ok:
  "length ks = length vs \<Longrightarrow> distinct ks \<Longrightarrow>
   (\<And>k v. (k, v) \<in> set (zip ks vs) \<Longrightarrow>
      \<exists>i x. k = getAgentDataInfoKey (env_uuid A) i \<and> Unmarshal (env_data_info A) v = Inr x) \<Longrightarrow>
   collect_data_infos (env_uuid A) (env_data_info A) acc ks vs = Inr infos \<Longrightarrow>
   map_of infos i =
     (case map_of (zip ks vs) (getAgentDataInfoKey (env_uuid A) i) of
        None \<Rightarrow> map_of acc i
      | Some v \<Rightarrow> (case Unmarshal (env_data_info A) v of Inl _ \<Rightarrow> None | Inr x \<Rightarrow> Some x))"
proof (induction ks vs arbitrary: acc rule: list_induct2)
  case (Cons k ks v vs)
  let ?key = "getAgentDataInfoKey (env_uuid A)"
  obtain j x where j: "k = ?key j" and x: "Unmarshal (env_data_info A) v = Inr x"
    using Cons.prems(2) [of k v] by auto
  have fs: "uuid_FromString (env_uuid A) (uuid_String (env_uuid A) j) = Inr j"
    using uuids by (simp add: uuid_ok_def)
  have c: "collect_data_infos (env_uuid A) (env_data_info A) (AList.update j x acc) ks vs = Inr infos"
    using Cons.prems(3) by (simp add: j agent_key_split(2) fs x Let_def)
  have IH: "map_of infos i = (case map_of (zip ks vs) (?key i) of
        None \<Rightarrow> map_of (AList.update j x acc) i
      | Some v \<Rightarrow> (case Unmarshal (env_data_info A) v of Inl _ \<Rightarrow> None | Inr x \<Rightarrow> Some x))"
    using Cons.prems(1,2) by (intro Cons.IH [OF _ _ c]) auto
  show ?case
  proof (cases "i = j")
    case True
    have "map_of (zip ks vs) k = None" using Cons.prems(1) Cons.hyps by simp
    with IH True j x show ?thesis by simp
  next
    case False
    then have "?key i \<noteq> k" using j by (simp add: info_key_inj)
    with IH False show ?thesis by (simp split: option.splits)
  qed
qed simp

lemma GetAgentsDataInfo_canonical:
  assumes "info_keys_ok A (view d)" and "GetAgentsDataInfo A d = Inr infos"
  shows "map_of infos = info_at A (view d)"
proof
  fix i
  let ?k = "getAgentDataInfoKey (env_uuid A) i"
  obtain ks vs where kv: "kv_GetWithPrefix (env_ds A) d agentDataInfoPrefix = Inr (ks, vs)"
    and c: "collect_data_infos (env_uuid A) (env_data_info A) [] ks vs = Inr infos"
    using assms(2) by (auto simp: GetAgentsDataInfo_def seq_iffs)
  have l: "lists_keys (view d) (prefix agentDataInfoPrefix) ks vs" using kv by (rule get_prefix)
  have dl: "distinct ks" "length ks = length vs"
    using l by (auto simp: lists_keys_def dest: map_eq_imp_length_eq)
  have mem: "(k, b) \<in> set (zip ks vs) \<longleftrightarrow> prefix agentDataInfoPrefix k \<and> view d k = Some b" for k b
    using l by (rule lists_keys_zip)
  have "map_of (zip ks vs) ?k = Some b \<longleftrightarrow> view d ?k = Some b" for b
  proof -
    have "map_of (zip ks vs) ?k = Some b \<longleftrightarrow> (?k, b) \<in> set (zip ks vs)"
      using dl by (simp add: map_of_eq_Some_iff)
    then show ?thesis using mem agent_prefix(2) by simp
  qed
  then have eq: "map_of (zip ks vs) ?k = view d ?k" by (metis not_None_eq)
  have "\<exists>i x. k = getAgentDataInfoKey (env_uuid A) i \<and> Unmarshal (env_data_info A) v = Inr x"
    if "(k, v) \<in> set (zip ks vs)" for k v
    using that info_keys_okD [OF assms(1), of k v] by (auto simp: mem)
  from collect_data_infos_ok [OF dl(2,1) this c, of i] show "map_of infos i = info_at A (view d) i"
    unfolding eq by (simp add: info_at_def split: option.splits)
qed

text \<open>The initial state a client is given is the content of the store.\<close>

lemma replay_agents_infos:
  "f_infos (replay s (map (\<lambda>a. \<lparr>upd_AgentID = Option.bind (Info a) AgentID, upd_Update = AAgent a\<rparr>) agents)) = f_infos s"
  by (induction agents rule: rev_induct) (simp_all add: apply_update_def split: option.splits)

lemma replay_agents:
  assumes "\<And>a. a \<in> set agents \<Longrightarrow> \<exists>i. own_id i a \<and> g i = Some a"
  shows "f_agents (replay s (map (\<lambda>a. \<lparr>upd_AgentID = Option.bind (Info a) AgentID, upd_Update = AAgent a\<rparr>) agents)) p =
      (if \<exists>a\<in>set agents. own_id (proto_id p) a then g (proto_id p) else f_agents s p)"
  using assms
proof (induction agents rule: rev_induct)
  case (snoc a agents)
  obtain j where j: "own_id j a" "g j = Some a" using snoc.prems [of a] by auto
  then have b: "Option.bind (Info a) AgentID = Some (ProtoFromUUID j)" by (simp add: own_id_def)
  have own: "own_id i a \<longleftrightarrow> i = j" for i using j by (auto simp: own_id_def)
  show ?case
  proof (cases "proto_id p = j")
    case True
    then have "p = ProtoFromUUID j" by (simp add: proto_id_eq_iff)
    with j True show ?thesis by (auto simp: apply_update_def b own)
  next
    case False
    then have "p \<noteq> ProtoFromUUID j" by auto
    with snoc False show ?thesis by (simp add: apply_update_def b own)
  qed
qed simp

lemma replay_infos:
  assumes "gomap_ok infos"
  shows "f_agents (replay s (map (\<lambda>(i, x). \<lparr>upd_AgentID = Some (ProtoFromUUID i), upd_Update = ADataInfo x\<rparr>) infos)) = f_agents s"
    and "f_infos (replay s (map (\<lambda>(i, x). \<lparr>upd_AgentID = Some (ProtoFromUUID i), upd_Update = ADataInfo x\<rparr>) infos)) p =
      (case map_of infos (proto_id p) of None \<Rightarrow> f_infos s p | Some x \<Rightarrow> Some x)"
  using assms
proof (induction infos arbitrary: s)
  case (Cons e infos)
  obtain j x where e: "e = (j, x)" by fastforce
  {
    case 1
    with Cons(1) show ?case by (simp add: e replay_def apply_update_def)
  next
    case 2
    have "map_of infos j = None" using 2 e by (simp add: map_of_None_keys)
    moreover have "gomap_ok infos" using 2 e by simp
    ultimately show ?case
      using Cons(2) [of "apply_update s \<lparr>upd_AgentID = Some (ProtoFromUUID j), upd_Update = ADataInfo x\<rparr>"]
      by (cases "proto_id p = j")
        (auto simp: e replay_def apply_update_def proto_id_eq_iff split: option.splits)
  }
qed simp_all

lemma collect_data_infos_distinct:
  "collect_data_infos U C acc ks vs = Inr infos \<Longrightarrow> gomap_ok acc \<Longrightarrow> gomap_ok infos"
  by (induction U C acc ks vs rule: collect_data_infos.induct)
    (auto simp: seq_iffs Let_def split: if_splits)

lemma initial_updates_content:
  assumes "canonical A (view d)" and "GetAgents A d = Inr agents" and "GetAgentsDataInfo A d = Inr infos"
  shows "replay nothing (initial_updates agents infos) = content A (view d)"
proof (rule followed_eqI)
  have ak: "agent_keys_ok A (view d)" and ik: "info_keys_ok A (view d)"
    using assms(1) by (simp_all add: canonical_def)
  have set: "set agents = {a. \<exists>i. agent_at A (view d) i = Some a}" using ak assms(2) by (rule GetAgents_canonical)
  have own: "\<exists>i. own_id i a \<and> agent_at A (view d) i = Some a" if "a \<in> set agents" for a
    using that set agent_at_own [OF ak] by blast
  have ok: "gomap_ok infos"
    using assms(3) collect_data_infos_distinct by (fastforce simp: GetAgentsDataInfo_def seq_iffs)
  have mi: "map_of infos = info_at A (view d)" using ik assms(3) by (rule GetAgentsDataInfo_canonical)
  fix p
  have "agent_at A (view d) (proto_id p) = None" if "\<not> (\<exists>a\<in>set agents. own_id (proto_id p) a)"
    using that set agent_at_own [OF ak, of "proto_id p"] by (cases "agent_at A (view d) (proto_id p)") auto
  then show "f_agents (replay nothing (initial_updates agents infos)) p = f_agents (content A (view d)) p"
    using replay_agents [OF own, of agents nothing p]
    by (auto simp: initial_updates_def replay_infos(1) [OF ok] content_def nothing_def)
  show "f_infos (replay nothing (initial_updates agents infos)) p = f_infos (content A (view d)) p"
    by (simp add: initial_updates_def replay_infos(2) [OF ok] replay_agents_infos mi content_def nothing_def
        split: option.splits)
qed

lemma read_updates_initial:
  assumes "me_store E = A" and "canonical A (view d)" and "\<not> hasReadInitialState t"
    and "read_updates E d t = Inr (us, cs)"
  shows "replay nothing us = content A (view d)"
  using assms initial_updates_content [OF assms(2)]
  by (auto simp: read_updates_def seq_iffs split: if_splits)

lemma read_updates_delta:
  assumes "hasReadInitialState t" and "read_updates E d t = Inr (us, cs)"
  shows "us = tr_updates t"
  using assms by (auto simp: read_updates_def seq_iffs split: if_splits)

end

section \<open>The writer\<close>

text \<open>
  One successful write of the store by the manager, with the update the wrapper will append to the
  trackers. Data summaries are written for agents that exist, as \<open>ApplyAgentUpdate\<close> checks.
\<close>

inductive mgr_write :: "'d agent_env \<Rightarrow> 'd \<Rightarrow> agent_update \<Rightarrow> 'd \<Rightarrow> bool" for A where
  create: "own_id i agt \<Longrightarrow> storable agt \<Longrightarrow> CreateAgent A d i agt = (d', None) \<Longrightarrow>
    mgr_write A d \<lparr>upd_AgentID = Some (ProtoFromUUID i), upd_Update = AAgent agt\<rparr> d'"
| update: "own_id i agt \<Longrightarrow> storable agt \<Longrightarrow> UpdateAgent A d i agt = (d', None) \<Longrightarrow>
    mgr_write A d \<lparr>upd_AgentID = Some (ProtoFromUUID i), upd_Update = AAgent agt\<rparr> d'"
| delete: "DeleteAgent A d i = (d', None) \<Longrightarrow>
    mgr_write A d \<lparr>upd_AgentID = Some (ProtoFromUUID i), upd_Update = ADeleted\<rparr> d'"
| info: "GetAgent A d i = Inr (Some agt) \<Longrightarrow> UpdateAgentDataInfo A d i x = (d', None) \<Longrightarrow>
    mgr_write A d \<lparr>upd_AgentID = Some (ProtoFromUUID i), upd_Update = ADataInfo x\<rparr> d'"

lemma agent_keys_ok_step:
  assumes "agent_keys_ok A m"
    and "\<And>k b. m' k = Some b \<Longrightarrow> prefix agentKeyPrefix k \<Longrightarrow> m k = Some b \<or>
      (\<exists>i agt. k = getAgentKey (env_uuid A) i \<and> Unmarshal (env_agent A) b = Inr agt \<and> own_id i agt \<and> storable agt)"
  shows "agent_keys_ok A m'"
  using assms unfolding agent_keys_ok_def by blast

lemma info_keys_ok_step:
  assumes "info_keys_ok A m"
    and "\<And>k b. m' k = Some b \<Longrightarrow> prefix agentDataInfoPrefix k \<Longrightarrow> m k = Some b \<or>
      (\<exists>i x. k = getAgentDataInfoKey (env_uuid A) i \<and> Unmarshal (env_data_info A) b = Inr x)"
    and "\<And>i b. m' (getAgentDataInfoKey (env_uuid A) i) = Some b \<Longrightarrow> agent_at A m' i = None \<Longrightarrow>
      agent_at A m i = None \<and> m (getAgentDataInfoKey (env_uuid A) i) = Some b"
    and inj: "\<And>i j. getAgentDataInfoKey (env_uuid A) i = getAgentDataInfoKey (env_uuid A) j \<Longrightarrow> i = j"
    and pre: "\<And>i. prefix agentDataInfoPrefix (getAgentDataInfoKey (env_uuid A) i)"
  shows "info_keys_ok A m'"
  unfolding info_keys_ok_def
proof (intro allI impI)
  fix k b assume k: "m' k = Some b" "prefix agentDataInfoPrefix k"
  have "\<exists>i x. k = getAgentDataInfoKey (env_uuid A) i \<and> Unmarshal (env_data_info A) b = Inr x"
    using assms(2) [OF k] info_keys_okD [OF assms(1) _ k(2), of b] by blast
  then obtain i x where ix: "k = getAgentDataInfoKey (env_uuid A) i" "Unmarshal (env_data_info A) b = Inr x"
    by blast
  have "agent_at A m' i \<noteq> None"
  proof
    assume n: "agent_at A m' i = None"
    from assms(3) [OF _ n] k(1) ix(1) have old: "agent_at A m i = None" "m k = Some b" by auto
    from info_keys_okD [OF assms(1) old(2) k(2)] ix(1) old(1) inj show False by metis
  qed
  with ix show "\<exists>i x. k = getAgentDataInfoKey (env_uuid A) i \<and> Unmarshal (env_data_info A) b = Inr x \<and>
      agent_at A m' i \<noteq> None" by blast
qed

lemma create_writes_prefix:
  assumes "uuid_ok U" and "host_key_ok (agent_hnPair c h)" and "path_seg (PodName h)"
    and "create_writes U i b c h k = Some v"
  shows "prefix agentKeyPrefix k \<Longrightarrow> k = getAgentKey U i" and "\<not> prefix agentDataInfoPrefix k"
  using assms
  by (auto simp: create_writes_def map_add_def agent_key_eqs agentKeyPrefix_def agentDataInfoPrefix_def
      split: if_splits option.splits)

context agent_store
begin

lemmas info_key_rules = info_key_inj [THEN iffD1] agent_prefix(2)

lemma create_canonical:
  assumes can: "canonical A (view d)" and own: "own_id i agt" and st: "storable agt"
    and cr: "CreateAgent A d i agt = (d', None)"
  shows "canonical A (view d')"
    and "content A (view d') =
      apply_update (content A (view d)) \<lparr>upd_AgentID = Some (ProtoFromUUID i), upd_Update = AAgent agt\<rparr>"
proof -
  obtain b c h where w: "Marshal (env_agent A) agt = Inr b" "agent_host agt = Inr (c, h)"
    "view d' = view d ++ create_writes (env_uuid A) i b c h"
    using cr by (rule CreateAgent_ok)
  have hk: "host_key_ok (agent_hnPair c h)" "path_seg (PodName h)"
    using st w(2) by (simp_all add: storable_def)
  note cwp = create_writes_prefix [OF uuids hk, of i b]
  note ag = CreateAgent_agents [OF cr st]
  have un: "Unmarshal (env_agent A) b = Inr agt" using agent_codec w(1) by (rule codec_okD)
  have val: "view d' k = (case create_writes (env_uuid A) i b c h k of None \<Rightarrow> view d k | Some v \<Rightarrow> Some v)" for k
    by (simp add: w(3) map_add_def)
  have info: "view d' (getAgentDataInfoKey (env_uuid A) j) = view d (getAgentDataInfoKey (env_uuid A) j)" for j
    using create_writes_at(4) [OF uuids hk, of i b j] val by simp
  have "agent_keys_ok A (view d')"
  proof (rule agent_keys_ok_step)
    fix k v assume k: "view d' k = Some v" "prefix agentKeyPrefix k"
    show "view d k = Some v \<or> (\<exists>i agt. k = getAgentKey (env_uuid A) i \<and> Unmarshal (env_agent A) v = Inr agt \<and>
        own_id i agt \<and> storable agt)"
    proof (cases "create_writes (env_uuid A) i b c h k")
      case None
      then show ?thesis using k val by simp
    next
      case (Some x)
      with cwp(1) [OF Some k(2)] create_writes_at(1) [OF uuids hk, of i b i] k val un own st show ?thesis by auto
    qed
  qed (use can in \<open>simp add: canonical_def\<close>)
  moreover have "info_keys_ok A (view d')"
  proof (rule info_keys_ok_step)
    fix k v assume k: "view d' k = Some v" "prefix agentDataInfoPrefix k"
    then have "create_writes (env_uuid A) i b c h k = None" using cwp(2) by (metis not_None_eq)
    then show "view d k = Some v \<or> (\<exists>i x. k = getAgentDataInfoKey (env_uuid A) i \<and> Unmarshal (env_data_info A) v = Inr x)"
      using k val by simp
  qed (use can info ag(1) in \<open>auto simp: canonical_def info_key_rules split: if_splits\<close>)
  moreover have "schema_ok A (view d')"
    using can schema_at_cong [of "view d'" "view d" A] ag(2) by (simp add: canonical_def schema_ok_def)
  ultimately show "canonical A (view d')" by (simp add: canonical_def)
  show "content A (view d') =
      apply_update (content A (view d)) \<lparr>upd_AgentID = Some (ProtoFromUUID i), upd_Update = AAgent agt\<rparr>"
    by (rule followed_eqI) (auto simp: content_def apply_update_def ag(1) info_at_def info proto_id_eq_iff)
qed

lemma update_canonical:
  assumes can: "canonical A (view d)" and own: "own_id i agt" and st: "storable agt"
    and up: "UpdateAgent A d i agt = (d', None)"
  shows "canonical A (view d')"
    and "content A (view d') =
      apply_update (content A (view d)) \<lparr>upd_AgentID = Some (ProtoFromUUID i), upd_Update = AAgent agt\<rparr>"
proof -
  note ag = UpdateAgent_agents [OF up]
  have info: "view d' (getAgentDataInfoKey (env_uuid A) j) = view d (getAgentDataInfoKey (env_uuid A) j)" for j
    by (rule ag(2)) (metis keys_distinct(4))
  have "agent_keys_ok A (view d')"
  proof (rule agent_keys_ok_step)
    fix k v assume k: "view d' k = Some v" "prefix agentKeyPrefix k"
    show "view d k = Some v \<or> (\<exists>i agt. k = getAgentKey (env_uuid A) i \<and> Unmarshal (env_agent A) v = Inr agt \<and>
        own_id i agt \<and> storable agt)"
    proof (cases "k = getAgentKey (env_uuid A) i")
      case True
      have "agent_at A (view d') i = Some agt" using ag(1) by simp
      from agent_at_SomeD [OF this] k True own st show ?thesis by auto
    qed (use k ag(2) in simp)
  qed (use can in \<open>simp add: canonical_def\<close>)
  moreover have "info_keys_ok A (view d')"
  proof (rule info_keys_ok_step)
    fix k v assume k: "view d' k = Some v" "prefix agentDataInfoPrefix k"
    then have "k \<noteq> getAgentKey (env_uuid A) i" using agent_prefix(3) by auto
    then show "view d k = Some v \<or> (\<exists>i x. k = getAgentDataInfoKey (env_uuid A) i \<and> Unmarshal (env_data_info A) v = Inr x)"
      using k ag(2) by simp
  qed (use can info ag(1) in \<open>auto simp: canonical_def info_key_rules split: if_splits\<close>)
  moreover have "schema_ok A (view d')"
    using can schema_at_cong [of "view d'" "view d" A] ag(2) [OF keys_distinct_sym(1)]
    by (simp add: canonical_def schema_ok_def)
  ultimately show "canonical A (view d')" by (simp add: canonical_def)
  show "content A (view d') =
      apply_update (content A (view d)) \<lparr>upd_AgentID = Some (ProtoFromUUID i), upd_Update = AAgent agt\<rparr>"
    by (rule followed_eqI) (auto simp: content_def apply_update_def ag(1) info_at_def info proto_id_eq_iff)
qed

lemma delete_absent:
  assumes "agent_keys_ok A (view d)" and "agent_at A (view d) i = None" and "DeleteAgent A d i = (d', None)"
  shows "d' = d"
proof -
  have n: "view d (getAgentKey (env_uuid A) i) = None"
  proof (rule ccontr)
    assume "view d (getAgentKey (env_uuid A) i) \<noteq> None"
    then obtain b where b: "view d (getAgentKey (env_uuid A) i) = Some b" by blast
    from agent_keys_okD [OF assms(1) b agent_prefix(1)] b assms(2) show False
      by (auto simp: agent_at_def)
  qed
  show ?thesis using assms(3)
    by (subst (asm) DeleteAgent_def, subst (asm) Let_def, subst (asm) Let_def, subst (asm) with_get)
      (auto simp: n seq_iffs)
qed

lemma delete_canonical:
  assumes can: "canonical A (view d)" and del: "DeleteAgent A d i = (d', None)"
  shows "canonical A (view d')"
    and "content A (view d') =
      apply_update (content A (view d)) \<lparr>upd_AgentID = Some (ProtoFromUUID i), upd_Update = ADeleted\<rparr>"
proof -
  have ak: "agent_keys_ok A (view d)" and ik: "info_keys_ok A (view d)" and so: "schema_ok A (view d)"
    using can by (simp_all add: canonical_def)
  have "canonical A (view d') \<and> content A (view d') =
      apply_update (content A (view d)) \<lparr>upd_AgentID = Some (ProtoFromUUID i), upd_Update = ADeleted\<rparr>"
  proof (cases "agent_at A (view d) i")
    case None
    then have d': "d' = d" using ak del delete_absent by blast
    have "view d (getAgentDataInfoKey (env_uuid A) i) = None"
    proof (rule ccontr)
      assume "view d (getAgentDataInfoKey (env_uuid A) i) \<noteq> None"
      then obtain b where "view d (getAgentDataInfoKey (env_uuid A) i) = Some b" by blast
      from info_keys_okD [OF ik this agent_prefix(2)] None show False by (simp add: info_key_inj)
    qed
    then have "info_at A (view d) i = None" by (simp add: info_at_def)
    with None have "content A (view d) =
      apply_update (content A (view d)) \<lparr>upd_AgentID = Some (ProtoFromUUID i), upd_Update = ADeleted\<rparr>"
      by (intro followed_eqI) (auto simp: content_def apply_update_def proto_id_eq_iff)
    with can d' show ?thesis by simp
  next
    case (Some agt)
    obtain c h where ch: "agent_host agt = Inr (c, h)" "host_key_ok (agent_hnPair c h)" "path_seg (PodName h)"
      using agent_at_own [OF ak Some] agent_host_storable by blast
    note D = DeleteAgent_ok [OF del Some ch(1) so ch(2,3)]
    have sub: "view d' k = Some v \<Longrightarrow> k \<noteq> computedSchemaKey \<Longrightarrow> view d k = Some v" for k v
      using D(4) [of k] by (auto split: if_splits)
    have other: "agent_at A (view d') j = (if j = i then None else agent_at A (view d) j)" for j
      using D(4) [of "getAgentKey (env_uuid A) j"] ch(2,3) uuids
      by (auto simp: agent_at_def agent_keys_def agent_key_eqs uuid_ok_inj)
    have infos: "view d' (getAgentDataInfoKey (env_uuid A) j) =
        (if j = i then None else view d (getAgentDataInfoKey (env_uuid A) j))" for j
      using D(4) [of "getAgentDataInfoKey (env_uuid A) j"] ch(2,3) uuids uuid_ok_prefix [OF uuids, of i j]
      by (auto simp: agent_keys_def agent_key_eqs uuid_ok_inj)
    have np: "prefix agentKeyPrefix k \<or> prefix agentDataInfoPrefix k \<Longrightarrow> k \<noteq> computedSchemaKey" for k
      by (auto simp: agentKeyPrefix_def agentDataInfoPrefix_def computedSchemaKey_def)
    have "agent_keys_ok A (view d')" using ak sub np by (intro agent_keys_ok_step [OF ak]) blast
    moreover have "info_keys_ok A (view d')"
    proof (rule info_keys_ok_step [OF ik])
      fix k v assume "view d' k = Some v" "prefix agentDataInfoPrefix k"
      with sub np have "view d k = Some v" by blast
      then show "view d k = Some v \<or> (\<exists>i x. k = getAgentDataInfoKey (env_uuid A) i \<and> Unmarshal (env_data_info A) v = Inr x)" ..
    next
      fix j v assume "view d' (getAgentDataInfoKey (env_uuid A) j) = Some v" "agent_at A (view d') j = None"
      then show "agent_at A (view d) j = None \<and> view d (getAgentDataInfoKey (env_uuid A) j) = Some v"
        using infos [of j] other [of j] by (simp split: if_splits)
    qed (auto simp: info_key_rules)
    ultimately have "canonical A (view d')" using D(1) by (simp add: canonical_def)
    moreover have "content A (view d') =
      apply_update (content A (view d)) \<lparr>upd_AgentID = Some (ProtoFromUUID i), upd_Update = ADeleted\<rparr>"
      by (rule followed_eqI)
        (auto simp: content_def apply_update_def other info_at_def infos proto_id_eq_iff)
    ultimately show ?thesis ..
  qed
  then show "canonical A (view d')" and "content A (view d') =
      apply_update (content A (view d)) \<lparr>upd_AgentID = Some (ProtoFromUUID i), upd_Update = ADeleted\<rparr>"
    by blast+
qed

lemma info_canonical:
  assumes can: "canonical A (view d)" and ag: "GetAgent A d i = Inr (Some agt)"
    and up: "UpdateAgentDataInfo A d i x = (d', None)"
  shows "canonical A (view d')"
    and "content A (view d') =
      apply_update (content A (view d)) \<lparr>upd_AgentID = Some (ProtoFromUUID i), upd_Update = ADataInfo x\<rparr>"
proof -
  let ?k = "getAgentDataInfoKey (env_uuid A) i"
  obtain b where b: "Marshal (env_data_info A) x = Inr b" "view d' = (view d)(?k \<mapsto> b)"
    using up by (rule UpdateAgentDataInfo_ok)
  have un: "Unmarshal (env_data_info A) b = Inr x" using data_codec b(1) by (rule codec_okD)
  have at: "agent_at A (view d) i = Some agt"
    using ag unfolding GetAgent_def
    by (subst (asm) bind_get) (auto simp: seq_iffs agent_at_def split: option.splits)
  have ags: "agent_at A (view d') j = agent_at A (view d) j" for j
    by (simp add: agent_at_def b(2))
  have "agent_keys_ok A (view d')"
  proof (rule agent_keys_ok_step)
    fix k v assume "view d' k = Some v" "prefix agentKeyPrefix k"
    moreover have "k \<noteq> ?k" using \<open>prefix agentKeyPrefix k\<close> agent_prefix(4) by auto
    ultimately have "view d k = Some v" by (simp add: b(2))
    then show "view d k = Some v \<or> (\<exists>i agt. k = getAgentKey (env_uuid A) i \<and> Unmarshal (env_agent A) v = Inr agt \<and>
        own_id i agt \<and> storable agt)" ..
  qed (use can in \<open>simp add: canonical_def\<close>)
  moreover have "info_keys_ok A (view d')"
  proof (rule info_keys_ok_step)
    fix k v assume "view d' k = Some v" "prefix agentDataInfoPrefix k"
    then show "view d k = Some v \<or> (\<exists>i x. k = getAgentDataInfoKey (env_uuid A) i \<and> Unmarshal (env_data_info A) v = Inr x)"
      using un by (cases "k = ?k") (auto simp: b(2))
  next
    fix j v assume v: "view d' (getAgentDataInfoKey (env_uuid A) j) = Some v" and "agent_at A (view d') j = None"
    then have n: "agent_at A (view d) j = None" by (simp only: ags)
    with at have "j \<noteq> i" by auto
    with n v show "agent_at A (view d) j = None \<and> view d (getAgentDataInfoKey (env_uuid A) j) = Some v"
      by (simp add: b(2) info_key_inj)
  qed (use can in \<open>auto simp: canonical_def info_key_rules\<close>)
  moreover have "schema_ok A (view d')"
    using can schema_at_cong [of "view d'" "view d" A] by (simp add: canonical_def schema_ok_def b(2))
  ultimately show "canonical A (view d')" by (simp add: canonical_def)
  show "content A (view d') =
      apply_update (content A (view d)) \<lparr>upd_AgentID = Some (ProtoFromUUID i), upd_Update = ADataInfo x\<rparr>"
  proof (rule followed_eqI)
    show "f_agents (content A (view d')) p = f_agents (apply_update (content A (view d))
        \<lparr>upd_AgentID = Some (ProtoFromUUID i), upd_Update = ADataInfo x\<rparr>) p" for p
      by (simp add: content_def apply_update_def ags)
    show "f_infos (content A (view d')) p = f_infos (apply_update (content A (view d))
        \<lparr>upd_AgentID = Some (ProtoFromUUID i), upd_Update = ADataInfo x\<rparr>) p" for p
      by (auto simp: content_def apply_update_def info_at_def b(2) un info_key_inj proto_id_eq_iff)
  qed
qed

lemma mgr_write_content:
  assumes "mgr_write A d u d'" and "canonical A (view d)"
  shows "canonical A (view d') \<and> content A (view d') = apply_update (content A (view d)) u"
  using assms(1)
proof cases
  case (create i agt)
  with create_canonical assms(2) show ?thesis by blast
next
  case (update i agt)
  with update_canonical assms(2) show ?thesis by blast
next
  case (delete i)
  with delete_canonical assms(2) show ?thesis by blast
next
  case (info i agt x)
  with info_canonical assms(2) show ?thesis by blast
qed

end

section \<open>The reader\<close>

text \<open>
  The state of one writer and one client: the manager, the update the writer has stored and not
  yet appended to the trackers, the tracker the reader has taken and not yet completed, and what
  the client has replayed so far (nothing before its first successful call).
\<close>

record 'd following =
  fo_mgr :: "'d manager"
  fo_inflight :: "agent_update option"
  fo_taken :: "agentUpdateTracker option"
  fo_client :: "followed option"

inductive follow_step :: "'d manager_env \<Rightarrow> uuid \<Rightarrow> 'd following \<Rightarrow> 'd following \<Rightarrow> bool" for E cur where
  stored: "fo_inflight s = None \<Longrightarrow> mgr_write (me_store E) (agtStore (fo_mgr s)) u d' \<Longrightarrow>
    follow_step E cur s (s\<lparr>fo_mgr := (fo_mgr s)\<lparr>agtStore := d'\<rparr>, fo_inflight := Some u\<rparr>)"
| appended: "fo_inflight s = Some u \<Longrightarrow>
    follow_step E cur s (s\<lparr>fo_mgr := track u (fo_mgr s), fo_inflight := None\<rparr>)"
| schemas: "distinct (map table_Name ts) \<Longrightarrow>
    UpdateSchemas (me_store E) (agtStore (fo_mgr s)) i ts = (d', None) \<Longrightarrow>
    follow_step E cur s (s\<lparr>fo_mgr := track_schema ((fo_mgr s)\<lparr>agtStore := d'\<rparr>)\<rparr>)"
| taken: "fo_taken s = None \<Longrightarrow> pop_tracker (fo_mgr s) cur = (m', Inr t) \<Longrightarrow>
    follow_step E cur s (s\<lparr>fo_mgr := m', fo_taken := Some t\<rparr>)"
| completed: "fo_taken s = Some t \<Longrightarrow> read_updates E (agtStore (fo_mgr s)) t = Inr (us, cs) \<Longrightarrow>
    follow_step E cur s (s\<lparr>fo_taken := None,
      fo_client := Some (replay (case fo_client s of None \<Rightarrow> nothing | Some c \<Rightarrow> c) us)\<rparr>)"

definition inflight_list :: "'d following \<Rightarrow> agent_update list" where
  "inflight_list s = (case fo_inflight s of None \<Rightarrow> [] | Some u \<Rightarrow> [u])"

text \<open>What is on its way to the client: taken, pending in its tracker, or not yet appended.\<close>

definition underway :: "uuid \<Rightarrow> 'd following \<Rightarrow> agent_update list" where
  "underway cur s =
     (case fo_taken s of None \<Rightarrow> [] | Some t \<Rightarrow> tr_updates t) @
     (case map_of (agentUpdateTrackers (fo_mgr s)) cur of None \<Rightarrow> [] | Some t \<Rightarrow> tr_updates t) @
     inflight_list s"

definition follow_inv :: "'d manager_env \<Rightarrow> ('d \<Rightarrow> string \<rightharpoonup> string) \<Rightarrow> uuid \<Rightarrow> 'd following \<Rightarrow> bool" where
  "follow_inv E view cur s \<longleftrightarrow>
     canonical (me_store E) (view (agtStore (fo_mgr s))) \<and>
     (\<exists>t. map_of (agentUpdateTrackers (fo_mgr s)) cur = Some t \<and>
        (case (fo_client s, fo_taken s) of
           (Some c, tk) \<Rightarrow>
             hasReadInitialState t \<and> (\<forall>t'. tk = Some t' \<longrightarrow> hasReadInitialState t') \<and>
             replay c (underway cur s) = content (me_store E) (view (agtStore (fo_mgr s)))
         | (None, None) \<Rightarrow>
             \<not> hasReadInitialState t \<and>
             (\<exists>x. content (me_store E) (view (agtStore (fo_mgr s))) = replay x (inflight_list s))
         | (None, Some t') \<Rightarrow>
             hasReadInitialState t \<and> \<not> hasReadInitialState t' \<and>
             (\<exists>x. content (me_store E) (view (agtStore (fo_mgr s))) =
                replay x (tr_updates t @ inflight_list s))))"

lemma map_of_map_values: "map_of (map (\<lambda>(k, v). (k, f v)) xs) k = map_option f (map_of xs k)"
  by (induction xs) auto

lemma track_simps [simp]:
  "agtStore (track u m) = agtStore m" "agtStore (track_schema m) = agtStore m"
  "map_of (agentUpdateTrackers (track u m)) c =
     map_option (\<lambda>t. t\<lparr>tr_updates := tr_updates t @ [u]\<rparr>) (map_of (agentUpdateTrackers m) c)"
  "map_of (agentUpdateTrackers (track_schema m)) c =
     map_option (\<lambda>t. t\<lparr>schemaUpdated := True\<rparr>) (map_of (agentUpdateTrackers m) c)"
  by (simp_all add: track_def track_schema_def map_of_map_values)

lemma pop_tracker_Inr:
  assumes "pop_tracker m c = (m', Inr t)"
  shows "map_of (agentUpdateTrackers m) c = Some t" and "agtStore m' = agtStore m"
    and "map_of (agentUpdateTrackers m') c = Some ((clearUpdates t)\<lparr>hasReadInitialState := True\<rparr>)"
  using assms by (auto simp: pop_tracker_def split: option.splits)

lemma follow_invI_client:
  assumes "canonical (me_store E) (view (agtStore (fo_mgr s)))"
    and "map_of (agentUpdateTrackers (fo_mgr s)) cur = Some t" and "fo_client s = Some c"
    and "hasReadInitialState t" and "\<And>t'. fo_taken s = Some t' \<Longrightarrow> hasReadInitialState t'"
    and "replay c (underway cur s) = content (me_store E) (view (agtStore (fo_mgr s)))"
  shows "follow_inv E view cur s"
  using assms by (simp add: follow_inv_def)

context agent_store
begin

lemma schema_step_content:
  assumes "canonical A (view d)" and "distinct (map table_Name ts)" and "UpdateSchemas A d i ts = (d', None)"
  shows "canonical A (view d')" and "content A (view d') = content A (view d)"
proof -
  have so: "schema_ok A (view d)" using assms(1) by (simp add: canonical_def)
  note U = UpdateSchemas_ok [OF so assms(2,3)]
  have np: "prefix agentKeyPrefix k \<or> prefix agentDataInfoPrefix k \<Longrightarrow> k \<noteq> computedSchemaKey" for k
    by (auto simp: agentKeyPrefix_def agentDataInfoPrefix_def computedSchemaKey_def)
  have same: "prefix agentKeyPrefix k \<or> prefix agentDataInfoPrefix k \<Longrightarrow> view d' k = view d k" for k
    using U(4) np by blast
  have at: "agent_at A (view d') j = agent_at A (view d) j" "info_at A (view d') j = info_at A (view d) j" for j
    using same agent_prefix by (simp_all add: agent_at_def info_at_def)
  show "content A (view d') = content A (view d)" by (simp add: content_def at)
  have "agent_keys_ok A (view d')"
    using assms(1) same unfolding canonical_def agent_keys_ok_def by metis
  moreover have "info_keys_ok A (view d')"
    using assms(1) same at(1) agent_prefix(2) unfolding canonical_def info_keys_ok_def by metis
  ultimately show "canonical A (view d')" using U(1) by (simp add: canonical_def)
qed

lemma follow_inv_step:
  assumes E: "me_store E = A" and inv: "follow_inv E view cur s" and step: "follow_step E cur s s'"
  shows "follow_inv E view cur s'"
proof -
  have can: "canonical A (view (agtStore (fo_mgr s)))" using inv E by (simp add: follow_inv_def)
  obtain t where t: "map_of (agentUpdateTrackers (fo_mgr s)) cur = Some t" using inv by (auto simp: follow_inv_def)
  show ?thesis using step
  proof cases
    case (stored u d')
    then have w: "mgr_write A (agtStore (fo_mgr s)) u d'" using E by simp
    from mgr_write_content [OF w can] have c: "canonical A (view d')"
      "content A (view d') = apply_update (content A (view (agtStore (fo_mgr s)))) u" by blast+
    show ?thesis
    proof (cases "fo_client s")
      case (Some cl)
      with inv E t c stored show ?thesis
        by (auto simp: follow_inv_def underway_def inflight_list_def split: option.splits)
    next
      case None
      with inv E t stored c show ?thesis
        by (auto simp: follow_inv_def inflight_list_def split: option.splits)
    qed
  next
    case (appended u)
    with inv E t show ?thesis
      by (auto simp: follow_inv_def underway_def inflight_list_def split: option.splits)
  next
    case (schemas ts i d')
    then have u: "UpdateSchemas A (agtStore (fo_mgr s)) i ts = (d', None)" using E by simp
    from schema_step_content [OF can schemas(2) u] inv E t schemas show ?thesis
      by (auto simp: follow_inv_def underway_def inflight_list_def split: option.splits)
  next
    case (taken m' t')
    from pop_tracker_Inr [OF taken(3)] inv E t taken show ?thesis
      by (auto simp: follow_inv_def underway_def inflight_list_def clearUpdates_def split: option.splits)
  next
    case (completed t' us cs)
    show ?thesis
    proof (cases "fo_client s")
      case (Some cl)
      with inv completed have "hasReadInitialState t'" by (auto simp: follow_inv_def)
      from read_updates_delta [OF this completed(3)] Some inv E t completed show ?thesis
        by (auto simp: follow_inv_def underway_def inflight_list_def)
    next
      case None
      with inv completed t have ni: "\<not> hasReadInitialState t'" and ri: "hasReadInitialState t"
        by (auto simp: follow_inv_def)
      obtain x where x: "content A (view (agtStore (fo_mgr s))) = replay x (tr_updates t @ inflight_list s)"
        using None inv completed t E by (auto simp: follow_inv_def)
      have cl: "replay nothing us = content A (view (agtStore (fo_mgr s)))"
        using E can ni completed(3) by (rule read_updates_initial)
      have "replay (content A (view (agtStore (fo_mgr s)))) (tr_updates t @ inflight_list s) =
          content A (view (agtStore (fo_mgr s)))"
        unfolding x by (rule replay_idem)
      with None completed can E t ri cl show ?thesis
        by (intro follow_invI_client [of E view _ cur t "replay nothing us"])
          (simp_all add: underway_def inflight_list_def)
    qed
  qed
qed

lemma follow_inv_reachable:
  assumes "me_store E = A" and "(follow_step E cur)\<^sup>*\<^sup>* s s'" and "follow_inv E view cur s"
  shows "follow_inv E view cur s'"
  using assms(2,3) by (induction rule: rtranclp_induct) (auto intro: follow_inv_step [OF assms(1)])

end

section \<open>The calls of the manager as steps\<close>

lemma store_call_None_iff:
  "store_call m f = (m', None) \<longleftrightarrow> (\<exists>d'. f (agtStore m) = (d', None) \<and> m' = m\<lparr>agtStore := d'\<rparr>)"
  by (auto simp: store_call_def split: prod.splits)

lemma createAgentWrapper_step:
  assumes "createAgentWrapper E m i agt = (m', None)" and "own_id i agt" and "storable agt"
  shows "\<exists>d'. mgr_write (me_store E) (agtStore m) \<lparr>upd_AgentID = Some (ProtoFromUUID i), upd_Update = AAgent agt\<rparr> d' \<and>
    m' = track \<lparr>upd_AgentID = Some (ProtoFromUUID i), upd_Update = AAgent agt\<rparr> (m\<lparr>agtStore := d'\<rparr>)"
  using assms by (auto simp: createAgentWrapper_def seq_iffs store_call_None_iff intro: mgr_write.create)

lemma updateAgentWrapper_step:
  assumes "updateAgentWrapper E m i agt = (m', None)" and "own_id i agt" and "storable agt"
  shows "\<exists>d'. mgr_write (me_store E) (agtStore m) \<lparr>upd_AgentID = Some (ProtoFromUUID i), upd_Update = AAgent agt\<rparr> d' \<and>
    m' = track \<lparr>upd_AgentID = Some (ProtoFromUUID i), upd_Update = AAgent agt\<rparr> (m\<lparr>agtStore := d'\<rparr>)"
  using assms by (auto simp: updateAgentWrapper_def seq_iffs store_call_None_iff intro: mgr_write.update)

lemma mgr_DeleteAgent_step:
  assumes "mgr_DeleteAgent E m i = (m', None)"
  shows "\<exists>d'. mgr_write (me_store E) (agtStore m) \<lparr>upd_AgentID = Some (ProtoFromUUID i), upd_Update = ADeleted\<rparr> d' \<and>
    m' = track \<lparr>upd_AgentID = Some (ProtoFromUUID i), upd_Update = ADeleted\<rparr> (m\<lparr>agtStore := d'\<rparr>)"
  using assms
  by (auto simp: mgr_DeleteAgent_def deleteAgentWrapper_def seq_iffs store_call_None_iff
      split: prod.splits option.splits intro: mgr_write.delete)

context agent_store
begin

lemma GetAgent_Some:
  assumes "GetAgent A d i = Inr r"
  shows "agent_at A (view d) i = r"
  using assms unfolding GetAgent_def
  by (subst (asm) bind_get) (auto simp: seq_iffs agent_at_def split: option.splits)

lemma UpdateHeartbeat_step:
  assumes "me_store E = A" and "canonical A (view (agtStore m))" and "UpdateHeartbeat E now m i = (m', None)"
  obtains agt u d' where "agent_at A (view (agtStore m)) i = Some agt"
    "u = \<lparr>upd_AgentID = Some (ProtoFromUUID i), upd_Update = AAgent (agt\<lparr>LastHeartbeatNS := now\<rparr>)\<rparr>"
    "mgr_write A (agtStore m) u d'" "m' = track u (m\<lparr>agtStore := d'\<rparr>)"
proof -
  obtain agt where g: "GetAgent A (agtStore m) i = Inr (Some agt)"
    and w: "updateAgentWrapper E m i (agt\<lparr>LastHeartbeatNS := now\<rparr>) = (m', None)"
    using assms(1,3) by (auto simp: UpdateHeartbeat_def seq_iffs split: option.splits)
  have at: "agent_at A (view (agtStore m)) i = Some agt" using g by (rule GetAgent_Some)
  have "own_id i agt \<and> storable agt"
    using assms(2) at by (intro agent_at_own [of "view (agtStore m)"]) (simp_all add: canonical_def)
  then have "own_id i (agt\<lparr>LastHeartbeatNS := now\<rparr>)" "storable (agt\<lparr>LastHeartbeatNS := now\<rparr>)"
    by (simp_all add: own_id_def storable_def agent_host_def)
  from updateAgentWrapper_step [OF w this] assms(1) at that show thesis by blast
qed

lemma RegisterAgent_new:
  assumes E: "me_store E = A" and info: "Info agt = Some info" and i: "i = UUIDFromProtoOrNil (AgentID info)"
    and st: "storable agt" and reg: "RegisterAgent E now m agt = (m', Inr asid)"
    and new: "agent_at A (view (agtStore m)) i = None" and n: "asid_next (view (agtStore m)) n"
  shows "\<exists>agt'. agent_at A (view (agtStore m')) i = Some agt' \<and> ASID agt' = asid \<and>
    agt' = (if ASID agt = 0 then agt\<lparr>ASID := of_nat n, CreateTimeNS := now, LastHeartbeatNS := now\<rparr> else agt) \<and>
    agentUpdateTrackers m' = map (\<lambda>(c, t). (c, t\<lparr>tr_updates := tr_updates t @
      [\<lparr>upd_AgentID = Some (ProtoFromUUID i), upd_Update = AAgent agt'\<rparr>]\<rparr>)) (agentUpdateTrackers m) \<and>
    (\<forall>j. j = i \<or> agent_at A (view (agtStore m')) j = agent_at A (view (agtStore m)) j)"
proof -
  obtain h where h: "HostInfo info = Some h"
    using st info by (auto simp: storable_def agent_host_def split: option.splits)
  then have unf: "(case GetAgent A (agtStore m) i of
       Inl _ \<Rightarrow> (m, Inl (Panic ''fatal: Failed to get agent''))
     | Inr (Some resp) \<Rightarrow> (m, Inr (ASID resp))
     | Inr None \<Rightarrow>
         if ASID agt = 0 then
           (case GetASID A (agtStore m) of
              (d', Inl e) \<Rightarrow> (m\<lparr>agtStore := d'\<rparr>, Inl e)
            | (d', Inr k) \<Rightarrow> create_registered E (m\<lparr>agtStore := d'\<rparr>) i
                (agt\<lparr>ASID := k, CreateTimeNS := now, LastHeartbeatNS := now\<rparr>))
         else create_registered E m i agt) = (m', Inr asid)"
    using reg unfolding RegisterAgent_def Let_def info option.case i E by simp
  then obtain r where r: "GetAgent A (agtStore m) i = Inr r" by (cases "GetAgent A (agtStore m) i") auto
  then have "r = None" using new GetAgent_Some [OF r] by simp
  note unf = unf [unfolded r this, simplified]
  have cr: "create_registered E m1 i a = (m', Inr asid) \<Longrightarrow> createAgentWrapper E m1 i a = (m', None) \<and> ASID a = asid" for m1 a
    by (auto simp: create_registered_def split: prod.splits option.splits)
  have create: "\<exists>agt'. agent_at A (view (agtStore m')) i = Some agt' \<and> ASID agt' = asid \<and> agt' = a \<and>
    agentUpdateTrackers m' = map (\<lambda>(c, t). (c, t\<lparr>tr_updates := tr_updates t @
      [\<lparr>upd_AgentID = Some (ProtoFromUUID i), upd_Update = AAgent agt'\<rparr>]\<rparr>)) (agentUpdateTrackers m1) \<and>
    (\<forall>j. j = i \<or> agent_at A (view (agtStore m')) j = agent_at A (view (agtStore m1)) j)"
    if a: "storable a" and cw: "createAgentWrapper E m1 i a = (m', None)" and "ASID a = asid" for a m1
  proof -
    obtain d' where c: "CreateAgent A (agtStore m1) i a = (d', None)"
      and m': "m' = track \<lparr>upd_AgentID = Some (ProtoFromUUID i), upd_Update = AAgent a\<rparr> (m1\<lparr>agtStore := d'\<rparr>)"
      using cw E by (auto simp: createAgentWrapper_def seq_iffs store_call_None_iff)
    from CreateAgent_agents(1) [OF c a] m' that(3) show ?thesis
      by (auto simp: track_def)
  qed
  show ?thesis
  proof (cases "ASID agt = 0")
    case False
    then have "create_registered E m i agt = (m', Inr asid)" using unf by simp
    from cr [OF this] have cw: "createAgentWrapper E m i agt = (m', None)" "ASID agt = asid" by blast+
    from create [OF st cw] False show ?thesis by simp
  next
    case True
    obtain d1 r where ga: "GetASID A (agtStore m) = (d1, r)" by fastforce
    with unf True obtain k where r: "r = Inr k" by (cases r) auto
    let ?a = "agt\<lparr>ASID := k, CreateTimeNS := now, LastHeartbeatNS := now\<rparr>"
    have cw: "createAgentWrapper E (m\<lparr>agtStore := d1\<rparr>) i ?a = (m', None)" "ASID ?a = asid"
      using unf True ga r cr by auto
    have k: "k = of_nat n" "view d1 = (view (agtStore m))(asidKey \<mapsto> nat_dec (n + 1))"
      using GetASID_step [OF n] ga r by auto
    have "storable ?a" using st by (simp add: storable_def agent_host_def)
    from create [OF this cw] True k show ?thesis by (auto simp: agent_at_def)
  qed
qed

end

section \<open>Processes\<close>

definition processes_keyed :: "'d agent_env \<Rightarrow> (string \<rightharpoonup> string) \<Rightarrow> bool" where
  "processes_keyed A m \<longleftrightarrow> (\<forall>u p. process_at A m u = Some p \<longrightarrow> process_UPID p = Some u)"

definition stop_at :: "process_terminated \<Rightarrow> process_info \<Rightarrow> process_info" where
  "stop_at t p = p\<lparr>process_StopTimestampNS := pt_StopTimestampNS t\<rparr>"

lemma stop_processes_map_filter:
  "stop_processes (map g ts) ts = List.map_filter (\<lambda>t. map_option (stop_at t) (g t)) ts"
proof (induction ts)
  case (Cons t ts)
  then show ?case by (cases "g t") (simp_all add: stop_at_def)
qed simp

lemma find_stopped:
  assumes "\<And>t. t \<in> set ts \<Longrightarrow> g t = Option.bind (pt_UPID t) f"
    and "\<And>u p. f u = Some p \<Longrightarrow> process_UPID p = Some u"
    and "\<And>t p. t \<in> set ts \<Longrightarrow> g t = Some p \<Longrightarrow> P (stop_at t p)"
  shows "find (\<lambda>p. process_UPID p = Some u \<and> P p) (rev (List.map_filter (\<lambda>t. map_option (stop_at t) (g t)) ts)) =
    (case find (\<lambda>t. pt_UPID t = Some u) (rev ts) of None \<Rightarrow> None | Some t \<Rightarrow> map_option (stop_at t) (f u))"
  using assms(1,3)
proof (induction ts)
  case (Cons t ts)
  have IH: "find (\<lambda>p. process_UPID p = Some u \<and> P p) (rev (List.map_filter (\<lambda>t. map_option (stop_at t) (g t)) ts)) =
    (case find (\<lambda>t. pt_UPID t = Some u) (rev ts) of None \<Rightarrow> None | Some t \<Rightarrow> map_option (stop_at t) (f u))"
    using Cons by auto
  show ?case
  proof (cases "g t")
    case None
    then have "pt_UPID t = Some u \<Longrightarrow> f u = None" using Cons.prems(1) [of t] by auto
    with None IH show ?thesis by (auto simp: find_append split: option.splits)
  next
    case (Some p)
    then obtain v where v: "pt_UPID t = Some v" "f v = Some p"
      using Cons.prems(1) [of t] by (auto simp: bind_eq_Some_conv)
    have "process_UPID (stop_at t p) = Some v" using assms(2) [OF v(2)] by (simp add: stop_at_def)
    moreover have "P (stop_at t p)" using Cons.prems(2) Some by simp
    ultimately show ?thesis using IH Some v
      by (auto simp: find_append split: option.splits)
  qed
qed simp

lemma map_res_Inr: "map_res f xs = Inr ys \<Longrightarrow> list_all2 (\<lambda>x y. f x = Inr y) xs ys"
  by (induction xs arbitrary: ys) (auto simp: seq_iffs)

context agent_store
begin

lemma handleTerminatedProcesses_ok:
  assumes E: "me_store E = A" and ht: "handleTerminatedProcesses E now m ts = (m', None)"
    and keyed: "processes_keyed A (view (agtStore m))"
    and ser: "\<And>t u p. t \<in> set ts \<Longrightarrow> pt_UPID t = Some u \<Longrightarrow> process_at A (view (agtStore m)) u = Some p \<Longrightarrow>
      ok (Marshal (env_process A) (stop_at t p))"
  shows "process_at A (view (agtStore m')) u =
    (case find (\<lambda>t. pt_UPID t = Some u) (rev ts) of
       None \<Rightarrow> process_at A (view (agtStore m)) u
     | Some t \<Rightarrow> map_option (stop_at t) (process_at A (view (agtStore m)) u))"
proof (cases "ts = []")
  case True
  with ht show ?thesis by (simp add: handleTerminatedProcesses_def)
next
  case False
  let ?f = "process_at A (view (agtStore m))"
  obtain us ps d' where us: "map_res (\<lambda>p. case pt_UPID p of None \<Rightarrow> Inl nil_deref | Some u \<Rightarrow> Inr u) ts = Inr us"
    and ps: "GetProcesses A (agtStore m) us = Inr ps"
    and up: "UpdateProcesses A now (agtStore m) (stop_processes ps ts) = (d', None)" and m': "m' = m\<lparr>agtStore := d'\<rparr>"
    using ht False E by (auto simp: handleTerminatedProcesses_def seq_iffs store_call_None_iff)
  have "list_all2 (\<lambda>t u. pt_UPID t = Some u) ts us"
    using map_res_Inr [OF us] by (rule list_all2_mono) (auto split: option.splits)
  then have "map ?f us = map (\<lambda>t. Option.bind (pt_UPID t) ?f) ts"
    by (induction rule: list_all2_induct) auto
  then have st: "stop_processes ps ts =
      List.map_filter (\<lambda>t. map_option (stop_at t) (Option.bind (pt_UPID t) ?f)) ts"
    using GetProcesses_at [OF ps] stop_processes_map_filter by metis
  have "find (\<lambda>p. process_UPID p = Some u \<and> ok (Marshal (env_process A) p)) (rev (stop_processes ps ts)) =
      (case find (\<lambda>t. pt_UPID t = Some u) (rev ts) of None \<Rightarrow> None | Some t \<Rightarrow> map_option (stop_at t) (?f u))"
    unfolding st using keyed ser
    by (intro find_stopped) (auto simp: processes_keyed_def bind_eq_Some_conv)
  with UpdateProcesses_ok [OF up, of u] m' show ?thesis
    by (auto split: option.splits)
qed

end

section \<open>Messages\<close>

lemma MessageAgents_eq:
  "MessageAgents E m ids msg =
     (m\<lparr>published := published m @
        map (\<lambda>i. (AgentUUIDTopic (env_uuid (me_store E)) i, msg))
          (filter (\<lambda>i. me_Publish E (AgentUUIDTopic (env_uuid (me_store E)) i) msg = None) ids)\<rparr>,
      case List.map_filter (\<lambda>i. me_Publish E (AgentUUIDTopic (env_uuid (me_store E)) i) msg) ids of
        [] \<Rightarrow> None | e # _ \<Rightarrow> Some e)"
proof -
  have "message_loop E m ids msg errs =
     (m\<lparr>published := published m @
        map (\<lambda>i. (AgentUUIDTopic (env_uuid (me_store E)) i, msg))
          (filter (\<lambda>i. me_Publish E (AgentUUIDTopic (env_uuid (me_store E)) i) msg = None) ids)\<rparr>,
      errs @ List.map_filter (\<lambda>i. me_Publish E (AgentUUIDTopic (env_uuid (me_store E)) i) msg) ids)" for errs
  proof (induction ids arbitrary: m errs)
    case (Cons i ids)
    then show ?case
      by (cases "me_Publish E (AgentUUIDTopic (env_uuid (me_store E)) i) msg") (simp_all add: publish_def)
  qed simp
  then show ?thesis by (simp add: MessageAgents_def split: list.splits)
qed

section \<open>A concrete manager\<close>

definition sample_mgr_env :: "(string, string) gomap pebble_ds manager_env" where
  "sample_mgr_env =
     \<lparr>me_store = sample_env, me_Publish = (\<lambda>topic msg. if msg = [] then Some (ErrMsg ''nats'') else None),
      me_config_msg = (\<lambda>k v. Inr (k @ v)), me_service_cidr = ''10.0.0.0/8'', me_pod_cidrs = []\<rparr>"





section \<open>Properties\<close>





text \<open>
  C32. \<open>RegisterAgent\<close> of an unknown agent stores it under its identifier and announces it to every
  client. An agent without a short id is given the next one of the counter and its creation and
  heartbeat times; an agent that brings one keeps it. No other agent changes.
\<close>

theorem RegisterAgent_registers:
  assumes "agent_store (me_store E) view" and "Info agt = Some info" and "i = UUIDFromProtoOrNil (AgentID info)"
    and "storable agt" and "RegisterAgent E now m agt = (m', Inr asid)"
    and "agent_at (me_store E) (view (agtStore m)) i = None" and "asid_next (view (agtStore m)) n"
  shows "\<exists>agt'. agent_at (me_store E) (view (agtStore m')) i = Some agt' \<and> ASID agt' = asid \<and>
    agt' = (if ASID agt = 0 then agt\<lparr>ASID := of_nat n, CreateTimeNS := now, LastHeartbeatNS := now\<rparr> else agt) \<and>
    agentUpdateTrackers m' = map (\<lambda>(c, t). (c, t\<lparr>tr_updates := tr_updates t @
      [\<lparr>upd_AgentID = Some (ProtoFromUUID i), upd_Update = AAgent agt'\<rparr>]\<rparr>)) (agentUpdateTrackers m) \<and>
    (\<forall>j. j = i \<or> agent_at (me_store E) (view (agtStore m')) j = agent_at (me_store E) (view (agtStore m)) j)"
  using agent_store.RegisterAgent_new [OF assms(1) refl assms(2-7)] by simp

theorem RegisterAgent_registers_witness:
  "\<exists>m'. RegisterAgent sample_mgr_env 5 (NewManager (pebble_New [])) (sample_agent\<lparr>ASID := 0\<rparr>) = (m', Inr 1) \<and>
     agent_at sample_env (pebble_view map_of (agtStore m')) sample_id = Some sample_agent"
proof -
  let ?m = "NewManager (pebble_New [])" and ?a = "sample_agent\<lparr>ASID := 0\<rparr>"
  let ?r = "RegisterAgent sample_mgr_env 5 ?m ?a"
  have st: "me_store sample_mgr_env = sample_env" by (simp add: sample_mgr_env_def)
  have ax: "agent_store (me_store sample_mgr_env) (pebble_view map_of)" using sample.agent_store_axioms st by simp
  have i: "Info ?a = Some sample_info" by (simp add: sample_agent_def)
  have c: "sample_id = UUIDFromProtoOrNil (AgentID sample_info)" "storable ?a" "snd ?r = Inr 1"
    "agent_at (me_store sample_mgr_env) (pebble_view map_of (agtStore ?m)) sample_id = None"
    "asid_next (pebble_view map_of (agtStore ?m)) 1" by code_simp+
  have r: "?r = (fst ?r, Inr 1)" using c(3) by (metis prod.collapse)
  have "?a\<lparr>ASID := of_nat 1, CreateTimeNS := 5, LastHeartbeatNS := 5\<rparr> = sample_agent" by (simp add: sample_agent_def)
  with RegisterAgent_registers [OF ax i c(1,2) r c(4,5)] r st show ?thesis by auto
qed

text \<open>
  \<open>MessageAgents\<close> tries every agent: the message is published to all agents whose topic
  accepts it, in order, also after a failure, and the first failure is returned.
\<close>

theorem MessageAgents_tries_all:
  "MessageAgents E m ids msg =
     (m\<lparr>published := published m @
        map (\<lambda>i. (AgentUUIDTopic (env_uuid (me_store E)) i, msg))
          (filter (\<lambda>i. me_Publish E (AgentUUIDTopic (env_uuid (me_store E)) i) msg = None) ids)\<rparr>,
      case List.map_filter (\<lambda>i. me_Publish E (AgentUUIDTopic (env_uuid (me_store E)) i) msg) ids of
        [] \<Rightarrow> None | e # _ \<Rightarrow> Some e)"
  by (rule MessageAgents_eq)

text \<open>
  When processes terminate, every known one is stored with the stop time of its last
  notification, and no process is created or otherwise changed.
\<close>

theorem terminated_processes_recorded:
  assumes "agent_store (me_store E) view" and "handleTerminatedProcesses E now m ts = (m', None)"
    and "processes_keyed (me_store E) (view (agtStore m))"
    and "\<And>t u p. t \<in> set ts \<Longrightarrow> pt_UPID t = Some u \<Longrightarrow> process_at (me_store E) (view (agtStore m)) u = Some p \<Longrightarrow>
      ok (Marshal (env_process (me_store E)) (stop_at t p))"
  shows "process_at (me_store E) (view (agtStore m')) u =
    (case find (\<lambda>t. pt_UPID t = Some u) (rev ts) of
       None \<Rightarrow> process_at (me_store E) (view (agtStore m)) u
     | Some t \<Rightarrow> map_option (stop_at t) (process_at (me_store E) (view (agtStore m)) u))"
  by (rule agent_store.handleTerminatedProcesses_ok [OF assms(1) refl assms(2,3)]) (rule assms(4))

theorem terminated_processes_recorded_witness:
  "let u = \<lparr>High = 9, Low = 3\<rparr>; p = sample_process\<lparr>process_StopTimestampNS := 0\<rparr>;
       d = fst (UpdateProcesses sample_env 0 (pebble_New []) [p]);
       r = handleTerminatedProcesses sample_mgr_env 0 (NewManager d) [\<lparr>pt_UPID = Some u, pt_StopTimestampNS = 4\<rparr>]
   in process_at sample_env (pebble_view map_of (agtStore (fst r))) u = Some sample_process"
proof -
  let ?u = "\<lparr>High = 9, Low = 3\<rparr>" and ?p = "sample_process\<lparr>process_StopTimestampNS := 0\<rparr>"
  let ?w = "UpdateProcesses sample_env 0 (pebble_New []) [?p]"
  let ?ts = "[\<lparr>pt_UPID = Some ?u, pt_StopTimestampNS = 4\<rparr>]"
  let ?r = "handleTerminatedProcesses sample_mgr_env 0 (NewManager (fst ?w)) ?ts"
  have st: "me_store sample_mgr_env = sample_env" by (simp add: sample_mgr_env_def)
  have w: "?w = (fst ?w, None)" by (rule prod_eqI) (simp, code_simp)
  have r: "?r = (fst ?r, None)" by (rule prod_eqI) (simp, code_simp)
  have "process_at sample_env (pebble_view map_of (pebble_New [])) v = None" for v
    by (simp add: process_at_def pebble_view_def pebble_New_def)
  moreover have p: "ok (Marshal (env_process sample_env) ?p)" "process_UPID ?p = Some ?u" by code_simp+
  ultimately have at: "process_at sample_env (pebble_view map_of (fst ?w)) v = (if v = ?u then Some ?p else None)" for v
    using sample.UpdateProcesses_ok [OF w, of v] by simp
  have keyed: "processes_keyed (me_store sample_mgr_env) (pebble_view map_of (agtStore (NewManager (fst ?w))))"
    using p(2) by (simp add: processes_keyed_def st NewManager_def at)
  have stop: "ok (Marshal (env_process sample_env) (stop_at \<lparr>pt_UPID = Some ?u, pt_StopTimestampNS = 4\<rparr> ?p))"
    "stop_at \<lparr>pt_UPID = Some ?u, pt_StopTimestampNS = 4\<rparr> ?p = sample_process" by code_simp+
  have "process_at (me_store sample_mgr_env) (pebble_view map_of (agtStore (fst ?r))) ?u =
    (case find (\<lambda>t. pt_UPID t = Some ?u) (rev ?ts) of
       None \<Rightarrow> process_at (me_store sample_mgr_env) (pebble_view map_of (agtStore (NewManager (fst ?w)))) ?u
     | Some t \<Rightarrow> map_option (stop_at t)
         (process_at (me_store sample_mgr_env) (pebble_view map_of (agtStore (NewManager (fst ?w)))) ?u))"
    using sample.agent_store_axioms r keyed stop(1)
    by (intro terminated_processes_recorded [where ts = ?ts and now = 0])
      (auto simp: st NewManager_def at split: if_splits)
  then show ?thesis by (simp add: st NewManager_def at stop(2) Let_def)
qed

end
