(* ===== verification/Tracepoint.thy ===== *)
theory Tracepoint
  imports AgentManagerCorrect
begin

text \<open>
  \<open>src/vizier/services/metadata/controllers/tracepoint\<close>: the tracepoints of the metadata service.
  \<open>tracepoint_store.go\<close> keeps them in the key-value store: a tracepoint under its identifier, its
  identifier under its name, its remaining lifetime, and its state on every agent.
  \<open>tracepoint.go\<close> is the manager: it creates a tracepoint, sends its programs to the agents whose
  selectors they meet, records what the agents report, and terminates a tracepoint whose lifetime
  is over.

  The manager shares the key-value store with the agent manager and sends its messages through
  it, so both work on the state \<open>'d manager\<close> of \<open>AgentManager\<close>. Serialised messages,
  \<open>proto.Equal\<close> and SHA-256 are parameters.
\<close>

section \<open>Data\<close>

datatype life_cycle_state = UNKNOWN_STATE | PENDING_STATE | RUNNING_STATE | FAILED_STATE | TERMINATED_STATE

datatype selector_type = NO_CONDITION | MAX_KERNEL | MIN_KERNEL | HOST_NAME | OTHER_SELECTOR int

record tracepoint_selector =
  SelectorType :: selector_type
  Value :: string

text \<open>The entries of a list of programs are pointers, and the sources test some of them for nil.\<close>

record tracepoint_program =
  TableName :: string
  Selectors :: "tracepoint_selector list"
  prog_rest :: string

record label_selector =
  ls_Labels :: "(string, string) gomap option"
  ls_Namespace :: string
  ls_Container :: string
  ls_Process :: string

record pod_process =
  pp_Pods :: "string list"
  pp_Container :: string
  pp_Process :: string

datatype deployment_spec = PodProcess pod_process | LabelSelector label_selector | OtherTarget string

record proto_duration =
  dur_Seconds :: int
  dur_Nanos :: int

record tracepoint_deployment =
  dep_Name :: string
  dep_TTL :: "proto_duration option"
  DeploymentSpec :: "deployment_spec option"
  Programs :: "tracepoint_program option list"

record tracepoint_info =
  tp_ID :: "uuidpb option"
  tp_Tracepoint :: "tracepoint_deployment option"
  tp_Name :: string
  ExpectedState :: life_cycle_state

record status =
  ErrCode :: nat
  status_rest :: string

record agent_tracepoint_status =
  ats_State :: life_cycle_state
  ats_Status :: "status option"
  ats_ID :: "uuidpb option"
  ats_AgentID :: "uuidpb option"

definition ErrTracepointAlreadyExists :: err where
  "ErrTracepointAlreadyExists = Sentinel ''TracepointDeployment already exists''"

record 'd tracepoint_env =
  te_mgr :: "'d manager_env"
  te_info :: "tracepoint_info codec"
  te_status :: "agent_tracepoint_status codec"
  te_uuidpb :: "uuidpb codec"
  te_Equal :: "tracepoint_program option \<Rightarrow> tracepoint_program option \<Rightarrow> bool"
  te_sha256hex :: "string \<Rightarrow> string"
  te_register_msg :: "tracepoint_deployment \<Rightarrow> uuidpb \<Rightarrow> string res"
  te_remove_msg :: "uuidpb \<Rightarrow> string res"
  te_range :: range_order

abbreviation te_ds :: "'d tracepoint_env \<Rightarrow> 'd kvops" where
  "te_ds T \<equiv> env_ds (me_store (te_mgr T))"

abbreviation te_uuid :: "'d tracepoint_env \<Rightarrow> uuid_ops" where
  "te_uuid T \<equiv> env_uuid (me_store (te_mgr T))"

section \<open>Keys\<close>

definition tracepointsPrefix :: string where
  "tracepointsPrefix = ''/tracepoint/''"

definition tracepointStatesPrefix :: string where
  "tracepointStatesPrefix = ''/tracepointStates/''"

definition tracepointTTLsPrefix :: string where
  "tracepointTTLsPrefix = ''/tracepointTTL/''"

definition tracepointNamesPrefix :: string where
  "tracepointNamesPrefix = ''/tracepointName/''"

definition getTracepointWithNameKey :: "string \<Rightarrow> string" where
  "getTracepointWithNameKey tracepointName = path_Join [tracepointNamesPrefix, tracepointName]"

definition getTracepointKey :: "uuid_ops \<Rightarrow> uuid \<Rightarrow> string" where
  "getTracepointKey U tracepointID = path_Join [tracepointsPrefix, uuid_String U tracepointID]"

definition getTracepointStatesKey :: "uuid_ops \<Rightarrow> uuid \<Rightarrow> string" where
  "getTracepointStatesKey U tracepointID = path_Join [tracepointStatesPrefix, uuid_String U tracepointID]"

definition getTracepointStateKey :: "uuid_ops \<Rightarrow> uuid \<Rightarrow> uuid \<Rightarrow> string" where
  "getTracepointStateKey U tracepointID agentID =
     path_Join [tracepointStatesPrefix, uuid_String U tracepointID, uuid_String U agentID]"

definition getTracepointTTLKey :: "uuid_ops \<Rightarrow> uuid \<Rightarrow> string" where
  "getTracepointTTLKey U tracepointID = path_Join [tracepointTTLsPrefix, uuid_String U tracepointID]"

section \<open>The tracepoint store\<close>

text \<open>
  Both lookups of several keys run one goroutine per key. They only read, so the result does not
  depend on the schedule; when several fail, the schedule chooses the error, here the first.
\<close>

definition GetTracepointsWithNames :: "'d tracepoint_env \<Rightarrow> 'd \<Rightarrow> string list \<Rightarrow> uuid option list res" where
  "GetTracepointsWithNames T d tracepointNames =
     map_res (\<lambda>name.
       bind_res (kv_Get (te_ds T) d (getTracepointWithNameKey name)) (\<lambda>val.
         case val of
           None \<Rightarrow> Inr None
         | Some b \<Rightarrow> bind_res (Unmarshal (te_uuidpb T) b) (\<lambda>uuidPB.
             Inr (Some (UUIDFromProtoOrNil (Some uuidPB)))))) tracepointNames"

definition SetTracepointWithName :: "'d tracepoint_env \<Rightarrow> 'd \<Rightarrow> string \<Rightarrow> uuid \<Rightarrow> 'd \<times> err option" where
  "SetTracepointWithName T d tracepointName tracepointID =
     with_res (Marshal (te_uuidpb T) (ProtoFromUUID tracepointID)) d (\<lambda>val.
       kv_Set (te_ds T) d (getTracepointWithNameKey tracepointName) val)"

definition UpsertTracepoint :: "'d tracepoint_env \<Rightarrow> 'd \<Rightarrow> uuid \<Rightarrow> tracepoint_info \<Rightarrow> 'd \<times> err option" where
  "UpsertTracepoint T d tracepointID tracepointInfo =
     with_res (Marshal (te_info T) tracepointInfo) d (\<lambda>val.
       kv_Set (te_ds T) d (getTracepointKey (te_uuid T) tracepointID) val)"

definition DeleteTracepoint :: "'d tracepoint_env \<Rightarrow> 'd \<Rightarrow> uuid \<Rightarrow> 'd \<times> err option" where
  "DeleteTracepoint T d tracepointID =
     and_then (kv_DeleteAll (te_ds T) d [getTracepointKey (te_uuid T) tracepointID]) (\<lambda>d.
       kv_DeleteWithPrefix (te_ds T) d (getTracepointStatesKey (te_uuid T) tracepointID))"

definition read_tracepoint :: "'d tracepoint_env \<Rightarrow> 'd \<Rightarrow> uuid \<Rightarrow> tracepoint_info option res" where
  "read_tracepoint T d tracepointID =
     bind_res (kv_Get (te_ds T) d (getTracepointKey (te_uuid T) tracepointID)) (\<lambda>resp.
       case resp of
         None \<Rightarrow> Inr None
       | Some b \<Rightarrow> bind_res (Unmarshal (te_info T) b) (\<lambda>tracepointPb. Inr (Some tracepointPb)))"

definition GetTracepoint :: "'d tracepoint_env \<Rightarrow> 'd \<Rightarrow> uuid \<Rightarrow> tracepoint_info option res" where
  "GetTracepoint T d tracepointID = read_tracepoint T d tracepointID"

text \<open>A value that does not unmarshal leaves a nil entry in the result.\<close>

definition unmarshal_or_nil :: "'m codec \<Rightarrow> string \<Rightarrow> 'm option" where
  "unmarshal_or_nil C val = (case Unmarshal C val of Inl _ \<Rightarrow> None | Inr pb \<Rightarrow> Some pb)"

definition GetTracepoints :: "'d tracepoint_env \<Rightarrow> 'd \<Rightarrow> tracepoint_info option list res" where
  "GetTracepoints T d =
     bind_res (kv_GetWithPrefix (te_ds T) d tracepointsPrefix) (\<lambda>(_, vals).
       Inr (map (unmarshal_or_nil (te_info T)) vals))"

definition GetTracepointsForIDs :: "'d tracepoint_env \<Rightarrow> 'd \<Rightarrow> uuid list \<Rightarrow> tracepoint_info option list res" where
  "GetTracepointsForIDs T d ids = map_res (read_tracepoint T d) ids"

definition UpdateTracepointState :: "'d tracepoint_env \<Rightarrow> 'd \<Rightarrow> agent_tracepoint_status \<Rightarrow> 'd \<times> err option" where
  "UpdateTracepointState T d state =
     with_res (Marshal (te_status T) state) d (\<lambda>val.
       kv_Set (te_ds T) d
         (getTracepointStateKey (te_uuid T) (UUIDFromProtoOrNil (ats_ID state)) (UUIDFromProtoOrNil (ats_AgentID state)))
         val)"

definition GetTracepointStates :: "'d tracepoint_env \<Rightarrow> 'd \<Rightarrow> uuid \<Rightarrow> agent_tracepoint_status option list res" where
  "GetTracepointStates T d tracepointID =
     bind_res (kv_GetWithPrefix (te_ds T) d (getTracepointStatesKey (te_uuid T) tracepointID)) (\<lambda>(_, vals).
       Inr (map (unmarshal_or_nil (te_status T)) vals))"

text \<open>The clock is read for the stored instant (\<open>now\<close>) and again by the store (\<open>now_ds\<close>).\<close>

definition SetTracepointTTL :: "'d tracepoint_env \<Rightarrow> int \<Rightarrow> int \<Rightarrow> 'd \<Rightarrow> uuid \<Rightarrow> int \<Rightarrow> 'd \<times> err option" where
  "SetTracepointTTL T now now_ds d tracepointID ttl =
     kv_SetWithTTL (te_ds T) now_ds d (getTracepointTTLKey (te_uuid T) tracepointID)
       (time_MarshalBinary (now + ttl)) ttl"

definition DeleteTracepointTTLs :: "'d tracepoint_env \<Rightarrow> 'd \<Rightarrow> uuid list \<Rightarrow> 'd \<times> err option" where
  "DeleteTracepointTTLs T d ids = kv_DeleteAll (te_ds T) d (map (getTracepointTTLKey (te_uuid T)) ids)"

definition DeleteTracepointsForAgent :: "'d tracepoint_env \<Rightarrow> 'd \<Rightarrow> uuid \<Rightarrow> 'd \<times> err option" where
  "DeleteTracepointsForAgent T d agentID =
     with_res (GetTracepoints T d) d (\<lambda>tps.
     with_res (map_res (\<lambda>tp. case tp of
         None \<Rightarrow> Inl nil_deref
       | Some t \<Rightarrow> Inr (getTracepointStateKey (te_uuid T) (UUIDFromProtoOrNil (tp_ID t)) agentID)) tps) d (\<lambda>delKeys.
     kv_DeleteAll (te_ds T) d delKeys))"

definition month :: int where
  "month = 2592000000000000"

fun collect_ttls :: "uuid_ops \<Rightarrow> int \<Rightarrow> string list \<Rightarrow> string list \<Rightarrow> (uuid \<times> int) list" where
  "collect_ttls U now (k # keys) (v # vals) =
     (let keyParts = split_on CHR ''/'' k in
      if length keyParts \<noteq> 3 then collect_ttls U now keys vals
      else (case uuid_FromString U (keyParts ! 2) of
              Inl _ \<Rightarrow> collect_ttls U now keys vals
            | Inr i \<Rightarrow>
                (i, case time_UnmarshalBinary v of Inl _ \<Rightarrow> now + month | Inr expiresAt \<Rightarrow> expiresAt)
                # collect_ttls U now keys vals))"
| "collect_ttls U now _ _ = []"

text \<open>The two result slices have the same length and are one list of pairs here.\<close>

definition GetTracepointTTLs :: "'d tracepoint_env \<Rightarrow> int \<Rightarrow> 'd \<Rightarrow> (uuid \<times> int) list res" where
  "GetTracepointTTLs T now d =
     bind_res (kv_GetWithPrefix (te_ds T) d tracepointTTLsPrefix) (\<lambda>(keys, vals).
       Inr (collect_ttls (te_uuid T) now keys vals))"

section \<open>Selecting agents\<close>

text \<open>\<open>agent.Info.HostInfo\<close>, and the loop that keeps the elements of a slice.\<close>

definition host_of :: "agent \<Rightarrow> host_info res" where
  "host_of agt = (case Option.bind (Info agt) HostInfo of None \<Rightarrow> Inl nil_deref | Some h \<Rightarrow> Inr h)"

fun filter_res :: "('a \<Rightarrow> bool res) \<Rightarrow> 'a list \<Rightarrow> 'a list res" where
  "filter_res p [] = Inr []"
| "filter_res p (x # xs) =
     bind_res (p x) (\<lambda>keep. bind_res (filter_res p xs) (\<lambda>ys. Inr (if keep then x # ys else ys)))"

definition filterByHostName :: "agent list \<Rightarrow> string \<Rightarrow> agent list res" where
  "filterByHostName agents hostname =
     filter_res (\<lambda>agt. bind_res (host_of agt) (\<lambda>h. Inr (Hostname h = hostname))) agents"

text \<open>
  \<open>fmt.Sscanf\<close> with the formats \<open>%d\<close>, \<open>%d.%d\<close> and \<open>%d.%d.%d\<close> into 32-bit unsigned integers:
  blanks before a number are skipped, except that a newline is an error, a number is a non-empty
  run of digits that must fit, a dot must follow where the format has one, and what follows the
  last number is ignored.
\<close>

definition is_blank :: "char \<Rightarrow> bool" where
  "is_blank c \<longleftrightarrow> c \<in> {CHR 0x09, CHR 0x0B, CHR 0x0C, CHR 0x0D, CHR 0x20}"

definition scan_uint32 :: "string \<Rightarrow> (32 word \<times> string) res" where
  "scan_uint32 s =
     (let s' = dropWhile is_blank s in
      if s' \<noteq> [] \<and> hd s' = CHR 0x0A then Inl (ErrMsg ''unexpected newline'')
      else if takeWhile is_digit s' = [] then Inl (ErrMsg ''expected integer'')
      else let n = int (dec_val 0 (takeWhile is_digit s')) in
           if n < 2 ^ 32 then Inr (of_int n, dropWhile is_digit s')
           else Inl (ErrMsg ''unsigned integer overflow on token''))"

fun scan_dotted :: "nat \<Rightarrow> string \<Rightarrow> 32 word list res" where
  "scan_dotted 0 s = Inr []"
| "scan_dotted (Suc 0) s = bind_res (scan_uint32 s) (\<lambda>(v, _). Inr [v])"
| "scan_dotted (Suc (Suc n)) s =
     bind_res (scan_uint32 s) (\<lambda>(v, rest).
       case rest of
         [] \<Rightarrow> Inl (ErrMsg ''unexpected EOF'')
       | c # rest' \<Rightarrow>
           if c \<noteq> CHR ''.'' then Inl (ErrMsg ''input does not match format'')
           else bind_res (scan_dotted (Suc n) rest') (\<lambda>vs. Inr (v # vs)))"

definition parseKernelVersion :: "string \<Rightarrow> kernel_version res" where
  "parseKernelVersion versionStr =
     (let n = length (split_on CHR ''.'' versionStr) in
      if n \<le> 3
      then bind_res (scan_dotted n versionStr) (\<lambda>vs.
        let ws = vs @ [0, 0] in Inr \<lparr>Version = ws ! 0, MajorRev = ws ! 1, MinorRev = ws ! 2\<rparr>)
      else Inl (ErrMsg ''Invalid kernel version string''))"

definition filterByMinKernel :: "agent list \<Rightarrow> string \<Rightarrow> agent list res" where
  "filterByMinKernel agents versionStr =
     (case parseKernelVersion versionStr of
        Inl _ \<Rightarrow> Inr []
      | Inr v \<Rightarrow>
          filter_res (\<lambda>agt. bind_res (host_of agt) (\<lambda>h.
            case Kernel h of
              None \<Rightarrow> Inr False
            | Some kv \<Rightarrow>
                Inr (Version kv > Version v \<or>
                     Version kv = Version v \<and> MajorRev kv > MajorRev v \<or>
                     Version kv = Version v \<and> MajorRev kv = MajorRev v \<and> MinorRev kv \<ge> MinorRev v))) agents)"

definition filterByMaxKernel :: "agent list \<Rightarrow> string \<Rightarrow> agent list res" where
  "filterByMaxKernel agents versionStr =
     (case parseKernelVersion versionStr of
        Inl _ \<Rightarrow> Inr []
      | Inr v \<Rightarrow>
          filter_res (\<lambda>agt. bind_res (host_of agt) (\<lambda>h.
            case Kernel h of
              None \<Rightarrow> Inr False
            | Some kv \<Rightarrow>
                Inr (Version kv < Version v \<or>
                     Version kv = Version v \<and> MajorRev kv < MajorRev v \<or>
                     Version kv = Version v \<and> MajorRev kv = MajorRev v \<and> MinorRev kv \<le> MinorRev v))) agents)"

definition FilterAgentsBySelector :: "agent list \<Rightarrow> tracepoint_selector \<Rightarrow> agent list res" where
  "FilterAgentsBySelector agents selector =
     (case SelectorType selector of
        MIN_KERNEL \<Rightarrow> filterByMinKernel agents (Value selector)
      | MAX_KERNEL \<Rightarrow> filterByMaxKernel agents (Value selector)
      | HOST_NAME \<Rightarrow> filterByHostName agents (Value selector)
      | _ \<Rightarrow> Inr agents)"

fun select_agents :: "agent list \<Rightarrow> tracepoint_selector list \<Rightarrow> agent list res" where
  "select_agents validAgents [] = Inr validAgents"
| "select_agents validAgents (selector # selectors) =
     bind_res (FilterAgentsBySelector validAgents selector) (\<lambda>as. select_agents as selectors)"

section \<open>The manager\<close>

definition terminateTracepoint :: "'d tracepoint_env \<Rightarrow> 'd manager \<Rightarrow> uuid \<Rightarrow> 'd manager \<times> err option" where
  "terminateTracepoint T m i =
     with_res (GetTracepoint T (agtStore m) i) m (\<lambda>tp.
       case tp of
         None \<Rightarrow> (m, None)
       | Some t \<Rightarrow>
           and_then (store_call m (\<lambda>d. UpsertTracepoint T d i (t\<lparr>ExpectedState := TERMINATED_STATE\<rparr>))) (\<lambda>m.
           with_res (te_remove_msg T (ProtoFromUUID i)) m (\<lambda>msg.
           MessageActiveAgents (te_mgr T) m msg)))"

definition deleteTracepoint :: "'d tracepoint_env \<Rightarrow> 'd manager \<Rightarrow> uuid \<Rightarrow> 'd manager \<times> err option" where
  "deleteTracepoint T m i = store_call m (\<lambda>d. DeleteTracepoint T d i)"

text \<open>One tick of the reaper; \<open>now_ttl\<close> and \<open>now\<close> are its two readings of the clock.\<close>

definition reap_step :: "'d tracepoint_env \<Rightarrow> int \<Rightarrow> (uuid, bool) gomap \<Rightarrow> 'd manager \<Rightarrow> tracepoint_info option \<Rightarrow>
    'd manager \<times> err option" where
  "reap_step T now tpActive m tp =
     (case tp of
        None \<Rightarrow> (m, Some nil_deref)
      | Some t \<Rightarrow>
          let tpID = UUIDFromProtoOrNil (tp_ID t) in
          if map_of tpActive tpID = Some True then (m, None)
          else if ExpectedState t = TERMINATED_STATE then (m, None)
          else log_err (terminateTracepoint T m tpID))"

definition terminateExpiredTracepoints ::
  "'d tracepoint_env \<Rightarrow> int \<Rightarrow> int \<Rightarrow> 'd manager \<Rightarrow> 'd manager \<times> err option" where
  "terminateExpiredTracepoints T now_ttl now m =
     (case GetTracepoints T (agtStore m) of
        Inl _ \<Rightarrow> (m, None)
      | Inr tps \<Rightarrow>
          (case GetTracepointTTLs T now_ttl (agtStore m) of
             Inl _ \<Rightarrow> (m, None)
           | Inr ttls \<Rightarrow>
               let tpActive = foldl (\<lambda>act (tp, expiry). AList.update tp (now < expiry) act) [] ttls
               in for_each (reap_step T now tpActive) m tps))"

text \<open>
  The comparison of the programs of \<open>CreateTracepoint\<close>: a nil program of the new deployment is
  not compared. Both deployments are dereferenced.
\<close>

definition all_tps_same ::
  "'d tracepoint_env \<Rightarrow> tracepoint_deployment option \<Rightarrow> tracepoint_deployment option \<Rightarrow> bool res" where
  "all_tps_same T prev new =
     (case (prev, new) of
        (Some p, Some n) \<Rightarrow>
          Inr (length (Programs p) = length (Programs n) \<and>
               list_all2 (\<lambda>np pp. np = None \<or> te_Equal T np pp) (Programs n) (Programs p))
      | _ \<Rightarrow> Inl nil_deref)"

text \<open>
  \<open>CreateTracepoint\<close> returns an identifier together with \<open>ErrTracepointAlreadyExists\<close>, so its
  result is the pair of Go. \<open>tpID\<close> is the fresh identifier it would draw.
\<close>

definition create_new :: "'d tracepoint_env \<Rightarrow> int \<Rightarrow> int \<Rightarrow> uuid \<Rightarrow> 'd manager \<Rightarrow> string \<Rightarrow>
    tracepoint_deployment option \<Rightarrow> int \<Rightarrow> 'd manager \<times> uuid option \<times> err option" where
  "create_new T now now_ds tpID m tracepointName tracepointDeployment ttl =
     (let newTracepoint = \<lparr>tp_ID = Some (ProtoFromUUID tpID), tp_Tracepoint = tracepointDeployment,
        tp_Name = tracepointName, ExpectedState = RUNNING_STATE\<rparr> in
      case and_then (store_call m (\<lambda>d. UpsertTracepoint T d tpID newTracepoint)) (\<lambda>m.
           and_then (store_call m (\<lambda>d. SetTracepointTTL T now now_ds d tpID ttl)) (\<lambda>m.
           store_call m (\<lambda>d. SetTracepointWithName T d tracepointName tpID))) of
        (m', Some e) \<Rightarrow> (m', None, Some e)
      | (m', None) \<Rightarrow> (m', Some tpID, None))"

definition CreateTracepoint :: "'d tracepoint_env \<Rightarrow> int \<Rightarrow> int \<Rightarrow> uuid \<Rightarrow> 'd manager \<Rightarrow> string \<Rightarrow>
    tracepoint_deployment option \<Rightarrow> int \<Rightarrow> 'd manager \<times> uuid option \<times> err option" where
  "CreateTracepoint T now now_ds tpID m tracepointName tracepointDeployment ttl =
     (case GetTracepointsWithNames T (agtStore m) [tracepointName] of
        Inl e \<Rightarrow> (m, None, Some e)
      | Inr resp \<Rightarrow>
          if length resp \<noteq> 1 then (m, None, Some (ErrMsg ''Could not fetch tracepoint''))
          else (case resp ! 0 of
            None \<Rightarrow> create_new T now now_ds tpID m tracepointName tracepointDeployment ttl
          | Some prevTracepointID \<Rightarrow>
              (case GetTracepoint T (agtStore m) prevTracepointID of
                 Inl e \<Rightarrow> (m, None, Some e)
               | Inr None \<Rightarrow> create_new T now now_ds tpID m tracepointName tracepointDeployment ttl
               | Inr (Some prevTracepoint) \<Rightarrow>
                   if ExpectedState prevTracepoint = TERMINATED_STATE
                   then create_new T now now_ds tpID m tracepointName tracepointDeployment ttl
                   else (case all_tps_same T (tp_Tracepoint prevTracepoint) tracepointDeployment of
                     Inl e \<Rightarrow> (m, None, Some e)
                   | Inr True \<Rightarrow>
                       (case store_call m (\<lambda>d. SetTracepointTTL T now now_ds d prevTracepointID ttl) of
                          (m', Some e) \<Rightarrow> (m', None, Some e)
                        | (m', None) \<Rightarrow> (m', Some prevTracepointID, Some ErrTracepointAlreadyExists))
                   | Inr False \<Rightarrow>
                       (case store_call m (\<lambda>d. DeleteTracepointTTLs T d [prevTracepointID]) of
                          (m', Some e) \<Rightarrow> (m', None, Some e)
                        | (m', None) \<Rightarrow>
                            create_new T now now_ds tpID m' tracepointName tracepointDeployment ttl)))))"

definition GetAllTracepoints :: "'d tracepoint_env \<Rightarrow> 'd manager \<Rightarrow> tracepoint_info option list res" where
  "GetAllTracepoints T m = GetTracepoints T (agtStore m)"

definition tpm_GetTracepointStates ::
  "'d tracepoint_env \<Rightarrow> 'd manager \<Rightarrow> uuid \<Rightarrow> agent_tracepoint_status option list res" where
  "tpm_GetTracepointStates T m i = GetTracepointStates T (agtStore m) i"

text \<open>The loop with \<open>break\<close> that looks for another agent that is not terminated.\<close>

fun all_terminated :: "uuidpb option \<Rightarrow> agent_tracepoint_status option list \<Rightarrow> bool res" where
  "all_terminated agentID [] = Inr True"
| "all_terminated agentID (None # states) = Inl nil_deref"
| "all_terminated agentID (Some s # states) =
     (if ats_State s \<noteq> TERMINATED_STATE \<and> ats_AgentID s \<noteq> agentID then Inr False
      else all_terminated agentID states)"

definition UpdateAgentTracepointStatus :: "'d tracepoint_env \<Rightarrow> 'd manager \<Rightarrow> uuidpb option \<Rightarrow> uuidpb option \<Rightarrow>
    life_cycle_state \<Rightarrow> status option \<Rightarrow> 'd manager \<times> err option" where
  "UpdateAgentTracepointStatus T m tracepointID agentID state status =
     (let tID = UUIDFromProtoOrNil tracepointID;
          record_state = (\<lambda>m. store_call m (\<lambda>d. UpdateTracepointState T d
            \<lparr>ats_State = state, ats_Status = status, ats_ID = tracepointID, ats_AgentID = agentID\<rparr>))
      in if state = TERMINATED_STATE
         then with_res (tpm_GetTracepointStates T m tID) m (\<lambda>states.
              with_res (all_terminated agentID states) m (\<lambda>allTerminated.
              if allTerminated then deleteTracepoint T m tID else record_state m))
         else record_state m)"

text \<open>
  \<open>RegisterTracepoint\<close> groups the programs by the agents they are meant for. The key of a group is
  a hash of the identifiers, which \<open>HashUUIDs\<close> sorts in place.
\<close>

type_synonym tracepoint_groups =
  "(string, tracepoint_program option list) gomap \<times> (string, uuid list) gomap"

definition add_to_group :: "string \<Rightarrow> 'v \<Rightarrow> (string, 'v list) gomap \<Rightarrow> (string, 'v list) gomap" where
  "add_to_group hash v m =
     AList.update hash ((case map_of m hash of None \<Rightarrow> [] | Some vs \<Rightarrow> vs) @ [v]) m"

definition agent_ids :: "agent list \<Rightarrow> uuid list res" where
  "agent_ids agents =
     map_res (\<lambda>agt. case Info agt of
       None \<Rightarrow> Inl nil_deref | Some info \<Rightarrow> Inr (UUIDFromProtoOrNil (AgentID info))) agents"

fun group_programs :: "'d tracepoint_env \<Rightarrow> agent list \<Rightarrow> tracepoint_program option list \<Rightarrow> tracepoint_groups \<Rightarrow>
    tracepoint_groups res" where
  "group_programs T agents [] groups = Inr groups"
| "group_programs T agents (None # prgms) groups = Inl nil_deref"
| "group_programs T agents (Some prgm # prgms) (hashToPrograms, hashToAgents) =
     bind_res (select_agents agents (Selectors prgm)) (\<lambda>validAgents.
     bind_res (agent_ids validAgents) (\<lambda>agentIDs.
       case HashUUIDs (te_uuid T) (te_sha256hex T) agentIDs of
         (sorted_ids, hash) \<Rightarrow>
           group_programs T agents prgms
             (add_to_group hash (Some prgm) hashToPrograms, AList.update hash sorted_ids hashToAgents)))"

definition send_group :: "'d tracepoint_env \<Rightarrow> tracepoint_deployment \<Rightarrow> uuid \<Rightarrow>
    (string, tracepoint_program option list) gomap \<Rightarrow> 'd manager \<Rightarrow> string \<times> uuid list \<Rightarrow> 'd manager \<times> err option" where
  "send_group T deployment tracepointID hashToPrograms m =
     (\<lambda>(hash, agentIDs).
       with_res (te_register_msg T
           (deployment\<lparr>Programs := (case map_of hashToPrograms hash of None \<Rightarrow> [] | Some ps \<Rightarrow> ps)\<rparr>)
           (ProtoFromUUID tracepointID)) m (\<lambda>msg.
         MessageAgents (te_mgr T) m agentIDs msg))"

definition RegisterTracepoint :: "'d tracepoint_env \<Rightarrow> 'd manager \<Rightarrow> agent list \<Rightarrow> uuid \<Rightarrow>
    tracepoint_deployment option \<Rightarrow> 'd manager \<times> err option" where
  "RegisterTracepoint T m agents tracepointID tracepointDeployment =
     (case tracepointDeployment of
        None \<Rightarrow> (m, Some nil_deref)
      | Some deployment \<Rightarrow>
          with_res (group_programs T agents (Programs deployment) ([], [])) m (\<lambda>(hashToPrograms, hashToAgents).
            for_each (send_group T deployment tracepointID hashToPrograms) m (go_range (te_range T) hashToAgents)))"

definition GetTracepointInfo :: "'d tracepoint_env \<Rightarrow> 'd manager \<Rightarrow> uuid \<Rightarrow> tracepoint_info option res" where
  "GetTracepointInfo T m tracepointID = GetTracepoint T (agtStore m) tracepointID"

definition tpm_GetTracepointsForIDs ::
  "'d tracepoint_env \<Rightarrow> 'd manager \<Rightarrow> uuid list \<Rightarrow> tracepoint_info option list res" where
  "tpm_GetTracepointsForIDs T m ids = GetTracepointsForIDs T (agtStore m) ids"

fun known_ids :: "uuid option list \<Rightarrow> uuid list res" where
  "known_ids [] = Inr []"
| "known_ids (None # ids) = Inl (ErrMsg ''Could not find tracepoint for given name'')"
| "known_ids (Some i # ids) = bind_res (known_ids ids) (\<lambda>is. Inr (i # is))"

definition RemoveTracepoints :: "'d tracepoint_env \<Rightarrow> 'd manager \<Rightarrow> string list \<Rightarrow> 'd manager \<times> err option" where
  "RemoveTracepoints T m names =
     with_res (GetTracepointsWithNames T (agtStore m) names) m (\<lambda>tpIDs.
     with_res (known_ids tpIDs) m (\<lambda>ids.
     store_call m (\<lambda>d. DeleteTracepointTTLs T d ids)))"

definition tpm_DeleteAgent :: "'d tracepoint_env \<Rightarrow> 'd manager \<Rightarrow> uuid \<Rightarrow> 'd manager \<times> err option" where
  "tpm_DeleteAgent T m agentID = store_call m (\<lambda>d. DeleteTracepointsForAgent T d agentID)"

end
