(* ===== verification/TracepointRegister.thy ===== *)
theory TracepointRegister
  imports Tracepoint
begin

text \<open>
  Which agents a program of a tracepoint reaches: the selectors as one predicate on an agent
  (\<open>accepts\<close>, with the three components of a kernel version read as one number), and the grouping
  of the programs of a deployment by the agents they are meant for.
\<close>

section \<open>Selectors\<close>

text \<open>A kernel version as one number; the sources compare the three components in turn.\<close>

definition kernel_code :: "kernel_version \<Rightarrow> int" where
  "kernel_code v = uint (Version v) * 2 ^ 64 + uint (MajorRev v) * 2 ^ 32 + uint (MinorRev v)"

lemma lex_code:
  fixes a b c :: int
  assumes "0 \<le> b" "b < 4294967296" "0 \<le> b'" "b' < 4294967296"
    and "0 \<le> c" "c < 4294967296" "0 \<le> c'" "c' < 4294967296"
  shows "a' < a \<or> a = a' \<and> b' < b \<or> a = a' \<and> b = b' \<and> c' \<le> c \<longleftrightarrow>
    a' * 18446744073709551616 + b' * 4294967296 + c' \<le> a * 18446744073709551616 + b * 4294967296 + c"
proof -
  consider "a' < a" | "a < a'" | "a = a'" "b' < b" | "a = a'" "b < b'" | "a = a'" "b = b'" by linarith
  then show ?thesis using assms by cases auto
qed

lemma kernel_code_le:
  "Version kv > Version v \<or> Version kv = Version v \<and> MajorRev kv > MajorRev v \<or>
     Version kv = Version v \<and> MajorRev kv = MajorRev v \<and> MinorRev kv \<ge> MinorRev v \<longleftrightarrow>
   kernel_code v \<le> kernel_code kv"
proof -
  have b: "0 \<le> uint (w :: 32 word)" "uint w < 4294967296" for w :: "32 word"
    using uint_lt2p [of w] by simp_all
  from lex_code [OF b b b b] show ?thesis
    unfolding kernel_code_def word_less_def word_le_def word_uint_eq_iff by simp
qed

definition agent_host_info :: "agent \<Rightarrow> host_info option" where
  "agent_host_info agt = Option.bind (Info agt) HostInfo"

definition accepts :: "tracepoint_selector \<Rightarrow> agent \<Rightarrow> bool" where
  "accepts s agt =
     (case agent_host_info agt of
        None \<Rightarrow> False
      | Some h \<Rightarrow>
          (case SelectorType s of
             MIN_KERNEL \<Rightarrow>
               (case (parseKernelVersion (Value s), Kernel h) of
                  (Inr v, Some kv) \<Rightarrow> kernel_code v \<le> kernel_code kv | _ \<Rightarrow> False)
           | MAX_KERNEL \<Rightarrow>
               (case (parseKernelVersion (Value s), Kernel h) of
                  (Inr v, Some kv) \<Rightarrow> kernel_code kv \<le> kernel_code v | _ \<Rightarrow> False)
           | HOST_NAME \<Rightarrow> Hostname h = Value s
           | _ \<Rightarrow> True))"

definition meets :: "tracepoint_program \<Rightarrow> agent \<Rightarrow> bool" where
  "meets p agt = list_all (\<lambda>s. accepts s agt) (Selectors p)"

definition has_host :: "agent \<Rightarrow> bool" where
  "has_host agt \<longleftrightarrow> agent_host_info agt \<noteq> None"

lemma filter_res_eq: "list_all (\<lambda>x. p x = Inr (q x)) xs \<Longrightarrow> filter_res p xs = Inr (filter q xs)"
  by (induction xs) simp_all

lemma has_host_of: "has_host agt \<Longrightarrow> host_of agt = Inr (the (agent_host_info agt))"
  by (auto simp: has_host_def host_of_def agent_host_info_def)

lemma FilterAgentsBySelector_eq:
  assumes "list_all has_host agents"
  shows "FilterAgentsBySelector agents s = Inr (filter (accepts s) agents)"
proof -
  have h: "\<exists>h. agent_host_info agt = Some h \<and> host_of agt = Inr h" if "agt \<in> set agents" for agt
    using assms that by (auto simp: list_all_iff has_host_of has_host_def)
  have id: "filter (accepts s) agents = agents" if "SelectorType s \<in> {NO_CONDITION} \<union> range OTHER_SELECTOR"
    using that h by (intro filter_True) (fastforce simp: accepts_def)
  have none: "filter (accepts s) agents = []"
    if "SelectorType s \<in> {MIN_KERNEL, MAX_KERNEL}" "parseKernelVersion (Value s) = Inl e" for e
    using that h by (intro filter_False) (fastforce simp: accepts_def)
  show ?thesis
  proof (cases "SelectorType s")
    case MIN_KERNEL
    show ?thesis
    proof (cases "parseKernelVersion (Value s)")
      case (Inr v)
      have "list_all (\<lambda>agt. bind_res (host_of agt) (\<lambda>h. case Kernel h of None \<Rightarrow> Inr False
          | Some kv \<Rightarrow> Inr (Version kv > Version v \<or> Version kv = Version v \<and> MajorRev kv > MajorRev v \<or>
              Version kv = Version v \<and> MajorRev kv = MajorRev v \<and> MinorRev kv \<ge> MinorRev v)) = Inr (accepts s agt)) agents"
        unfolding list_all_iff kernel_code_le using h Inr MIN_KERNEL
        by (fastforce simp: accepts_def split: option.splits)
      then show ?thesis
        using MIN_KERNEL Inr by (simp add: FilterAgentsBySelector_def filterByMinKernel_def filter_res_eq)
    qed (use none MIN_KERNEL in \<open>simp add: FilterAgentsBySelector_def filterByMinKernel_def\<close>)
  next
    case MAX_KERNEL
    show ?thesis
    proof (cases "parseKernelVersion (Value s)")
      case (Inr v)
      have le: "Version kv < Version v \<or> Version kv = Version v \<and> MajorRev kv < MajorRev v \<or>
          Version kv = Version v \<and> MajorRev kv = MajorRev v \<and> MinorRev kv \<le> MinorRev v \<longleftrightarrow>
          kernel_code kv \<le> kernel_code v" for kv
        using kernel_code_le [of kv v] by auto
      have "list_all (\<lambda>agt. bind_res (host_of agt) (\<lambda>h. case Kernel h of None \<Rightarrow> Inr False
          | Some kv \<Rightarrow> Inr (Version kv < Version v \<or> Version kv = Version v \<and> MajorRev kv < MajorRev v \<or>
              Version kv = Version v \<and> MajorRev kv = MajorRev v \<and> MinorRev kv \<le> MinorRev v)) = Inr (accepts s agt)) agents"
        unfolding list_all_iff le using h Inr MAX_KERNEL
        by (fastforce simp: accepts_def split: option.splits)
      then show ?thesis
        using MAX_KERNEL Inr by (simp add: FilterAgentsBySelector_def filterByMaxKernel_def filter_res_eq)
    qed (use none MAX_KERNEL in \<open>simp add: FilterAgentsBySelector_def filterByMaxKernel_def\<close>)
  next
    case HOST_NAME
    have "list_all (\<lambda>agt. bind_res (host_of agt) (\<lambda>h. Inr (Hostname h = Value s)) = Inr (accepts s agt)) agents"
      unfolding list_all_iff using h HOST_NAME by (fastforce simp: accepts_def)
    then show ?thesis
      using HOST_NAME by (simp add: FilterAgentsBySelector_def filterByHostName_def filter_res_eq)
  qed (use id in \<open>simp_all add: FilterAgentsBySelector_def\<close>)
qed

lemma select_agents_eq:
  "list_all has_host agents \<Longrightarrow>
   select_agents agents ss = Inr (filter (\<lambda>agt. list_all (\<lambda>s. accepts s agt) ss) agents)"
proof (induction ss arbitrary: agents)
  case (Cons s ss)
  have "list_all has_host (filter (accepts s) agents)" using Cons.prems by (auto simp: list_all_iff)
  from Cons.IH [OF this] FilterAgentsBySelector_eq [OF Cons.prems] show ?case
    by (simp add: conj_commute)
qed simp

section \<open>Grouping the programs of a deployment\<close>

definition agent_id :: "agent \<Rightarrow> uuid" where
  "agent_id agt = UUIDFromProtoOrNil (Option.bind (Info agt) AgentID)"

definition targets :: "'d tracepoint_env \<Rightarrow> agent list \<Rightarrow> tracepoint_program \<Rightarrow> uuid list" where
  "targets T agents p = sort_key (uuid_String (te_uuid T)) (map agent_id (filter (meets p) agents))"

definition hash_input :: "'d tracepoint_env \<Rightarrow> agent list \<Rightarrow> tracepoint_program \<Rightarrow> string" where
  "hash_input T agents p = concat (uuidsToStrings (te_uuid T) (targets T agents p))"

text \<open>SHA-256 tells apart the groups of this deployment.\<close>

definition no_collision :: "'d tracepoint_env \<Rightarrow> agent list \<Rightarrow> tracepoint_program list \<Rightarrow> bool" where
  "no_collision T agents ps = inj_on (te_sha256hex T) (hash_input T agents ` set ps)"

definition group_of :: "(string, 'v list) gomap \<Rightarrow> string \<Rightarrow> 'v list" where
  "group_of m h = (case map_of m h of None \<Rightarrow> [] | Some vs \<Rightarrow> vs)"

lemma group_of_add: "group_of (add_to_group h v m) h' = group_of m h' @ (if h = h' then [v] else [])"
  by (simp add: group_of_def add_to_group_def split: option.splits)

lemma concat_uuid_inj:
  assumes "uuid_ok U"
  shows "concat (uuidsToStrings U xs) = concat (uuidsToStrings U ys) \<longleftrightarrow> xs = ys"
proof (induction xs arbitrary: ys)
  case Nil
  have "uuid_String U y \<noteq> []" for y using assms by (metis path_seg_nonempty uuid_ok_seg)
  then show ?case by (cases ys) (simp_all add: uuidsToStrings_def)
next
  case (Cons x xs)
  have ne: "uuid_String U x \<noteq> []" using assms by (metis path_seg_nonempty uuid_ok_seg)
  show ?case
  proof (cases ys)
    case (Cons y ys')
    have "length (uuid_String U x) = length (uuid_String U y)" using assms by (rule uuid_ok_length)
    with Cons.IH [of ys'] Cons show ?thesis
      by (simp add: uuidsToStrings_def uuid_ok_inj [OF assms])
  qed (use ne in \<open>simp add: uuidsToStrings_def\<close>)
qed

lemma agent_ids_eq: "list_all has_host agents \<Longrightarrow> agent_ids agents = Inr (map agent_id agents)"
proof (induction agents)
  case (Cons agt agents)
  then have "Info agt \<noteq> None" by (cases "Info agt") (auto simp: has_host_def agent_host_info_def)
  with Cons show ?case by (auto simp: agent_ids_def agent_id_def)
qed (simp add: agent_ids_def)

definition group_step :: "'d tracepoint_env \<Rightarrow> agent list \<Rightarrow> tracepoint_groups \<Rightarrow> tracepoint_program \<Rightarrow> tracepoint_groups" where
  "group_step T agents g p =
     (let h = te_sha256hex T (hash_input T agents p)
      in (add_to_group h (Some p) (fst g), AList.update h (targets T agents p) (snd g)))"

lemma group_programs_eq:
  assumes "list_all has_host agents"
  shows "group_programs T agents (map Some ps) g = Inr (foldl (group_step T agents) g ps)"
proof (induction ps arbitrary: g)
  case (Cons p ps)
  have "list_all has_host (filter (meets p) agents)" using assms by (auto simp: list_all_iff)
  moreover have "select_agents agents (Selectors p) = Inr (filter (meets p) agents)"
    using select_agents_eq [OF assms] by (simp add: meets_def [abs_def])
  ultimately show ?case
    using Cons by (cases g) (simp add: HashUUIDs_def targets_def hash_input_def group_step_def Let_def agent_ids_eq)
qed (cases g, simp)

lemma group_foldl:
  assumes "foldl (group_step T agents) g ps = (hp, ha)"
  shows "group_of hp h =
      group_of (fst g) h @ map Some (filter (\<lambda>p. te_sha256hex T (hash_input T agents p) = h) ps)"
    and "gomap_ok (snd g) \<Longrightarrow> gomap_ok ha"
    and "map_of ha h =
      (case rev (filter (\<lambda>p. te_sha256hex T (hash_input T agents p) = h) ps) of
         [] \<Rightarrow> map_of (snd g) h | p # _ \<Rightarrow> Some (targets T agents p))"
  using assms
proof (induction ps arbitrary: hp ha rule: rev_induct)
  case (snoc p ps)
  obtain hp1 ha1 where g1: "foldl (group_step T agents) g ps = (hp1, ha1)" by fastforce
  have st: "hp = add_to_group (te_sha256hex T (hash_input T agents p)) (Some p) hp1"
    "ha = AList.update (te_sha256hex T (hash_input T agents p)) (targets T agents p) ha1"
    if "foldl (group_step T agents) g (ps @ [p]) = (hp, ha)" for hp ha
    using that g1 by (simp_all add: group_step_def Let_def)
  {
    case 1
    from st [OF this] snoc.IH(1) [OF g1] show ?case by (simp add: group_of_add)
  next
    case 2
    from st [OF 2(2)] snoc.IH(2) [OF 2(1) g1] show ?case by simp
  next
    case 3
    from st [OF this] snoc.IH(3) [OF g1] show ?case by simp
  }
qed simp_all

lemma mset_concat_filter:
  assumes "distinct hs" and "\<And>p. p \<in> set ps \<Longrightarrow> f p \<in> set hs"
  shows "mset (concat (map (\<lambda>h. filter (\<lambda>p. f p = h) ps) hs)) = mset ps"
proof (rule multiset_eqI)
  fix x
  have "count (mset (concat (map (\<lambda>h. filter (\<lambda>p. f p = h) ps) hs))) x =
      (\<Sum>h\<leftarrow>hs. count (mset (filter (\<lambda>p. f p = h) ps)) x)"
    by (induction hs) simp_all
  also have "\<dots> = (\<Sum>h\<in>set hs. if h = f x then count (mset ps) x else 0)"
    unfolding sum_list_distinct_conv_sum_set [OF assms(1)] by (rule sum.cong) auto
  also have "\<dots> = count (mset ps) x"
    using assms(2) [of x] by (auto simp: sum.delta count_eq_zero_iff)
  finally show "count (mset (concat (map (\<lambda>h. filter (\<lambda>p. f p = h) ps) hs))) x = count (mset ps) x" .
qed

lemma MessageAgents_ok:
  assumes "MessageAgents E m ids msg = (m', None)"
  shows "m' = m\<lparr>published := published m @ map (\<lambda>i. (AgentUUIDTopic (env_uuid (me_store E)) i, msg)) ids\<rparr>"
proof -
  let ?t = "AgentUUIDTopic (env_uuid (me_store E))"
  have "List.map_filter (\<lambda>i. me_Publish E (?t i) msg) ids = []"
    using assms unfolding MessageAgents_eq by (auto split: list.splits)
  then have "filter (\<lambda>i. me_Publish E (?t i) msg = None) ids = ids"
    by (induction ids) (auto simp: map_filter_def split: if_splits)
  with assms show ?thesis unfolding MessageAgents_eq by simp
qed

text \<open>A message that went out: the programs, the agents, and the serialised request.\<close>

type_synonym sent_group = "tracepoint_program list \<times> uuid list \<times> string"

definition deliveries :: "'d tracepoint_env \<Rightarrow> sent_group list \<Rightarrow> (string \<times> string) list" where
  "deliveries T gs = concat (map (\<lambda>(ps, ids, msg). map (\<lambda>i. (AgentUUIDTopic (te_uuid T) i, msg)) ids) gs)"

lemma send_groups_ok:
  "for_each (send_group T dep i hp) m xs = (m', None) \<Longrightarrow> (\<And>x. x \<in> set xs \<Longrightarrow> group_of hp (fst x) = map Some (f (fst x))) \<Longrightarrow>
   \<exists>msgs. list_all2 (\<lambda>x msg. te_register_msg T (dep\<lparr>Programs := map Some (f (fst x))\<rparr>) (ProtoFromUUID i) = Inr msg) xs msgs \<and>
     m' = m\<lparr>published := published m @ deliveries T (map2 (\<lambda>x msg. (f (fst x), snd x, msg)) xs msgs)\<rparr>"
proof (induction xs arbitrary: m)
  case Nil
  then show ?case by (simp add: deliveries_def)
next
  case (Cons x xs)
  obtain m1 where s: "send_group T dep i hp m x = (m1, None)"
    and r: "for_each (send_group T dep i hp) m1 xs = (m', None)"
    using Cons.prems(1) by (auto simp: seq_iffs)
  have f: "(case map_of hp (fst x) of None \<Rightarrow> [] | Some ps \<Rightarrow> ps) = map Some (f (fst x))"
    using Cons.prems(2) [of x] by (simp add: group_of_def)
  obtain msg where msg: "te_register_msg T (dep\<lparr>Programs := map Some (f (fst x))\<rparr>) (ProtoFromUUID i) = Inr msg"
    and ma: "MessageAgents (te_mgr T) m (snd x) msg = (m1, None)"
    using s f by (auto simp: send_group_def seq_iffs split: prod.splits)
  have pre: "group_of hp (fst y) = map Some (f (fst y))" if "y \<in> set xs" for y
    using Cons.prems(2) that by simp
  from Cons.IH [OF r pre]
  obtain msgs where IH: "list_all2 (\<lambda>x msg. te_register_msg T (dep\<lparr>Programs := map Some (f (fst x))\<rparr>) (ProtoFromUUID i) = Inr msg) xs msgs"
    "m' = m1\<lparr>published := published m1 @ deliveries T (map2 (\<lambda>x msg. (f (fst x), snd x, msg)) xs msgs)\<rparr>"
    by blast
  show ?case
    by (rule exI [of _ "msg # msgs"]) (use msg IH MessageAgents_ok [OF ma] in \<open>simp add: deliveries_def\<close>)
qed

lemma map2_groups:
  assumes "length xs = length msgs"
  shows "map fst (map2 (\<lambda>x msg. (f (fst x), snd x, msg)) xs msgs) = map f (map fst xs)"
    and "map (fst \<circ> snd) (map2 (\<lambda>x msg. (f (fst x), snd x, msg)) xs msgs) = map snd xs"
  by (use assms in \<open>induction xs msgs rule: list_induct2; simp\<close>)+

lemma no_collisionD:
  assumes "no_collision T agents ps" and "uuid_ok (te_uuid T)" and "p \<in> set ps" and "q \<in> set ps"
    and "te_sha256hex T (hash_input T agents p) = te_sha256hex T (hash_input T agents q)"
  shows "targets T agents p = targets T agents q"
proof -
  have "hash_input T agents p = hash_input T agents q"
    using assms by (auto simp: no_collision_def dest: inj_onD)
  with assms(2) show ?thesis unfolding hash_input_def by (simp add: concat_uuid_inj)
qed

lemma RegisterTracepoint_groups:
  assumes hosts: "list_all has_host agents" and dep: "Programs dep = map Some ps"
    and u: "uuid_ok (te_uuid T)" and nc: "no_collision T agents ps" and rng: "range_order_ok (te_range T)"
    and r: "RegisterTracepoint T m agents i (Some dep) = (m', None)"
  shows "\<exists>gs. m' = m\<lparr>published := published m @ deliveries T gs\<rparr> \<and>
    mset (concat (map fst gs)) = mset ps \<and> distinct (map (fst \<circ> snd) gs) \<and>
    list_all (\<lambda>(qs, ids, msg). te_register_msg T (dep\<lparr>Programs := map Some qs\<rparr>) (ProtoFromUUID i) = Inr msg \<and>
      qs \<noteq> [] \<and> list_all (\<lambda>p. ids = targets T agents p) qs) gs"
proof -
  let ?h = "\<lambda>p. te_sha256hex T (hash_input T agents p)" and ?f = "\<lambda>h. filter (\<lambda>p. te_sha256hex T (hash_input T agents p) = h) ps"
  obtain hp ha where g: "foldl (group_step T agents) ([], []) ps = (hp, ha)" by fastforce
  let ?xs = "go_range (te_range T) ha"
  have fe: "for_each (send_group T dep i hp) m ?xs = (m', None)"
    using r g dep by (simp add: RegisterTracepoint_def group_programs_eq [OF hosts])
  have hpf: "group_of hp h = map Some (?f h)" for h
    using group_foldl(1) [OF g, of h] by (simp add: group_of_def)
  obtain msgs where msgs: "list_all2 (\<lambda>x msg. te_register_msg T (dep\<lparr>Programs := map Some (?f (fst x))\<rparr>)
      (ProtoFromUUID i) = Inr msg) ?xs msgs"
    and m': "m' = m\<lparr>published := published m @ deliveries T (map2 (\<lambda>x msg. (?f (fst x), snd x, msg)) ?xs msgs)\<rparr>"
    using send_groups_ok [OF fe, of ?f] hpf by blast
  have okha: "gomap_ok ha" using group_foldl(2) [OF g] by simp
  have xs: "set ?xs = set ha" using rng okha by (rule set_go_range)
  have mem: "?f h \<noteq> [] \<and> list_all (\<lambda>p. ids = targets T agents p) (?f h)" if "(h, ids) \<in> set ?xs" for h ids
  proof -
    have "map_of ha h = Some ids" using that xs okha by simp
    with group_foldl(3) [OF g, of h] obtain p qs where "rev (?f h) = p # qs" "ids = targets T agents p"
      by (auto split: list.splits)
    then have "p \<in> set (rev (?f h))" and ids: "ids = targets T agents p" by simp_all
    then have p: "p \<in> set (?f h)" by (simp only: set_rev)
    then have ne: "?f h \<noteq> []" by (metis list.set_cases list.discI)
    have "targets T agents p = targets T agents q" if "q \<in> set (?f h)" for q
      using that p by (intro no_collisionD [OF nc u]) simp_all
    with ne ids show ?thesis by (simp only: list_all_iff) blast
  qed
  have hs: "map fst ?xs = te_range T (map fst ha)" by simp
  have dhs: "distinct (map fst ?xs)" using rng okha by (simp add: range_order_distinct)
  have cover: "?h p \<in> set (map fst ?xs)" if "p \<in> set ps" for p
  proof -
    have "?f (?h p) \<noteq> []" using that by (auto simp: filter_empty_conv)
    then have "map_of ha (?h p) \<noteq> None"
      using group_foldl(3) [OF g, of "?h p"] by (auto split: list.splits)
    then show ?thesis unfolding hs range_order_set [OF rng] by (auto simp: map_of_None_keys)
  qed
  let ?gs = "map2 (\<lambda>x msg. (?f (fst x), snd x, msg)) ?xs msgs"
  have len: "length ?xs = length msgs" using msgs by (rule list_all2_lengthD)
  note g1 = map2_groups [OF len, of ?f]
  have p1: "mset (concat (map fst ?gs)) = mset ps"
    unfolding g1 using dhs cover by (rule mset_concat_filter)
  have p2: "distinct (map (fst \<circ> snd) ?gs)"
    unfolding g1
  proof -
    have "fst x = te_sha256hex T (concat (uuidsToStrings (te_uuid T) (snd x)))" if "x \<in> set ?xs" for x
      using mem [of "fst x" "snd x"] that
      by (cases "?f (fst x)") (auto simp: hash_input_def list_all_iff filter_eq_Cons_iff)
    then have "map fst ?xs = map (\<lambda>ids. te_sha256hex T (concat (uuidsToStrings (te_uuid T) ids))) (map snd ?xs)"
      unfolding map_map comp_def by (rule map_cong [OF refl])
    with dhs show "distinct (map snd ?xs)" by (metis distinct_map)
  qed
  have p3: "list_all (\<lambda>(qs, ids, msg). te_register_msg T (dep\<lparr>Programs := map Some qs\<rparr>) (ProtoFromUUID i) = Inr msg \<and>
      qs \<noteq> [] \<and> list_all (\<lambda>p. ids = targets T agents p) qs) ?gs"
    unfolding list_all_iff
  proof
    fix g assume "g \<in> set ?gs"
    then obtain h ids msg where g: "g = (?f h, ids, msg)" and z: "((h, ids), msg) \<in> set (zip ?xs msgs)"
      by auto
    have "te_register_msg T (dep\<lparr>Programs := map Some (?f h)\<rparr>) (ProtoFromUUID i) = Inr msg"
      using msgs z by (fastforce simp: list_all2_iff)
    with mem [OF set_zip_leftD [OF z]] g show "case g of (qs, ids, msg) \<Rightarrow>
        te_register_msg T (dep\<lparr>Programs := map Some qs\<rparr>) (ProtoFromUUID i) = Inr msg \<and>
        qs \<noteq> [] \<and> Ball (set qs) (\<lambda>p. ids = targets T agents p)"
      unfolding g prod.case list_all_iff by blast
  qed
  show ?thesis by (intro exI [of _ ?gs] conjI m' p1 p2 p3)
qed

end
