(* ===== verification/TracepointStore.thy ===== *)
theory TracepointStore
  imports TracepointRegister
begin

text \<open>
  The tracepoints in the key-value store: what the store holds under which key, and what the
  operations of the store and of the manager do to it. The locale \<open>tracepoint_store\<close> extends the
  laws of the agent store, on the same database, by those of the messages of this store.
\<close>

section \<open>The content of the store\<close>

definition tracepoint_at :: "'d tracepoint_env \<Rightarrow> (string \<rightharpoonup> string) \<Rightarrow> uuid \<Rightarrow> tracepoint_info option" where
  "tracepoint_at T m i = Option.bind (m (getTracepointKey (te_uuid T) i)) (unmarshal_or_nil (te_info T))"

definition named_at :: "'d tracepoint_env \<Rightarrow> (string \<rightharpoonup> string) \<Rightarrow> string \<Rightarrow> uuid option" where
  "named_at T m n = map_option (\<lambda>p. UUIDFromProtoOrNil (Some p))
     (Option.bind (m (getTracepointWithNameKey n)) (unmarshal_or_nil (te_uuidpb T)))"

definition expiry_at :: "'d tracepoint_env \<Rightarrow> (string \<rightharpoonup> string) \<Rightarrow> uuid \<Rightarrow> int option" where
  "expiry_at T m i = Option.bind (m (getTracepointTTLKey (te_uuid T) i))
     (\<lambda>b. case time_UnmarshalBinary b of Inl _ \<Rightarrow> None | Inr t \<Rightarrow> Some t)"

definition state_at :: "'d tracepoint_env \<Rightarrow> (string \<rightharpoonup> string) \<Rightarrow> uuid \<Rightarrow> uuid \<Rightarrow> agent_tracepoint_status option" where
  "state_at T m i a = Option.bind (m (getTracepointStateKey (te_uuid T) i a)) (unmarshal_or_nil (te_status T))"

definition terminated :: "tracepoint_info \<Rightarrow> tracepoint_info" where
  "terminated tp = tp\<lparr>ExpectedState := TERMINATED_STATE\<rparr>"

text \<open>
  Every key under the prefixes of the store is the key of what it holds, and what it holds can be
  read.
\<close>

definition tracepoints_ok :: "'d tracepoint_env \<Rightarrow> (string \<rightharpoonup> string) \<Rightarrow> bool" where
  "tracepoints_ok T m \<longleftrightarrow>
     (\<forall>k b. m k = Some b \<longrightarrow> prefix tracepointsPrefix k \<longrightarrow>
        (\<exists>i tp. k = getTracepointKey (te_uuid T) i \<and> Unmarshal (te_info T) b = Inr tp \<and>
           proto_uuid i \<and> tp_ID tp = Some (ProtoFromUUID i)))"

definition states_ok :: "'d tracepoint_env \<Rightarrow> (string \<rightharpoonup> string) \<Rightarrow> bool" where
  "states_ok T m \<longleftrightarrow>
     (\<forall>k b. m k = Some b \<longrightarrow> prefix tracepointStatesPrefix k \<longrightarrow>
        (\<exists>s. k = getTracepointStateKey (te_uuid T) (UUIDFromProtoOrNil (ats_ID s)) (UUIDFromProtoOrNil (ats_AgentID s)) \<and>
           Unmarshal (te_status T) b = Inr s))"

definition ttls_ok :: "'d tracepoint_env \<Rightarrow> (string \<rightharpoonup> string) \<Rightarrow> bool" where
  "ttls_ok T m \<longleftrightarrow>
     (\<forall>k b. m k = Some b \<longrightarrow> prefix tracepointTTLsPrefix k \<longrightarrow>
        (\<exists>i t. k = getTracepointTTLKey (te_uuid T) i \<and> time_UnmarshalBinary b = Inr t))"

definition tracepoint_inv :: "'d tracepoint_env \<Rightarrow> (string \<rightharpoonup> string) \<Rightarrow> bool" where
  "tracepoint_inv T m \<longleftrightarrow> tracepoints_ok T m \<and> states_ok T m \<and> ttls_ok T m"

lemmas tracepoints_okD = tracepoints_ok_def [THEN iffD1, rule_format]
lemmas states_okD = states_ok_def [THEN iffD1, rule_format]
lemmas ttls_okD = ttls_ok_def [THEN iffD1, rule_format]

lemma path_seg_tracepoint [simp]:
  "path_seg ''tracepoint''" "path_seg ''tracepointStates''" "path_seg ''tracepointTTL''" "path_seg ''tracepointName''"
  by code_simp+

lemma getTracepointKey_eq: "uuid_ok U \<Longrightarrow> getTracepointKey U i = ''/tracepoint/'' @ uuid_String U i"
  using path_Join_dir [of "''tracepoint''" "uuid_String U i" "[]"]
  by (simp add: getTracepointKey_def tracepointsPrefix_def)

lemma getTracepointStatesKey_eq: "uuid_ok U \<Longrightarrow> getTracepointStatesKey U i = ''/tracepointStates/'' @ uuid_String U i"
  using path_Join_dir [of "''tracepointStates''" "uuid_String U i" "[]"]
  by (simp add: getTracepointStatesKey_def tracepointStatesPrefix_def)

lemma getTracepointStateKey_eq:
  "uuid_ok U \<Longrightarrow> getTracepointStateKey U i a = ''/tracepointStates/'' @ uuid_String U i @ ''/'' @ uuid_String U a"
  using path_Join_dir [of "''tracepointStates''" "uuid_String U i" "[uuid_String U a]"]
  by (simp add: getTracepointStateKey_def tracepointStatesPrefix_def)

lemma getTracepointTTLKey_eq: "uuid_ok U \<Longrightarrow> getTracepointTTLKey U i = ''/tracepointTTL/'' @ uuid_String U i"
  using path_Join_dir [of "''tracepointTTL''" "uuid_String U i" "[]"]
  by (simp add: getTracepointTTLKey_def tracepointTTLsPrefix_def)

lemma getTracepointWithNameKey_eq: "path_seg n \<Longrightarrow> getTracepointWithNameKey n = ''/tracepointName/'' @ n"
  using path_Join_dir [of "''tracepointName''" n "[]"]
  by (simp add: getTracepointWithNameKey_def tracepointNamesPrefix_def)

lemmas tracepoint_key_eqs = getTracepointKey_eq getTracepointStatesKey_eq getTracepointStateKey_eq
  getTracepointTTLKey_eq getTracepointWithNameKey_eq tracepointsPrefix_def tracepointStatesPrefix_def
  tracepointTTLsPrefix_def tracepointNamesPrefix_def

lemma unmarshal_or_nil_Some: "unmarshal_or_nil C b = Some x \<longleftrightarrow> Unmarshal C b = Inr x"
  by (auto simp: unmarshal_or_nil_def split: sum.splits)

locale tracepoint_store = agent_store "me_store (te_mgr T)" view
  for T :: "'d tracepoint_env" and view :: "'d \<Rightarrow> string \<rightharpoonup> string" +
  assumes info_codec: "codec_ok (te_info T)"
    and status_codec: "codec_ok (te_status T)"
    and uuidpb_codec: "codec_ok (te_uuidpb T)"
begin

lemma tracepoint_keys_inj [simp]:
  "getTracepointKey (te_uuid T) i = getTracepointKey (te_uuid T) j \<longleftrightarrow> i = j"
  "getTracepointTTLKey (te_uuid T) i = getTracepointTTLKey (te_uuid T) j \<longleftrightarrow> i = j"
  "getTracepointStateKey (te_uuid T) i a = getTracepointStateKey (te_uuid T) j b \<longleftrightarrow> i = j \<and> a = b"
proof -
  have "uuid_String (te_uuid T) i @ ''/'' @ uuid_String (te_uuid T) a =
      uuid_String (te_uuid T) j @ ''/'' @ uuid_String (te_uuid T) b \<longleftrightarrow> i = j \<and> a = b"
    using uuid_ok_length [OF uuids, of i j] by (simp add: uuid_ok_inj [OF uuids])
  then show "getTracepointStateKey (te_uuid T) i a = getTracepointStateKey (te_uuid T) j b \<longleftrightarrow> i = j \<and> a = b"
    using uuids by (simp add: tracepoint_key_eqs)
qed (use uuids in \<open>simp_all add: tracepoint_key_eqs uuid_ok_inj\<close>)

lemma states_prefix [simp]:
  "prefix (getTracepointStatesKey (te_uuid T) i) (getTracepointStateKey (te_uuid T) j a) \<longleftrightarrow> i = j"
proof -
  let ?s = "uuid_String (te_uuid T)"
  have "prefix (?s i) (?s j @ ''/'' @ ?s a) \<longleftrightarrow> ?s i = ?s j"
    using uuid_ok_length [OF uuids, of i j] by (auto simp: prefix_def)
  then show ?thesis using uuids by (simp add: tracepoint_key_eqs uuid_ok_inj)
qed

lemma tracepoint_keys_apart [simp]:
  "getTracepointTTLKey (te_uuid T) j \<noteq> getTracepointKey (te_uuid T) i"
  "getTracepointStateKey (te_uuid T) j a \<noteq> getTracepointKey (te_uuid T) i"
  "getTracepointStateKey (te_uuid T) j a \<noteq> getTracepointTTLKey (te_uuid T) i"
  "\<not> prefix (getTracepointStatesKey (te_uuid T) i) (getTracepointKey (te_uuid T) j)"
  "\<not> prefix (getTracepointStatesKey (te_uuid T) i) (getTracepointTTLKey (te_uuid T) j)"
  "prefix tracepointsPrefix (getTracepointKey (te_uuid T) i)"
  "\<not> prefix tracepointsPrefix (getTracepointStateKey (te_uuid T) i a)"
  "\<not> prefix tracepointsPrefix (getTracepointTTLKey (te_uuid T) i)"
  "prefix tracepointStatesPrefix (getTracepointStateKey (te_uuid T) i a)"
  "\<not> prefix tracepointStatesPrefix (getTracepointKey (te_uuid T) i)"
  "\<not> prefix tracepointStatesPrefix (getTracepointTTLKey (te_uuid T) i)"
  "prefix tracepointTTLsPrefix (getTracepointTTLKey (te_uuid T) i)"
  "\<not> prefix tracepointTTLsPrefix (getTracepointKey (te_uuid T) i)"
  "\<not> prefix tracepointTTLsPrefix (getTracepointStateKey (te_uuid T) i a)"
  "\<not> reserved_key (getTracepointKey (te_uuid T) i)"
  "\<not> reserved_key (getTracepointStateKey (te_uuid T) i a)"
  "\<not> reserved_key (getTracepointTTLKey (te_uuid T) i)"
  using uuids by (simp_all add: tracepoint_key_eqs reserved_key_def)

lemmas tracepoint_keys_apart_sym [simp] = tracepoint_keys_apart(1,2,3) [THEN not_sym]

lemma name_keys_apart:
  assumes "path_seg n"
  shows "getTracepointWithNameKey n \<noteq> getTracepointKey (te_uuid T) i"
    "getTracepointWithNameKey n \<noteq> getTracepointTTLKey (te_uuid T) i"
    "getTracepointWithNameKey n \<noteq> getTracepointStateKey (te_uuid T) i a"
    "\<not> prefix tracepointsPrefix (getTracepointWithNameKey n)"
    "\<not> prefix tracepointStatesPrefix (getTracepointWithNameKey n)"
    "\<not> prefix tracepointTTLsPrefix (getTracepointWithNameKey n)"
    "\<not> reserved_key (getTracepointWithNameKey n)"
  using uuids assms by (simp_all add: tracepoint_key_eqs reserved_key_def)


subsection \<open>Reading and writing\<close>

lemma GetTracepoint_at: "GetTracepoint T d i = Inr r \<Longrightarrow> r = tracepoint_at T (view d) i"
  unfolding GetTracepoint_def read_tracepoint_def
  by (subst (asm) bind_get)
    (auto simp: bind_res_Inr_iff tracepoint_at_def unmarshal_or_nil_def split: option.splits)

lemma GetTracepointsWithNames_at:
  "GetTracepointsWithNames T d ns = Inr rs \<Longrightarrow> rs = map (named_at T (view d)) ns"
proof (induction ns arbitrary: rs)
  case (Cons n ns)
  obtain r rs' where r: "bind_res (kv_Get (te_ds T) d (getTracepointWithNameKey n)) (\<lambda>val.
         case val of None \<Rightarrow> Inr None
         | Some b \<Rightarrow> bind_res (Unmarshal (te_uuidpb T) b) (\<lambda>uuidPB. Inr (Some (UUIDFromProtoOrNil (Some uuidPB))))) = Inr r"
    and rs': "GetTracepointsWithNames T d ns = Inr rs'" and rs: "rs = r # rs'"
    using Cons.prems by (auto simp: GetTracepointsWithNames_def bind_res_Inr_iff)
  have "r = named_at T (view d) n"
    using r by (subst (asm) bind_get)
      (auto simp: bind_res_Inr_iff named_at_def unmarshal_or_nil_def split: option.splits)
  with Cons.IH [OF rs'] rs show ?case by simp
qed (simp add: GetTracepointsWithNames_def)

lemma UpsertTracepoint_ok:
  assumes "UpsertTracepoint T d i tp = (d', None)"
  shows "\<exists>b. view d' = (view d)(getTracepointKey (te_uuid T) i \<mapsto> b) \<and> Unmarshal (te_info T) b = Inr tp"
  using assms set_ok codec_okD [OF info_codec] by (auto simp: UpsertTracepoint_def seq_iffs)

lemma UpsertTracepoint_err: "UpsertTracepoint T d i tp = (d', Some e) \<Longrightarrow> view d' = view d"
  using set_err by (auto simp: UpsertTracepoint_def seq_iffs)

lemma SetTracepointTTL_ok:
  "SetTracepointTTL T now now_ds d i ttl = (d', None) \<Longrightarrow> \<not> reserved_key k \<Longrightarrow>
   view d' k = ((view d)(getTracepointTTLKey (te_uuid T) i \<mapsto> time_MarshalBinary (now + ttl))) k"
  unfolding SetTracepointTTL_def by (rule set_ttl_ok) simp_all

lemma SetTracepointTTL_err: "SetTracepointTTL T now now_ds d i ttl = (d', Some e) \<Longrightarrow> view d' = view d"
  unfolding SetTracepointTTL_def by (rule set_ttl_err)

lemma SetTracepointWithName_ok:
  assumes "SetTracepointWithName T d n i = (d', None)"
  shows "\<exists>b. view d' = (view d)(getTracepointWithNameKey n \<mapsto> b) \<and> Unmarshal (te_uuidpb T) b = Inr (ProtoFromUUID i)"
  using assms set_ok codec_okD [OF uuidpb_codec] by (auto simp: SetTracepointWithName_def seq_iffs)

lemma SetTracepointWithName_err: "SetTracepointWithName T d n i = (d', Some e) \<Longrightarrow> view d' = view d"
  using set_err by (auto simp: SetTracepointWithName_def seq_iffs)

lemma GetTracepoints_at:
  assumes "tracepoints_ok T (view d)" and "GetTracepoints T d = Inr tps"
  shows "set tps = {Some tp |tp. \<exists>i. tracepoint_at T (view d) i = Some tp}"
proof -
  obtain ks vs where g: "kv_GetWithPrefix (te_ds T) d tracepointsPrefix = Inr (ks, vs)"
    and tps: "tps = map (unmarshal_or_nil (te_info T)) vs"
    using assms(2) by (auto simp: GetTracepoints_def bind_res_Inr_iff)
  have l: "lists_keys (view d) (prefix tracepointsPrefix) ks vs" using g by (rule get_prefix)
  then have len: "length vs = length ks" by (auto simp: lists_keys_def dest: map_eq_imp_length_eq)
  have "v \<in> set vs \<longleftrightarrow> (\<exists>k. prefix tracepointsPrefix k \<and> view d k = Some v)" for v
  proof -
    have "v \<in> set vs \<longleftrightarrow> (\<exists>k. (k, v) \<in> set (zip ks vs))"
      using len by (metis in_set_impl_in_set_zip2 set_zip_rightD)
    then show ?thesis by (simp add: lists_keys_zip [OF l])
  qed
  then have mem: "x \<in> set tps \<longleftrightarrow> (\<exists>k v. prefix tracepointsPrefix k \<and> view d k = Some v \<and> x = unmarshal_or_nil (te_info T) v)" for x
    unfolding tps set_map image_iff by blast
  have "x \<in> set tps \<longleftrightarrow> (\<exists>tp i. x = Some tp \<and> tracepoint_at T (view d) i = Some tp)" for x
  proof
    assume "x \<in> set tps"
    then obtain k v where k: "prefix tracepointsPrefix k" "view d k = Some v" and x: "x = unmarshal_or_nil (te_info T) v"
      unfolding mem by blast
    from tracepoints_okD [OF assms(1) k(2,1)] obtain i tp
      where "k = getTracepointKey (te_uuid T) i" "Unmarshal (te_info T) v = Inr tp" by blast
    with k x have "x = Some tp" "tracepoint_at T (view d) i = Some tp"
      by (simp_all add: tracepoint_at_def unmarshal_or_nil_def)
    then show "\<exists>tp i. x = Some tp \<and> tracepoint_at T (view d) i = Some tp" by blast
  next
    assume "\<exists>tp i. x = Some tp \<and> tracepoint_at T (view d) i = Some tp"
    then obtain tp i v where "x = Some tp" "view d (getTracepointKey (te_uuid T) i) = Some v"
      "unmarshal_or_nil (te_info T) v = Some tp"
      by (auto simp: tracepoint_at_def bind_eq_Some_conv)
    then show "x \<in> set tps" unfolding mem by (metis tracepoint_keys_apart(6))
  qed
  then show ?thesis by blast
qed

lemma tracepoint_at_id:
  assumes "tracepoints_ok T m" and "tracepoint_at T m i = Some tp"
  shows "proto_uuid i" and "tp_ID tp = Some (ProtoFromUUID i)"
proof -
  obtain b where b: "m (getTracepointKey (te_uuid T) i) = Some b" "Unmarshal (te_info T) b = Inr tp"
    using assms(2) by (auto simp: tracepoint_at_def bind_eq_Some_conv unmarshal_or_nil_Some)
  from tracepoints_okD [OF assms(1) b(1)] b(2) show "proto_uuid i" "tp_ID tp = Some (ProtoFromUUID i)"
    by auto
qed

lemma collect_ttls_at:
  "length ks = length vs \<Longrightarrow>
   (\<And>k v. (k, v) \<in> set (zip ks vs) \<Longrightarrow> \<exists>i t. k = getTracepointTTLKey (te_uuid T) i \<and> time_UnmarshalBinary v = Inr t) \<Longrightarrow>
   set (collect_ttls (te_uuid T) now ks vs) =
     {(i, t). \<exists>v. (getTracepointTTLKey (te_uuid T) i, v) \<in> set (zip ks vs) \<and> time_UnmarshalBinary v = Inr t}"
proof (induction ks vs rule: list_induct2)
  case (Cons k ks v vs)
  from Cons.prems [of k v] obtain i t where k: "k = getTracepointTTLKey (te_uuid T) i" "time_UnmarshalBinary v = Inr t"
    by auto
  have sp: "split_on CHR ''/'' k = [[], ''tracepointTTL'', uuid_String (te_uuid T) i]"
    using uuids k(1) by (simp add: tracepoint_key_eqs path_seg_split)
  have fs: "uuid_FromString (te_uuid T) (uuid_String (te_uuid T) i) = Inr i" using uuids by (simp add: uuid_ok_def)
  have "collect_ttls (te_uuid T) now (k # ks) (v # vs) = (i, t) # collect_ttls (te_uuid T) now ks vs"
    by (simp add: sp fs k(2))
  with Cons k show ?case by auto
qed simp

lemma GetTracepointTTLs_at:
  assumes "ttls_ok T (view d)" and "GetTracepointTTLs T now d = Inr ttls"
  shows "(i, t) \<in> set ttls \<longleftrightarrow> expiry_at T (view d) i = Some t"
proof -
  obtain ks vs where g: "kv_GetWithPrefix (te_ds T) d tracepointTTLsPrefix = Inr (ks, vs)"
    and ttls: "ttls = collect_ttls (te_uuid T) now ks vs"
    using assms(2) by (auto simp: GetTracepointTTLs_def bind_res_Inr_iff)
  have l: "lists_keys (view d) (prefix tracepointTTLsPrefix) ks vs" using g by (rule get_prefix)
  then have len: "length ks = length vs" by (auto simp: lists_keys_def dest: map_eq_imp_length_eq)
  have "set ttls = {(i, t). \<exists>v. (getTracepointTTLKey (te_uuid T) i, v) \<in> set (zip ks vs) \<and> time_UnmarshalBinary v = Inr t}"
    unfolding ttls using len by (rule collect_ttls_at) (use ttls_okD [OF assms(1)] lists_keys_zip [OF l] in blast)
  then show ?thesis
    by (cases "view d (getTracepointTTLKey (te_uuid T) i)")
      (auto simp: lists_keys_zip [OF l] expiry_at_def split: sum.splits)
qed

end

section \<open>The reaper\<close>

definition alive :: "'d tracepoint_env \<Rightarrow> (string \<rightharpoonup> string) \<Rightarrow> int \<Rightarrow> uuid \<Rightarrow> bool" where
  "alive T m now i \<longleftrightarrow> (case expiry_at T m i of None \<Rightarrow> False | Some t \<Rightarrow> now < t)"

text \<open>The state \<open>m\<close> is the state \<open>m0\<close> with some of the expired tracepoints terminated.\<close>

definition reaped :: "'d tracepoint_env \<Rightarrow> int \<Rightarrow> (string \<rightharpoonup> string) \<Rightarrow> (string \<rightharpoonup> string) \<Rightarrow> bool" where
  "reaped T now m0 m \<longleftrightarrow>
     (\<forall>k. prefix tracepointsPrefix k \<or> m k = m0 k) \<and> tracepoints_ok T m \<and>
     (\<forall>i. tracepoint_at T m i = tracepoint_at T m0 i \<or>
        \<not> alive T m0 now i \<and> tracepoint_at T m i = map_option terminated (tracepoint_at T m0 i))"

lemma terminated_idem [simp]: "terminated (terminated tp) = terminated tp"
  by (simp add: terminated_def)

lemma MessageActiveAgents_store [simp]: "agtStore (fst (MessageActiveAgents E m msg)) = agtStore m"
  by (cases "GetActiveAgents E m") (simp_all add: MessageActiveAgents_def MessageAgents_eq)

lemma map_of_foldl_update:
  "map_of (foldl (\<lambda>act (k, v). AList.update k (f v) act) acc xs) k =
     (case map_of (rev xs) k of None \<Rightarrow> map_of acc k | Some v \<Rightarrow> Some (f v))"
  by (induction xs arbitrary: acc) (auto simp: map_add_def split: option.splits)

context tracepoint_store
begin

lemma tracepoint_at_upd:
  "tracepoint_at T (m(getTracepointKey (te_uuid T) i \<mapsto> b)) j =
     (if j = i then unmarshal_or_nil (te_info T) b else tracepoint_at T m j)"
  by (simp add: tracepoint_at_def)

lemma tracepoints_ok_upd:
  assumes "tracepoints_ok T m" and "Unmarshal (te_info T) b = Inr tp"
    and "proto_uuid i" and "tp_ID tp = Some (ProtoFromUUID i)"
  shows "tracepoints_ok T (m(getTracepointKey (te_uuid T) i \<mapsto> b))"
  unfolding tracepoints_ok_def
proof (intro allI impI)
  fix k c assume k: "(m(getTracepointKey (te_uuid T) i \<mapsto> b)) k = Some c" "prefix tracepointsPrefix k"
  show "\<exists>i tp. k = getTracepointKey (te_uuid T) i \<and> Unmarshal (te_info T) c = Inr tp \<and>
      proto_uuid i \<and> tp_ID tp = Some (ProtoFromUUID i)"
  proof (cases "k = getTracepointKey (te_uuid T) i")
    case True
    with k assms(2-4) show ?thesis by (intro exI [of _ i] exI [of _ tp]) simp
  next
    case False
    with k tracepoints_okD [OF assms(1)] show ?thesis by simp
  qed
qed

lemma terminateTracepoint_effect:
  assumes "terminateTracepoint T m i = (m', r)"
  shows "view (agtStore m') = view (agtStore m) \<or>
    (\<exists>tp b. tracepoint_at T (view (agtStore m)) i = Some tp \<and> Unmarshal (te_info T) b = Inr (terminated tp) \<and>
       view (agtStore m') = (view (agtStore m))(getTracepointKey (te_uuid T) i \<mapsto> b))"
proof (cases "GetTracepoint T (agtStore m) i")
  case (Inr r')
  note at = GetTracepoint_at [OF Inr]
  show ?thesis
  proof (cases r')
    case (Some tp)
    obtain d' e where u: "UpsertTracepoint T (agtStore m) i (terminated tp) = (d', e)" by fastforce
    have "agtStore m' = d'"
    proof (cases e)
      case None
      then have "(m', r) = with_res (te_remove_msg T (ProtoFromUUID i)) (m\<lparr>agtStore := d'\<rparr>)
          (MessageActiveAgents (te_mgr T) (m\<lparr>agtStore := d'\<rparr>))"
        using assms Inr Some u by (simp add: terminateTracepoint_def store_call_def terminated_def)
      then show ?thesis
        using MessageActiveAgents_store [of "te_mgr T" "m\<lparr>agtStore := d'\<rparr>"]
        by (cases "te_remove_msg T (ProtoFromUUID i)") (auto simp del: MessageActiveAgents_store, metis fst_conv)
    next
      case (Some e')
      then show ?thesis using assms Inr \<open>r' = Some tp\<close> u
        by (auto simp: terminateTracepoint_def store_call_def terminated_def)
    qed
    moreover have "tracepoint_at T (view (agtStore m)) i = Some tp" using at Some by simp
    ultimately show ?thesis
      using UpsertTracepoint_ok [of "agtStore m" i "terminated tp" d'] UpsertTracepoint_err [of "agtStore m" i "terminated tp" d']
        u by (cases e) (simp, blast, simp)
  qed (use assms Inr in \<open>simp add: terminateTracepoint_def\<close>)
qed (use assms in \<open>simp add: terminateTracepoint_def\<close>)

lemma terminateTracepoint_available:
  assumes "kv_available (te_ds T) up" and "up (agtStore m)"
    and "tracepoint_at T (view (agtStore m)) i = Some tp" and "ok (Marshal (te_info T) (terminated tp))"
    and "terminateTracepoint T m i = (m', r)"
  shows "tracepoint_at T (view (agtStore m')) i = Some (terminated tp)" and "up (agtStore m')"
proof -
  let ?k = "getTracepointKey (te_uuid T) i"
  obtain c where c: "view (agtStore m) ?k = Some c" "Unmarshal (te_info T) c = Inr tp"
    using assms(3) by (auto simp: tracepoint_at_def bind_eq_Some_conv unmarshal_or_nil_Some)
  obtain b where b: "Marshal (te_info T) (terminated tp) = Inr b" using assms(4) by (auto simp: ok_iff)
  obtain x where x: "kv_Get (te_ds T) (agtStore m) ?k = Inr x" using kv_availableD(1) [OF assms(1,2)] by blast
  have g: "GetTracepoint T (agtStore m) i = Inr (Some tp)"
    using x get [OF x] c by (simp add: GetTracepoint_def read_tracepoint_def)
  obtain d' where d': "kv_Set (te_ds T) (agtStore m) ?k b = (d', None)" "up d'"
    using kv_availableD(2) [OF assms(1,2)] by blast
  have "UpsertTracepoint T (agtStore m) i (terminated tp) = (d', None)" using b d'(1) by (simp add: UpsertTracepoint_def)
  then have "(m', r) = with_res (te_remove_msg T (ProtoFromUUID i)) (m\<lparr>agtStore := d'\<rparr>)
      (MessageActiveAgents (te_mgr T) (m\<lparr>agtStore := d'\<rparr>))"
    using assms(5) g by (simp add: terminateTracepoint_def store_call_def terminated_def)
  then have m': "agtStore m' = d'"
    using MessageActiveAgents_store [of "te_mgr T" "m\<lparr>agtStore := d'\<rparr>"]
    by (cases "te_remove_msg T (ProtoFromUUID i)") (auto simp del: MessageActiveAgents_store, metis fst_conv)
  with d' show "up (agtStore m')" by simp
  have "Unmarshal (te_info T) b = Inr (terminated tp)" using info_codec b by (rule codec_okD)
  with set_ok [OF d'(1)] m' show "tracepoint_at T (view (agtStore m')) i = Some (terminated tp)"
    by (simp add: tracepoint_at_upd unmarshal_or_nil_Some)
qed


lemma reaped_terminate:
  assumes r: "reaped T now m0 (view (agtStore m))" and dead: "\<not> alive T m0 now i"
    and t: "terminateTracepoint T m i = (m', e)"
  shows "reaped T now m0 (view (agtStore m'))"
  using terminateTracepoint_effect [OF t]
proof (elim disjE exE conjE)
  fix tp b
  let ?v = "view (agtStore m)"
  assume at: "tracepoint_at T ?v i = Some tp" and b: "Unmarshal (te_info T) b = Inr (terminated tp)"
    and v: "view (agtStore m') = ?v(getTracepointKey (te_uuid T) i \<mapsto> b)"
  have ok: "tracepoints_ok T ?v" using r by (simp add: reaped_def)
  note own = tracepoint_at_id [OF ok at]
  have tp: "Some (terminated tp) = map_option terminated (tracepoint_at T m0 i)"
    using r at unfolding reaped_def by (metis (no_types, lifting) map_option_eq_Some option.map(2) terminated_idem)
  show ?thesis
    unfolding reaped_def v
  proof (intro conjI allI)
    show "prefix tracepointsPrefix k \<or> (?v(getTracepointKey (te_uuid T) i \<mapsto> b)) k = m0 k" for k
      using r by (auto simp: reaped_def)
    show "tracepoints_ok T (?v(getTracepointKey (te_uuid T) i \<mapsto> b))"
      using ok b own(1) by (rule tracepoints_ok_upd) (simp add: terminated_def own(2))
    show "tracepoint_at T (?v(getTracepointKey (te_uuid T) i \<mapsto> b)) j = tracepoint_at T m0 j \<or>
        \<not> alive T m0 now j \<and> tracepoint_at T (?v(getTracepointKey (te_uuid T) i \<mapsto> b)) j =
          map_option terminated (tracepoint_at T m0 j)" for j
      using r dead b tp by (cases "j = i") (auto simp: tracepoint_at_upd unmarshal_or_nil_def reaped_def)
  qed
qed (use r in simp)

lemma reap_step_reaped:
  assumes "reaped T now m0 (view (agtStore m))" and "\<And>i. map_of act i = Some True \<longleftrightarrow> alive T m0 now i"
  shows "reaped T now m0 (view (agtStore (fst (reap_step T now act m tp))))"
proof (cases tp)
  case (Some t)
  let ?i = "UUIDFromProtoOrNil (tp_ID t)"
  obtain m' e where t: "terminateTracepoint T m ?i = (m', e)" by fastforce
  have "fst (log_err (m', e)) = m'" by (simp add: log_err_def split: option.splits)
  with assms reaped_terminate [OF assms(1) _ t] t Some show ?thesis
    by (auto simp: reap_step_def Let_def)
qed (use assms(1) in \<open>simp add: reap_step_def\<close>)

lemma reap_available:
  assumes act: "\<And>i. map_of act i = Some True \<longleftrightarrow> alive T m0 now i"
    and up: "kv_available (te_ds T) up"
    and ser: "\<And>i tp. tracepoint_at T m0 i = Some tp \<Longrightarrow> ok (Marshal (te_info T) (terminated tp))"
    and ok0: "tracepoints_ok T m0"
  shows "reaped T now m0 (view (agtStore m)) \<Longrightarrow> up (agtStore m) \<Longrightarrow>
    (\<And>x. x \<in> set tps \<Longrightarrow> \<exists>tp i. x = Some tp \<and> tracepoint_at T m0 i = Some tp) \<Longrightarrow>
    for_each (reap_step T now act) m tps = (m', None) \<Longrightarrow>
    \<forall>i tp. tracepoint_at T m0 i = Some tp \<longrightarrow> \<not> alive T m0 now i \<longrightarrow>
      Some tp \<in> set tps \<or> tracepoint_at T (view (agtStore m)) i = Some (terminated tp) \<longrightarrow>
      tracepoint_at T (view (agtStore m')) i = Some (terminated tp)"
proof (induction tps arbitrary: m)
  case (Cons x tps)
  obtain tp i where x: "x = Some tp" and at: "tracepoint_at T m0 i = Some tp" using Cons.prems(3) [of x] by auto
  have i: "UUIDFromProtoOrNil (tp_ID tp) = i" using tracepoint_at_id [OF ok0 at] by simp
  obtain m1 where s: "reap_step T now act m x = (m1, None)" and r: "for_each (reap_step T now act) m1 tps = (m', None)"
    using Cons.prems(4) by (auto simp: seq_iffs)
  have r1: "reaped T now m0 (view (agtStore m1))" using reap_step_reaped [OF Cons.prems(1) act, of x] s by simp
  have step: "up (agtStore m1) \<and> (alive T m0 now i \<or> tracepoint_at T (view (agtStore m1)) i = Some (terminated tp)) \<and>
      (\<forall>j. tracepoint_at T (view (agtStore m1)) j = tracepoint_at T (view (agtStore m)) j \<or> j = i)"
  proof (cases "alive T m0 now i \<or> ExpectedState tp = TERMINATED_STATE")
    case True
    then have "m1 = m" using s x i act by (auto simp: reap_step_def split: if_splits)
    moreover have "terminated tp = tp" if "ExpectedState tp = TERMINATED_STATE" using that by (simp add: terminated_def)
    moreover have "tracepoint_at T (view (agtStore m)) i \<in> {Some tp, Some (terminated tp)}"
      using Cons.prems(1) at unfolding reaped_def by (metis insertCI option.map(2))
    ultimately show ?thesis using True Cons.prems(2) by auto
  next
    case False
    obtain m2 e where t: "terminateTracepoint T m i = (m2, e)" by fastforce
    then have m1: "m1 = m2" using s x i act False
      by (auto simp: reap_step_def log_err_def split: if_splits option.splits)
    obtain tp' where tp': "tracepoint_at T (view (agtStore m)) i = Some tp'" "terminated tp' = terminated tp"
      using Cons.prems(1) at unfolding reaped_def by (metis option.map(2) terminated_idem)
    have "ok (Marshal (te_info T) (terminated tp'))" using ser [OF at] tp'(2) by simp
    note T = terminateTracepoint_available [OF up Cons.prems(2) tp'(1) this t]
    have "tracepoint_at T (view (agtStore m2)) j = tracepoint_at T (view (agtStore m)) j \<or> j = i" for j
      using terminateTracepoint_effect [OF t] by (auto simp: tracepoint_at_upd)
    with T tp'(2) m1 show ?thesis by auto
  qed
  have ih: "\<forall>i tp. tracepoint_at T m0 i = Some tp \<longrightarrow> \<not> alive T m0 now i \<longrightarrow>
      Some tp \<in> set tps \<or> tracepoint_at T (view (agtStore m1)) i = Some (terminated tp) \<longrightarrow>
      tracepoint_at T (view (agtStore m')) i = Some (terminated tp)"
    using Cons.IH [OF r1 _ _ r] step Cons.prems(3) by simp
  show ?case
  proof (intro allI impI)
    fix j tq
    assume j: "tracepoint_at T m0 j = Some tq" "\<not> alive T m0 now j"
      and c: "Some tq \<in> set (x # tps) \<or> tracepoint_at T (view (agtStore m)) j = Some (terminated tq)"
    show "tracepoint_at T (view (agtStore m')) j = Some (terminated tq)"
    proof (cases "j = i")
      case True
      with j at step ih show ?thesis by auto
    next
      case False
      then have "Some tq \<noteq> x"
        using x j at tracepoint_at_id [OF ok0 at] tracepoint_at_id [OF ok0 j(1)] by auto
      with c step False have "Some tq \<in> set tps \<or> tracepoint_at T (view (agtStore m1)) j = Some (terminated tq)" by (metis set_ConsD)
      with ih j show ?thesis by blast
    qed
  qed
qed simp

lemma active_map:
  assumes "ttls_ok T (view d)" and "GetTracepointTTLs T now_ttl d = Inr ttls"
  shows "map_of (foldl (\<lambda>act (tp, expiry). AList.update tp (now < expiry) act) [] ttls) i = Some True \<longleftrightarrow>
    alive T (view d) now i"
proof (cases "map_of (rev ttls) i")
  case None
  then have "(i, t) \<notin> set ttls" for t by (force simp: map_of_eq_None_iff)
  then have "expiry_at T (view d) i = None" using GetTracepointTTLs_at [OF assms, of i] by (metis not_None_eq)
  with None show ?thesis by (simp add: map_of_foldl_update alive_def)
next
  case (Some t)
  then have "(i, t) \<in> set ttls" by (metis map_of_SomeD set_rev)
  then have "expiry_at T (view d) i = Some t" using GetTracepointTTLs_at [OF assms] by simp
  with Some show ?thesis by (simp add: map_of_foldl_update alive_def)
qed

lemma terminateExpired_reaped:
  assumes inv: "tracepoint_inv T (view (agtStore m))"
    and t: "terminateExpiredTracepoints T now_ttl now m = (m', r)"
  shows "reaped T now (view (agtStore m)) (view (agtStore m'))"
proof -
  let ?v = "view (agtStore m)"
  have r0: "reaped T now ?v ?v" using inv by (simp add: reaped_def tracepoint_inv_def)
  show ?thesis
  proof (cases "GetTracepoints T (agtStore m)")
    case (Inr tps)
    show ?thesis
    proof (cases "GetTracepointTTLs T now_ttl (agtStore m)")
      case I: (Inr ttls)
      let ?act = "foldl (\<lambda>act (tp, expiry). AList.update tp (now < expiry) act) [] ttls"
      have act: "map_of ?act i = Some True \<longleftrightarrow> alive T ?v now i" for i
        using inv I by (intro active_map) (simp_all add: tracepoint_inv_def)
      have "m' = fst (for_each (reap_step T now ?act) m tps)"
        using t Inr I by (simp add: terminateExpiredTracepoints_def Let_def)
      moreover have "reaped T now ?v (view (agtStore (fst (for_each (reap_step T now ?act) m tps))))"
        using r0 reap_step_reaped [OF _ act] by (rule for_each_invariant)
      ultimately show ?thesis by simp
    qed (use t Inr r0 in \<open>simp add: terminateExpiredTracepoints_def\<close>)
  qed (use t r0 in \<open>simp add: terminateExpiredTracepoints_def\<close>)
qed

lemma terminateExpired_exact:
  assumes inv: "tracepoint_inv T (view (agtStore m))"
    and t: "terminateExpiredTracepoints T now_ttl now m = (m', None)"
    and reads: "ok (GetTracepoints T (agtStore m))" "ok (GetTracepointTTLs T now_ttl (agtStore m))"
    and up: "kv_available (te_ds T) up" "up (agtStore m)"
    and ser: "\<And>i tp. tracepoint_at T (view (agtStore m)) i = Some tp \<Longrightarrow> ok (Marshal (te_info T) (terminated tp))"
  shows "tracepoint_at T (view (agtStore m')) i =
    (if alive T (view (agtStore m)) now i then tracepoint_at T (view (agtStore m)) i
     else map_option terminated (tracepoint_at T (view (agtStore m)) i))"
proof -
  let ?v = "view (agtStore m)"
  have r0: "reaped T now ?v ?v" and ok: "tracepoints_ok T ?v" "ttls_ok T ?v"
    using inv by (simp_all add: reaped_def tracepoint_inv_def)
  obtain tps ttls where g: "GetTracepoints T (agtStore m) = Inr tps" "GetTracepointTTLs T now_ttl (agtStore m) = Inr ttls"
    using reads by (auto simp: ok_iff)
  let ?act = "foldl (\<lambda>act (tp, expiry). AList.update tp (now < expiry) act) [] ttls"
  have fe: "for_each (reap_step T now ?act) m tps = (m', None)"
    using t g by (simp add: terminateExpiredTracepoints_def Let_def)
  have tps: "set tps = {Some tp |tp. \<exists>i. tracepoint_at T ?v i = Some tp}" using ok(1) g(1) by (rule GetTracepoints_at)
  have R: "reaped T now ?v (view (agtStore m'))" using inv t by (rule terminateExpired_reaped)
  have E: "\<forall>i tp. tracepoint_at T ?v i = Some tp \<longrightarrow> \<not> alive T ?v now i \<longrightarrow>
      Some tp \<in> set tps \<or> tracepoint_at T ?v i = Some (terminated tp) \<longrightarrow>
      tracepoint_at T (view (agtStore m')) i = Some (terminated tp)"
    by (rule reap_available [OF active_map [OF ok(2) g(2)] up(1) ser ok(1) r0 up(2) _ fe])
      (auto simp: tps)
  have "tracepoint_at T (view (agtStore m')) i = tracepoint_at T ?v i" if "alive T ?v now i \<or> tracepoint_at T ?v i = None"
    using R that unfolding reaped_def by (metis option.map_disc_iff)
  moreover have "tracepoint_at T (view (agtStore m')) i = Some (terminated tp)"
    if "\<not> alive T ?v now i" "tracepoint_at T ?v i = Some tp" for tp
  proof -
    have "Some tp \<in> set tps" using that(2) by (auto simp: tps)
    with E that show ?thesis by blast
  qed
  ultimately show ?thesis by (cases "tracepoint_at T ?v i") auto
qed

end

section \<open>Creating a tracepoint\<close>

definition new_tracepoint :: "uuid \<Rightarrow> string \<Rightarrow> tracepoint_deployment option \<Rightarrow> tracepoint_info" where
  "new_tracepoint i name dep = \<lparr>tp_ID = Some (ProtoFromUUID i), tp_Tracepoint = dep, tp_Name = name,
     ExpectedState = RUNNING_STATE\<rparr>"

text \<open>Instants that survive being stored.\<close>

definition storable_time :: "int \<Rightarrow> bool" where
  "storable_time t \<longleftrightarrow> 0 \<le> t \<and> time_Unix t + unix_to_internal < 2 ^ 63"

lemma storable_time_roundtrip: "storable_time t \<Longrightarrow> time_UnmarshalBinary (time_MarshalBinary t) = Inr t"
  by (simp add: storable_time_def time_binary_roundtrip)

context tracepoint_store
begin

lemma create_new_effect:
  assumes c: "create_new T now now_ds i m name dep ttl = (m', r)" and n: "path_seg name"
  shows "\<not> reserved_key k \<Longrightarrow>
      k \<notin> {getTracepointKey (te_uuid T) i, getTracepointTTLKey (te_uuid T) i, getTracepointWithNameKey name} \<Longrightarrow>
      view (agtStore m') k = view (agtStore m) k"
    and "(\<exists>e. r = (None, Some e)) \<or> r = (Some i, None) \<and>
      (\<exists>b. view (agtStore m') (getTracepointKey (te_uuid T) i) = Some b \<and>
         Unmarshal (te_info T) b = Inr (new_tracepoint i name dep)) \<and>
      view (agtStore m') (getTracepointTTLKey (te_uuid T) i) = Some (time_MarshalBinary (now + ttl)) \<and>
      (\<exists>b. view (agtStore m') (getTracepointWithNameKey name) = Some b \<and>
         Unmarshal (te_uuidpb T) b = Inr (ProtoFromUUID i))"
proof -
  let ?v = "view (agtStore m)"
  let ?K = "getTracepointKey (te_uuid T) i" and ?L = "getTracepointTTLKey (te_uuid T) i" and ?N = "getTracepointWithNameKey name"
  note ap = name_keys_apart(1,2) [OF n, of i]
  obtain d1 e1 where u1: "UpsertTracepoint T (agtStore m) i (new_tracepoint i name dep) = (d1, e1)" by fastforce
  obtain d2 e2 where u2: "SetTracepointTTL T now now_ds d1 i ttl = (d2, e2)" by fastforce
  obtain d3 e3 where u3: "SetTracepointWithName T d2 name i = (d3, e3)" by fastforce
  have res: "(agtStore m', r) = (if e1 \<noteq> None then (d1, None, e1) else if e2 \<noteq> None then (d2, None, e2)
      else if e3 \<noteq> None then (d3, None, e3) else (d3, Some i, None))"
    using c u1 u2 u3 unfolding create_new_def Let_def new_tracepoint_def [symmetric] store_call_def
    by (cases e1; cases e2; cases e3) auto
  have v1: "k \<noteq> ?K \<Longrightarrow> view d1 k = ?v k" for k
    using u1 UpsertTracepoint_ok [of "agtStore m" i _ d1] UpsertTracepoint_err [of "agtStore m" i _ d1]
    by (cases e1) fastforce+
  have v2: "\<not> reserved_key k \<Longrightarrow> k \<noteq> ?L \<Longrightarrow> view d2 k = view d1 k" for k
    using u2 SetTracepointTTL_ok [of now now_ds d1 i ttl d2 k] SetTracepointTTL_err [of now now_ds d1 i ttl d2]
    by (cases e2) fastforce+
  have v3: "k \<noteq> ?N \<Longrightarrow> view d3 k = view d2 k" for k
    using u3 SetTracepointWithName_ok [of d2 name i d3] SetTracepointWithName_err [of d2 name i d3]
    by (cases e3) fastforce+
  show "\<not> reserved_key k \<Longrightarrow> k \<notin> {?K, ?L, ?N} \<Longrightarrow> view (agtStore m') k = ?v k"
    using res v1 [of k] v2 [of k] v3 [of k] by (auto split: if_splits)
  show "(\<exists>e. r = (None, Some e)) \<or> r = (Some i, None) \<and>
      (\<exists>b. view (agtStore m') ?K = Some b \<and> Unmarshal (te_info T) b = Inr (new_tracepoint i name dep)) \<and>
      view (agtStore m') ?L = Some (time_MarshalBinary (now + ttl)) \<and>
      (\<exists>b. view (agtStore m') ?N = Some b \<and> Unmarshal (te_uuidpb T) b = Inr (ProtoFromUUID i))"
  proof (cases "e1 = None \<and> e2 = None \<and> e3 = None")
    case True
    then have m': "agtStore m' = d3" "r = (Some i, None)" using res by auto
    obtain b where b: "view d1 = ?v(?K \<mapsto> b)" "Unmarshal (te_info T) b = Inr (new_tracepoint i name dep)"
      using UpsertTracepoint_ok u1 True by blast
    obtain c where c: "view d3 = (view d2)(?N \<mapsto> c)" "Unmarshal (te_uuidpb T) c = Inr (ProtoFromUUID i)"
      using SetTracepointWithName_ok u3 True by blast
    have "view d3 ?K = Some b" using v3 [of ?K] v2 [of ?K] ap(1) b(1) by simp
    moreover have "view d3 ?L = Some (time_MarshalBinary (now + ttl))"
      using v3 [of ?L] SetTracepointTTL_ok [of now now_ds d1 i ttl d2 ?L] u2 True ap(2) by simp
    ultimately show ?thesis using b(2) c m' by auto
  next
    case False
    with res show ?thesis by (auto split: if_splits)
  qed
qed

lemma CreateTracepoint_cases:
  assumes "CreateTracepoint T now now_ds i m name dep ttl = (m', r)"
  obtains (failed) e where "r = (None, Some e)" "view (agtStore m') = view (agtStore m)"
  | (failed_delete) p d e where "kv_DeleteAll (te_ds T) (agtStore m) [getTracepointTTLKey (te_uuid T) p] = (d, Some e)"
      "r = (None, Some e)" "m' = m\<lparr>agtStore := d\<rparr>"
  | (renewed) p tp where "r = (Some p, Some ErrTracepointAlreadyExists)" "named_at T (view (agtStore m)) name = Some p"
      "tracepoint_at T (view (agtStore m)) p = Some tp" "ExpectedState tp \<noteq> TERMINATED_STATE"
      "all_tps_same T (tp_Tracepoint tp) dep = Inr True"
      "SetTracepointTTL T now now_ds (agtStore m) p ttl = (agtStore m', None)"
  | (fresh) "create_new T now now_ds i m name dep ttl = (m', r)"
      "\<And>p tp. named_at T (view (agtStore m)) name = Some p \<Longrightarrow> tracepoint_at T (view (agtStore m)) p = Some tp \<Longrightarrow>
         ExpectedState tp = TERMINATED_STATE"
  | (replaced) p tp d where "named_at T (view (agtStore m)) name = Some p"
      "tracepoint_at T (view (agtStore m)) p = Some tp" "ExpectedState tp \<noteq> TERMINATED_STATE"
      "all_tps_same T (tp_Tracepoint tp) dep = Inr False"
      "view d = (view (agtStore m)) |` (- {getTracepointTTLKey (te_uuid T) p})"
      "create_new T now now_ds i (m\<lparr>agtStore := d\<rparr>) name dep ttl = (m', r)"
proof (cases "GetTracepointsWithNames T (agtStore m) [name]")
  case (Inl e)
  with assms show ?thesis by (intro failed [of e]) (simp_all add: CreateTracepoint_def)
next
  case (Inr resp)
  note nm = GetTracepointsWithNames_at [OF Inr]
  show ?thesis
  proof (cases "named_at T (view (agtStore m)) name")
    case None
    with Inr nm assms show ?thesis by (intro fresh) (simp_all add: CreateTracepoint_def)
  next
    case p: (Some p)
    show ?thesis
    proof (cases "GetTracepoint T (agtStore m) p")
      case (Inl e)
      with Inr nm p assms show ?thesis by (intro failed [of e]) (simp_all add: CreateTracepoint_def)
    next
      case q: (Inr q)
      note at = GetTracepoint_at [OF q]
      show ?thesis
      proof (cases q)
        case None
        with q Inr nm at p assms show ?thesis by (intro fresh) (simp_all add: CreateTracepoint_def)
      next
        case tp: (Some tp)
        show ?thesis
        proof (cases "ExpectedState tp = TERMINATED_STATE")
          case True
          with tp q Inr nm at p assms show ?thesis by (intro fresh) (simp_all add: CreateTracepoint_def)
        next
          case False
          note facts = tp q Inr nm p False
          show ?thesis
          proof (cases "all_tps_same T (tp_Tracepoint tp) dep")
            case (Inl e)
            with facts assms show ?thesis by (intro failed [of e]) (simp_all add: CreateTracepoint_def)
          next
            case A: (Inr same)
            show ?thesis
            proof (cases same)
              case True
              obtain d e where d: "SetTracepointTTL T now now_ds (agtStore m) p ttl = (d, e)" by fastforce
              show ?thesis
              proof (cases e)
                case None
                with d True A facts at assms show ?thesis
                  by (intro renewed [of p tp]) (auto simp: CreateTracepoint_def store_call_def)
              next
                case (Some e')
                with d True A facts assms SetTracepointTTL_err [of now now_ds "agtStore m" p ttl d e'] show ?thesis
                  by (intro failed [of e']) (auto simp: CreateTracepoint_def store_call_def)
              qed
            next
              case F: False
              obtain d e where d: "kv_DeleteAll (te_ds T) (agtStore m) [getTracepointTTLKey (te_uuid T) p] = (d, e)" by fastforce
              show ?thesis
              proof (cases e)
                case None
                with d F A facts at assms delete_all_ok [of "agtStore m" "[getTracepointTTLKey (te_uuid T) p]" d] show ?thesis
                  by (intro replaced [of p tp d]) (auto simp: CreateTracepoint_def store_call_def DeleteTracepointTTLs_def)
              next
                case (Some e')
                with d F A facts assms show ?thesis
                  by (intro failed_delete [of p d e']) (auto simp: CreateTracepoint_def store_call_def DeleteTracepointTTLs_def)
              qed
            qed
          qed
        qed
      qed
    qed
  qed
qed


lemma expiry_at_Some:
  "storable_time t \<Longrightarrow> m (getTracepointTTLKey (te_uuid T) i) = Some (time_MarshalBinary t) \<Longrightarrow> expiry_at T m i = Some t"
  by (simp add: expiry_at_def storable_time_roundtrip)

lemma create_new_ok:
  assumes c: "create_new T now now_ds i m name dep ttl = (m', r)" and n: "path_seg name" and i: "proto_uuid i"
    and t: "storable_time (now + ttl)"
  shows "(\<exists>e. r = (None, Some e)) \<or> r = (Some i, None) \<and>
      tracepoint_at T (view (agtStore m')) i = Some (new_tracepoint i name dep) \<and>
      named_at T (view (agtStore m')) name = Some i \<and> expiry_at T (view (agtStore m')) i = Some (now + ttl)"
    and "j \<noteq> i \<Longrightarrow> tracepoint_at T (view (agtStore m')) j = tracepoint_at T (view (agtStore m)) j"
    and "j \<noteq> i \<Longrightarrow> expiry_at T (view (agtStore m')) j = expiry_at T (view (agtStore m)) j"
    and "state_at T (view (agtStore m')) j a = state_at T (view (agtStore m)) j a"
proof -
  note E = create_new_effect [OF c n]
  show "(\<exists>e. r = (None, Some e)) \<or> r = (Some i, None) \<and>
      tracepoint_at T (view (agtStore m')) i = Some (new_tracepoint i name dep) \<and>
      named_at T (view (agtStore m')) name = Some i \<and> expiry_at T (view (agtStore m')) i = Some (now + ttl)"
    using E(2) expiry_at_Some [OF t] i
    by (elim disjE exE conjE) (simp_all add: tracepoint_at_def named_at_def unmarshal_or_nil_def)
  show "j \<noteq> i \<Longrightarrow> tracepoint_at T (view (agtStore m')) j = tracepoint_at T (view (agtStore m)) j"
    using E(1) [of "getTracepointKey (te_uuid T) j"] name_keys_apart(1) [OF n, of j] by (simp add: tracepoint_at_def)
  show "j \<noteq> i \<Longrightarrow> expiry_at T (view (agtStore m')) j = expiry_at T (view (agtStore m)) j"
    using E(1) [of "getTracepointTTLKey (te_uuid T) j"] name_keys_apart(2) [OF n, of j] by (simp add: expiry_at_def)
  show "state_at T (view (agtStore m')) j a = state_at T (view (agtStore m)) j a"
    using E(1) [of "getTracepointStateKey (te_uuid T) j a"] name_keys_apart(3) [OF n, of j a] by (simp add: state_at_def)
qed

lemma CreateTracepoint_ok:
  assumes c: "CreateTracepoint T now now_ds i m name dep ttl = (m', r)" and n: "path_seg name" and i: "proto_uuid i"
    and t: "storable_time (now + ttl)"
  defines "v \<equiv> view (agtStore m)" and "v' \<equiv> view (agtStore m')"
  shows "case r of
      (None, e) \<Rightarrow> e \<noteq> None
    | (Some j, None) \<Rightarrow>
        j = i \<and> tracepoint_at T v' i = Some (new_tracepoint i name dep) \<and> named_at T v' name = Some i \<and>
        expiry_at T v' i = Some (now + ttl) \<and> (\<forall>j. j = i \<or> tracepoint_at T v' j = tracepoint_at T v j) \<and>
        (\<forall>p tp. named_at T v name = Some p \<and> tracepoint_at T v p = Some tp \<and> ExpectedState tp \<noteq> TERMINATED_STATE \<longrightarrow>
           p = i \<or> expiry_at T v' p = None)
    | (Some j, Some e) \<Rightarrow>
        e = ErrTracepointAlreadyExists \<and> named_at T v name = Some j \<and> expiry_at T v' j = Some (now + ttl) \<and>
        (\<exists>tp. tracepoint_at T v j = Some tp \<and> ExpectedState tp \<noteq> TERMINATED_STATE \<and>
           all_tps_same T (tp_Tracepoint tp) dep = Inr True) \<and>
        tracepoint_at T v' = tracepoint_at T v \<and> (\<forall>p. p = j \<or> expiry_at T v' p = expiry_at T v p)"
  using c
proof (cases rule: CreateTracepoint_cases)
  case (renewed p tp)
  have w: "view (agtStore m') k = ((view (agtStore m))(getTracepointTTLKey (te_uuid T) p \<mapsto> time_MarshalBinary (now + ttl))) k"
    if "\<not> reserved_key k" for k
    using renewed(6) that by (rule SetTracepointTTL_ok)
  have "expiry_at T v' p = Some (now + ttl)" unfolding v'_def using t w [of "getTracepointTTLKey (te_uuid T) p"]
    by (intro expiry_at_Some) simp_all
  moreover have "tracepoint_at T v' = tracepoint_at T v" "\<forall>q. q = p \<or> expiry_at T v' q = expiry_at T v q"
    unfolding v_def v'_def by (auto simp: fun_eq_iff tracepoint_at_def expiry_at_def w)
  ultimately show ?thesis using renewed by (auto simp: v_def)
next
  case fresh
  note N = create_new_ok [OF fresh(1) n i t]
  have "\<forall>j. j = i \<or> tracepoint_at T v' j = tracepoint_at T v j" using N(2) by (auto simp: v_def v'_def)
  with N(1) fresh(2) show ?thesis unfolding v_def v'_def by (elim disjE exE conjE) auto
next
  case (replaced p tp d)
  note N = create_new_ok [OF replaced(6) n i t]
  have "tracepoint_at T (view d) j = tracepoint_at T v j" for j
    by (simp add: replaced(5) tracepoint_at_def v_def restrict_map_def)
  with N(2) have tps: "\<forall>j. j = i \<or> tracepoint_at T v' j = tracepoint_at T v j" by (auto simp: v'_def)
  have "expiry_at T (view d) p = None" by (simp add: replaced(5) expiry_at_def)
  with N(3) [of p] have "p = i \<or> expiry_at T v' p = None" unfolding v'_def by (cases "p = i") simp_all
  with N(1) tps replaced(1) show ?thesis unfolding v_def v'_def by (elim disjE exE conjE) auto
qed simp_all

end

section \<open>The states of a tracepoint on the agents\<close>

context tracepoint_store
begin

lemma GetTracepointStates_at:
  assumes "states_ok T (view d)" and "GetTracepointStates T d i = Inr ss"
  shows "set ss = {Some s |s. \<exists>a. state_at T (view d) i a = Some s}"
proof -
  let ?p = "getTracepointStatesKey (te_uuid T) i" and ?v = "view d"
  obtain ks vs where g: "kv_GetWithPrefix (te_ds T) d ?p = Inr (ks, vs)"
    and ss: "ss = map (unmarshal_or_nil (te_status T)) vs"
    using assms(2) by (auto simp: GetTracepointStates_def bind_res_Inr_iff)
  have l: "lists_keys ?v (prefix ?p) ks vs" using g by (rule get_prefix)
  then have len: "length vs = length ks" by (auto simp: lists_keys_def dest: map_eq_imp_length_eq)
  have "v \<in> set vs \<longleftrightarrow> (\<exists>k. (k, v) \<in> set (zip ks vs))" for v
    using len by (metis in_set_impl_in_set_zip2 set_zip_rightD)
  then have mem: "x \<in> set ss \<longleftrightarrow> (\<exists>k v. prefix ?p k \<and> ?v k = Some v \<and> x = unmarshal_or_nil (te_status T) v)" for x
    unfolding ss set_map image_iff Bex_def lists_keys_zip [OF l] by blast
  have pre: "prefix tracepointStatesPrefix k" if "prefix ?p k" for k
    using that uuids by (auto simp: tracepoint_key_eqs prefix_def)
  have "x \<in> set ss \<longleftrightarrow> (\<exists>s a. x = Some s \<and> state_at T ?v i a = Some s)" for x
  proof
    assume "x \<in> set ss"
    then obtain k v where k: "prefix ?p k" "?v k = Some v" and x: "x = unmarshal_or_nil (te_status T) v"
      unfolding mem by blast
    from states_okD [OF assms(1) k(2) pre [OF k(1)]] obtain s
      where s: "k = getTracepointStateKey (te_uuid T) (UUIDFromProtoOrNil (ats_ID s)) (UUIDFromProtoOrNil (ats_AgentID s))"
        "Unmarshal (te_status T) v = Inr s" by blast
    then have "UUIDFromProtoOrNil (ats_ID s) = i" using k(1) by simp
    with s k x have "x = Some s" "state_at T ?v i (UUIDFromProtoOrNil (ats_AgentID s)) = Some s"
      by (simp_all add: state_at_def unmarshal_or_nil_def)
    then show "\<exists>s a. x = Some s \<and> state_at T ?v i a = Some s" by blast
  next
    assume "\<exists>s a. x = Some s \<and> state_at T ?v i a = Some s"
    then obtain s a v where "x = Some s" "?v (getTracepointStateKey (te_uuid T) i a) = Some v"
      "unmarshal_or_nil (te_status T) v = Some s"
      by (auto simp: state_at_def bind_eq_Some_conv)
    then show "x \<in> set ss" unfolding mem using states_prefix [of i i a] by metis
  qed
  then show ?thesis by blast
qed

lemma all_terminated_iff:
  "list_all (\<lambda>x. x \<noteq> None) ss \<Longrightarrow>
   all_terminated aid ss = Inr (\<forall>s. Some s \<in> set ss \<longrightarrow> ats_State s = TERMINATED_STATE \<or> ats_AgentID s = aid)"
proof (induction ss)
  case (Cons x ss)
  then show ?case by (cases x) auto
qed simp

lemma state_at_upd:
  "state_at T (m(getTracepointStateKey (te_uuid T) i a \<mapsto> b)) j c =
     (if j = i \<and> c = a then unmarshal_or_nil (te_status T) b else state_at T m j c)"
  by (auto simp: state_at_def)

lemma UpdateTracepointState_ok:
  assumes "UpdateTracepointState T d s = (d', None)"
  shows "\<exists>b. view d' = (view d)(getTracepointStateKey (te_uuid T) (UUIDFromProtoOrNil (ats_ID s))
      (UUIDFromProtoOrNil (ats_AgentID s)) \<mapsto> b) \<and> Unmarshal (te_status T) b = Inr s"
  using assms set_ok codec_okD [OF status_codec] by (auto simp: UpdateTracepointState_def seq_iffs)

lemma DeleteTracepoint_ok:
  assumes "DeleteTracepoint T d i = (d', None)"
  shows "view d' = (view d) |` {k. k \<noteq> getTracepointKey (te_uuid T) i \<and> \<not> prefix (getTracepointStatesKey (te_uuid T) i) k}"
proof -
  obtain d1 where d1: "kv_DeleteAll (te_ds T) d [getTracepointKey (te_uuid T) i] = (d1, None)"
    "kv_DeleteWithPrefix (te_ds T) d1 (getTracepointStatesKey (te_uuid T) i) = (d', None)"
    using assms by (auto simp: DeleteTracepoint_def seq_iffs)
  show ?thesis unfolding delete_prefix_ok [OF d1(2)] delete_all_ok [OF d1(1)]
    by (auto simp: restrict_map_def)
qed

lemma UpdateAgentTracepointStatus_ok:
  assumes u: "UpdateAgentTracepointStatus T m tid aid st status = (m', None)" and ok: "states_ok T (view (agtStore m))"
  defines "v \<equiv> view (agtStore m)" and "v' \<equiv> view (agtStore m')"
    and "i \<equiv> UUIDFromProtoOrNil tid" and "a \<equiv> UUIDFromProtoOrNil aid"
  shows "(if st = TERMINATED_STATE \<and>
        (\<forall>b s. state_at T v i b = Some s \<longrightarrow> ats_State s = TERMINATED_STATE \<or> ats_AgentID s = aid)
      then tracepoint_at T v' i = None \<and> (\<forall>b. state_at T v' i b = None)
      else tracepoint_at T v' i = tracepoint_at T v i \<and>
        state_at T v' i a = Some \<lparr>ats_State = st, ats_Status = status, ats_ID = tid, ats_AgentID = aid\<rparr> \<and>
        (\<forall>b. b = a \<or> state_at T v' i b = state_at T v i b)) \<and>
    (\<forall>j. j = i \<or> tracepoint_at T v' j = tracepoint_at T v j \<and> (\<forall>b. state_at T v' j b = state_at T v j b))"
proof -
  let ?s = "\<lparr>ats_State = st, ats_Status = status, ats_ID = tid, ats_AgentID = aid\<rparr>"
  let ?done = "\<forall>b s. state_at T v i b = Some s \<longrightarrow> ats_State s = TERMINATED_STATE \<or> ats_AgentID s = aid"
  have dec: "st = TERMINATED_STATE \<and> ?done \<and> DeleteTracepoint T (agtStore m) i = (agtStore m', None) \<or>
      \<not> (st = TERMINATED_STATE \<and> ?done) \<and> UpdateTracepointState T (agtStore m) ?s = (agtStore m', None)"
  proof (cases "st = TERMINATED_STATE")
    case True
    obtain ss where ss: "GetTracepointStates T (agtStore m) i = Inr ss"
      using u True by (auto simp: UpdateAgentTracepointStatus_def tpm_GetTracepointStates_def i_def Let_def seq_iffs)
    have set: "set ss = {Some s |s. \<exists>b. state_at T v i b = Some s}"
      unfolding v_def using ok ss by (rule GetTracepointStates_at)
    then have "list_all (\<lambda>x. x \<noteq> None) ss" by (auto simp: list_all_iff)
    from all_terminated_iff [OF this, of aid] set have at: "all_terminated aid ss = Inr ?done" by auto
    show ?thesis
      using u True ss at unfolding UpdateAgentTracepointStatus_def tpm_GetTracepointStates_def i_def [symmetric]
      by (auto simp: Let_def deleteTracepoint_def store_call_None_iff split: if_splits)
  next
    case False
    then show ?thesis using u by (auto simp: UpdateAgentTracepointStatus_def Let_def store_call_None_iff)
  qed
  then show ?thesis
  proof (elim disjE conjE)
    assume c: "st = TERMINATED_STATE" "?done" and d: "DeleteTracepoint T (agtStore m) i = (agtStore m', None)"
    have v': "v' = v |` {k. k \<noteq> getTracepointKey (te_uuid T) i \<and> \<not> prefix (getTracepointStatesKey (te_uuid T) i) k}"
      unfolding v_def v'_def using d by (rule DeleteTracepoint_ok)
    have "tracepoint_at T v' j = (if j = i then None else tracepoint_at T v j)"
      "state_at T v' j b = (if j = i then None else state_at T v j b)" for j b
      by (auto simp: v' tracepoint_at_def state_at_def restrict_map_def)
    with c show ?thesis by simp
  next
    assume c: "\<not> (st = TERMINATED_STATE \<and> ?done)" and d: "UpdateTracepointState T (agtStore m) ?s = (agtStore m', None)"
    obtain b where b: "v' = v(getTracepointStateKey (te_uuid T) i a \<mapsto> b)" "Unmarshal (te_status T) b = Inr ?s"
      using UpdateTracepointState_ok [OF d] by (auto simp: v_def v'_def i_def a_def)
    have "tracepoint_at T v' = tracepoint_at T v" by (auto simp: b(1) tracepoint_at_def)
    moreover have "state_at T v' j c = (if j = i \<and> c = a then Some ?s else state_at T v j c)" for j c
      using b by (simp add: state_at_upd unmarshal_or_nil_def)
    ultimately show ?thesis unfolding if_not_P [OF c] by simp
  qed
qed

end

section \<open>The operations keep to their part of the store\<close>

definition tp_entry :: "'d tracepoint_env \<Rightarrow> string \<Rightarrow> string \<Rightarrow> bool" where
  "tp_entry T k b \<longleftrightarrow>
     (\<exists>i tp. k = getTracepointKey (te_uuid T) i \<and> Unmarshal (te_info T) b = Inr tp \<and>
        proto_uuid i \<and> tp_ID tp = Some (ProtoFromUUID i)) \<or>
     (\<exists>s. k = getTracepointStateKey (te_uuid T) (UUIDFromProtoOrNil (ats_ID s)) (UUIDFromProtoOrNil (ats_AgentID s)) \<and>
        Unmarshal (te_status T) b = Inr s) \<or>
     (\<exists>i t. k = getTracepointTTLKey (te_uuid T) i \<and> time_UnmarshalBinary b = Inr t) \<or>
     (\<exists>n. k = getTracepointWithNameKey n \<and> path_seg n)"

text \<open>A change of the store that writes tracepoint entries, deletes keys of tracepoints, or bookkeeps.\<close>

definition tp_writes :: "'d tracepoint_env \<Rightarrow> (string \<rightharpoonup> string) \<Rightarrow> (string \<rightharpoonup> string) \<Rightarrow> bool" where
  "tp_writes T m m' \<longleftrightarrow>
     (\<forall>k. reserved_key k \<or> m' k = m k \<or>
        prefix ''/tracepoint'' k \<and> (\<forall>b. m' k = Some b \<longrightarrow> tp_entry T k b))"

lemma tp_writes_refl [simp]: "tp_writes T m m"
  by (simp add: tp_writes_def)

lemma tp_writes_trans: "tp_writes T m m' \<Longrightarrow> tp_writes T m' m'' \<Longrightarrow> tp_writes T m m''"
  unfolding tp_writes_def by metis

text \<open>The operations of the manager, each with the result under which it is meant to change the store.\<close>

inductive tp_op :: "'d tracepoint_env \<Rightarrow> 'd manager \<Rightarrow> 'd manager \<Rightarrow> bool" for T where
  created: "path_seg name \<Longrightarrow> proto_uuid i \<Longrightarrow> storable_time (now + ttl) \<Longrightarrow>
    CreateTracepoint T now now_ds i m name dep ttl = (m', Some j, e) \<Longrightarrow> tp_op T m m'"
| registered: "RegisterTracepoint T m agents i dep = (m', e) \<Longrightarrow> tp_op T m m'"
| reported: "UpdateAgentTracepointStatus T m tid aid st status = (m', None) \<Longrightarrow> tp_op T m m'"
| reaping: "terminateExpiredTracepoints T now_ttl now m = (m', e) \<Longrightarrow> tp_op T m m'"
| removed: "RemoveTracepoints T m names = (m', None) \<Longrightarrow> tp_op T m m'"
| agent_gone: "tpm_DeleteAgent T m a = (m', None) \<Longrightarrow> tp_op T m m'"

context tracepoint_store
begin

lemma tp_prefixes:
  "prefix ''/tracepoint'' (getTracepointKey (te_uuid T) i)" "prefix ''/tracepoint'' (getTracepointTTLKey (te_uuid T) i)"
  "prefix ''/tracepoint'' (getTracepointStateKey (te_uuid T) i a)"
  "prefix (getTracepointStatesKey (te_uuid T) i) k \<Longrightarrow> prefix ''/tracepoint'' k"
  "path_seg n \<Longrightarrow> prefix ''/tracepoint'' (getTracepointWithNameKey n)"
  using uuids by (auto simp: tracepoint_key_eqs prefix_def)

lemma tp_prefix_unreserved:
  "prefix tracepointsPrefix k \<Longrightarrow> \<not> reserved_key k" "prefix tracepointStatesPrefix k \<Longrightarrow> \<not> reserved_key k"
  "prefix tracepointTTLsPrefix k \<Longrightarrow> \<not> reserved_key k"
  by (auto simp: tracepoint_key_eqs reserved_key_def prefix_def)

lemma tracepoint_inv_writes:
  assumes inv: "tracepoint_inv T m" and w: "tp_writes T m m'"
  shows "tracepoint_inv T m'"
proof -
  have old: "m k = Some b \<or> tp_entry T k b" if "m' k = Some b" "\<not> reserved_key k" for k b
    using w that unfolding tp_writes_def by metis
  note ap = name_keys_apart(4,5,6)
  have "tracepoints_ok T m'"
    unfolding tracepoints_ok_def
  proof (intro allI impI)
    fix k b assume k: "m' k = Some b" "prefix tracepointsPrefix k"
    from old [OF k(1) tp_prefix_unreserved(1) [OF k(2)]]
    show "\<exists>i tp. k = getTracepointKey (te_uuid T) i \<and> Unmarshal (te_info T) b = Inr tp \<and>
        proto_uuid i \<and> tp_ID tp = Some (ProtoFromUUID i)"
      using inv k(2) ap(1) unfolding tracepoint_inv_def tp_entry_def
      by (elim disjE exE conjE) (use tracepoints_okD in blast, blast, simp_all)
  qed
  moreover have "states_ok T m'"
    unfolding states_ok_def
  proof (intro allI impI)
    fix k b assume k: "m' k = Some b" "prefix tracepointStatesPrefix k"
    from old [OF k(1) tp_prefix_unreserved(2) [OF k(2)]]
    show "\<exists>s. k = getTracepointStateKey (te_uuid T) (UUIDFromProtoOrNil (ats_ID s)) (UUIDFromProtoOrNil (ats_AgentID s)) \<and>
        Unmarshal (te_status T) b = Inr s"
      using inv k(2) ap(2) unfolding tracepoint_inv_def tp_entry_def
      by (elim disjE exE conjE) (use states_okD in blast, simp, blast, simp_all)
  qed
  moreover have "ttls_ok T m'"
    unfolding ttls_ok_def
  proof (intro allI impI)
    fix k b assume k: "m' k = Some b" "prefix tracepointTTLsPrefix k"
    from old [OF k(1) tp_prefix_unreserved(3) [OF k(2)]]
    show "\<exists>i t. k = getTracepointTTLKey (te_uuid T) i \<and> time_UnmarshalBinary b = Inr t"
      using inv k(2) ap(3) unfolding tracepoint_inv_def tp_entry_def
      by (elim disjE exE conjE) (use ttls_okD in blast, simp_all)
  qed
  ultimately show ?thesis by (simp add: tracepoint_inv_def)
qed

lemma tp_writes_restrict:
  assumes "\<And>k. k \<notin> K \<Longrightarrow> prefix ''/tracepoint'' k"
  shows "tp_writes T m (m |` K)"
  using assms by (auto simp: tp_writes_def restrict_map_def)

lemma tp_writes_upd:
  assumes "\<And>k. \<not> reserved_key k \<Longrightarrow> m' k = (m(K \<mapsto> b)) k" and "prefix ''/tracepoint'' K" and "tp_entry T K b"
  shows "tp_writes T m m'"
  unfolding tp_writes_def
proof
  fix k
  show "reserved_key k \<or> m' k = m k \<or> prefix ''/tracepoint'' k \<and> (\<forall>c. m' k = Some c \<longrightarrow> tp_entry T k c)"
    using assms(1) [of k] assms(2,3) by (cases "k = K") auto
qed

lemma create_new_writes:
  assumes c: "create_new T now now_ds i m name dep ttl = (m', Some j, e)" and n: "path_seg name" and i: "proto_uuid i"
    and t: "storable_time (now + ttl)"
  shows "tp_writes T (view (agtStore m)) (view (agtStore m'))"
  unfolding tp_writes_def
proof
  fix k
  note E = create_new_effect [OF c n]
  let ?K = "{getTracepointKey (te_uuid T) i, getTracepointTTLKey (te_uuid T) i, getTracepointWithNameKey name}"
  show "reserved_key k \<or> view (agtStore m') k = view (agtStore m) k \<or>
      prefix ''/tracepoint'' k \<and> (\<forall>b. view (agtStore m') k = Some b \<longrightarrow> tp_entry T k b)"
  proof (cases "reserved_key k \<or> k \<notin> ?K")
    case False
    have "tp_ID (new_tracepoint i name dep) = Some (ProtoFromUUID i)" by (simp add: new_tracepoint_def)
    then have "tp_entry T k b" if "view (agtStore m') k = Some b" for b
      using False that E(2) i n storable_time_roundtrip [OF t] unfolding tp_entry_def by fastforce
    moreover have "prefix ''/tracepoint'' k" using False tp_prefixes(1,2,5) n by auto
    ultimately show ?thesis by blast
  qed (use E(1) in blast)
qed

lemma CreateTracepoint_writes:
  assumes c: "CreateTracepoint T now now_ds i m name dep ttl = (m', Some j, e)" and n: "path_seg name" and i: "proto_uuid i"
    and t: "storable_time (now + ttl)"
  shows "tp_writes T (view (agtStore m)) (view (agtStore m'))"
  using c
proof (cases rule: CreateTracepoint_cases)
  case (renewed p tp)
  have "tp_entry T (getTracepointTTLKey (te_uuid T) p) (time_MarshalBinary (now + ttl))"
    using storable_time_roundtrip [OF t] unfolding tp_entry_def by blast
  with SetTracepointTTL_ok [OF renewed(6)] tp_prefixes(2) show ?thesis by (rule tp_writes_upd)
next
  case fresh
  then show ?thesis using n i t by (intro create_new_writes)
next
  case (replaced p tp d)
  have "tp_writes T (view (agtStore m)) (view d)"
    unfolding replaced(5) using tp_prefixes(2) by (intro tp_writes_restrict) auto
  moreover have "tp_writes T (view d) (view (agtStore m'))"
    using create_new_writes [OF replaced(6) n i t] by simp
  ultimately show ?thesis by (rule tp_writes_trans)
qed simp_all

lemma RegisterTracepoint_store: "agtStore (fst (RegisterTracepoint T m agents i dep)) = agtStore m"
proof -
  have "agtStore (fst (send_group T d i hp m' x)) = agtStore m'" for d hp m' x
    by (cases x) (auto simp: send_group_def with_res_def MessageAgents_eq split: sum.splits)
  then have "agtStore (fst (for_each (send_group T d i hp) m xs)) = agtStore m" for d hp xs
    using for_each_invariant [of "\<lambda>s. agtStore s = agtStore m" m xs "send_group T d i hp"] by simp
  then show ?thesis
    by (auto simp: RegisterTracepoint_def with_res_def split: option.splits sum.splits)
qed

lemma reaped_writes:
  assumes "reaped T now m0 m"
  shows "tp_writes T m0 m"
  unfolding tp_writes_def
proof
  fix k
  have ok: "tracepoints_ok T m" and same: "prefix tracepointsPrefix k \<or> m k = m0 k" using assms by (auto simp: reaped_def)
  show "reserved_key k \<or> m k = m0 k \<or> prefix ''/tracepoint'' k \<and> (\<forall>b. m k = Some b \<longrightarrow> tp_entry T k b)"
  proof (cases "m k = m0 k")
    case False
    with same have p: "prefix tracepointsPrefix k" by simp
    then have "prefix ''/tracepoint'' k" by (auto simp: tracepointsPrefix_def prefix_def)
    moreover have "tp_entry T k b" if "m k = Some b" for b
      using tracepoints_okD [OF ok that p] unfolding tp_entry_def by blast
    ultimately show ?thesis by blast
  qed simp
qed

lemma UpdateAgentTracepointStatus_writes:
  assumes "UpdateAgentTracepointStatus T m tid aid st status = (m', None)"
  shows "tp_writes T (view (agtStore m)) (view (agtStore m'))"
proof -
  consider (del) i where "DeleteTracepoint T (agtStore m) i = (agtStore m', None)"
    | (upd) s where "UpdateTracepointState T (agtStore m) s = (agtStore m', None)"
    using assms
    by (auto simp: UpdateAgentTracepointStatus_def Let_def seq_iffs store_call_None_iff deleteTracepoint_def split: if_splits)
  then show ?thesis
  proof cases
    case del
    show ?thesis unfolding DeleteTracepoint_ok [OF del]
      using tp_prefixes(1,4) by (intro tp_writes_restrict) auto
  next
    case upd
    from UpdateTracepointState_ok [OF this] obtain b
      where b: "view (agtStore m') = (view (agtStore m))(getTracepointStateKey (te_uuid T)
          (UUIDFromProtoOrNil (ats_ID s)) (UUIDFromProtoOrNil (ats_AgentID s)) \<mapsto> b)"
        "Unmarshal (te_status T) b = Inr s" by blast
    show ?thesis
      by (rule tp_writes_upd [OF _ tp_prefixes(3)]) (use b in \<open>simp, unfold tp_entry_def, blast\<close>)
  qed
qed

lemma tp_op_writes:
  assumes "tp_op T m m'" and "tracepoint_inv T (view (agtStore m))"
  shows "tp_writes T (view (agtStore m)) (view (agtStore m'))"
  using assms
proof (induction rule: tp_op.induct)
  case (created name i now ttl now_ds m dep m' j e)
  then show ?case by (intro CreateTracepoint_writes)
next
  case (registered m agents i dep m' e)
  then show ?case using RegisterTracepoint_store [of m agents i dep] by simp
next
  case (reported m tid aid st status m')
  then show ?case by (intro UpdateAgentTracepointStatus_writes)
next
  case (reaping now_ttl now m m' e)
  then show ?case using terminateExpired_reaped reaped_writes by blast
next
  case (removed m names m')
  then obtain ids where "kv_DeleteAll (te_ds T) (agtStore m) (map (getTracepointTTLKey (te_uuid T)) ids) = (agtStore m', None)"
    by (auto simp: RemoveTracepoints_def DeleteTracepointTTLs_def seq_iffs store_call_None_iff)
  from delete_all_ok [OF this] show ?case
    using tp_prefixes(2) by (auto intro!: tp_writes_restrict)
next
  case (agent_gone m a m')
  then have "DeleteTracepointsForAgent T (agtStore m) a = (agtStore m', None)"
    by (auto simp: tpm_DeleteAgent_def store_call_None_iff)
  then obtain tps :: "tracepoint_info option list" and ks where ks: "map_res (\<lambda>tp. case tp of None \<Rightarrow> Inl nil_deref
       | Some t \<Rightarrow> Inr (getTracepointStateKey (te_uuid T) (UUIDFromProtoOrNil (tp_ID t)) a)) tps = Inr ks"
    "kv_DeleteAll (te_ds T) (agtStore m) ks = (agtStore m', None)"
    unfolding DeleteTracepointsForAgent_def with_res_None_iff by blast
  have "prefix ''/tracepoint'' k" if "k \<in> set ks" for k
  proof -
    have "\<exists>i. k = getTracepointStateKey (te_uuid T) i a"
      using map_res_Inr [OF ks(1)] that
      by (induction tps ks rule: list_all2_induct) (auto split: option.splits)
    then show ?thesis using tp_prefixes(3) by blast
  qed
  then show ?case unfolding delete_all_ok [OF ks(2)] by (intro tp_writes_restrict) auto
qed

lemma tp_reachable:
  assumes "(tp_op T)\<^sup>*\<^sup>* m m'" and "tracepoint_inv T (view (agtStore m))"
  shows "tracepoint_inv T (view (agtStore m')) \<and> tp_writes T (view (agtStore m)) (view (agtStore m'))"
  using assms
proof (induction rule: rtranclp_induct)
  case (step m1 m2)
  then have I: "tracepoint_inv T (view (agtStore m1))" "tp_writes T (view (agtStore m)) (view (agtStore m1))" by auto
  have W: "tp_writes T (view (agtStore m1)) (view (agtStore m2))" using step(2) I(1) by (rule tp_op_writes)
  show ?case using tracepoint_inv_writes [OF I(1) W] tp_writes_trans [OF I(2) W] by simp
qed simp

end

end
