(* ===== verification/TracepointCorrect.thy ===== *)
theory TracepointCorrect
  imports TracepointStore
begin

text \<open>
  What the tracepoint manager guarantees: which agents a program reaches, when a tracepoint is
  terminated or deleted, what is read back after \<open>CreateTracepoint\<close>, and that the operations keep
  to their own part of the key-value store as long as the name of a tracepoint is one path element.
\<close>

section \<open>A concrete manager\<close>

definition sample_tp_id :: uuid where
  "sample_tp_id = 36893488147419103235"

definition probe :: "string \<Rightarrow> tracepoint_selector list \<Rightarrow> tracepoint_program" where
  "probe name ss = \<lparr>TableName = name, Selectors = ss, prog_rest = []\<rparr>"

text \<open>Two programs for every host and for one host, and one for a host that is not there.\<close>

definition sample_programs :: "tracepoint_program list" where
  "sample_programs =
     [probe ''a'' [],
      probe ''b'' [\<lparr>SelectorType = HOST_NAME, Value = ''node-1''\<rparr>],
      probe ''c'' [\<lparr>SelectorType = HOST_NAME, Value = ''node-2''\<rparr>]]"

definition sample_deployment :: tracepoint_deployment where
  "sample_deployment = \<lparr>dep_Name = ''tp'', dep_TTL = None, DeploymentSpec = None, Programs = map Some sample_programs\<rparr>"

definition sample_tp :: tracepoint_info where
  "sample_tp = new_tracepoint sample_tp_id ''tp'' (Some sample_deployment)"

definition sample_status :: agent_tracepoint_status where
  "sample_status = \<lparr>ats_State = RUNNING_STATE, ats_Status = None, ats_ID = Some (ProtoFromUUID sample_tp_id),
     ats_AgentID = Some (ProtoFromUUID sample_id)\<rparr>"

definition sample_tp_env :: "(string, string) gomap pebble_ds tracepoint_env" where
  "sample_tp_env =
     \<lparr>te_mgr = sample_mgr_env, te_info = table_codec
        [sample_tp, terminated sample_tp, new_tracepoint sample_tp_id ''../asid'' (Some sample_deployment)],
      te_status = table_codec [sample_status], te_uuidpb = table_codec [ProtoFromUUID sample_tp_id],
      te_Equal = (=), te_sha256hex = take 1,
      te_register_msg = (\<lambda>dep i. Inr (concat (map (\<lambda>p. case p of None \<Rightarrow> [] | Some q \<Rightarrow> TableName q) (Programs dep)))),
      te_remove_msg = (\<lambda>i. Inr ''remove''), te_range = rev\<rparr>"

interpretation sample_tps: tracepoint_store sample_tp_env "pebble_view map_of"
proof (rule tracepoint_store.intro)
  show "agent_store (me_store (te_mgr sample_tp_env)) (pebble_view map_of)"
    using sample.agent_store_axioms by (simp add: sample_tp_env_def sample_mgr_env_def)
qed (unfold_locales, simp_all add: sample_tp_env_def)

definition no_tps :: "(string, string) gomap pebble_ds manager" where
  "no_tps = NewManager (pebble_New [])"

definition one_tp :: "(string, string) gomap pebble_ds manager" where
  "one_tp = fst (CreateTracepoint sample_tp_env 0 0 sample_tp_id no_tps ''tp'' (Some sample_deployment) 10)"

lemma one_tp_created:
  "CreateTracepoint sample_tp_env 0 0 sample_tp_id no_tps ''tp'' (Some sample_deployment) 10 = (one_tp, Some sample_tp_id, None)"
  unfolding one_tp_def by (rule prod_eqI) (simp, code_simp)

lemma no_tps_view: "pebble_view map_of (agtStore no_tps) = Map.empty"
  by (simp add: no_tps_def NewManager_def pebble_view_def pebble_New_def)

lemma sample_tp_facts:
  "path_seg ''tp''" "proto_uuid sample_tp_id" "storable_time 10" "tracepoint_inv sample_tp_env (pebble_view map_of (agtStore no_tps))"
proof -
  show "path_seg ''tp''" "proto_uuid sample_tp_id" "storable_time 10" by code_simp+
  show "tracepoint_inv sample_tp_env (pebble_view map_of (agtStore no_tps))"
    by (simp add: no_tps_view tracepoint_inv_def tracepoints_ok_def states_ok_def ttls_ok_def)
qed

lemma one_tp_op: "tp_op sample_tp_env no_tps one_tp"
  by (rule tp_op.created [OF sample_tp_facts(1,2) _ one_tp_created]) (use sample_tp_facts(3) in simp)

lemma one_tp_inv: "tracepoint_inv sample_tp_env (pebble_view map_of (agtStore one_tp))"
  using sample_tps.tp_reachable [OF r_into_rtranclp [of "tp_op sample_tp_env", OF one_tp_op] sample_tp_facts(4)] by simp

lemma pebble_up: "kv_available (te_ds sample_tp_env) (\<lambda>w. ds_db w \<noteq> None)"
  by (auto simp: kv_available_def sample_tp_env_def sample_mgr_env_def sample_env_def pebble_kv_def pebble_Get_def
      pebble_Set_def lift_db_def ref_pebble_def split: option.splits)

section \<open>Properties\<close>

text \<open>
  C5. \<open>RegisterTracepoint\<close> sends every program of the deployment in exactly one group, and a group
  exactly to the agents that meet all selectors of each of its programs; different groups go to
  different sets of agents, and nothing else is sent.
\<close>

theorem RegisterTracepoint_delivers:
  assumes "uuid_ok (te_uuid T)" and "range_order_ok (te_range T)" and "list_all has_host agents"
    and "Programs dep = map Some ps" and "no_collision T agents ps"
    and "RegisterTracepoint T m agents i (Some dep) = (m', None)"
  shows "\<exists>gs. m' = m\<lparr>published := published m @ deliveries T gs\<rparr> \<and>
    mset (concat (map fst gs)) = mset ps \<and> distinct (map (fst \<circ> snd) gs) \<and>
    list_all (\<lambda>(qs, ids, msg). te_register_msg T (dep\<lparr>Programs := map Some qs\<rparr>) (ProtoFromUUID i) = Inr msg \<and>
      qs \<noteq> [] \<and> list_all (\<lambda>p. mset ids = mset (map agent_id (filter (meets p) agents))) qs) gs"
proof -
  obtain gs where m': "m' = m\<lparr>published := published m @ deliveries T gs\<rparr>"
    and gs: "mset (concat (map fst gs)) = mset ps" "distinct (map (fst \<circ> snd) gs)"
      "list_all (\<lambda>(qs, ids, msg). te_register_msg T (dep\<lparr>Programs := map Some qs\<rparr>) (ProtoFromUUID i) = Inr msg \<and>
        qs \<noteq> [] \<and> list_all (\<lambda>p. ids = targets T agents p) qs) gs"
    using RegisterTracepoint_groups [OF assms(3,4,1,5,2,6)] by blast
  have "list_all (\<lambda>(qs, ids, msg). te_register_msg T (dep\<lparr>Programs := map Some qs\<rparr>) (ProtoFromUUID i) = Inr msg \<and>
      qs \<noteq> [] \<and> list_all (\<lambda>p. mset ids = mset (map agent_id (filter (meets p) agents))) qs) gs"
    using gs(3) by (rule list.pred_mono_strong) (auto simp: list_all_iff targets_def)
  with m' gs(1,2) show ?thesis by blast
qed

theorem RegisterTracepoint_delivers_witness:
  "\<exists>gs. mset (concat (map fst gs)) = mset sample_programs \<and>
     published (fst (RegisterTracepoint sample_tp_env no_tps [sample_agent] sample_tp_id (Some sample_deployment))) =
       deliveries sample_tp_env gs"
proof -
  let ?r = "RegisterTracepoint sample_tp_env no_tps [sample_agent] sample_tp_id (Some sample_deployment)"
  have "snd ?r = None" by code_simp
  then have r: "?r = (fst ?r, None)" by (metis prod.collapse)
  have u: "uuid_ok (te_uuid sample_tp_env)" "range_order_ok (te_range sample_tp_env)"
    "Programs sample_deployment = map Some sample_programs"
    by (simp_all add: sample_tp_env_def sample_mgr_env_def sample_env_def sample_deployment_def)
  have nc: "no_collision sample_tp_env [sample_agent] sample_programs"
    unfolding no_collision_def inj_on_def by code_simp
  have h: "list_all has_host [sample_agent]" by code_simp
  have "published no_tps = []" by (simp add: no_tps_def NewManager_def)
  with RegisterTracepoint_delivers [OF u(1,2) h u(3) nc r] show ?thesis by auto
qed

text \<open>
  C14. Selecting agents one selector after the other is one filter: an agent is kept exactly if it
  meets every selector. A kernel selector compares the three components of the version as one
  number of 96 bits, an unreadable version and an unknown kernel match nothing, and the order of
  the selectors does not matter.
\<close>

theorem select_agents_is_filter:
  assumes "list_all has_host agents"
  shows "select_agents agents ss = Inr (filter (\<lambda>agt. list_all (\<lambda>s. accepts s agt) ss) agents)"
  using assms by (rule select_agents_eq)

theorem select_agents_is_filter_witness:
  "list_all has_host [sample_agent] \<and>
   select_agents [sample_agent] [\<lparr>SelectorType = MIN_KERNEL, Value = ''5.3.99''\<rparr>, \<lparr>SelectorType = MAX_KERNEL, Value = ''5.4''\<rparr>]
     = Inr [sample_agent]"
proof -
  let ?ss = "[\<lparr>SelectorType = MIN_KERNEL, Value = ''5.3.99''\<rparr>, \<lparr>SelectorType = MAX_KERNEL, Value = ''5.4''\<rparr>]"
  have h: "list_all has_host [sample_agent]" "filter (\<lambda>agt. list_all (\<lambda>s. accepts s agt) ?ss) [sample_agent] = [sample_agent]"
    by code_simp+
  from select_agents_is_filter [OF h(1), of ?ss] h show ?thesis by simp
qed

text \<open>
  C25. A tick of the reaper changes only the expected state of tracepoints whose lifetime is over or
  was removed, whatever calls fail. When the store is available it terminates exactly those.
\<close>

theorem reaper_terminates_expired:
  assumes "tracepoint_store T view" and "tracepoint_inv T (view (agtStore m))"
    and "terminateExpiredTracepoints T now_ttl now m = (m', r)"
  shows "reaped T now (view (agtStore m)) (view (agtStore m')) \<and>
    (r = None \<and> ok (GetTracepoints T (agtStore m)) \<and> ok (GetTracepointTTLs T now_ttl (agtStore m)) \<and>
     kv_available (te_ds T) up \<and> up (agtStore m) \<and>
     (\<forall>i tp. tracepoint_at T (view (agtStore m)) i = Some tp \<longrightarrow> ok (Marshal (te_info T) (terminated tp))) \<longrightarrow>
     (\<forall>i. tracepoint_at T (view (agtStore m')) i =
       (if alive T (view (agtStore m)) now i then tracepoint_at T (view (agtStore m)) i
        else map_option terminated (tracepoint_at T (view (agtStore m)) i))))"
proof (intro conjI impI allI)
  show "reaped T now (view (agtStore m)) (view (agtStore m'))"
    using assms by (rule tracepoint_store.terminateExpired_reaped)
next
  fix i
  assume a: "r = None \<and> ok (GetTracepoints T (agtStore m)) \<and> ok (GetTracepointTTLs T now_ttl (agtStore m)) \<and>
     kv_available (te_ds T) up \<and> up (agtStore m) \<and>
     (\<forall>i tp. tracepoint_at T (view (agtStore m)) i = Some tp \<longrightarrow> ok (Marshal (te_info T) (terminated tp)))"
  then have t: "terminateExpiredTracepoints T now_ttl now m = (m', None)" using assms(3) by simp
  show "tracepoint_at T (view (agtStore m')) i =
       (if alive T (view (agtStore m)) now i then tracepoint_at T (view (agtStore m)) i
        else map_option terminated (tracepoint_at T (view (agtStore m)) i))"
    by (rule tracepoint_store.terminateExpired_exact [OF assms(1,2) t, of up]) (use a in blast)+
qed

theorem reaper_terminates_expired_witness:
  "let r = terminateExpiredTracepoints sample_tp_env 20 20 one_tp
   in tracepoint_at sample_tp_env (pebble_view map_of (agtStore one_tp)) sample_tp_id = Some sample_tp \<and>
      tracepoint_at sample_tp_env (pebble_view map_of (agtStore (fst r))) sample_tp_id = Some (terminated sample_tp)"
proof -
  let ?r = "terminateExpiredTracepoints sample_tp_env 20 20 one_tp" and ?v = "pebble_view map_of (agtStore one_tp)"
  have c: "snd ?r = None" "ok (GetTracepoints sample_tp_env (agtStore one_tp))" "ok (GetTracepointTTLs sample_tp_env 20 (agtStore one_tp))"
    "ds_db (agtStore one_tp) \<noteq> None" "tracepoint_at sample_tp_env ?v sample_tp_id = Some sample_tp"
    "\<not> alive sample_tp_env ?v 20 sample_tp_id" "ok (Marshal (te_info sample_tp_env) (terminated sample_tp))"
    by code_simp+
  have only: "tracepoint_at sample_tp_env ?v i = (if i = sample_tp_id then Some sample_tp else None)" for i
    using sample_tps.CreateTracepoint_ok [OF one_tp_created sample_tp_facts(1,2)] sample_tp_facts(3) c(5)
    by (auto simp: no_tps_view tracepoint_at_def)
  have r: "?r = (fst ?r, snd ?r)" by simp
  have ser: "\<forall>i tp. tracepoint_at sample_tp_env ?v i = Some tp \<longrightarrow> ok (Marshal (te_info sample_tp_env) (terminated tp))"
    using c(7) by (simp add: only)
  from reaper_terminates_expired [OF sample_tps.tracepoint_store_axioms one_tp_inv r, of "\<lambda>w. ds_db w \<noteq> None"]
    c(1-4) pebble_up ser
  have "\<forall>i. tracepoint_at sample_tp_env (pebble_view map_of (agtStore (fst ?r))) i =
       (if alive sample_tp_env ?v 20 i then tracepoint_at sample_tp_env ?v i
        else map_option terminated (tracepoint_at sample_tp_env ?v i))" by blast
  with c(5,6) show ?thesis by (simp add: Let_def)
qed



text \<open>
  C28. When an agent reports that a tracepoint is terminated and every other agent that ever reported
  on it has terminated too, the tracepoint and all its states are deleted. In every other case the
  report is recorded and nothing else changes; other tracepoints never change.
\<close>

theorem tracepoint_report_spec:
  assumes "tracepoint_store T view" and "UpdateAgentTracepointStatus T m tid aid st status = (m', None)"
    and "states_ok T (view (agtStore m))" and "v = view (agtStore m)" and "v' = view (agtStore m')"
    and "i = UUIDFromProtoOrNil tid" and "a = UUIDFromProtoOrNil aid"
  shows "(if st = TERMINATED_STATE \<and>
        (\<forall>b s. state_at T v i b = Some s \<longrightarrow> ats_State s = TERMINATED_STATE \<or> ats_AgentID s = aid)
      then tracepoint_at T v' i = None \<and> (\<forall>b. state_at T v' i b = None)
      else tracepoint_at T v' i = tracepoint_at T v i \<and>
        state_at T v' i a = Some \<lparr>ats_State = st, ats_Status = status, ats_ID = tid, ats_AgentID = aid\<rparr> \<and>
        (\<forall>b. b = a \<or> state_at T v' i b = state_at T v i b)) \<and>
    (\<forall>j. j = i \<or> tracepoint_at T v' j = tracepoint_at T v j \<and> (\<forall>b. state_at T v' j b = state_at T v j b))"
  unfolding assms(4-7) using assms(1-3) by (rule tracepoint_store.UpdateAgentTracepointStatus_ok)

theorem tracepoint_report_spec_witness:
  "let tid = Some (ProtoFromUUID sample_tp_id); aid = Some (ProtoFromUUID sample_id);
       m = fst (UpdateAgentTracepointStatus sample_tp_env no_tps tid aid RUNNING_STATE None);
       m' = fst (UpdateAgentTracepointStatus sample_tp_env m tid aid TERMINATED_STATE None)
   in state_at sample_tp_env (pebble_view map_of (agtStore m)) sample_tp_id sample_id = Some sample_status \<and>
      state_at sample_tp_env (pebble_view map_of (agtStore m')) sample_tp_id sample_id = None"
proof -
  let ?tid = "Some (ProtoFromUUID sample_tp_id)" and ?aid = "Some (ProtoFromUUID sample_id)"
  let ?r = "UpdateAgentTracepointStatus sample_tp_env no_tps ?tid ?aid RUNNING_STATE None"
  let ?q = "UpdateAgentTracepointStatus sample_tp_env (fst ?r) ?tid ?aid TERMINATED_STATE None"
  let ?v = "pebble_view map_of (agtStore no_tps)" and ?v1 = "pebble_view map_of (agtStore (fst ?r))"
  have c: "snd ?r = None" "snd ?q = None" "UUIDFromProtoOrNil ?tid = sample_tp_id" "UUIDFromProtoOrNil ?aid = sample_id"
    "state_at sample_tp_env ?v1 sample_tp_id sample_id = Some sample_status"
    "ats_AgentID sample_status = ?aid" by code_simp+
  have r: "?r = (fst ?r, None)" "?q = (fst ?q, None)" using c(1,2) by (metis prod.collapse)+
  have inv: "states_ok sample_tp_env ?v" "states_ok sample_tp_env ?v1"
    using sample_tp_facts(4) sample_tps.tracepoint_inv_writes [OF sample_tp_facts(4) sample_tps.UpdateAgentTracepointStatus_writes [OF r(1)]]
    by (simp_all add: tracepoint_inv_def)
  have none: "state_at sample_tp_env ?v i b = None" for i b by (simp add: no_tps_view state_at_def)
  from tracepoint_report_spec [OF sample_tps.tracepoint_store_axioms r(1) inv(1) refl refl c(3,4) [symmetric]] none
  have "state_at sample_tp_env ?v1 sample_tp_id b = Some s \<Longrightarrow> b = sample_id" for b s by auto
  then have "\<forall>b s. state_at sample_tp_env ?v1 sample_tp_id b = Some s \<longrightarrow>
      ats_State s = TERMINATED_STATE \<or> ats_AgentID s = ?aid" using c(5,6) by (metis option.inject)
  with tracepoint_report_spec [OF sample_tps.tracepoint_store_axioms r(2) inv(2) refl refl c(3,4) [symmetric]]
  have "state_at sample_tp_env (pebble_view map_of (agtStore (fst ?q))) sample_tp_id sample_id = None" by simp
  with c(5) show ?thesis by (simp only: Let_def simp_thms)
qed



text \<open>
  The name of a tracepoint is not checked: one that climbs out of its prefix is stored over a key
  of another component, here the counter of the agents' short ids, which then cannot be read.
\<close>

theorem tracepoint_name_escapes:
  "getTracepointWithNameKey ''../asid'' = asidKey \<and>
   (let m = fst (CreateTracepoint sample_tp_env 0 0 sample_tp_id no_tps ''../asid'' (Some sample_deployment) 10)
    in \<not> ok (snd (GetASID sample_env (agtStore m))))"
  by code_simp

end
