(* ===== verification/K8sStore.thy ===== *)
theory K8sStore
  imports AgentStoreCorrect
begin

text \<open>
  \<open>src/vizier/services/metadata/controllers/k8smeta/k8s_metadata_store.go\<close>: the updates of the
  Kubernetes resources and the labels of the pods in the key-value store of the metadata service.
  An update is stored under its topic (a node, or \<open>unscoped\<close>) and its version, and
  \<open>FetchResourceUpdates\<close> merges the updates of a node with the unscoped ones. A label of a pod is
  stored under its namespace, its key and the pod, and a pod is stored with the keys of its labels.

  The store is any implementation of the datastore interface. The two kinds of messages and the
  JSON form of a set of label keys are codecs. The reading of the clock by the store is one argument
  of an operation.
\<close>

section \<open>Environment\<close>

record ('d, 'u, 'r) k8s_env =
  ke_ds :: "'d kvops"
  ke_update :: "'u codec"
  ke_resource :: "'r codec"
  ke_json :: "(string, bool) gomap codec"
  ke_range :: range_order

definition resourceUpdateTTL :: int where
  "resourceUpdateTTL = 86400000000000"

definition unscopedTopic :: string where
  "unscopedTopic = ''unscoped''"

section \<open>Integers as text\<close>

text \<open>
  The verb \<open>%020d\<close>; \<open>strconv.ParseInt\<close> is in the prelude.
\<close>

definition fmt_020d :: "int \<Rightarrow> string" where
  "fmt_020d i =
     (if i < 0 then CHR ''-'' # replicate (19 - length (nat_dec (nat (- i)))) CHR ''0'' @ nat_dec (nat (- i))
      else replicate (20 - length (nat_dec (nat i))) CHR ''0'' @ nat_dec (nat i))"

section \<open>Keys\<close>

definition getFullResourceUpdateKey :: "int \<Rightarrow> string" where
  "getFullResourceUpdateKey version = path_Join [''/fullResourceUpdate'', fmt_020d version]"

definition getTopicResourceUpdateKey :: "string \<Rightarrow> int \<Rightarrow> string" where
  "getTopicResourceUpdateKey topic version = path_Join [''/resourceUpdate'', topic, fmt_020d version]"

definition getTopicVersionKey :: "string \<Rightarrow> string" where
  "getTopicVersionKey topic = path_Join [''/topicVersion'', topic]"

definition getNSLabelPodUpdateKey :: "string \<Rightarrow> string \<Rightarrow> string \<Rightarrow> string" where
  "getNSLabelPodUpdateKey namespace labelKey podName = path_Join [''/labelPodUpdate'', namespace, labelKey, podName]"

definition getNSLabelPrefixKey :: "string \<Rightarrow> string \<Rightarrow> string" where
  "getNSLabelPrefixKey namespace labelKey = path_Join [''/labelPodUpdate'', namespace, labelKey]"

definition getNSPodUpdateKey :: "string \<Rightarrow> string \<Rightarrow> string" where
  "getNSPodUpdateKey namespace podName = path_Join [''/podLabelUpdate'', namespace, podName]"

definition labelPodUpdateKeyToPodName :: "string \<Rightarrow> string" where
  "labelPodUpdateKeyToPodName updateKey = last (split_on CHR ''/'' updateKey)"

definition resourceUpdateKeyToUpdateVersion :: "string \<Rightarrow> int res" where
  "resourceUpdateKeyToUpdateVersion key =
     (let splitKey = split_on CHR ''/'' key in
      if length splitKey \<noteq> 4 then Inl (ErrMsg ''Invalid key'')
      else parse_int64 (dropWhile (\<lambda>c. c = CHR ''0'') (splitKey ! 3)))"

section \<open>Resource updates\<close>

definition AddResourceUpdateForTopic ::
  "('d, 'u, 'r) k8s_env \<Rightarrow> int \<Rightarrow> 'd \<Rightarrow> int \<Rightarrow> string \<Rightarrow> 'u \<Rightarrow> 'd \<times> err option" where
  "AddResourceUpdateForTopic K now d updateVersion topic resource =
     with_res (Marshal (ke_update K) resource) d (\<lambda>val.
       kv_SetWithTTL (ke_ds K) now d (getTopicResourceUpdateKey topic updateVersion) val resourceUpdateTTL)"

definition AddResourceUpdate :: "('d, 'u, 'r) k8s_env \<Rightarrow> int \<Rightarrow> 'd \<Rightarrow> int \<Rightarrow> 'u \<Rightarrow> 'd \<times> err option" where
  "AddResourceUpdate K now d updateVersion resource =
     AddResourceUpdateForTopic K now d updateVersion unscopedTopic resource"

definition AddFullResourceUpdate :: "('d, 'u, 'r) k8s_env \<Rightarrow> int \<Rightarrow> 'd \<Rightarrow> int \<Rightarrow> 'r \<Rightarrow> 'd \<times> err option" where
  "AddFullResourceUpdate K now d updateVersion resource =
     with_res (Marshal (ke_resource K) resource) d (\<lambda>val.
       kv_SetWithTTL (ke_ds K) now d (getFullResourceUpdateKey updateVersion) val resourceUpdateTTL)"

text \<open>
  The loop of \<open>FetchResourceUpdates\<close>: the two lists are what is left of the entries of the topic and
  of the unscoped ones, and \<open>-1\<close> stands for an exhausted list. An entry with a malformed key is
  skipped, and so is a value that does not unmarshal. A version \<open>-1\<close> is taken for an exhausted
  list, and the index of the other list may then be out of range.
\<close>

definition emit_update :: "'u codec \<Rightarrow> string \<Rightarrow> 'u list res \<Rightarrow> 'u list res" where
  "emit_update C b r = bind_res r (\<lambda>us. case Unmarshal C b of Inl _ \<Rightarrow> Inr us | Inr u \<Rightarrow> Inr (u # us))"

definition head_version :: "(string \<times> string) list \<Rightarrow> int res" where
  "head_version xs = (case xs of [] \<Rightarrow> Inr (- 1) | (k, _) # _ \<Rightarrow> resourceUpdateKeyToUpdateVersion k)"

definition index_panic :: err where
  "index_panic = Panic ''index out of range''"

function merge_updates :: "'u codec \<Rightarrow> (string \<times> string) list \<Rightarrow> (string \<times> string) list \<Rightarrow> 'u list res" where
  "merge_updates C ts us =
     (if ts = [] \<and> us = [] then Inr []
      else (case head_version ts of
              Inl _ \<Rightarrow> (case ts of [] \<Rightarrow> Inr [] | _ # ts' \<Rightarrow> merge_updates C ts' us)
            | Inr tVersion \<Rightarrow>
                (case head_version us of
                   Inl _ \<Rightarrow> (case us of [] \<Rightarrow> Inr [] | _ # us' \<Rightarrow> merge_updates C ts us')
                 | Inr uVersion \<Rightarrow>
                     if tVersion = - 1 \<or> (uVersion \<noteq> - 1 \<and> uVersion < tVersion)
                     then (case us of
                             [] \<Rightarrow> Inl index_panic
                           | (_, b) # us' \<Rightarrow> emit_update C b (merge_updates C ts us'))
                     else if uVersion = - 1 \<or> tVersion < uVersion
                     then (case ts of
                             [] \<Rightarrow> Inl index_panic
                           | (_, b) # ts' \<Rightarrow> emit_update C b (merge_updates C ts' us))
                     else (case (ts, us) of
                             ((_, b) # ts', _ # us') \<Rightarrow> emit_update C b (merge_updates C ts' us')
                           | _ \<Rightarrow> Inl index_panic))))"
  by pat_completeness auto

termination
  by (relation "measure (\<lambda>(C, ts, us). length ts + length us)") auto

declare merge_updates.simps [simp del]

definition FetchResourceUpdates :: "('d, 'u, 'r) k8s_env \<Rightarrow> 'd \<Rightarrow> string \<Rightarrow> int \<Rightarrow> int \<Rightarrow> 'u list res" where
  "FetchResourceUpdates K d topic v_from v_to =
     bind_res (kv_GetWithRange (ke_ds K) d (getTopicResourceUpdateKey topic v_from) (getTopicResourceUpdateKey topic v_to))
       (\<lambda>(tKeys, tValues).
     bind_res (kv_GetWithRange (ke_ds K) d (getTopicResourceUpdateKey unscopedTopic v_from)
         (getTopicResourceUpdateKey unscopedTopic v_to)) (\<lambda>(uKeys, uValues).
       merge_updates (ke_update K) (zip tKeys tValues) (zip uKeys uValues)))"

definition FetchFullResourceUpdates :: "('d, 'u, 'r) k8s_env \<Rightarrow> 'd \<Rightarrow> int \<Rightarrow> int \<Rightarrow> 'r list res" where
  "FetchFullResourceUpdates K d v_from v_to =
     bind_res (kv_GetWithRange (ke_ds K) d (getFullResourceUpdateKey v_from) (getFullResourceUpdateKey v_to)) (\<lambda>(_, vals).
       Inr (List.map_filter (\<lambda>u. case Unmarshal (ke_resource K) u of Inl _ \<Rightarrow> None | Inr pb \<Rightarrow> Some pb) vals))"

definition GetUpdateVersion :: "('d, 'u, 'r) k8s_env \<Rightarrow> 'd \<Rightarrow> string \<Rightarrow> int res" where
  "GetUpdateVersion K d topic =
     bind_res (kv_Get (ke_ds K) d (getTopicVersionKey topic)) (\<lambda>val.
       case val of
         None \<Rightarrow> Inr 0
       | Some s \<Rightarrow> if s = [] then Inr 0 else parse_int64 s)"

definition SetUpdateVersion :: "('d, 'u, 'r) k8s_env \<Rightarrow> 'd \<Rightarrow> string \<Rightarrow> int \<Rightarrow> 'd \<times> err option" where
  "SetUpdateVersion K d topic uv = kv_Set (ke_ds K) d (getTopicVersionKey topic) (int_dec uv)"

section \<open>Pod labels\<close>

definition SetPodLabels ::
  "('d, 'u, 'r) k8s_env \<Rightarrow> int \<Rightarrow> 'd \<Rightarrow> string \<Rightarrow> string \<Rightarrow> (string, string) gomap \<Rightarrow> 'd \<times> err option" where
  "SetPodLabels K now d namespace podName labels =
     (let nsPodKey = getNSPodUpdateKey namespace podName in
      with_res (kv_Get (ke_ds K) d nsPodKey) d (\<lambda>b.
      with_res (case b of None \<Rightarrow> Inr [] | Some s \<Rightarrow> Unmarshal (ke_json K) s) d (\<lambda>existingKeys.
      and_then (for_each (\<lambda>d (k, v).
          kv_SetWithTTL (ke_ds K) now d (getNSLabelPodUpdateKey namespace k podName) v resourceUpdateTTL)
        d (go_range (ke_range K) labels)) (\<lambda>d.
      let keys = map (\<lambda>(k, v). (k, True)) (go_range (ke_range K) labels);
          keysToDelete = map (\<lambda>k. getNSLabelPodUpdateKey namespace k podName)
            (filter (\<lambda>k. map_of keys k \<noteq> Some True) (map fst (go_range (ke_range K) existingKeys)))
      in and_then (if keysToDelete \<noteq> [] then kv_DeleteAll (ke_ds K) d keysToDelete else (d, None)) (\<lambda>d.
         with_res (Marshal (ke_json K) keys) d (\<lambda>b.
           kv_SetWithTTL (ke_ds K) now d nsPodKey b resourceUpdateTTL))))))"

definition DeletePodLabels :: "('d, 'u, 'r) k8s_env \<Rightarrow> 'd \<Rightarrow> string \<Rightarrow> string \<Rightarrow> 'd \<times> err option" where
  "DeletePodLabels K d namespace podName =
     (let nsPodKey = getNSPodUpdateKey namespace podName in
      with_res (kv_Get (ke_ds K) d nsPodKey) d (\<lambda>b.
        case b of
          None \<Rightarrow> (d, None)
        | Some s \<Rightarrow>
            with_res (Unmarshal (ke_json K) s) d (\<lambda>labelKeys.
              kv_DeleteAll (ke_ds K) d
                (map (\<lambda>(labelKey, _). getNSLabelPodUpdateKey namespace labelKey podName)
                   (go_range (ke_range K) labelKeys) @ [nsPodKey]))))"

definition FetchPodsWithLabelKey :: "('d, 'u, 'r) k8s_env \<Rightarrow> 'd \<Rightarrow> string \<Rightarrow> string \<Rightarrow> string list res" where
  "FetchPodsWithLabelKey K d namespace key =
     bind_res (kv_GetWithPrefix (ke_ds K) d (getNSLabelPrefixKey namespace key)) (\<lambda>(ks, _).
       Inr (map labelPodUpdateKeyToPodName ks))"

definition count_pod :: "(string, nat) gomap \<Rightarrow> string \<Rightarrow> (string, nat) gomap" where
  "count_pod pods p = AList.update p (Suc (case map_of pods p of None \<Rightarrow> 0 | Some n \<Rightarrow> n)) pods"

fun count_label :: "(string, nat) gomap \<Rightarrow> string \<Rightarrow> string list \<Rightarrow> string list \<Rightarrow> (string, nat) gomap" where
  "count_label pods lv (k # ks) (v # vs) =
     count_label (if lv = v then count_pod pods (labelPodUpdateKeyToPodName k) else pods) lv ks vs"
| "count_label pods lv _ _ = pods"

fun count_labels :: "('d, 'u, 'r) k8s_env \<Rightarrow> 'd \<Rightarrow> string \<Rightarrow> (string, nat) gomap \<Rightarrow> (string \<times> string) list \<Rightarrow>
    (string, nat) gomap res" where
  "count_labels K d namespace pods [] = Inr pods"
| "count_labels K d namespace pods ((lk, lv) # labels) =
     bind_res (kv_GetWithPrefix (ke_ds K) d (getNSLabelPrefixKey namespace lk)) (\<lambda>(updateKeys, labelValues).
       count_labels K d namespace (count_label pods lv updateKeys labelValues) labels)"

definition FetchPodsWithLabels ::
  "('d, 'u, 'r) k8s_env \<Rightarrow> 'd \<Rightarrow> string \<Rightarrow> (string, string) gomap \<Rightarrow> string list res" where
  "FetchPodsWithLabels K d namespace labels =
     bind_res (count_labels K d namespace [] (go_range (ke_range K) labels)) (\<lambda>pods.
       Inr (map fst (filter (\<lambda>(p, n). n = length labels) (go_range (ke_range K) pods))))"

definition pls_GetWithPrefix :: "('d, 'u, 'r) k8s_env \<Rightarrow> 'd \<Rightarrow> string \<Rightarrow> (string list \<times> string list) res" where
  "pls_GetWithPrefix K d p = kv_GetWithPrefix (ke_ds K) d p"

end
