(* ===== verification/K8sStoreCorrect.thy ===== *)
theory K8sStoreCorrect
  imports K8sStore
begin

text \<open>
  What the store of Kubernetes updates guarantees: the versions are kept in order by their keys, the
  updates of a topic and the unscoped ones come back merged in the order of their versions, and the
  lookup of pods by labels returns exactly the pods with the labels as long as no label key in the
  namespace continues another one. A store that lists a range in order is the locale \<open>ordered_kv\<close>.
\<close>

section \<open>Versions in keys\<close>

lemma nat_dec_head: "0 < n \<Longrightarrow> hd (nat_dec n) \<noteq> CHR ''0''"
proof (induction n rule: nat_dec.induct)
  case (1 n)
  show ?case
  proof (cases "n < 10")
    case True
    have "(of_char (digit n) :: nat) \<noteq> of_char CHR ''0''" using True 1 by simp
    then have "digit n \<noteq> CHR ''0''" by (metis)
    with True show ?thesis by (simp add: nat_dec.simps [of n])
  next
    case False
    with 1 show ?thesis by (simp add: nat_dec.simps [of n])
  qed
qed

lemma zero_digit: "is_digit CHR ''0''" "digit_val CHR ''0'' = 0"
  by (simp_all add: is_digit_def digit_val_def)

lemma dec_val_zeros: "dec_val 0 (replicate n CHR ''0'' @ s) = dec_val 0 s"
  by (induction n) (simp_all add: zero_digit)

lemma fmt_020d_props:
  assumes "0 \<le> v" and "v < 10 ^ 20"
  shows "length (fmt_020d v) = 20" "list_all is_digit (fmt_020d v)" "dec_val 0 (fmt_020d v) = nat v"
    "dropWhile (\<lambda>c. c = CHR ''0'') (fmt_020d v) = (if v = 0 then [] else nat_dec (nat v))"
proof -
  have l: "length (nat_dec (nat v)) \<le> 20" using assms by (intro length_nat_dec) (simp_all add: nat_less_iff)
  have f: "fmt_020d v = replicate (20 - length (nat_dec (nat v))) CHR ''0'' @ nat_dec (nat v)"
    using assms(1) by (simp add: fmt_020d_def)
  show "length (fmt_020d v) = 20" using l by (simp add: f)
  show "list_all is_digit (fmt_020d v)" using nat_dec_digits [of "nat v"] by (auto simp: f list_all_iff zero_digit)
  show "dec_val 0 (fmt_020d v) = nat v" by (simp add: f dec_val_zeros)
  have dw: "dropWhile (\<lambda>c. c = CHR ''0'') (replicate n CHR ''0'' @ s) = dropWhile (\<lambda>c. c = CHR ''0'') s" for n s
    by (induction n) simp_all
  have z: "nat_dec 0 = ''0''" by code_simp
  show "dropWhile (\<lambda>c. c = CHR ''0'') (fmt_020d v) = (if v = 0 then [] else nat_dec (nat v))"
  proof (cases "v = 0")
    case True
    then have "fmt_020d v = replicate 19 CHR ''0'' @ ''0''" using f z by simp
    with True show ?thesis by (simp only: dw) simp
  next
    case False
    with assms have "hd (nat_dec (nat v)) \<noteq> CHR ''0''" by (intro nat_dec_head) simp
    with False show ?thesis by (cases "nat_dec (nat v)") (simp_all add: f dw)
  qed
qed

lemma fmt_020d_less:
  assumes "0 \<le> v" "v < 10 ^ 20" "0 \<le> w" "w < 10 ^ 20"
  shows "fmt_020d v < fmt_020d w \<longleftrightarrow> v < w"
proof -
  note p = fmt_020d_props [OF assms(1,2)] fmt_020d_props [OF assms(3,4)]
  have "fmt_020d v < fmt_020d w \<longleftrightarrow> dec_val 0 (fmt_020d v) < dec_val 0 (fmt_020d w)"
    using p by (intro digits_less_iff) simp_all
  with p assms show ?thesis by auto
qed

lemma fmt_020d_seg: "0 \<le> v \<Longrightarrow> v < 10 ^ 20 \<Longrightarrow> path_seg (fmt_020d v)"
proof -
  assume v: "0 \<le> v" "v < 10 ^ 20"
  have "\<not> is_digit CHR ''/''" by (simp add: is_digit_def)
  with fmt_020d_props(1,2) [OF v] show ?thesis by (auto simp: path_seg_def list_all_iff)
qed

text \<open>The versions of 64 bits that the service uses.\<close>

definition version_ok :: "int \<Rightarrow> bool" where
  "version_ok v \<longleftrightarrow> 0 \<le> v \<and> v < 2 ^ 63"

lemma version_ok_bound: "version_ok v \<Longrightarrow> 0 \<le> v \<and> v < 10 ^ 20"
  by (simp add: version_ok_def)

lemma path_seg_resource [simp]: "path_seg ''resourceUpdate''" "path_seg ''unscoped''" "path_seg ''labelPodUpdate''"
  "path_seg ''podLabelUpdate''" "path_seg ''topicVersion''" "path_seg ''fullResourceUpdate''"
  by code_simp+

lemma topic_key_eq:
  assumes "path_seg topic" and "version_ok v"
  shows "getTopicResourceUpdateKey topic v = ''/resourceUpdate/'' @ topic @ ''/'' @ fmt_020d v"
  using path_Join_segs [of "''resourceUpdate''" "[topic, fmt_020d v]"] fmt_020d_seg version_ok_bound assms
  by (simp add: getTopicResourceUpdateKey_def)

lemma topic_key_less:
  assumes "path_seg topic" "version_ok v" "version_ok w"
  shows "getTopicResourceUpdateKey topic v < getTopicResourceUpdateKey topic w \<longleftrightarrow> v < w"
  using fmt_020d_less version_ok_bound assms by (simp add: topic_key_eq)

lemma topic_key_version:
  assumes "path_seg topic" and "version_ok v"
  shows "resourceUpdateKeyToUpdateVersion (getTopicResourceUpdateKey topic v) =
    (if v = 0 then Inl (ErrMsg ''invalid syntax'') else Inr v)"
proof -
  have b: "0 \<le> v" "v < 10 ^ 20" using version_ok_bound [OF assms(2)] by auto
  have "split_on CHR ''/'' (getTopicResourceUpdateKey topic v) = [[], ''resourceUpdate'', topic, fmt_020d v]"
    using assms fmt_020d_seg [OF b] by (simp add: topic_key_eq split_on_append path_seg_split path_seg_def split_on_no_sep)
  moreover have "parse_int64 [] = Inl (ErrMsg ''invalid syntax'')" by (simp add: parse_int64_def)
  moreover have "nat v < 2 ^ 63" using assms(2) by (simp add: version_ok_def nat_less_iff)
  ultimately show ?thesis
    using fmt_020d_props(4) [OF b] b(1)
    by (simp add: resourceUpdateKeyToUpdateVersion_def Let_def parse_int64_nat_dec)
qed

section \<open>Merging\<close>

fun merge_versions :: "int list \<Rightarrow> int list \<Rightarrow> int list" where
  "merge_versions [] ws = ws"
| "merge_versions vs [] = vs"
| "merge_versions (v # vs) (w # ws) =
     (if w < v then w # merge_versions (v # vs) ws
      else if v < w then v # merge_versions vs (w # ws)
      else v # merge_versions vs ws)"

lemma set_merge_versions [simp]: "set (merge_versions vs ws) = set vs \<union> set ws"
  by (induction vs ws rule: merge_versions.induct) auto

lemma sorted_merge_versions:
  "sorted_wrt (<) vs \<Longrightarrow> sorted_wrt (<) ws \<Longrightarrow> sorted_wrt (<) (merge_versions vs ws)"
  by (induction vs ws rule: merge_versions.induct) (auto simp: not_less le_less)

definition entries :: "string \<Rightarrow> (int \<Rightarrow> string) \<Rightarrow> int list \<Rightarrow> (string \<times> string) list" where
  "entries topic b vs = map (\<lambda>v. (getTopicResourceUpdateKey topic v, b v)) vs"

definition decode_updates :: "'u codec \<Rightarrow> (int \<Rightarrow> string) \<Rightarrow> int list \<Rightarrow> 'u list" where
  "decode_updates C f vs =
     List.map_filter (\<lambda>v. case Unmarshal C (f v) of Inl _ \<Rightarrow> None | Inr u \<Rightarrow> Some u) (filter (\<lambda>v. v \<noteq> 0) vs)"

lemma entries_simps [simp]: "entries topic b [] = []"
  "entries topic b (v # vs) = (getTopicResourceUpdateKey topic v, b v) # entries topic b vs"
  "entries topic b vs = [] \<longleftrightarrow> vs = []"
  by (simp_all add: entries_def)

lemma decode_Cons:
  "v \<noteq> 0 \<Longrightarrow> emit_update C (f v) (Inr (decode_updates C f vs)) = Inr (decode_updates C f (v # vs))"
  "decode_updates C f (0 # vs) = decode_updates C f vs" "decode_updates C f [] = []"
  by (simp_all add: emit_update_def decode_updates_def split: sum.splits)

lemma decode_cong: "(\<And>v. v \<in> set vs \<Longrightarrow> f v = g v) \<Longrightarrow> decode_updates C f vs = decode_updates C g vs"
  by (induction vs) (auto simp: decode_updates_def split: sum.splits)

lemma merge_bad_t: "resourceUpdateKeyToUpdateVersion k = Inl e \<Longrightarrow> merge_updates C ((k, b) # ts) us = merge_updates C ts us"
  by (subst merge_updates.simps) (simp add: head_version_def)

lemma merge_bad_u:
  "resourceUpdateKeyToUpdateVersion k = Inl e \<Longrightarrow> head_version ts = Inr v \<Longrightarrow>
   merge_updates C ts ((k, b) # us) = merge_updates C ts us"
  by (subst merge_updates.simps) (simp add: head_version_def)

lemma merge_only_t:
  "resourceUpdateKeyToUpdateVersion k = Inr v \<Longrightarrow> 0 \<le> v \<Longrightarrow>
   merge_updates C ((k, b) # ts) [] = emit_update C b (merge_updates C ts [])"
  by (subst merge_updates.simps) (simp add: head_version_def)

lemma merge_only_u:
  "resourceUpdateKeyToUpdateVersion k = Inr v \<Longrightarrow>
   merge_updates C [] ((k, b) # us) = emit_update C b (merge_updates C [] us)"
  by (subst merge_updates.simps) (simp add: head_version_def)

lemma merge_both:
  assumes "resourceUpdateKeyToUpdateVersion k = Inr v" "0 \<le> v" "resourceUpdateKeyToUpdateVersion k' = Inr w" "0 \<le> w"
  shows "merge_updates C ((k, b) # ts) ((k', b') # us) =
    (if w < v then emit_update C b' (merge_updates C ((k, b) # ts) us)
     else if v < w then emit_update C b (merge_updates C ts ((k', b') # us))
     else emit_update C b (merge_updates C ts us))"
  using assms by (subst merge_updates.simps) (simp add: head_version_def)

lemma merge_updates_entries:
  assumes t: "path_seg t" and u: "path_seg u"
  shows "sorted_wrt (<) vs \<Longrightarrow> sorted_wrt (<) ws \<Longrightarrow> list_all version_ok vs \<Longrightarrow> list_all version_ok ws \<Longrightarrow>
    (\<And>v. v \<in> set vs \<Longrightarrow> f v = bt v) \<Longrightarrow> (\<And>w. w \<in> set ws \<Longrightarrow> w \<in> set vs \<or> f w = bu w) \<Longrightarrow>
    merge_updates C (entries t bt vs) (entries u bu ws) = Inr (decode_updates C f (merge_versions vs ws))"
proof (induction vs ws rule: merge_versions.induct)
  case (1 ws)
  have "list_all version_ok ws \<Longrightarrow> (\<And>w. w \<in> set ws \<Longrightarrow> f w = bu w) \<Longrightarrow>
      merge_updates C [] (entries u bu ws) = Inr (decode_updates C f ws)" for ws
  proof (induction ws)
    case (Cons w ws)
    then show ?case
      using topic_key_version [OF u, of w] decode_Cons(1) [of w C f ws]
      by (cases "w = 0") (simp_all add: merge_bad_u [of _ _ _ "- 1"] merge_only_u head_version_def decode_Cons(2))
  qed (simp add: merge_updates.simps decode_Cons)
  then show ?case using 1 by simp
next
  case (2 v vs)
  have "list_all version_ok xs \<Longrightarrow> (\<And>x. x \<in> set xs \<Longrightarrow> f x = bt x) \<Longrightarrow>
      merge_updates C (entries t bt xs) [] = Inr (decode_updates C f xs)" for xs
  proof (induction xs)
    case (Cons x xs)
    then show ?case
      using topic_key_version [OF t, of x] decode_Cons(1) [of x C f xs]
      by (cases "x = 0") (simp_all add: merge_bad_t merge_only_t version_ok_def decode_Cons(2))
  qed (simp add: merge_updates.simps decode_Cons)
  from this [of "v # vs"] show ?case using 2 by (simp only: merge_versions.simps entries_simps(1))
next
  case (3 v vs w ws)
  have ok: "version_ok v" "version_ok w" using 3 by simp_all
  then have pos: "0 \<le> v" "0 \<le> w" by (simp_all add: version_ok_def)
  note kv = topic_key_version [OF t ok(1)] and kw = topic_key_version [OF u ok(2)]
  consider (lt) "w < v" | (gt) "v < w" | (eq) "v = w" by linarith
  then show ?case
  proof cases
    case lt
    have IH: "merge_updates C (entries t bt (v # vs)) (entries u bu ws) = Inr (decode_updates C f (merge_versions (v # vs) ws))"
      using 3(1) [OF lt] 3 by simp
    have "w \<notin> set (v # vs)" using 3(4) lt by auto
    then have fw: "f w = bu w" using 3(9) [of w] by simp
    have v0: "v \<noteq> 0" using lt pos by simp
    show ?thesis
    proof (cases "w = 0")
      case True
      then show ?thesis using IH lt kv kw v0 by (simp add: merge_bad_u [of _ _ _ v] head_version_def decode_Cons(2))
    next
      case False
      then show ?thesis
        using IH lt kv kw v0 pos fw decode_Cons(1) [OF False, of C f "merge_versions (v # vs) ws"]
        by (simp add: merge_both [of _ v _ w])
    qed
  next
    case gt
    have IH: "merge_updates C (entries t bt vs) (entries u bu (w # ws)) = Inr (decode_updates C f (merge_versions vs (w # ws)))"
    proof (rule 3(2))
      show "\<not> w < v" "v < w" using gt by simp_all
      show "x \<in> set vs \<or> f x = bu x" if "x \<in> set (w # ws)" for x
        using 3(9) [OF that] that gt 3(5) by auto
    qed (use 3 in simp_all)
    have fv: "f v = bt v" using 3 by simp
    have w0: "w \<noteq> 0" using gt pos by simp
    show ?thesis
    proof (cases "v = 0")
      case True
      then show ?thesis using IH gt kv by (simp add: merge_bad_t decode_Cons(2))
    next
      case False
      then show ?thesis
        using IH gt kv kw w0 pos fv decode_Cons(1) [OF False, of C f "merge_versions vs (w # ws)"]
        by (simp add: merge_both [of _ v _ w])
    qed
  next
    case eq
    have IH: "merge_updates C (entries t bt vs) (entries u bu ws) = Inr (decode_updates C f (merge_versions vs ws))"
    proof (rule 3(3))
      show "\<not> w < v" "\<not> v < w" using eq by simp_all
      show "x \<in> set vs \<or> f x = bu x" if "x \<in> set ws" for x
        using 3(9) [of x] that eq 3(5) by auto
    qed (use 3 in simp_all)
    have fv: "f v = bt v" using 3 by simp
    show ?thesis
    proof (cases "v = 0")
      case True
      have "\<exists>x. head_version (entries t bt vs) = Inr x"
      proof (cases vs)
        case (Cons x xs)
        then have "x \<noteq> 0" "version_ok x" using 3(4,6) True by auto
        with Cons show ?thesis using topic_key_version [OF t, of x] by (simp add: head_version_def)
      qed (simp add: head_version_def)
      then show ?thesis using IH kv kw True eq by (auto simp: merge_bad_t merge_bad_u decode_Cons(2))
    next
      case False
      then show ?thesis
        using IH eq kv kw pos fv decode_Cons(1) [OF False, of C f "merge_versions vs ws"]
        by (simp add: merge_both [of _ v _ w])
    qed
  qed
qed

section \<open>A store that lists ranges in order\<close>

locale ordered_kv = kv_store D view for D :: "'d kvops" and view :: "'d \<Rightarrow> string \<rightharpoonup> string" +
  assumes range_sorted: "kv_GetWithRange D d lo hi = Inr (ks, vs) \<Longrightarrow> sorted ks"

text \<open>Pebble iterates in the order of the keys, and so does the store on it.\<close>

definition pb_ordered :: "'p pebble \<Rightarrow> bool" where
  "pb_ordered P \<longleftrightarrow> (\<forall>d lo hi. sorted (map fst (fst (pb_Iter P d lo hi))))"

lemma pebble_ordered_kv:
  assumes "pebble_db P pview" and "pb_ordered P"
  shows "ordered_kv (pebble_kv P) (pebble_view pview)"
proof (rule ordered_kv.intro)
  show "kv_store (pebble_kv P) (pebble_view pview)" using assms(1) by (rule pebble_db.kv_contract)
  show "ordered_kv_axioms (pebble_kv P)"
  proof
    fix d lo hi ks vs assume "kv_GetWithRange (pebble_kv P) d lo hi = Inr (ks, vs)"
    then obtain db items where it: "pb_Iter P db lo hi = (items, None)" and col: "iter_collect items = Inr (ks, vs)"
      by (auto simp: pebble_kv_def pebble_GetWithRange_def split: option.splits prod.splits sum.splits)
    have "ks = map fst items" using iter_collect_ok [OF col] by simp
    moreover have "sorted (map fst items)" using assms(2) it unfolding pb_ordered_def by (metis fst_conv)
    ultimately show "sorted ks" by simp
  qed
qed

lemma ref_ordered: "pb_ordered ref_pebble"
  by (simp add: pb_ordered_def ref_pebble_def comp_def)

interpretation ref_kv: ordered_kv "pebble_kv ref_pebble" "pebble_view map_of"
  using ref.pebble_db_axioms ref_ordered by (rule pebble_ordered_kv)

section \<open>The updates of a topic\<close>

definition topic_prefix :: "string \<Rightarrow> string" where
  "topic_prefix topic = ''/resourceUpdate/'' @ topic @ ''/''"

text \<open>Under the prefix of the topic there are only updates with a version.\<close>

definition topic_ok :: "(string \<rightharpoonup> string) \<Rightarrow> string \<Rightarrow> bool" where
  "topic_ok m topic \<longleftrightarrow>
     (\<forall>k b. m k = Some b \<longrightarrow> prefix (topic_prefix topic) k \<longrightarrow>
        (\<exists>v. version_ok v \<and> k = getTopicResourceUpdateKey topic v))"

text \<open>The update a version stands for on a topic: the topic's own, or the unscoped one.\<close>

definition update_at :: "'u codec \<Rightarrow> (string \<rightharpoonup> string) \<Rightarrow> string \<Rightarrow> int \<Rightarrow> 'u option" where
  "update_at C m topic v =
     (case (case m (getTopicResourceUpdateKey topic v) of
              None \<Rightarrow> m (getTopicResourceUpdateKey unscopedTopic v) | Some b \<Rightarrow> Some b) of
        None \<Rightarrow> None
      | Some b \<Rightarrow> (case Unmarshal C b of Inl _ \<Rightarrow> None | Inr u \<Rightarrow> Some u))"

lemma topic_key_inj:
  "path_seg topic \<Longrightarrow> version_ok v \<Longrightarrow> version_ok w \<Longrightarrow>
   getTopicResourceUpdateKey topic v = getTopicResourceUpdateKey topic w \<longleftrightarrow> v = w"
  using topic_key_less [of topic v w] topic_key_less [of topic w v] by fastforce

lemma unscoped_seg [simp]: "path_seg unscopedTopic"
  by (simp add: path_seg_def unscopedTopic_def)

lemma map_filter_cong: "(\<And>x. x \<in> set xs \<Longrightarrow> f x = g x) \<Longrightarrow> List.map_filter f xs = List.map_filter g xs"
  by (induction xs) (auto split: option.splits)

context ordered_kv
begin

lemma range_entries:
  assumes t: "path_seg topic" and v: "version_ok lo" "version_ok hi" and tok: "topic_ok (view d) topic"
    and g: "kv_GetWithRange D d (getTopicResourceUpdateKey topic lo) (getTopicResourceUpdateKey topic hi) = Inr (ks, vs)"
  obtains ns where "sorted_wrt (<) ns" "list_all version_ok ns"
    "set ns = {n. version_ok n \<and> lo \<le> n \<and> n < hi \<and> getTopicResourceUpdateKey topic n \<in> dom (view d)}"
    "zip ks vs = entries topic (\<lambda>n. the (view d (getTopicResourceUpdateKey topic n))) ns"
proof -
  let ?key = "getTopicResourceUpdateKey topic"
  have ne: "?key hi \<noteq> []" using t v(2) by (simp add: topic_key_eq)
  have l: "lists_keys (view d) (\<lambda>k. ?key lo \<le> k \<and> k < ?key hi) ks vs" using ne g by (rule get_range)
  then have ks: "distinct ks" "set ks = {k. (?key lo \<le> k \<and> k < ?key hi) \<and> k \<in> dom (view d)}" "map Some vs = map (view d) ks"
    by (simp_all add: lists_keys_def)
  have le: "?key m \<le> ?key n \<longleftrightarrow> m \<le> n" if "version_ok m" "version_ok n" for m n
    using topic_key_less [OF t that(2,1)] by (simp add: linorder_not_less [symmetric])
  have ex: "\<exists>n. version_ok n \<and> k = ?key n" if kin: "k \<in> set ks" for k
  proof -
    obtain b where k: "?key lo \<le> k" "k < ?key hi" "view d k = Some b" using kin unfolding ks(2) by auto
    have p: "?key n = topic_prefix topic @ fmt_020d n" if "version_ok n" for n
      using t that by (simp add: topic_key_eq topic_prefix_def)
    have "topic_prefix topic \<le> ?key lo" using p [OF v(1)] by (metis prefixI prefix_imp_le)
    then have "topic_prefix topic \<le> k" using k(1) by (rule order_trans)
    then have "prefix (topic_prefix topic) k" using k(2) p [OF v(2)] between_prefix by metis
    with tok k(3) show ?thesis unfolding topic_ok_def by blast
  qed
  define ns where "ns = map (\<lambda>k. SOME n. version_ok n \<and> k = ?key n) ks"
  have n: "version_ok (SOME n. version_ok n \<and> k = ?key n) \<and> k = ?key (SOME n. version_ok n \<and> k = ?key n)" if "k \<in> set ks" for k
    using someI_ex [OF ex [OF that]] .
  have kn: "ks = map ?key ns" unfolding ns_def map_map comp_def using n by (intro map_idI [symmetric]) auto
  have nok: "list_all version_ok ns" unfolding ns_def list_all_iff using n by auto
  have "sorted_wrt (<) ks" using range_sorted [OF g] ks(1) by (simp add: strict_sorted_iff)
  then have "sorted_wrt (\<lambda>m n. ?key m < ?key n) ns" unfolding kn sorted_wrt_map .
  then have s: "sorted_wrt (<) ns"
    by (rule sorted_wrt_mono_rel [rotated]) (use nok topic_key_less [OF t] in \<open>auto simp: list_all_iff\<close>)
  have "set ns = {n. version_ok n \<and> lo \<le> n \<and> n < hi \<and> ?key n \<in> dom (view d)}"
  proof (rule set_eqI)
    fix n
    show "n \<in> set ns \<longleftrightarrow> n \<in> {n. version_ok n \<and> lo \<le> n \<and> n < hi \<and> ?key n \<in> dom (view d)}"
    proof
      assume a: "n \<in> set ns"
      then have "version_ok n" "?key n \<in> set ks" using nok by (auto simp: list_all_iff kn)
      then show "n \<in> {n. version_ok n \<and> lo \<le> n \<and> n < hi \<and> ?key n \<in> dom (view d)}"
        unfolding ks(2) using le [OF v(1)] topic_key_less [OF t _ v(2)] by simp
    next
      assume a: "n \<in> {n. version_ok n \<and> lo \<le> n \<and> n < hi \<and> ?key n \<in> dom (view d)}"
      then have "?key n \<in> set ks" unfolding ks(2) using le [OF v(1)] topic_key_less [OF t _ v(2)] by simp
      then obtain m where "m \<in> set ns" "?key n = ?key m" unfolding kn by auto
      moreover from this nok a have "n = m" using topic_key_inj [OF t] by (auto simp: list_all_iff)
      ultimately show "n \<in> set ns" by simp
    qed
  qed
  moreover have "zip ks vs = entries topic (\<lambda>n. the (view d (?key n))) ns"
  proof -
    have "map the (map Some vs) = map (\<lambda>k. the (view d k)) ks" unfolding ks(3) by simp
    then have "map (\<lambda>k. the (view d k)) ks = vs" by (simp add: comp_def)
    then have "vs = map (\<lambda>n. the (view d (?key n))) ns" unfolding kn by (simp add: comp_def)
    then show ?thesis unfolding kn entries_def by (simp add: zip_map_map zip_same_conv_map)
  qed
  ultimately show ?thesis using that s nok by blast
qed

lemma fetch_merges:
  assumes "ke_ds K = D" and t: "path_seg topic" and v: "version_ok lo" "version_ok hi"
    and tok: "topic_ok (view d) topic" and uok: "topic_ok (view d) unscopedTopic"
    and gt: "kv_GetWithRange D d (getTopicResourceUpdateKey topic lo) (getTopicResourceUpdateKey topic hi) = Inr (tks, tvs)"
    and gu: "kv_GetWithRange D d (getTopicResourceUpdateKey unscopedTopic lo)
          (getTopicResourceUpdateKey unscopedTopic hi) = Inr (uks, uvs)"
  shows "\<exists>ns. sorted_wrt (<) ns \<and>
    set ns = {n. version_ok n \<and> n \<noteq> 0 \<and> lo \<le> n \<and> n < hi \<and>
      (getTopicResourceUpdateKey topic n \<in> dom (view d) \<or> getTopicResourceUpdateKey unscopedTopic n \<in> dom (view d))} \<and>
    FetchResourceUpdates K d topic lo hi = Inr (List.map_filter (update_at (ke_update K) (view d) topic) ns)"
proof -
  let ?bt = "\<lambda>n. the (view d (getTopicResourceUpdateKey topic n))"
  let ?bu = "\<lambda>n. the (view d (getTopicResourceUpdateKey unscopedTopic n))"
  let ?f = "\<lambda>n. if getTopicResourceUpdateKey topic n \<in> dom (view d) then ?bt n else ?bu n"
  obtain vs where vs: "sorted_wrt (<) vs" "list_all version_ok vs"
    "set vs = {n. version_ok n \<and> lo \<le> n \<and> n < hi \<and> getTopicResourceUpdateKey topic n \<in> dom (view d)}"
    "zip tks tvs = entries topic ?bt vs"
    using t v tok gt by (rule range_entries)
  obtain ws where ws: "sorted_wrt (<) ws" "list_all version_ok ws"
    "set ws = {n. version_ok n \<and> lo \<le> n \<and> n < hi \<and> getTopicResourceUpdateKey unscopedTopic n \<in> dom (view d)}"
    "zip uks uvs = entries unscopedTopic ?bu ws"
    using unscoped_seg v uok gu by (rule range_entries)
  define ns where "ns = filter (\<lambda>v. v \<noteq> 0) (merge_versions vs ws)"
  have "merge_updates (ke_update K) (entries topic ?bt vs) (entries unscopedTopic ?bu ws) =
      Inr (decode_updates (ke_update K) ?f (merge_versions vs ws))"
    by (rule merge_updates_entries [OF t unscoped_seg vs(1) ws(1) vs(2) ws(2)]) (use vs(3) ws(3) in auto)
  then have "FetchResourceUpdates K d topic lo hi = Inr (decode_updates (ke_update K) ?f (merge_versions vs ws))"
    using gt gu vs(4) ws(4) assms(1) by (simp add: FetchResourceUpdates_def)
  moreover have "decode_updates (ke_update K) ?f (merge_versions vs ws) =
      List.map_filter (update_at (ke_update K) (view d) topic) ns"
    unfolding decode_updates_def ns_def
    by (rule map_filter_cong) (use vs(3) ws(3) in \<open>auto simp: update_at_def split: option.splits\<close>)
  moreover have "sorted_wrt (<) ns"
    unfolding ns_def by (intro sorted_wrt_filter sorted_merge_versions vs(1) ws(1))
  moreover have "set ns = {n. version_ok n \<and> n \<noteq> 0 \<and> lo \<le> n \<and> n < hi \<and>
      (getTopicResourceUpdateKey topic n \<in> dom (view d) \<or> getTopicResourceUpdateKey unscopedTopic n \<in> dom (view d))}"
    unfolding ns_def using vs(3) ws(3) by auto
  ultimately show ?thesis by (intro exI [of _ ns]) simp
qed

end

section \<open>Pods and their labels\<close>

text \<open>A label key is one or more path elements, such as \<open>app\<close> or \<open>app.kubernetes.io/name\<close>.\<close>

definition label_key :: "string \<Rightarrow> bool" where
  "label_key lk \<longleftrightarrow> list_all path_seg (split_on CHR ''/'' lk)"

lemma label_prefix_eq:
  assumes "path_seg ns" and "label_key lk"
  shows "getNSLabelPrefixKey ns lk = ''/labelPodUpdate/'' @ ns @ ''/'' @ lk"
proof -
  have "list_all path_seg (split_on CHR ''/'' (''labelPodUpdate'' @ CHR ''/'' # ns @ CHR ''/'' # lk))"
    using assms unfolding split_on_app by (simp add: path_seg_split label_key_def path_seg_def split_on_no_sep)
  from path_Clean_id [OF this] show ?thesis by (simp add: getNSLabelPrefixKey_def path_Join_def)
qed

lemma label_pod_key:
  assumes "path_seg ns" and "label_key lk" and "path_seg p"
  shows "getNSLabelPodUpdateKey ns lk p = ''/labelPodUpdate/'' @ ns @ ''/'' @ lk @ ''/'' @ p"
    and "labelPodUpdateKeyToPodName (getNSLabelPodUpdateKey ns lk p) = p"
proof -
  have "list_all path_seg (split_on CHR ''/'' (''labelPodUpdate'' @ CHR ''/'' # ns @ CHR ''/'' # lk @ CHR ''/'' # p))"
    using assms unfolding split_on_app by (simp add: path_seg_split label_key_def path_seg_def split_on_no_sep)
  from path_Clean_id [OF this] show e: "getNSLabelPodUpdateKey ns lk p = ''/labelPodUpdate/'' @ ns @ ''/'' @ lk @ ''/'' @ p"
    by (simp add: getNSLabelPodUpdateKey_def path_Join_def)
  have "split_on CHR ''/'' (''/labelPodUpdate/'' @ ns @ ''/'' @ lk @ CHR ''/'' # p) =
      split_on CHR ''/'' (''/labelPodUpdate/'' @ ns @ ''/'' @ lk) @ [p]"
    using split_on_app [of "CHR ''/''" "''/labelPodUpdate/'' @ ns @ ''/'' @ lk" p] path_seg_split [OF assms(3)]
    by (simp only: append_assoc)
  then have "last (split_on CHR ''/'' (''/labelPodUpdate/'' @ ns @ ''/'' @ lk @ CHR ''/'' # p)) = p" by (simp only: last_snoc)
  then show "labelPodUpdateKeyToPodName (getNSLabelPodUpdateKey ns lk p) = p"
    unfolding labelPodUpdateKeyToPodName_def e by simp
qed

text \<open>
  The label entries of a namespace, and the condition under which the prefix of a label key finds
  that key only.
\<close>

definition labels_ok :: "(string \<rightharpoonup> string) \<Rightarrow> string \<Rightarrow> bool" where
  "labels_ok m ns \<longleftrightarrow>
     (\<forall>k\<in>dom m. prefix (''/labelPodUpdate/'' @ ns @ ''/'') k \<longrightarrow>
        (\<exists>lk p. label_key lk \<and> path_seg p \<and> k = getNSLabelPodUpdateKey ns lk p))"

definition label_separate :: "(string \<rightharpoonup> string) \<Rightarrow> string \<Rightarrow> string \<Rightarrow> bool" where
  "label_separate m ns lk \<longleftrightarrow>
     (\<forall>lk' p. label_key lk' \<and> path_seg p \<and> getNSLabelPodUpdateKey ns lk' p \<in> dom m \<and>
        prefix lk (lk' @ ''/'' @ p) \<longrightarrow> lk' = lk)"

definition pod_count :: "(string, nat) gomap \<Rightarrow> string \<Rightarrow> nat" where
  "pod_count pods p = (case map_of pods p of None \<Rightarrow> 0 | Some n \<Rightarrow> n)"

lemma count_label_count:
  "length ks = length vs \<Longrightarrow> pod_count (count_label pods lv ks vs) p =
     pod_count pods p + length (filter (\<lambda>(k, v). v = lv \<and> labelPodUpdateKeyToPodName k = p) (zip ks vs))"
proof (induction pods lv ks vs rule: count_label.induct)
  case (1 pods lv k ks v vs)
  have "pod_count (count_pod pods (labelPodUpdateKeyToPodName k)) p =
      pod_count pods p + (if labelPodUpdateKeyToPodName k = p then 1 else 0)"
    by (simp add: pod_count_def count_pod_def update_conv' split: option.splits)
  with 1 show ?case by auto
qed simp_all

lemma count_label_ok: "gomap_ok pods \<Longrightarrow> gomap_ok (count_label pods lv ks vs)"
  by (induction pods lv ks vs rule: count_label.induct) (auto simp: count_pod_def)

lemma count_labels_ok: "count_labels K d ns pods ls = Inr pods' \<Longrightarrow> gomap_ok pods \<Longrightarrow> gomap_ok pods'"
  by (induction ls arbitrary: pods) (auto simp: bind_res_def count_label_ok split: sum.splits)

lemma filter_one:
  assumes "distinct (map fst xs)" and "\<And>x. x \<in> set xs \<Longrightarrow> Q x \<Longrightarrow> fst x = k"
  shows "length (filter Q xs) = (if \<exists>x\<in>set xs. Q x then 1 else 0)"
  using assms
proof (induction xs)
  case (Cons x xs)
  show ?case
  proof (cases "Q x")
    case True
    then have "\<not> Q y" if "y \<in> set xs" for y using Cons.prems that by (metis distinct.simps(2) image_eqI list.set_intros(1,2) list.set_map list.simps(9))
    then have "filter Q xs = []" by (simp add: filter_empty_conv)
    with True show ?thesis by simp
  next
    case False
    with Cons show ?thesis by simp
  qed
qed simp

lemma zip_view:
  "map Some vs = map f ks \<Longrightarrow> length ks = length vs \<Longrightarrow> (k, v) \<in> set (zip ks vs) \<longleftrightarrow> k \<in> set ks \<and> f k = Some v"
proof (induction ks arbitrary: vs)
  case (Cons a ks)
  then show ?case by (cases vs) auto
qed simp

lemma ex_InrI: "(case r of Inl _ \<Rightarrow> False | Inr _ \<Rightarrow> True) \<Longrightarrow> \<exists>x. r = Inr x"
  by (simp split: sum.splits)

lemma seg_append_eq:
  assumes "path_seg s" and "path_seg t"
  shows "s @ CHR ''/'' # x = t @ CHR ''/'' # y \<longleftrightarrow> s = t \<and> x = y"
proof
  assume e: "s @ CHR ''/'' # x = t @ CHR ''/'' # y"
  have "split_on CHR ''/'' (s @ CHR ''/'' # x) = split_on CHR ''/'' (t @ CHR ''/'' # y)" unfolding e ..
  then have "s = t" using assms by (simp add: split_on_append path_seg_def)
  with e show "s = t \<and> x = y" by simp
qed simp

lemma filter_all_length: "length (filter Q xs) = length xs \<longleftrightarrow> (\<forall>x\<in>set xs. Q x)"
  by (metis filter_True length_filter_less less_irrefl)

context kv_store
begin

lemma label_matches:
  assumes ns: "path_seg ns" and ok: "labels_ok (view d) ns" and lk: "label_key lk" "label_separate (view d) ns lk"
    and g: "kv_GetWithPrefix D d (getNSLabelPrefixKey ns lk) = Inr (ks, vs)"
  shows "length (filter (\<lambda>(k, v). v = lv \<and> labelPodUpdateKeyToPodName k = p) (zip ks vs)) =
    (if path_seg p \<and> view d (getNSLabelPodUpdateKey ns lk p) = Some lv then 1 else 0)"
proof -
  let ?Q = "\<lambda>(k, v). v = lv \<and> labelPodUpdateKeyToPodName k = p"
  have l: "lists_keys (view d) (prefix (getNSLabelPrefixKey ns lk)) ks vs" using g by (rule get_prefix)
  then have ks: "distinct ks" "set ks = {k. prefix (getNSLabelPrefixKey ns lk) k \<and> k \<in> dom (view d)}"
    "map Some vs = map (view d) ks" by (simp_all add: lists_keys_def)
  then have len: "length ks = length vs" by (metis length_map)
  have key: "\<exists>q. path_seg q \<and> k = getNSLabelPodUpdateKey ns lk q" if kin: "k \<in> set ks" for k
  proof -
    have pre: "prefix (''/labelPodUpdate/'' @ ns @ ''/'' @ lk) k" and dom: "k \<in> dom (view d)"
      using kin ks(2) label_prefix_eq [OF ns lk(1)] by simp_all
    then have "prefix (''/labelPodUpdate/'' @ ns @ ''/'') k" by (metis append_assoc append_prefixD)
    then obtain lk' q where q: "label_key lk'" "path_seg q" "k = getNSLabelPodUpdateKey ns lk' q"
      using ok dom unfolding labels_ok_def by blast
    have "prefix lk (lk' @ ''/'' @ q)" using pre unfolding q(3) label_pod_key(1) [OF ns q(1,2)] by simp
    then have "lk' = lk" using lk(2) q dom unfolding label_separate_def by blast
    with q show ?thesis by blast
  qed
  have one: "length (filter ?Q (zip ks vs)) = (if \<exists>x\<in>set (zip ks vs). ?Q x then 1 else 0)"
  proof (rule filter_one)
    show "distinct (map fst (zip ks vs))" using ks(1) len by simp
    fix x assume x: "x \<in> set (zip ks vs)" "?Q x"
    then have "fst x \<in> set ks" by (metis in_set_zipE prod.collapse)
    then obtain q where "path_seg q" "fst x = getNSLabelPodUpdateKey ns lk q" using key by blast
    then show "fst x = getNSLabelPodUpdateKey ns lk p" using x(2) label_pod_key(2) [OF ns lk(1)] by (auto split: prod.splits)
  qed
  have zip: "(k, v) \<in> set (zip ks vs) \<longleftrightarrow> k \<in> set ks \<and> view d k = Some v" for k v
    using ks(3) len by (rule zip_view)
  have "(\<exists>x\<in>set (zip ks vs). ?Q x) \<longleftrightarrow> path_seg p \<and> view d (getNSLabelPodUpdateKey ns lk p) = Some lv"
  proof
    assume "\<exists>x\<in>set (zip ks vs). ?Q x"
    then obtain k where k: "(k, lv) \<in> set (zip ks vs)" "labelPodUpdateKeyToPodName k = p" by auto
    then obtain q where q: "path_seg q" "k = getNSLabelPodUpdateKey ns lk q" using key zip by blast
    with k label_pod_key(2) [OF ns lk(1) q(1)] have "q = p" by simp
    with q k(1) zip [of k lv] show "path_seg p \<and> view d (getNSLabelPodUpdateKey ns lk p) = Some lv" by simp
  next
    assume a: "path_seg p \<and> view d (getNSLabelPodUpdateKey ns lk p) = Some lv"
    then have "prefix (getNSLabelPrefixKey ns lk) (getNSLabelPodUpdateKey ns lk p)"
      using label_prefix_eq [OF ns lk(1)] label_pod_key(1) [OF ns lk(1), of p] by simp
    then have "(getNSLabelPodUpdateKey ns lk p, lv) \<in> set (zip ks vs)" using a zip ks(2) by blast
    then show "\<exists>x\<in>set (zip ks vs). ?Q x" using a label_pod_key(2) [OF ns lk(1), of p] by (auto intro!: bexI)
  qed
  with one show ?thesis by simp
qed

lemma count_labels_count:
  assumes K: "ke_ds K = D" and ns: "path_seg ns" and ok: "labels_ok (view d) ns"
  shows "count_labels K d ns pods ls = Inr pods' \<Longrightarrow>
    (\<And>lk lv. (lk, lv) \<in> set ls \<Longrightarrow> label_key lk \<and> label_separate (view d) ns lk) \<Longrightarrow>
    pod_count pods' p = pod_count pods p +
      length (filter (\<lambda>(lk, lv). path_seg p \<and> view d (getNSLabelPodUpdateKey ns lk p) = Some lv) ls)"
proof (induction ls arbitrary: pods)
  case (Cons l ls)
  obtain lk lv where l: "l = (lk, lv)" by fastforce
  have sep: "label_key lk" "label_separate (view d) ns lk" using Cons.prems(2) [of lk lv] l by simp_all
  obtain ks vs where g: "kv_GetWithPrefix D d (getNSLabelPrefixKey ns lk) = Inr (ks, vs)"
    and r: "count_labels K d ns (count_label pods lv ks vs) ls = Inr pods'"
    using Cons.prems(1) K l by (auto simp: bind_res_def split: sum.splits)
  have "length ks = length vs" using get_prefix [OF g] unfolding lists_keys_def by (metis length_map)
  then have "pod_count (count_label pods lv ks vs) p = pod_count pods p +
      (if path_seg p \<and> view d (getNSLabelPodUpdateKey ns lk p) = Some lv then 1 else 0)"
    using label_matches [OF ns ok sep g] by (simp add: count_label_count)
  moreover have "pod_count pods' p = pod_count (count_label pods lv ks vs) p +
      length (filter (\<lambda>(lk, lv). path_seg p \<and> view d (getNSLabelPodUpdateKey ns lk p) = Some lv) ls)"
    using r by (rule Cons.IH) (use Cons.prems(2) in auto)
  ultimately show ?case using l by simp
qed simp

lemma fetch_pods_labels:
  assumes K: "ke_ds K = D" and rng: "range_order_ok (ke_range K)" and ns: "path_seg ns" and ok: "labels_ok (view d) ns"
    and ls: "gomap_ok labels" "labels \<noteq> []"
    and sep: "\<And>lk lv. (lk, lv) \<in> set labels \<Longrightarrow> label_key lk \<and> label_separate (view d) ns lk"
    and f: "FetchPodsWithLabels K d ns labels = Inr ps"
  shows "distinct ps"
    and "set ps = {p. path_seg p \<and> (\<forall>(lk, lv)\<in>set labels. view d (getNSLabelPodUpdateKey ns lk p) = Some lv)}"
proof -
  obtain pods where c: "count_labels K d ns [] (go_range (ke_range K) labels) = Inr pods"
    and ps: "ps = map fst (filter (\<lambda>(p, n). n = length labels) (go_range (ke_range K) pods))"
    using f by (auto simp: FetchPodsWithLabels_def bind_res_def split: sum.splits)
  have gok: "gomap_ok pods" using c by (rule count_labels_ok) simp
  have lset: "set (go_range (ke_range K) labels) = set labels" using rng ls(1) by (rule set_go_range)
  have llen: "length (go_range (ke_range K) labels) = length labels"
    using rng unfolding go_range_def range_order_ok_def length_map by (metis length_map size_mset)
  have cnt: "pod_count pods p = length (filter (\<lambda>(lk, lv). path_seg p \<and> view d (getNSLabelPodUpdateKey ns lk p) = Some lv)
      (go_range (ke_range K) labels))" for p
    using count_labels_count [OF K ns ok c, of p] sep lset by (simp add: pod_count_def)
  have "distinct (map fst (go_range (ke_range K) pods))" using gok range_order_distinct [OF rng] by simp
  then show "distinct ps" unfolding ps by (rule distinct_map_filter)
  have "p \<in> set ps \<longleftrightarrow> path_seg p \<and> (\<forall>(lk, lv)\<in>set labels. view d (getNSLabelPodUpdateKey ns lk p) = Some lv)" for p
  proof -
    have "p \<in> set ps \<longleftrightarrow> map_of pods p = Some (length labels)"
      unfolding ps using set_go_range [OF rng gok] gok by force
    also have "\<dots> \<longleftrightarrow> pod_count pods p = length labels"
      using ls(2) by (auto simp: pod_count_def split: option.splits)
    also have "\<dots> \<longleftrightarrow> (\<forall>(lk, lv)\<in>set labels. path_seg p \<and> view d (getNSLabelPodUpdateKey ns lk p) = Some lv)"
      unfolding cnt llen [symmetric] filter_all_length lset by (simp add: case_prod_beta)
    finally show ?thesis using ls(2) by (auto simp: neq_Nil_conv)
  qed
  then show "set ps = {p. path_seg p \<and> (\<forall>(lk, lv)\<in>set labels. view d (getNSLabelPodUpdateKey ns lk p) = Some lv)}"
    by blast
qed

lemma add_update_keeps:
  assumes K: "ke_ds K = D" and a: "AddResourceUpdateForTopic K now d v topic u = (d', None)" and t: "path_seg topic" and v: "version_ok v"
  obtains b where "Marshal (ke_update K) u = Inr b" "view d' (getTopicResourceUpdateKey topic v) = Some b"
    "\<And>topic'. path_seg topic' \<Longrightarrow> topic_ok (view d) topic' \<Longrightarrow> topic_ok (view d') topic'"
proof -
  obtain b where b: "Marshal (ke_update K) u = Inr b"
    and s: "kv_SetWithTTL D now d (getTopicResourceUpdateKey topic v) b resourceUpdateTTL = (d', None)"
    using a K unfolding AddResourceUpdateForTopic_def by (auto simp: seq_iffs)
  have r: "\<not> reserved_key (getTopicResourceUpdateKey topic v)" "\<not> reserved_key (topic_prefix topic' @ s)" for topic' s
    using t v by (simp_all add: topic_key_eq reserved_key_def topic_prefix_def)
  have view: "view d' k = ((view d)(getTopicResourceUpdateKey topic v \<mapsto> b)) k" if "\<not> reserved_key k" for k
    using s r(1) that by (rule set_ttl_ok)
  have "topic_ok (view d') topic'" if t': "path_seg topic'" and ok: "topic_ok (view d) topic'" for topic'
    unfolding topic_ok_def
  proof (intro allI impI)
    fix k c assume k: "view d' k = Some c" and p: "prefix (topic_prefix topic') k"
    show "\<exists>w. version_ok w \<and> k = getTopicResourceUpdateKey topic' w"
    proof (cases "k = getTopicResourceUpdateKey topic v")
      case True
      obtain zs where "topic @ CHR ''/'' # fmt_020d v = topic' @ CHR ''/'' # zs"
        using p True t v by (auto simp: topic_key_eq topic_prefix_def prefix_def)
      then have "topic' = topic" using seg_append_eq [OF t t'] by simp
      with True v show ?thesis by blast
    next
      case False
      have "\<not> reserved_key k" using p r(2) by (auto simp: prefix_def)
      with k False view have "view d k = Some c" by simp
      with ok p show ?thesis unfolding topic_ok_def by blast
    qed
  qed
  with that b view [OF r(1)] show ?thesis by simp
qed

lemma update_version_roundtrip:
  assumes "ke_ds K = D" and "SetUpdateVersion K d topic v = (d', None)" and "version_ok v"
    and "GetUpdateVersion K d' topic = Inr w"
  shows "w = v"
proof -
  have "view d' (getTopicVersionKey topic) = Some (int_dec v)"
    using assms(1,2) set_ok unfolding SetUpdateVersion_def by fastforce
  moreover have "int_dec v = nat_dec (nat v)" "nat_dec (nat v) \<noteq> []" using assms(3) by (simp_all add: int_dec_def version_ok_def)
  moreover obtain r where "kv_Get D d' (getTopicVersionKey topic) = Inr r"
    "(case r of None \<Rightarrow> Inr 0 | Some s \<Rightarrow> if s = [] then Inr 0 else parse_int64 s) = Inr w"
    using assms(1,4) by (auto simp: GetUpdateVersion_def bind_res_Inr_iff)
  moreover have "parse_int64 (nat_dec (nat v)) = Inr v"
    using parse_int64_nat_dec [of "nat v"] assms(3) by (simp add: version_ok_def nat_less_iff)
  ultimately show ?thesis using get by fastforce
qed

end

section \<open>Concrete runs\<close>

definition sample_k8s :: "((string, string) gomap pebble_ds, string, string) k8s_env" where
  "sample_k8s =
     \<lparr>ke_ds = pebble_kv ref_pebble, ke_update = table_codec [''a'', ''b'', ''c'', ''d''], ke_resource = table_codec [],
      ke_json = table_codec [[(''application'', True)], [(''app'', True), (''tier'', True)]], ke_range = id\<rparr>"

definition sample_updates :: "(string, string) gomap pebble_ds" where
  "sample_updates = pebble_New
     [(getTopicResourceUpdateKey ''n1'' 3, ''###''), (getTopicResourceUpdateKey unscopedTopic 2, ''##''),
      (getTopicResourceUpdateKey unscopedTopic 3, ''####''), (getTopicResourceUpdateKey ''n1'' 1, ''#'')]"

lemma topic_ok_table:
  "list_all (\<lambda>(k, b). \<not> prefix (topic_prefix topic) k \<or>
     list_ex (\<lambda>v. version_ok v \<and> k = getTopicResourceUpdateKey topic v) vs) xs \<Longrightarrow> topic_ok (map_of xs) topic"
  unfolding topic_ok_def list_all_iff list_ex_iff by (fastforce dest!: map_of_SomeD)

section \<open>Properties\<close>

text \<open>
  C6. A fetch of a topic returns, in the order of the versions, every update stored for the topic
  or for all nodes with a version in the range, one per version: the update of the topic where both
  have one. An update that cannot be decoded is left out, and so is version 0. The fetch succeeds
  whenever the two reads of the store do.
\<close>

theorem FetchResourceUpdates_merges:
  assumes "ordered_kv (ke_ds K) view" and "path_seg topic" and "version_ok lo" and "version_ok hi"
    and "topic_ok (view d) topic" and "topic_ok (view d) unscopedTopic"
    and "kv_GetWithRange (ke_ds K) d (getTopicResourceUpdateKey topic lo) (getTopicResourceUpdateKey topic hi) = Inr (tks, tvs)"
    and "kv_GetWithRange (ke_ds K) d (getTopicResourceUpdateKey unscopedTopic lo)
          (getTopicResourceUpdateKey unscopedTopic hi) = Inr (uks, uvs)"
  shows "\<exists>ns. sorted_wrt (<) ns \<and>
    set ns = {n. version_ok n \<and> n \<noteq> 0 \<and> lo \<le> n \<and> n < hi \<and>
      (getTopicResourceUpdateKey topic n \<in> dom (view d) \<or> getTopicResourceUpdateKey unscopedTopic n \<in> dom (view d))} \<and>
    FetchResourceUpdates K d topic lo hi = Inr (List.map_filter (update_at (ke_update K) (view d) topic) ns)"
  using assms(1) refl assms(2-) by (rule ordered_kv.fetch_merges)

theorem FetchResourceUpdates_merges_witness:
  "FetchResourceUpdates sample_k8s sample_updates ''n1'' 0 5 = Inr [''a'', ''b'', ''c''] \<and>
   (\<exists>ns. sorted_wrt (<) ns \<and>
    FetchResourceUpdates sample_k8s sample_updates ''n1'' 0 5 =
      Inr (List.map_filter (update_at (ke_update sample_k8s) (pebble_view map_of sample_updates) ''n1'') ns))"
proof -
  have o: "ordered_kv (ke_ds sample_k8s) (pebble_view map_of)" using ref_kv.ordered_kv_axioms by (simp add: sample_k8s_def)
  have v: "pebble_view map_of sample_updates = map_of (the (ds_db sample_updates))" by (simp add: sample_updates_def pebble_view_def pebble_New_def)
  have ok: "topic_ok (pebble_view map_of sample_updates) ''n1''" "topic_ok (pebble_view map_of sample_updates) unscopedTopic"
    unfolding v by (rule topic_ok_table [of _ "[1, 3]"], code_simp, rule topic_ok_table [of _ "[2, 3]"], code_simp)
  have run: "case kv_GetWithRange (ke_ds sample_k8s) sample_updates (getTopicResourceUpdateKey ''n1'' 0)
        (getTopicResourceUpdateKey ''n1'' 5) of Inl _ \<Rightarrow> False | Inr _ \<Rightarrow> True"
      "case kv_GetWithRange (ke_ds sample_k8s) sample_updates (getTopicResourceUpdateKey unscopedTopic 0)
        (getTopicResourceUpdateKey unscopedTopic 5) of Inl _ \<Rightarrow> False | Inr _ \<Rightarrow> True"
    by code_simp+
  obtain tks tvs uks uvs where
    g: "kv_GetWithRange (ke_ds sample_k8s) sample_updates (getTopicResourceUpdateKey ''n1'' 0) (getTopicResourceUpdateKey ''n1'' 5) =
        Inr (tks, tvs)"
      "kv_GetWithRange (ke_ds sample_k8s) sample_updates (getTopicResourceUpdateKey unscopedTopic 0)
        (getTopicResourceUpdateKey unscopedTopic 5) = Inr (uks, uvs)"
    using ex_InrI [of "kv_GetWithRange (ke_ds sample_k8s) sample_updates (getTopicResourceUpdateKey ''n1'' 0) (getTopicResourceUpdateKey ''n1'' 5)", OF run(1)]
      ex_InrI [of "kv_GetWithRange (ke_ds sample_k8s) sample_updates (getTopicResourceUpdateKey unscopedTopic 0)
        (getTopicResourceUpdateKey unscopedTopic 5)", OF run(2)] by auto
  have p: "path_seg ''n1''" "version_ok 0" "version_ok 5" by (simp_all add: path_seg_def version_ok_def)
  have "FetchResourceUpdates sample_k8s sample_updates ''n1'' 0 5 = Inr [''a'', ''b'', ''c'']" by code_simp
  with FetchResourceUpdates_merges [OF o p ok g] show ?thesis by blast
qed




text \<open>
  The prefix of a label key has no separator at its end, so that a pod whose only label is
  \<open>application\<close> is returned for the label \<open>app\<close>.
\<close>

theorem label_prefix_overmatches:
  "let d = pebble_New [(getNSLabelPodUpdateKey ''ns'' ''application'' ''p1'', ''web'')]
   in FetchPodsWithLabels sample_k8s d ''ns'' [(''app'', ''web'')] = Inr [''p1''] \<and>
      FetchPodsWithLabelKey sample_k8s d ''ns'' ''app'' = Inr [''p1''] \<and>
      kv_Get (ke_ds sample_k8s) d (getNSLabelPodUpdateKey ''ns'' ''app'' ''p1'') = Inr None"
  by code_simp

end
