(* ===== verification/MetadataServer.thy ===== *)
theory MetadataServer
  imports TracepointCorrect K8sStoreCorrect
begin

text \<open>
  \<open>src/vizier/services/metadata/controllers/server.go\<close>: the handlers of the metadata service. They
  call the agent manager (theory \<open>AgentManager\<close>), the tracepoint manager (theory \<open>Tracepoint\<close>) and the
  pod label store (theory \<open>K8sStore\<close>), which share one datastore. \<open>GetAgentUpdates\<close> is a loop that
  runs as long as its client: \<open>start_updates\<close> is the part before the loop, \<open>updates_iteration\<close> one round
  of it, and \<open>chunk_loop\<close> the inner loop that cuts a batch of updates into responses.

  What the client does is a parameter: for the \<open>n\<close>-th response of a round, whether it is sent, the
  send fails, or the client has gone. \<open>DurationFromProto\<close>, the registry of message types and the
  JSON form of a message are parameters. Readings of the clock and fresh identifiers are arguments.
\<close>

section \<open>Data\<close>

record relation_column =
  ColumnName :: string
  ColumnType :: int
  ColumnDesc :: string
  PatternType :: int
  ColumnSemanticType :: int

record relation =
  rel_Columns :: "relation_column list"
  rel_Desc :: string

record schema_info =
  si_Name :: string
  si_Relation :: relation
  AgentList :: "uuidpb list"

datatype agent_state = AGENT_STATE_HEALTHY | AGENT_STATE_UNRESPONSIVE

record agent_metadata =
  am_Agent :: agent
  NSSinceLastHeartbeat :: int
  am_State :: agent_state

record updates_request =
  MaxUpdatesPerResponse :: int
  MaxUpdateInterval :: "proto_duration option"

record updates_response =
  AgentUpdates :: "agent_update list"
  AgentSchemas :: "schema_info list"
  AgentSchemasUpdated :: bool
  EndOfVersion :: bool

datatype send_outcome = SendOk | SendErr err | ClientGone

record register_request =
  reg_TTL :: "proto_duration option"
  reg_Deployment :: "tracepoint_deployment option"
  reg_Name :: string

record register_status =
  rs_ID :: uuidpb
  rs_ErrCode :: nat
  rs_Name :: string

record tracepoint_state =
  ts_ID :: "uuidpb option"
  ts_State :: life_cycle_state
  ts_Statuses :: "status option list"
  ts_Name :: string
  ts_ExpectedState :: life_cycle_state
  ts_SchemaNames :: "string list"

definition status_OK :: nat where
  "status_OK = 0"

definition status_NOT_FOUND :: nat where
  "status_NOT_FOUND = 5"

definition status_ALREADY_EXISTS :: nat where
  "status_ALREADY_EXISTS = 6"

definition status_FAILED_PRECONDITION :: nat where
  "status_FAILED_PRECONDITION = 13"

record 'd server =
  srv_mgr :: "'d manager"
  getAgentsCursor :: uuid

record ('d, 'u, 'r) server_env =
  se_tp :: "'d tracepoint_env"
  se_pls :: "('d, 'u, 'r) k8s_env"
  se_DurationFromProto :: "proto_duration option \<Rightarrow> int res"
  se_MessageType :: "string \<Rightarrow> (string \<Rightarrow> string res) option"
  se_json :: "string \<Rightarrow> string res"

abbreviation se_mgr :: "('d, 'u, 'r) server_env \<Rightarrow> 'd manager_env" where
  "se_mgr S \<equiv> te_mgr (se_tp S)"

section \<open>Schemas and agents\<close>

definition relation_columns :: "table_info \<Rightarrow> relation_column list" where
  "relation_columns schema =
     map (\<lambda>column. \<lparr>ColumnName = column_Name column, ColumnType = column_DataType column,
       ColumnDesc = column_Desc column, PatternType = column_PatternType column,
       ColumnSemanticType = column_SemanticType column\<rparr>) (Columns schema)"

definition convertToRelationMap :: "computed_schema \<Rightarrow> (string, relation) gomap" where
  "convertToRelationMap computedSchema =
     foldl (\<lambda>m schema. AList.update (table_Name schema)
       \<lparr>rel_Columns = relation_columns schema, rel_Desc = table_Desc schema\<rparr> m) [] (Tables computedSchema)"

definition convertToSchemaInfo :: "computed_schema \<Rightarrow> schema_info list res" where
  "convertToSchemaInfo computedSchema =
     map_res (\<lambda>schema.
       case map_of (TableNameToAgentIDs computedSchema) (table_Name schema) of
         None \<Rightarrow> Inl (ErrMsg ''Cannot find agentIDs for schema'')
       | Some agentIDs \<Rightarrow> Inr \<lparr>si_Name = table_Name schema,
           si_Relation = \<lparr>rel_Columns = relation_columns schema, rel_Desc = []\<rparr>, AgentList = agentIDs\<rparr>)
       (Tables computedSchema)"

definition GetSchemas :: "('d, 'u, 'r) server_env \<Rightarrow> 'd server \<Rightarrow> (string, relation) gomap res" where
  "GetSchemas S s =
     bind_res (mgr_GetComputedSchema (se_mgr S) (srv_mgr s)) (\<lambda>computedSchema.
       Inr (convertToRelationMap computedSchema))"

definition UnhealthyAgentThreshold :: int where
  "UnhealthyAgentThreshold = 30000000000"

definition GetAgentInfo :: "('d, 'u, 'r) server_env \<Rightarrow> int \<Rightarrow> 'd server \<Rightarrow> agent_metadata list res" where
  "GetAgentInfo S currentTime s =
     bind_res (GetActiveAgents (se_mgr S) (srv_mgr s)) (\<lambda>agents.
       Inr (map (\<lambda>agt.
         let timeSinceLastHb = duration_sub currentTime (LastHeartbeatNS agt)
         in \<lparr>am_Agent = agt, NSSinceLastHeartbeat = timeSinceLastHb,
             am_State = (if timeSinceLastHb > UnhealthyAgentThreshold then AGENT_STATE_UNRESPONSIVE
               else AGENT_STATE_HEALTHY)\<rparr>) agents))"

section \<open>The stream of agent updates\<close>

text \<open>
  One pass of the innermost loop, over the indices from \<open>lo\<close> up to \<open>hi\<close>: it collects the updates
  at these indices and notices when an index is past the end.
\<close>

definition chunk_items :: "agent_update list \<Rightarrow> int \<Rightarrow> int \<Rightarrow> bool \<Rightarrow> (agent_update list \<times> bool) res" where
  "chunk_items updates lo hi finished =
     foldl (\<lambda>r idx. bind_res r (\<lambda>(items, finished).
       if idx < int (length updates)
       then (if idx < 0 then Inl index_panic else Inr (items @ [updates ! nat idx], finished))
       else Inr (items, True))) (Inr ([], finished)) [lo..hi - 1]"

record chunk_state =
  currentIdx :: int
  finishedUpdates :: bool
  finishedSchema :: bool
  sent :: "updates_response list"

text \<open>A round goes on to its next iteration, is over, or makes the handler return.\<close>

datatype 's round = Going 's | Over 's | Returned 's "err option"

definition send :: "(nat \<Rightarrow> send_outcome) \<Rightarrow> chunk_state \<Rightarrow> updates_response \<Rightarrow> chunk_state round" where
  "send client c response =
     (case client (length (sent c)) of
        SendErr e \<Rightarrow> Returned c (Some e)
      | _ \<Rightarrow> Going (c\<lparr>sent := sent c @ [response]\<rparr>))"

definition chunk_step :: "(nat \<Rightarrow> send_outcome) \<Rightarrow> int \<Rightarrow> agent_update list \<Rightarrow> computed_schema option \<Rightarrow>
    chunk_state \<Rightarrow> chunk_state round" where
  "chunk_step client agentChunkSize updates newComputedSchema c =
     (if client (length (sent c)) = ClientGone then Returned c None
      else case chunk_items updates (currentIdx c) (wrap64 (currentIdx c + agentChunkSize)) (finishedUpdates c) of
        Inl e \<Rightarrow> Returned c (Some e)
      | Inr (items, finished) \<Rightarrow>
          let next = wrap64 (currentIdx c + agentChunkSize);
              c' = c\<lparr>currentIdx := next, finishedUpdates := finished\<rparr>
          in if finished \<and> \<not> finishedSchema c
             then (case newComputedSchema of
                     None \<Rightarrow> Returned c (Some nil_deref)
                   | Some computedSchema \<Rightarrow>
                       (case convertToSchemaInfo computedSchema of
                          Inl e \<Rightarrow> Returned c (Some e)
                        | Inr schemas \<Rightarrow>
                            send client (c'\<lparr>finishedSchema := True\<rparr>)
                              \<lparr>AgentUpdates = items, AgentSchemas = schemas, AgentSchemasUpdated = True,
                               EndOfVersion = True\<rparr>))
             else send client c'
               \<lparr>AgentUpdates = items, AgentSchemas = [], AgentSchemasUpdated = False,
                EndOfVersion = (finishedSchema c \<and> finished)\<rparr>)"

text \<open>The loop, with a bound on its iterations; \<open>None\<close> is a loop that is still going.\<close>

fun chunk_loop :: "nat \<Rightarrow> (nat \<Rightarrow> send_outcome) \<Rightarrow> int \<Rightarrow> agent_update list \<Rightarrow> computed_schema option \<Rightarrow>
    chunk_state \<Rightarrow> chunk_state round option" where
  "chunk_loop fuel client agentChunkSize updates newComputedSchema c =
     (if finishedUpdates c \<and> finishedSchema c then Some (Over c)
      else (case fuel of
              0 \<Rightarrow> None
            | Suc fuel' \<Rightarrow>
                (case chunk_step client agentChunkSize updates newComputedSchema c of
                   Going c' \<Rightarrow> chunk_loop fuel' client agentChunkSize updates newComputedSchema c'
                 | r \<Rightarrow> Some r)))"

declare chunk_loop.simps [simp del]

definition send_batch :: "nat \<Rightarrow> (nat \<Rightarrow> send_outcome) \<Rightarrow> int \<Rightarrow> agent_update list \<Rightarrow> computed_schema option \<Rightarrow>
    chunk_state round option" where
  "send_batch fuel client agentChunkSize updates newComputedSchema =
     (let c = \<lparr>currentIdx = 0, finishedUpdates = (updates = []), finishedSchema = (newComputedSchema = None), sent = []\<rparr>
      in if finishedSchema c \<and> finishedUpdates c
         then (if client 0 = ClientGone then Some (Returned c None)
               else (case send client c \<lparr>AgentUpdates = [], AgentSchemas = [], AgentSchemasUpdated = False, EndOfVersion = False\<rparr> of
                       Going c' \<Rightarrow> Some (Over c')
                     | r \<Rightarrow> Some r))
         else chunk_loop fuel client agentChunkSize updates newComputedSchema c)"

text \<open>One round of the handler: \<open>Over\<close> means that it sleeps for the period and starts again.\<close>

definition updates_iteration :: "('d, 'u, 'r) server_env \<Rightarrow> nat \<Rightarrow> (nat \<Rightarrow> send_outcome) \<Rightarrow> int \<Rightarrow> uuid \<Rightarrow>
    'd server \<Rightarrow> ('d server \<times> updates_response list) round option" where
  "updates_iteration S fuel client agentChunkSize cursor s =
     (if cursor \<noteq> getAgentsCursor s then Some (Returned (s, []) None)
      else (case GetAgentUpdates (se_mgr S) (srv_mgr s) cursor of
        (m', Inl e) \<Rightarrow>
          if e = ErrNoComputedSchemas then Some (Over (s\<lparr>srv_mgr := m'\<rparr>, []))
          else Some (Returned (s\<lparr>srv_mgr := m'\<rparr>, []) (Some e))
      | (m', Inr (updates, newComputedSchema)) \<Rightarrow>
          map_option (\<lambda>r. case r of
              Going c \<Rightarrow> Going (s\<lparr>srv_mgr := m'\<rparr>, sent c)
            | Over c \<Rightarrow> Over (s\<lparr>srv_mgr := m'\<rparr>, sent c)
            | Returned c e \<Rightarrow> Returned (s\<lparr>srv_mgr := m'\<rparr>, sent c) e)
            (send_batch fuel client agentChunkSize updates newComputedSchema)))"

definition start_updates :: "('d, 'u, 'r) server_env \<Rightarrow> updates_request \<Rightarrow> uuid \<Rightarrow> 'd server \<Rightarrow> 'd server \<times> (int \<times> int) res" where
  "start_updates S req cursor s =
     (if MaxUpdatesPerResponse req = 0
      then (s, Inl (GrpcErr 3 ''Max updates per agent should be specified in AgentUpdatesRequest''))
      else if MaxUpdateInterval req = None
      then (s, Inl (GrpcErr 3 ''Max update interval should be specified in AgentUpdatesRequest''))
      else (case se_DurationFromProto S (MaxUpdateInterval req) of
        Inl e \<Rightarrow> (s, Inl (GrpcErr 13 ''Failed to parse duration''))
      | Inr agentUpdatePeriod \<Rightarrow>
          (s\<lparr>srv_mgr := NewAgentUpdateCursor (srv_mgr s) cursor, getAgentsCursor := cursor\<rparr>,
           Inr (MaxUpdatesPerResponse req, agentUpdatePeriod))))"

definition end_updates :: "uuid \<Rightarrow> 'd server \<Rightarrow> 'd server" where
  "end_updates cursor s = s\<lparr>srv_mgr := DeleteAgentUpdateCursor (srv_mgr s) cursor\<rparr>"

section \<open>Debugging access\<close>

definition GetWithPrefixKey :: "('d, 'u, 'r) server_env \<Rightarrow> 'd server \<Rightarrow> string \<Rightarrow> string \<Rightarrow> (string \<times> string) list res" where
  "GetWithPrefixKey S s p mName =
     (if p = [] then Inl (ErrMsg ''Empty prefixes are not supported'')
      else let msg = (if mName \<noteq> [] then se_MessageType S mName else None)
           in bind_res (pls_GetWithPrefix (se_pls S) (agtStore (srv_mgr s)) p) (\<lambda>(ks, vs).
                Inr (map (\<lambda>(k, v).
                  (k, case msg of
                        None \<Rightarrow> v
                      | Some unmarshal \<Rightarrow>
                          (case bind_res (unmarshal v) (se_json S) of Inl _ \<Rightarrow> v | Inr js \<Rightarrow> js))) (zip ks vs))))"

section \<open>Tracepoints\<close>

definition ConvertLabelsToPods :: "('d, 'u, 'r) server_env \<Rightarrow> 'd server \<Rightarrow> tracepoint_deployment option \<Rightarrow>
    tracepoint_deployment option res" where
  "ConvertLabelsToPods S s tp =
     (case tp of
        None \<Rightarrow> Inr tp
      | Some dep \<Rightarrow>
          (case DeploymentSpec dep of
             Some (LabelSelector ls) \<Rightarrow>
               (case ls_Labels ls of
                  None \<Rightarrow> Inr tp
                | Some ml \<Rightarrow>
                    bind_res (FetchPodsWithLabels (se_pls S) (agtStore (srv_mgr s)) (ls_Namespace ls) ml) (\<lambda>pods.
                      if pods = [] then Inr tp
                      else Inr (Some (dep\<lparr>DeploymentSpec := Some (PodProcess
                        \<lparr>pp_Pods = map (\<lambda>pod. ls_Namespace ls @ ''/'' @ pod) pods, pp_Container = ls_Container ls,
                         pp_Process = ls_Process ls\<rparr>)\<rparr>))))
           | _ \<Rightarrow> Inr tp))"

text \<open>
  One request of \<open>RegisterTracepoint\<close>: the new state and the status of the tracepoint, or the error
  with which the handler returns. \<open>now\<close> and \<open>now_ds\<close> are the readings of the clock and \<open>tpID\<close> the fresh
  identifier of \<open>CreateTracepoint\<close>.
\<close>

definition register_one :: "('d, 'u, 'r) server_env \<Rightarrow> int \<Rightarrow> int \<Rightarrow> uuid \<Rightarrow> 'd server \<Rightarrow> register_request \<Rightarrow>
    'd server \<times> register_status res" where
  "register_one S now now_ds tpID s tp =
     (case se_DurationFromProto S (reg_TTL tp) of
        Inl e \<Rightarrow> (s, Inl e)
      | Inr ttl \<Rightarrow>
          (case ConvertLabelsToPods S s (reg_Deployment tp) of
             Inl e \<Rightarrow> (s, Inl e)
           | Inr deployment \<Rightarrow>
               (case CreateTracepoint (se_tp S) now now_ds tpID (srv_mgr s) (reg_Name tp) deployment ttl of
                  (m', tracepointID, err) \<Rightarrow>
                    let s' = s\<lparr>srv_mgr := m'\<rparr> in
                    if err \<noteq> None \<and> err \<noteq> Some ErrTracepointAlreadyExists then (s', Inl (the err))
                    else (case tracepointID of
                      None \<Rightarrow> (s', Inl nil_deref)
                    | Some i \<Rightarrow>
                        if err = Some ErrTracepointAlreadyExists
                        then (s', Inr \<lparr>rs_ID = ProtoFromUUID i, rs_ErrCode = status_ALREADY_EXISTS, rs_Name = reg_Name tp\<rparr>)
                        else (case GetActiveAgents (se_mgr S) m' of
                          Inl e \<Rightarrow> (s', Inl e)
                        | Inr agents \<Rightarrow>
                            (case RegisterTracepoint (se_tp S) m' agents i deployment of
                               (m'', Some e) \<Rightarrow> (s\<lparr>srv_mgr := m''\<rparr>, Inl e)
                             | (m'', None) \<Rightarrow> (s\<lparr>srv_mgr := m''\<rparr>,
                                 Inr \<lparr>rs_ID = ProtoFromUUID i, rs_ErrCode = status_OK, rs_Name = reg_Name tp\<rparr>)))))))"

text \<open>\<open>fresh n\<close> is what \<open>CreateTracepoint\<close> reads from the clock and draws for the \<open>n\<close>-th request.\<close>

fun srv_RegisterTracepoint :: "('d, 'u, 'r) server_env \<Rightarrow> (nat \<Rightarrow> int \<times> int \<times> uuid) \<Rightarrow> nat \<Rightarrow> 'd server \<Rightarrow>
    register_request list \<Rightarrow> 'd server \<times> register_status list res" where
  "srv_RegisterTracepoint S fresh n s [] = (s, Inr [])"
| "srv_RegisterTracepoint S fresh n s (tp # tps) =
     (case fresh n of (now, now_ds, tpID) \<Rightarrow>
       (case register_one S now now_ds tpID s tp of
          (s', Inl e) \<Rightarrow> (s', Inl e)
        | (s', Inr r) \<Rightarrow>
            (case srv_RegisterTracepoint S fresh (Suc n) s' tps of
               (s'', Inl e) \<Rightarrow> (s'', Inl e)
             | (s'', Inr rs) \<Rightarrow> (s'', Inr (r # rs)))))"

text \<open>The counters of the loop over the states of the agents, and the statuses it collects.\<close>

record state_counts =
  numFailed :: nat
  numTerminated :: nat
  numPending :: nat
  numRunning :: nat
  cnt_statuses :: "status option list"

definition count_state :: "state_counts \<Rightarrow> agent_tracepoint_status option \<Rightarrow> state_counts res" where
  "count_state c s =
     (case s of
        None \<Rightarrow> Inl nil_deref
      | Some st \<Rightarrow>
          (case ats_State st of
             TERMINATED_STATE \<Rightarrow> Inr (c\<lparr>numTerminated := Suc (numTerminated c)\<rparr>)
           | FAILED_STATE \<Rightarrow>
               (case ats_Status st of
                  None \<Rightarrow> Inl nil_deref
                | Some status \<Rightarrow>
                    let c' = c\<lparr>numFailed := Suc (numFailed c)\<rparr> in
                    Inr (if ErrCode status \<noteq> status_FAILED_PRECONDITION \<and> ErrCode status \<noteq> status_OK
                      then c'\<lparr>cnt_statuses := cnt_statuses c @ [Some status]\<rparr> else c'))
           | PENDING_STATE \<Rightarrow> Inr (c\<lparr>numPending := Suc (numPending c)\<rparr>)
           | RUNNING_STATE \<Rightarrow> Inr (c\<lparr>numRunning := Suc (numRunning c)\<rparr>)
           | UNKNOWN_STATE \<Rightarrow> Inr c))"

fun count_states :: "state_counts \<Rightarrow> agent_tracepoint_status option list \<Rightarrow> state_counts res" where
  "count_states c [] = Inr c"
| "count_states c (s # ss) = bind_res (count_state c s) (\<lambda>c'. count_states c' ss)"

definition getTracepointStateFromAgentTracepointStates ::
  "agent_tracepoint_status option list \<Rightarrow> (life_cycle_state \<times> status option list) res" where
  "getTracepointStateFromAgentTracepointStates agentStates =
     (if agentStates = [] then Inr (PENDING_STATE, [])
      else bind_res (count_states \<lparr>numFailed = 0, numTerminated = 0, numPending = 0, numRunning = 0, cnt_statuses = []\<rparr> agentStates) (\<lambda>c.
        Inr (if numTerminated c > 0 then (TERMINATED_STATE, [])
             else if numRunning c > 0 then (RUNNING_STATE, [])
             else if numPending c > 0 then (PENDING_STATE, [])
             else if numFailed c > 0
             then (if cnt_statuses c = [] then (FAILED_STATE, [Option.bind (hd agentStates) ats_Status])
                   else (FAILED_STATE, cnt_statuses c))
             else (UNKNOWN_STATE, []))))"

definition schema_names :: "tracepoint_info \<Rightarrow> string list res" where
  "schema_names tp =
     (case tp_Tracepoint tp of
        None \<Rightarrow> Inl nil_deref
      | Some dep \<Rightarrow> map_res (\<lambda>t. case t of None \<Rightarrow> Inl nil_deref | Some p \<Rightarrow> Inr (TableName p)) (Programs dep))"

text \<open>One entry of the response: \<open>reqID\<close> is the entry of \<open>req.IDs\<close> at the same index, if there is one.\<close>

definition tracepoint_entry :: "('d, 'u, 'r) server_env \<Rightarrow> 'd server \<Rightarrow> uuidpb option list \<Rightarrow> nat \<times> tracepoint_info option \<Rightarrow>
    tracepoint_state res" where
  "tracepoint_entry S s reqIDs = (\<lambda>(i, tpo).
     case tpo of
       None \<Rightarrow>
         if i < length reqIDs
         then Inr \<lparr>ts_ID = reqIDs ! i, ts_State = UNKNOWN_STATE,
           ts_Statuses = [Some \<lparr>ErrCode = status_NOT_FOUND, status_rest = []\<rparr>], ts_Name = [],
           ts_ExpectedState = UNKNOWN_STATE, ts_SchemaNames = []\<rparr>
         else Inl index_panic
     | Some tp \<Rightarrow>
         bind_res (tpm_GetTracepointStates (se_tp S) (srv_mgr s) (UUIDFromProtoOrNil (tp_ID tp))) (\<lambda>tracepointStates.
         bind_res (getTracepointStateFromAgentTracepointStates tracepointStates) (\<lambda>(state, statuses).
         bind_res (schema_names tp) (\<lambda>schemas.
           Inr \<lparr>ts_ID = tp_ID tp, ts_State = state, ts_Statuses = statuses, ts_Name = tp_Name tp,
             ts_ExpectedState = ExpectedState tp, ts_SchemaNames = schemas\<rparr>))))"

definition srv_GetTracepointInfo :: "('d, 'u, 'r) server_env \<Rightarrow> 'd server \<Rightarrow> uuidpb option list \<Rightarrow> tracepoint_state list res" where
  "srv_GetTracepointInfo S s reqIDs =
     bind_res (if reqIDs \<noteq> [] then tpm_GetTracepointsForIDs (se_tp S) (srv_mgr s) (map UUIDFromProtoOrNil reqIDs)
       else GetAllTracepoints (se_tp S) (srv_mgr s)) (\<lambda>tracepointInfos.
       map_res (tracepoint_entry S s reqIDs) (enumerate 0 tracepointInfos))"

definition RemoveTracepoint :: "('d, 'u, 'r) server_env \<Rightarrow> 'd server \<Rightarrow> string list \<Rightarrow> 'd server \<times> err option" where
  "RemoveTracepoint S s names =
     (case RemoveTracepoints (se_tp S) (srv_mgr s) names of (m', e) \<Rightarrow> (s\<lparr>srv_mgr := m'\<rparr>, e))"

section \<open>Configuration\<close>

definition srv_UpdateConfig :: "('d, 'u, 'r) server_env \<Rightarrow> 'd server \<Rightarrow> string \<Rightarrow> string \<Rightarrow> string \<Rightarrow> 'd server \<times> err option" where
  "srv_UpdateConfig S s agentPodName key value =
     (let splitName = split_on CHR ''/'' agentPodName in
      if length splitName \<noteq> 2 then (s, Some (ErrMsg ''Incorrectly formatted pod name''))
      else (case UpdateConfig (se_mgr S) (srv_mgr s) (splitName ! 0) (splitName ! 1) key value of
        (m', e) \<Rightarrow> (s\<lparr>srv_mgr := m'\<rparr>, e)))"

end
