(* ===== verification/AgentTracker.thy ===== *)
theory AgentTracker
  imports MetadataServer
begin

text \<open>
  \<open>src/vizier/services/query_broker/tracker/agents_info.go\<close> and \<open>agents.go\<close>: the query broker follows
  the agents of the metadata service. It applies the responses of the stream to a pending
  distributed state, and publishes that state to the planner at the end of a version.

  The distributed state is a list of pointers to \<open>CarnotInfo\<close>, which the pending and the published
  state share. The objects are in an explicit heap: a pointer is an index into \<open>ai_heap\<close>. The
  goroutines and channels of \<open>agents.go\<close> are left out: \<open>run_stream\<close> is what its loop does with the
  messages of one stream.
\<close>

section \<open>State\<close>

record carnot_info =
  QueryBrokerAddress :: string
  ci_AgentID :: "uuidpb option"
  ci_ASID :: "32 word"
  HasGRPCServer :: bool
  GRPCAddress :: string
  HasDataStore :: bool
  ProcessesData :: bool
  AcceptsRemoteSources :: bool
  ci_MetadataInfo :: "string option"
  SSLTargetName :: string

record distributed_state =
  SchemaInfo :: "schema_info list"
  CarnotInfo :: "nat list"

record agents_info =
  ai_heap :: "carnot_info list"
  ai_ds :: distributed_state
  pendingDs :: "distributed_state option"

record tracker_env =
  tk_uuid :: uuid_ops
  tk_namespace :: string
  tk_range :: "uuid list \<Rightarrow> uuid list"

definition NewAgentsInfo :: agents_info where
  "NewAgentsInfo =
     \<lparr>ai_heap = [], ai_ds = \<lparr>SchemaInfo = [], CarnotInfo = []\<rparr>,
      pendingDs = Some \<lparr>SchemaInfo = [], CarnotInfo = []\<rparr>\<rparr>"

definition ClearPendingState :: "agents_info \<Rightarrow> agents_info" where
  "ClearPendingState a = a\<lparr>pendingDs := Some \<lparr>SchemaInfo = [], CarnotInfo = []\<rparr>\<rparr>"

section \<open>Applying a response\<close>

definition KelvinSSLTargetOverride :: "string \<Rightarrow> string" where
  "KelvinSSLTargetOverride namespace = ''kelvin.'' @ namespace @ ''.svc''"

definition makeAgentCarnotInfo :: "tracker_env \<Rightarrow> uuid \<Rightarrow> 32 word \<Rightarrow> string option \<Rightarrow> carnot_info" where
  "makeAgentCarnotInfo T agentID asid agentMetadata =
     \<lparr>QueryBrokerAddress = uuid_String (tk_uuid T) agentID, ci_AgentID = Some (ProtoFromUUID agentID),
      ci_ASID = asid, HasGRPCServer = False, GRPCAddress = [], HasDataStore = True, ProcessesData = True,
      AcceptsRemoteSources = False, ci_MetadataInfo = agentMetadata, SSLTargetName = []\<rparr>"

definition makeKelvinCarnotInfo :: "tracker_env \<Rightarrow> uuid \<Rightarrow> string \<Rightarrow> 32 word \<Rightarrow> carnot_info" where
  "makeKelvinCarnotInfo T agentID grpcAddress asid =
     \<lparr>QueryBrokerAddress = uuid_String (tk_uuid T) agentID, ci_AgentID = Some (ProtoFromUUID agentID),
      ci_ASID = asid, HasGRPCServer = True, GRPCAddress = grpcAddress, HasDataStore = False, ProcessesData = True,
      AcceptsRemoteSources = True, ci_MetadataInfo = None, SSLTargetName = KelvinSSLTargetOverride (tk_namespace T)\<rparr>"

text \<open>The map from identifiers to pointers, built from the pending state.\<close>

fun carnot_map :: "carnot_info list \<Rightarrow> (uuid, nat) gomap \<Rightarrow> nat list \<Rightarrow> (uuid, nat) gomap res" where
  "carnot_map h m [] = Inr m"
| "carnot_map h m (p # ps) =
     bind_res (UUIDFromProto (ci_AgentID (h ! p))) (\<lambda>agentUUID. carnot_map h (AList.update agentUUID p m) ps)"

text \<open>One update of an agent. An entry of the map is never a nil pointer.\<close>

definition carnot_step :: "tracker_env \<Rightarrow> carnot_info list \<times> (uuid, nat) gomap \<Rightarrow> agent_update \<Rightarrow>
    (carnot_info list \<times> (uuid, nat) gomap) \<times> err option" where
  "carnot_step T = (\<lambda>(h, m) u.
     with_res (UUIDFromProto (upd_AgentID u)) (h, m) (\<lambda>agentUUID.
       case upd_Update u of
         AAgent agent \<Rightarrow>
           (case Info agent of
              None \<Rightarrow> ((h, m), Some nil_deref)
            | Some info \<Rightarrow>
                let metadataInfo = (case map_of m agentUUID of None \<Rightarrow> None | Some p \<Rightarrow> ci_MetadataInfo (h ! p));
                    c = (if Capabilities info = None \<or> Capabilities info = Some True
                         then makeAgentCarnotInfo T agentUUID (ASID agent) metadataInfo
                         else makeKelvinCarnotInfo T agentUUID (IPAddress info) (ASID agent))
                in ((h @ [c], AList.update agentUUID (length h) m), None))
       | ADataInfo dataInfo \<Rightarrow>
           (case map_of m agentUUID of
              None \<Rightarrow> ((h, m), None)
            | Some p \<Rightarrow>
                (case MetadataInfo dataInfo of
                   None \<Rightarrow> ((h, m), None)
                 | Some i \<Rightarrow> ((h[p := (h ! p)\<lparr>ci_MetadataInfo := Some i\<rparr>], m), None)))
       | ADeleted \<Rightarrow> ((h, AList.delete agentUUID m), None)))"

definition UpdateAgentsInfo :: "tracker_env \<Rightarrow> agents_info \<Rightarrow> updates_response \<Rightarrow> agents_info \<times> err option" where
  "UpdateAgentsInfo T a update =
     (case pendingDs a of
        None \<Rightarrow> (a, Some nil_deref)
      | Some pending \<Rightarrow>
          let pending1 = (if AgentSchemasUpdated update then pending\<lparr>SchemaInfo := AgentSchemas update\<rparr> else pending);
              a1 = a\<lparr>pendingDs := Some pending1\<rparr>
          in with_res (carnot_map (ai_heap a) [] (CarnotInfo pending1)) a1 (\<lambda>carnotInfoMap.
               (case for_each (carnot_step T) (ai_heap a, carnotInfoMap) (AgentUpdates update) of
                  ((h, m), Some e) \<Rightarrow> (a1\<lparr>ai_heap := h\<rparr>, Some e)
                | ((h, m), None) \<Rightarrow>
                    let pending2 = pending1\<lparr>CarnotInfo := map snd (go_range (tk_range T) m)\<rparr>
                    in (a1\<lparr>ai_heap := h, pendingDs := Some pending2,
                          ai_ds := (if EndOfVersion update then pending2 else ai_ds a)\<rparr>, None))))"

text \<open>
  A caller of \<open>DistributedState\<close> gets the list of pointers; what it reads through them is
  \<open>deref\<close> in the heap of the time it looks.
\<close>

definition DistributedState :: "agents_info \<Rightarrow> distributed_state" where
  "DistributedState a = ai_ds a"

definition deref :: "agents_info \<Rightarrow> distributed_state \<Rightarrow> carnot_info list" where
  "deref a d = map (\<lambda>p. ai_heap a ! p) (CarnotInfo d)"

section \<open>The messages of a stream\<close>

definition updateState :: "tracker_env \<Rightarrow> agents_info \<Rightarrow> updates_response option \<Rightarrow> bool \<Rightarrow> agents_info \<times> err option" where
  "updateState T a update clearCurrentState =
     (let a1 = (if clearCurrentState then ClearPendingState a else a) in
      case update of
        None \<Rightarrow> (a1, Some nil_deref)
      | Some u \<Rightarrow> UpdateAgentsInfo T a1 u)"

text \<open>
  What \<open>runLoop\<close> does with the messages of one stream until the tracker is stopped or an error ends
  it; only the first message is marked as a fresh state.
\<close>

fun run_stream :: "tracker_env \<Rightarrow> agents_info \<Rightarrow> bool \<Rightarrow> updates_response option res list \<Rightarrow> agents_info \<times> err option" where
  "run_stream T a freshState [] = (a, None)"
| "run_stream T a freshState (Inl e # msgs) = (a, Some e)"
| "run_stream T a freshState (Inr update # msgs) =
     and_then (updateState T a update freshState) (\<lambda>a'. run_stream T a' False msgs)"

end
