(* ===== verification/MetadataServerCorrect.thy ===== *)
theory MetadataServerCorrect
  imports MetadataServer
begin

text \<open>
  What the metadata service promises its clients: how a batch of agent updates is cut into
  responses, that the inner loop of the stream ends for every positive size of a response and not
  for a negative one, and how the states of a tracepoint on the agents combine into one.
\<close>

section \<open>The chunks of a batch\<close>

lemma upto_nat_snoc: "[int a..int a + int (Suc k) - 1] = [int a..int a + int k - 1] @ [int (a + k)]"
  using upto_rec2 [of "int a" "int a + int k"] by simp

lemma take_drop_Suc:
  "take (Suc k) (drop a xs) = take k (drop a xs) @ (if a + k < length xs then [xs ! (a + k)] else [])"
  by (cases "a + k < length xs") (simp_all add: take_Suc_conv_app_nth)

lemma chunk_items_eq:
  "chunk_items updates (int a) (int a + int k) f =
     Inr (take k (drop a updates), f \<or> (0 < k \<and> length updates < a + k))"
proof (induction k)
  case 0
  then show ?case by (simp add: chunk_items_def)
next
  case (Suc k)
  let ?step = "\<lambda>r idx. bind_res r (\<lambda>(items, finished).
       if idx < int (length updates)
       then (if idx < 0 then Inl index_panic else Inr (items @ [updates ! nat idx], finished))
       else Inr (items, True))"
  have IH: "foldl ?step (Inr ([], f)) [int a..int a + int k - 1] =
      Inr (take k (drop a updates), f \<or> (0 < k \<and> length updates < a + k))"
    using Suc unfolding chunk_items_def .
  show ?case unfolding chunk_items_def upto_nat_snoc foldl_append IH take_drop_Suc
    by (auto simp: nat_add_distrib)
qed

text \<open>The responses of a batch: each with its slice of the updates, the last one with the schemas.\<close>

definition batch_response :: "nat \<Rightarrow> agent_update list \<Rightarrow> schema_info list option \<Rightarrow> nat \<Rightarrow> updates_response" where
  "batch_response k updates schemas i =
     (let final = (i = length updates div k) in
      \<lparr>AgentUpdates = take k (drop (i * k) updates),
       AgentSchemas = (if final then (case schemas of None \<Rightarrow> [] | Some s \<Rightarrow> s) else []),
       AgentSchemasUpdated = (final \<and> schemas \<noteq> None), EndOfVersion = final\<rparr>)"

text \<open>The state of the loop before iteration \<open>i\<close>, and what a client that is not reached makes of it.\<close>

definition before_chunk :: "nat \<Rightarrow> agent_update list \<Rightarrow> computed_schema option \<Rightarrow> nat \<Rightarrow> chunk_state \<Rightarrow> bool" where
  "before_chunk k updates cs i c \<longleftrightarrow>
     currentIdx c = int (i * k) \<and> finishedUpdates c = (updates = []) \<and> finishedSchema c = (cs = None) \<and>
     length (sent c) = i \<and> i \<le> length updates div k"

definition outcome_err :: "send_outcome \<Rightarrow> err option" where
  "outcome_err r = (case r of SendErr e \<Rightarrow> Some e | _ \<Rightarrow> None)"

definition converted :: "computed_schema option \<Rightarrow> schema_info list option \<Rightarrow> bool" where
  "converted cs schemas \<longleftrightarrow>
     (case cs of None \<Rightarrow> schemas = None | Some s \<Rightarrow> (case schemas of None \<Rightarrow> False | Some si \<Rightarrow> convertToSchemaInfo s = Inr si))"

lemma less_Suc_times_iff: "0 < k \<Longrightarrow> i \<le> n div k \<Longrightarrow> n < i * k + k \<longleftrightarrow> i = n div (k :: nat)"
proof
  assume k: "0 < k" and i: "i \<le> n div k"
  show "i = n div k" if "n < i * k + k"
  proof -
    have "n div k < Suc i" using that k by (simp add: div_less_iff_less_mult algebra_simps)
    with i show ?thesis by simp
  qed
  show "n < i * k + k" if "i = n div k" using k that by (metis add.commute mod_less_divisor div_mult_mod_eq nat_add_left_cancel_less)
qed

lemma chunk_items_at:
  assumes k: "0 < k" and small: "int (length updates + k) < 2 ^ 63" and b: "before_chunk k updates cs i c"
  shows "wrap64 (currentIdx c + int k) = int (Suc i * k)"
    and "chunk_items updates (currentIdx c) (int (Suc i * k)) (finishedUpdates c) =
      Inr (take k (drop (i * k) updates), i = length updates div k)"
proof -
  have idx: "currentIdx c = int (i * k)" and i: "i \<le> length updates div k" using b by (simp_all add: before_chunk_def)
  have "i * k \<le> length updates" using i k by (meson div_times_less_eq_dividend le_trans mult_le_mono1)
  then have "int (i * k + k) < 2 ^ 63" using small by (metis add_le_mono1 of_nat_mono order.strict_trans1)
  then have "wrap64 (int (i * k) + int k) = int (i * k) + int k" using wrap64_nat by (metis of_nat_add)
  then show "wrap64 (currentIdx c + int k) = int (Suc i * k)" unfolding idx by (simp add: algebra_simps)
  have "updates = [] \<or> length updates < i * k + k \<longleftrightarrow> i = length updates div k"
    using less_Suc_times_iff [OF k i] i by (cases "updates = []") simp_all
  then show "chunk_items updates (currentIdx c) (int (Suc i * k)) (finishedUpdates c) =
      Inr (take k (drop (i * k) updates), i = length updates div k)"
    using chunk_items_eq [of updates "i * k" k "updates = []"] k b by (simp add: before_chunk_def algebra_simps)
qed

lemma chunk_step_ok:
  assumes "0 < k" and "int (length updates + k) < 2 ^ 63" and conv: "converted cs schemas"
    and b: "before_chunk k updates cs i c" and ok: "client i = SendOk"
  shows "chunk_step client (int k) updates cs c =
    Going \<lparr>currentIdx = int (Suc i * k), finishedUpdates = (i = length updates div k),
      finishedSchema = (cs = None \<or> i = length updates div k), sent = sent c @ [batch_response k updates schemas i]\<rparr>"
  using chunk_items_at [OF assms(1,2) b] conv b ok
  by (cases cs)
    (auto simp: chunk_step_def before_chunk_def send_def batch_response_def converted_def Let_def split: option.splits)

lemma chunk_step_bad:
  assumes "0 < k" and "int (length updates + k) < 2 ^ 63" and conv: "converted cs schemas"
    and b: "before_chunk k updates cs i c" and bad: "client i \<noteq> SendOk"
  shows "\<exists>c'. chunk_step client (int k) updates cs c = Returned c' (outcome_err (client i)) \<and> sent c' = sent c"
  using chunk_items_at [OF assms(1,2) b] conv b bad
  by (cases cs; cases "client i")
    (auto simp: chunk_step_def before_chunk_def send_def converted_def outcome_err_def Let_def split: option.splits)

lemma chunk_loop_steps:
  "\<not> (finishedUpdates c \<and> finishedSchema c) \<Longrightarrow> chunk_step client n updates cs c = Going c' \<Longrightarrow>
   chunk_loop (Suc fuel) client n updates cs c = chunk_loop fuel client n updates cs c'"
  "\<not> (finishedUpdates c \<and> finishedSchema c) \<Longrightarrow> chunk_step client n updates cs c = Returned c' e \<Longrightarrow>
   chunk_loop (Suc fuel) client n updates cs c = Some (Returned c' e)"
  "finishedUpdates c \<Longrightarrow> finishedSchema c \<Longrightarrow> chunk_loop fuel client n updates cs c = Some (Over c)"
  by (subst chunk_loop.simps, auto)+

lemma chunk_loop_ok:
  assumes "0 < k" and "int (length updates + k) < 2 ^ 63" and "converted cs schemas"
    and "\<not> (updates = [] \<and> cs = None)"
  shows "before_chunk k updates cs i c \<Longrightarrow> Suc (length updates div k) - i \<le> fuel \<Longrightarrow>
    (\<And>j. i \<le> j \<Longrightarrow> j \<le> length updates div k \<Longrightarrow> client j = SendOk) \<Longrightarrow>
    \<exists>c'. chunk_loop fuel client (int k) updates cs c = Some (Over c') \<and>
      sent c' = sent c @ map (batch_response k updates schemas) [i..<Suc (length updates div k)]"
proof (induction fuel arbitrary: i c)
  case 0
  then show ?case by (simp add: before_chunk_def)
next
  case (Suc fuel)
  let ?n = "length updates div k"
  let ?c = "\<lparr>currentIdx = int (Suc i * k), finishedUpdates = (i = ?n), finishedSchema = (cs = None \<or> i = ?n),
    sent = sent c @ [batch_response k updates schemas i]\<rparr>"
  have i: "i \<le> ?n" and go: "\<not> (finishedUpdates c \<and> finishedSchema c)" using Suc.prems(1) assms(4) by (auto simp: before_chunk_def)
  have step: "chunk_loop (Suc fuel) client (int k) updates cs c = chunk_loop fuel client (int k) updates cs ?c"
    using go chunk_step_ok [where client = client, OF assms(1-3) Suc.prems(1) Suc.prems(3) [OF order_refl i]] by (rule chunk_loop_steps)
  have upt: "[i..<Suc ?n] = i # [Suc i..<Suc ?n]" using i by (simp add: upt_rec [of i])
  show ?case
  proof (cases "i = ?n")
    case True
    have "chunk_loop fuel client (int k) updates cs ?c = Some (Over ?c)" using True by (intro chunk_loop_steps(3)) simp_all
    then show ?thesis unfolding step upt using True by simp
  next
    case False
    then have lt: "i < ?n" using i by simp
    then have "updates \<noteq> []" by auto
    then have "before_chunk k updates cs (Suc i) ?c" using Suc.prems(1) lt by (auto simp: before_chunk_def)
    then obtain c' where "chunk_loop fuel client (int k) updates cs ?c = Some (Over c')"
      "sent c' = sent ?c @ map (batch_response k updates schemas) [Suc i..<Suc ?n]"
      using Suc.IH [of "Suc i" ?c] Suc.prems(2,3) by fastforce
    then show ?thesis unfolding step upt by simp
  qed
qed

lemma chunk_loop_bad:
  assumes "0 < k" and "int (length updates + k) < 2 ^ 63" and "converted cs schemas"
    and "\<not> (updates = [] \<and> cs = None)"
  shows "before_chunk k updates cs i c \<Longrightarrow> j - i < fuel \<Longrightarrow> i \<le> j \<Longrightarrow> j \<le> length updates div k \<Longrightarrow>
    client j \<noteq> SendOk \<Longrightarrow> (\<And>l. i \<le> l \<Longrightarrow> l < j \<Longrightarrow> client l = SendOk) \<Longrightarrow>
    \<exists>c'. chunk_loop fuel client (int k) updates cs c = Some (Returned c' (outcome_err (client j))) \<and>
      sent c' = sent c @ map (batch_response k updates schemas) [i..<j]"
proof (induction fuel arbitrary: i c)
  case (Suc fuel)
  let ?n = "length updates div k"
  let ?c = "\<lparr>currentIdx = int (Suc i * k), finishedUpdates = (i = ?n), finishedSchema = (cs = None \<or> i = ?n),
    sent = sent c @ [batch_response k updates schemas i]\<rparr>"
  have go: "\<not> (finishedUpdates c \<and> finishedSchema c)" using Suc.prems(1) assms(4) by (auto simp: before_chunk_def)
  show ?case
  proof (cases "i = j")
    case True
    then obtain c' where "chunk_step client (int k) updates cs c = Returned c' (outcome_err (client j))" "sent c' = sent c"
      using chunk_step_bad [OF assms(1-3) Suc.prems(1)] Suc.prems(5) by blast
    then show ?thesis using chunk_loop_steps(2) [OF go] True by simp
  next
    case False
    then have lt: "i < j" using Suc.prems(3) by simp
    have step: "chunk_loop (Suc fuel) client (int k) updates cs c = chunk_loop fuel client (int k) updates cs ?c"
      using go chunk_step_ok [where client = client, OF assms(1-3) Suc.prems(1) Suc.prems(6) [OF order_refl lt]] by (rule chunk_loop_steps)
    have upt: "[i..<j] = i # [Suc i..<j]" using lt by (simp add: upt_rec [of i])
    have "updates \<noteq> []" using lt Suc.prems(4) by auto
    then have "before_chunk k updates cs (Suc i) ?c" using Suc.prems(1,4) lt by (auto simp: before_chunk_def)
    then obtain c' where "chunk_loop fuel client (int k) updates cs ?c = Some (Returned c' (outcome_err (client j)))"
      "sent c' = sent ?c @ map (batch_response k updates schemas) [Suc i..<j]"
      using Suc.IH [of "Suc i" ?c] Suc.prems(2,4,5,6) lt by fastforce
    then show ?thesis unfolding step upt by simp
  qed
qed simp

lemma concat_batch:
  "concat (map (\<lambda>i. AgentUpdates (batch_response k updates schemas i)) [0..<n]) = take (n * k) updates"
proof (induction n)
  case (Suc n)
  have "take (Suc n * k) updates = take (n * k) updates @ take k (drop (n * k) updates)"
    using take_add [of "n * k" k updates] by (simp only: mult_Suc add.commute)
  with Suc show ?case by (simp add: batch_response_def Let_def del: mult_Suc)
qed simp

definition batch_responses :: "nat \<Rightarrow> agent_update list \<Rightarrow> schema_info list option \<Rightarrow> updates_response list" where
  "batch_responses k updates schemas = map (batch_response k updates schemas) [0..<Suc (length updates div k)]"

lemma batch_responses_props:
  assumes "0 < k"
  shows "concat (map AgentUpdates (batch_responses k updates schemas)) = updates"
    and "\<And>r. r \<in> set (batch_responses k updates schemas) \<Longrightarrow> length (AgentUpdates r) \<le> k"
    and "\<And>r. r \<in> set (butlast (batch_responses k updates schemas)) \<Longrightarrow> \<not> EndOfVersion r \<and> \<not> AgentSchemasUpdated r"
    and "last (batch_responses k updates schemas) =
      \<lparr>AgentUpdates = drop (length updates div k * k) updates,
       AgentSchemas = (case schemas of None \<Rightarrow> [] | Some s \<Rightarrow> s),
       AgentSchemasUpdated = (schemas \<noteq> None), EndOfVersion = True\<rparr>"
proof -
  let ?n = "length updates div k"
  have le: "length updates \<le> Suc ?n * k" using assms by (metis dividend_less_times_div less_imp_le_nat add.commute mult.commute mult_Suc)
  have "map AgentUpdates (batch_responses k updates schemas) =
      map (\<lambda>i. AgentUpdates (batch_response k updates schemas i)) [0..<Suc ?n]" by (simp add: batch_responses_def)
  then show "concat (map AgentUpdates (batch_responses k updates schemas)) = updates"
    using concat_batch [of k updates schemas "Suc ?n"] le by (simp only: take_all)
  show "length (AgentUpdates r) \<le> k" if "r \<in> set (batch_responses k updates schemas)" for r
    using that by (auto simp: batch_responses_def batch_response_def Let_def)
  have "butlast (batch_responses k updates schemas) = map (batch_response k updates schemas) [0..<?n]"
    by (simp add: batch_responses_def)
  then show "\<not> EndOfVersion r \<and> \<not> AgentSchemasUpdated r" if "r \<in> set (butlast (batch_responses k updates schemas))" for r
    using that by (auto simp: batch_response_def Let_def)
  have "length updates - ?n * k \<le> k" using le by simp
  then show "last (batch_responses k updates schemas) =
      \<lparr>AgentUpdates = drop (length updates div k * k) updates,
       AgentSchemas = (case schemas of None \<Rightarrow> [] | Some s \<Rightarrow> s),
       AgentSchemasUpdated = (schemas \<noteq> None), EndOfVersion = True\<rparr>"
    by (simp add: batch_responses_def batch_response_def Let_def)
qed

lemma send_batch_sends:
  assumes "0 < k" and "int (length updates + k) < 2 ^ 63" and "converted cs schemas"
    and "\<not> (updates = [] \<and> cs = None)" and "length updates div k < fuel"
  shows "(\<And>j. j \<le> length updates div k \<Longrightarrow> client j = SendOk) \<Longrightarrow>
      \<exists>c. send_batch fuel client (int k) updates cs = Some (Over c) \<and> sent c = batch_responses k updates schemas"
    and "j \<le> length updates div k \<Longrightarrow> client j \<noteq> SendOk \<Longrightarrow> (\<And>l. l < j \<Longrightarrow> client l = SendOk) \<Longrightarrow>
      \<exists>c. send_batch fuel client (int k) updates cs = Some (Returned c (outcome_err (client j))) \<and>
        sent c = take j (batch_responses k updates schemas)"
proof -
  let ?c = "\<lparr>currentIdx = 0, finishedUpdates = (updates = []), finishedSchema = (cs = None), sent = []\<rparr>"
  have b: "before_chunk k updates cs 0 ?c" by (simp add: before_chunk_def)
  have s: "send_batch fuel client (int k) updates cs = chunk_loop fuel client (int k) updates cs ?c"
    using assms(4) unfolding send_batch_def Let_def by auto
  show "\<exists>c. send_batch fuel client (int k) updates cs = Some (Over c) \<and> sent c = batch_responses k updates schemas"
    if "\<And>j. j \<le> length updates div k \<Longrightarrow> client j = SendOk"
    using chunk_loop_ok [OF assms(1-4) b, of fuel client] that assms(5) by (simp add: s batch_responses_def)
  show "\<exists>c. send_batch fuel client (int k) updates cs = Some (Returned c (outcome_err (client j))) \<and>
        sent c = take j (batch_responses k updates schemas)"
    if "j \<le> length updates div k" "client j \<noteq> SendOk" "\<And>l. l < j \<Longrightarrow> client l = SendOk"
  proof -
    have "take j (batch_responses k updates schemas) = map (batch_response k updates schemas) [0..<j]"
      using that(1) by (simp add: batch_responses_def take_map del: upt_Suc)
    then show ?thesis using chunk_loop_bad [OF assms(1-4) b, of j fuel client] that assms(5) by (simp add: s)
  qed
qed

text \<open>A negative size moves the index backwards, and no update is ever sent.\<close>

lemma negative_chunk_step:
  assumes n: "n < 0" and idx: "currentIdx c = int i * n" "- (2 ^ 63) \<le> int (Suc i) * n"
    and c: "\<not> finishedUpdates c" and ok: "client (length (sent c)) = SendOk"
  shows "chunk_step client n updates cs c =
    Going (c\<lparr>currentIdx := int (Suc i) * n,
      sent := sent c @ [\<lparr>AgentUpdates = [], AgentSchemas = [], AgentSchemasUpdated = False, EndOfVersion = False\<rparr>]\<rparr>)"
proof -
  have e: "int i * n + n = int (Suc i) * n" by (simp add: algebra_simps)
  have le: "int (Suc i) * n \<le> 0" "int (Suc i) * n < int i * n"
    using n by (simp add: mult_nonneg_nonpos del: of_nat_Suc) (use n in \<open>simp add: algebra_simps\<close>)
  have "int (Suc i) * n < 2 ^ 63" using le(1) by (rule order.strict_trans1) simp
  then have "wrap64 (int i * n + n) = int (Suc i) * n" unfolding e by (rule wrap64_id [OF idx(2)])
  moreover have "chunk_items updates (int i * n) (int (Suc i) * n) False = Inr ([], False)"
    using le(2) by (simp add: chunk_items_def)
  ultimately show ?thesis using c ok idx(1) by (simp add: chunk_step_def send_def Let_def)
qed

lemma negative_chunk_loop:
  assumes "n < 0" and "\<And>j. client j = SendOk"
  shows "currentIdx c = int i * n \<Longrightarrow> - (2 ^ 63) \<le> int (i + fuel) * n \<Longrightarrow> \<not> finishedUpdates c \<Longrightarrow>
    chunk_loop fuel client n updates cs c = None"
proof (induction fuel arbitrary: i c)
  case 0
  then show ?case by (simp add: chunk_loop.simps)
next
  case (Suc fuel)
  have "int (i + Suc fuel) * n \<le> int (Suc i) * n" using assms(1) by (intro mult_right_mono_neg) simp_all
  then have b: "- (2 ^ 63) \<le> int (Suc i) * n" using Suc.prems(2) by linarith
  let ?c = "c\<lparr>currentIdx := int (Suc i) * n,
      sent := sent c @ [\<lparr>AgentUpdates = [], AgentSchemas = [], AgentSchemasUpdated = False, EndOfVersion = False\<rparr>]\<rparr>"
  have "chunk_loop (Suc fuel) client n updates cs c = chunk_loop fuel client n updates cs ?c"
    using Suc.prems(3) negative_chunk_step [OF assms(1) Suc.prems(1) b Suc.prems(3) assms(2)]
    by (intro chunk_loop_steps(1)) auto
  also have "\<dots> = None" using Suc.IH [of ?c "Suc i"] Suc.prems(2,3) by simp
  finally show ?case .
qed

section \<open>Schemas\<close>

lemma map_res_total: "(\<And>x. x \<in> set xs \<Longrightarrow> f x = Inr (g x)) \<Longrightarrow> map_res f xs = Inr (map g xs)"
  by (induction xs) simp_all

definition schema_infos :: "computed_schema \<Rightarrow> schema_info list" where
  "schema_infos cs =
     map (\<lambda>t. \<lparr>si_Name = table_Name t, si_Relation = \<lparr>rel_Columns = relation_columns t, rel_Desc = []\<rparr>,
       AgentList = the (map_of (TableNameToAgentIDs cs) (table_Name t))\<rparr>) (Tables cs)"

lemma convert_wf:
  assumes "cs_wf cs"
  shows "convertToSchemaInfo cs = Inr (schema_infos cs)"
    and "{(si_Name s, a) |s a. s \<in> set (schema_infos cs) \<and> a \<in> set (AgentList s)} = schema_rel cs"
proof -
  have some: "\<exists>ids. map_of (TableNameToAgentIDs cs) (table_Name t) = Some ids" if "t \<in> set (Tables cs)" for t
    using cs_wf_names [OF assms] that unfolding keys_map_of [symmetric] by blast
  show "convertToSchemaInfo cs = Inr (schema_infos cs)"
    unfolding convertToSchemaInfo_def schema_infos_def
  proof (rule map_res_total)
    fix t assume "t \<in> set (Tables cs)"
    then obtain ids where "map_of (TableNameToAgentIDs cs) (table_Name t) = Some ids" using some by blast
    then show "(case map_of (TableNameToAgentIDs cs) (table_Name t) of
        None \<Rightarrow> Inl (ErrMsg ''Cannot find agentIDs for schema'')
      | Some agentIDs \<Rightarrow> Inr \<lparr>si_Name = table_Name t,
          si_Relation = \<lparr>rel_Columns = relation_columns t, rel_Desc = []\<rparr>, AgentList = agentIDs\<rparr>) =
      Inr \<lparr>si_Name = table_Name t, si_Relation = \<lparr>rel_Columns = relation_columns t, rel_Desc = []\<rparr>,
        AgentList = the (map_of (TableNameToAgentIDs cs) (table_Name t))\<rparr>" by simp
  qed
  have "(n, a) \<in> {(si_Name s, a) |s a. s \<in> set (schema_infos cs) \<and> a \<in> set (AgentList s)} \<longleftrightarrow> (n, a) \<in> schema_rel cs" for n a
  proof
    assume "(n, a) \<in> {(si_Name s, a) |s a. s \<in> set (schema_infos cs) \<and> a \<in> set (AgentList s)}"
    then obtain t where "t \<in> set (Tables cs)" "n = table_Name t" "a \<in> set (the (map_of (TableNameToAgentIDs cs) n))"
      by (auto simp: schema_infos_def)
    then show "(n, a) \<in> schema_rel cs" using some [of t] by (auto simp: schema_rel_def)
  next
    assume "(n, a) \<in> schema_rel cs"
    then obtain ids where ids: "map_of (TableNameToAgentIDs cs) n = Some ids" "a \<in> set ids" by (auto simp: schema_rel_def)
    then have "n \<in> table_Name ` set (Tables cs)" unfolding cs_wf_names [OF assms] by (blast intro: map_of_Some_keys)
    then obtain t where "t \<in> set (Tables cs)" "n = table_Name t" by blast
    with ids show "(n, a) \<in> {(si_Name s, a) |s a. s \<in> set (schema_infos cs) \<and> a \<in> set (AgentList s)}"
      unfolding schema_infos_def by force
  qed
  then show "{(si_Name s, a) |s a. s \<in> set (schema_infos cs) \<and> a \<in> set (AgentList s)} = schema_rel cs"
    unfolding set_eq_iff split_paired_All by blast
qed

section \<open>The state of a tracepoint\<close>

definition failure :: "agent_tracepoint_status \<Rightarrow> bool" where
  "failure s \<longleftrightarrow> ats_State s = FAILED_STATE \<and>
     (case ats_Status s of None \<Rightarrow> False | Some st \<Rightarrow> ErrCode st \<notin> {status_OK, status_FAILED_PRECONDITION})"

text \<open>The state that \<open>n\<close> agents report together, as the source states it in its comments.\<close>

definition combined_state :: "agent_tracepoint_status list \<Rightarrow> life_cycle_state \<times> status option list" where
  "combined_state ss =
     (let states = set (map ats_State ss) in
      if ss = [] then (PENDING_STATE, [])
      else if TERMINATED_STATE \<in> states then (TERMINATED_STATE, [])
      else if RUNNING_STATE \<in> states then (RUNNING_STATE, [])
      else if PENDING_STATE \<in> states then (PENDING_STATE, [])
      else if FAILED_STATE \<in> states
      then (FAILED_STATE, if \<exists>s\<in>set ss. failure s then map ats_Status (filter failure ss) else [ats_Status (hd ss)])
      else (UNKNOWN_STATE, []))"

definition count_in :: "life_cycle_state \<Rightarrow> agent_tracepoint_status list \<Rightarrow> nat" where
  "count_in st ss = length (filter (\<lambda>s. ats_State s = st) ss)"

lemma count_in_pos: "0 < count_in st ss \<longleftrightarrow> st \<in> set (map ats_State ss)"
  by (induction ss) (auto simp: count_in_def)

lemma count_states_eq:
  assumes "\<And>s. s \<in> set ss \<Longrightarrow> ats_State s = FAILED_STATE \<Longrightarrow> ats_Status s \<noteq> None"
  shows "count_states c (map Some ss) =
    Inr \<lparr>numFailed = numFailed c + count_in FAILED_STATE ss, numTerminated = numTerminated c + count_in TERMINATED_STATE ss,
      numPending = numPending c + count_in PENDING_STATE ss, numRunning = numRunning c + count_in RUNNING_STATE ss,
      cnt_statuses = cnt_statuses c @ map ats_Status (filter failure ss)\<rparr>"
  using assms
proof (induction ss arbitrary: c)
  case Nil
  then show ?case by (simp add: count_in_def)
next
  case (Cons s ss)
  from Cons.prems have IH: "count_states c (map Some ss) =
    Inr \<lparr>numFailed = numFailed c + count_in FAILED_STATE ss, numTerminated = numTerminated c + count_in TERMINATED_STATE ss,
      numPending = numPending c + count_in PENDING_STATE ss, numRunning = numRunning c + count_in RUNNING_STATE ss,
      cnt_statuses = cnt_statuses c @ map ats_Status (filter failure ss)\<rparr>" for c
    by (intro Cons.IH) simp
  show ?case using Cons.prems [of s] IH
    by (cases "ats_State s"; cases "ats_Status s") (simp_all add: count_state_def count_in_def failure_def [of s] Let_def)
qed

lemma count_states_nil:
  assumes "\<exists>s\<in>set sts. case s of None \<Rightarrow> True | Some st \<Rightarrow> ats_State st = FAILED_STATE \<and> ats_Status st = None"
  shows "count_states c sts = Inl nil_deref"
  using assms
proof (induction sts arbitrary: c)
  case (Cons s sts)
  have "count_state c s = Inl nil_deref \<or> (\<exists>c'. count_state c s = Inr c') \<and>
      \<not> (case s of None \<Rightarrow> True | Some st \<Rightarrow> ats_State st = FAILED_STATE \<and> ats_Status st = None)"
    by (auto simp: count_state_def Let_def split: option.splits life_cycle_state.splits)
  then consider "count_state c s = Inl nil_deref"
    | c' where "count_state c s = Inr c'"
      "\<exists>s\<in>set sts. case s of None \<Rightarrow> True | Some st \<Rightarrow> ats_State st = FAILED_STATE \<and> ats_Status st = None"
    using Cons.prems by auto
  then show ?case using Cons.IH by cases simp_all
qed simp

section \<open>Properties\<close>

text \<open>
  C9. For every positive size of a response the loop that sends a batch ends, within one iteration
  more than the batch has full responses. The responses it sends hold the updates in their order,
  each at most the given number; only the last one carries the schemas and ends the version. When
  the client goes away or a send fails, the handler returns after a prefix of these responses.
\<close>

theorem send_batch_terminates:
  assumes "0 < k" and "int (length updates + k) < 2 ^ 63" and "converted cs schemas"
    and "\<not> (updates = [] \<and> cs = None)" and "length updates div k < fuel"
  shows "\<exists>rs. concat (map AgentUpdates rs) = updates \<and> length rs = Suc (length updates div k) \<and>
    (\<forall>r\<in>set rs. length (AgentUpdates r) \<le> k) \<and>
    (\<forall>r\<in>set (butlast rs). \<not> EndOfVersion r \<and> \<not> AgentSchemasUpdated r) \<and>
    EndOfVersion (last rs) \<and> AgentSchemasUpdated (last rs) = (cs \<noteq> None) \<and>
    (\<forall>s. schemas = Some s \<longrightarrow> AgentSchemas (last rs) = s) \<and>
    ((\<forall>j<length rs. client j = SendOk) \<longrightarrow>
      (\<exists>c. send_batch fuel client (int k) updates cs = Some (Over c) \<and> sent c = rs)) \<and>
    (\<forall>j<length rs. client j \<noteq> SendOk \<and> (\<forall>l<j. client l = SendOk) \<longrightarrow>
      (\<exists>c. send_batch fuel client (int k) updates cs = Some (Returned c (outcome_err (client j))) \<and> sent c = take j rs))"
proof -
  let ?rs = "batch_responses k updates schemas"
  have len: "length ?rs = Suc (length updates div k)" by (simp add: batch_responses_def)
  have "schemas = None \<longleftrightarrow> cs = None" using assms(3) by (auto simp: converted_def split: option.splits)
  moreover note batch_responses_props [OF assms(1), where updates = updates and schemas = schemas]
  moreover have "(\<forall>j<length ?rs. client j = SendOk) \<longrightarrow>
      (\<exists>c. send_batch fuel client (int k) updates cs = Some (Over c) \<and> sent c = ?rs)"
    using send_batch_sends(1) [OF assms, of client] unfolding len by simp
  moreover have "\<forall>j<length ?rs. client j \<noteq> SendOk \<and> (\<forall>l<j. client l = SendOk) \<longrightarrow>
      (\<exists>c. send_batch fuel client (int k) updates cs = Some (Returned c (outcome_err (client j))) \<and> sent c = take j ?rs)"
    using send_batch_sends(2) [OF assms, of _ client] unfolding len by (simp add: less_Suc_eq_le)
  ultimately show ?thesis using len by (intro exI [of _ ?rs]) auto
qed

definition sample_updates_list :: "agent_update list" where
  "sample_updates_list = replicate 5 \<lparr>upd_AgentID = None, upd_Update = ADeleted\<rparr>"

definition no_tables :: computed_schema where
  "no_tables = \<lparr>Tables = [], TableNameToAgentIDs = []\<rparr>"

theorem send_batch_terminates_witness:
  "\<exists>rs c. concat (map AgentUpdates rs) = sample_updates_list \<and> length rs = 3 \<and>
     send_batch 3 (\<lambda>_. SendOk) 2 sample_updates_list (Some no_tables) = Some (Over c) \<and> sent c = rs"
proof -
  have "converted (Some no_tables) (Some [])" by (simp add: converted_def convertToSchemaInfo_def no_tables_def)
  from send_batch_terminates [of 2 sample_updates_list, OF _ _ this, of 3 "\<lambda>_. SendOk"]
  show ?thesis by (auto simp: sample_updates_list_def)
qed

text \<open>
  A negative size is accepted by the handler and keeps the loop going: as long as the index does not
  wrap around, which takes more than four thousand million responses, it sends empty responses.
\<close>

theorem negative_chunk_size_keeps_going:
  assumes "- (2 ^ 31) \<le> n" and "n < 0" and "updates \<noteq> []" and "\<And>j. client j = SendOk" and "fuel \<le> 2 ^ 32"
  shows "send_batch fuel client n updates cs = None"
proof -
  have "int fuel \<le> 2 ^ 32" using assms(5) by (metis of_nat_le_iff of_nat_numeral of_nat_power)
  then have "int fuel * n \<ge> int fuel * (- (2 ^ 31))" "int fuel * (- (2 ^ 31)) \<ge> 2 ^ 32 * (- (2 ^ 31))"
    using mult_left_mono [OF assms(1), of "int fuel"] by simp_all
  then have "- (2 ^ 63) \<le> int (0 + fuel) * n" by simp
  then show ?thesis using negative_chunk_loop [OF assms(2,4), of _ 0] assms(3) by (simp add: send_batch_def Let_def)
qed

text \<open>
  C34. The state that \<open>GetTracepointInfo\<close> reports for a tracepoint is the combination of the states
  of the agents that the comments describe: terminated if any agent has terminated it, else running
  if it runs anywhere, else pending if it is pending anywhere, else failed, with the statuses of the
  agents that failed for a reason other than a failed precondition, or that of the first agent if
  there are none. A nil state, or a failed one without a status, makes the handler panic.
\<close>

theorem tracepoint_state_combines:
  "getTracepointStateFromAgentTracepointStates sts =
    (if \<forall>s\<in>set sts. case s of None \<Rightarrow> False | Some st \<Rightarrow> ats_State st = FAILED_STATE \<longrightarrow> ats_Status st \<noteq> None
     then Inr (combined_state (map the sts)) else Inl nil_deref)"
proof (cases "\<forall>s\<in>set sts. case s of None \<Rightarrow> False | Some st \<Rightarrow> ats_State st = FAILED_STATE \<longrightarrow> ats_Status st \<noteq> None")
  case True
  let ?ss = "map the sts"
  have sts: "sts = map Some ?ss" using True by (induction sts) (auto split: option.splits)
  have "ats_Status s \<noteq> None" if "s \<in> set ?ss" "ats_State s = FAILED_STATE" for s
    using True that by (auto split: option.splits)
  from count_states_eq [of ?ss, OF this]
  have "getTracepointStateFromAgentTracepointStates (map Some ?ss) = Inr (combined_state ?ss)"
    by (cases ?ss) (auto simp: getTracepointStateFromAgentTracepointStates_def combined_state_def count_in_pos
        count_in_pos [of _ "_ # _", unfolded list.map] filter_empty_conv simp del: map_map)
  with True sts show ?thesis by simp
next
  case False
  then have "\<exists>s\<in>set sts. case s of None \<Rightarrow> True | Some st \<Rightarrow> ats_State st = FAILED_STATE \<and> ats_Status st = None"
    by (auto split: option.splits)
  with False count_states_nil [OF this] show ?thesis
    unfolding getTracepointStateFromAgentTracepointStates_def by auto
qed

theorem tracepoint_state_combines_witness:
  "getTracepointStateFromAgentTracepointStates
     [Some \<lparr>ats_State = FAILED_STATE, ats_Status = Some \<lparr>ErrCode = 13, status_rest = []\<rparr>, ats_ID = None, ats_AgentID = None\<rparr>,
      Some \<lparr>ats_State = FAILED_STATE, ats_Status = Some \<lparr>ErrCode = 2, status_rest = []\<rparr>, ats_ID = None, ats_AgentID = None\<rparr>] =
   Inr (FAILED_STATE, [Some \<lparr>ErrCode = 2, status_rest = []\<rparr>])"
  unfolding tracepoint_state_combines
  by (simp add: combined_state_def failure_def status_OK_def status_FAILED_PRECONDITION_def Let_def)

end
