(* ===== verification/AgentTrackerCorrect.thy ===== *)
theory AgentTrackerCorrect
  imports AgentTracker MetadataServerCorrect
begin

text \<open>
  What the query broker knows about the agents. The pending state, read through its pointers, is a
  map from identifiers to \<open>CarnotInfo\<close> (\<open>carnot_view\<close>), and a response acts on it as the abstract
  \<open>track_update\<close> does. Objects that are already in the heap change in their \<open>MetadataInfo\<close> only
  (\<open>heap_le\<close>); the last section shows that this is visible in the published state before the version
  ends.
\<close>

section \<open>Reading through the pointers\<close>

definition carnot_id :: "carnot_info \<Rightarrow> uuid" where
  "carnot_id c = UUIDFromProtoOrNil (ci_AgentID c)"

definition carnot_view :: "carnot_info list \<Rightarrow> nat list \<Rightarrow> uuid \<rightharpoonup> carnot_info" where
  "carnot_view h ps = map_of (map (\<lambda>p. (carnot_id (h ! p), h ! p)) ps)"

text \<open>A PEM or a Kelvin, under its identifier.\<close>

definition carnot_typed :: "tracker_env \<Rightarrow> carnot_info \<Rightarrow> bool" where
  "carnot_typed T c \<longleftrightarrow>
     (\<exists>i asid md. proto_uuid i \<and> c = makeAgentCarnotInfo T i asid md) \<or>
     (\<exists>i addr asid md. proto_uuid i \<and> c = (makeKelvinCarnotInfo T i addr asid)\<lparr>ci_MetadataInfo := md\<rparr>)"

lemma carnot_typed_id:
  assumes "carnot_typed T c"
  shows "proto_uuid (carnot_id c)" and "ci_AgentID c = Some (ProtoFromUUID (carnot_id c))"
    and "UUIDFromProto (ci_AgentID c) = Inr (carnot_id c)"
  using assms
  by (auto simp: carnot_typed_def carnot_id_def makeAgentCarnotInfo_def makeKelvinCarnotInfo_def UUIDFromProto_ProtoFromUUID)

lemma carnot_typed_metadata: "carnot_typed T c \<Longrightarrow> carnot_typed T (c\<lparr>ci_MetadataInfo := md\<rparr>)"
  by (fastforce simp: carnot_typed_def makeAgentCarnotInfo_def makeKelvinCarnotInfo_def)

lemma carnot_id_metadata [simp]: "carnot_id (c\<lparr>ci_MetadataInfo := md\<rparr>) = carnot_id c"
  by (simp add: carnot_id_def)

definition heap_typed :: "tracker_env \<Rightarrow> carnot_info list \<Rightarrow> bool" where
  "heap_typed T h \<longleftrightarrow> list_all (carnot_typed T) h"

definition state_wf :: "carnot_info list \<Rightarrow> distributed_state \<Rightarrow> bool" where
  "state_wf h d \<longleftrightarrow>
     list_all (\<lambda>p. p < length h) (CarnotInfo d) \<and> distinct (map (\<lambda>p. carnot_id (h ! p)) (CarnotInfo d))"

definition tracker_wf :: "tracker_env \<Rightarrow> agents_info \<Rightarrow> bool" where
  "tracker_wf T a \<longleftrightarrow>
     heap_typed T (ai_heap a) \<and> state_wf (ai_heap a) (ai_ds a) \<and>
     (\<exists>d. pendingDs a = Some d \<and> state_wf (ai_heap a) d)"

definition pending_view :: "agents_info \<Rightarrow> uuid \<rightharpoonup> carnot_info" where
  "pending_view a = carnot_view (ai_heap a) (CarnotInfo (the (pendingDs a)))"

definition published_view :: "agents_info \<Rightarrow> uuid \<rightharpoonup> carnot_info" where
  "published_view a = carnot_view (ai_heap a) (CarnotInfo (DistributedState a))"

text \<open>The objects of a heap stay where they are, and only their \<open>MetadataInfo\<close> may change.\<close>

definition strip :: "carnot_info \<Rightarrow> carnot_info" where
  "strip c = c\<lparr>ci_MetadataInfo := None\<rparr>"

lemma strip_metadata [simp]: "strip (c\<lparr>ci_MetadataInfo := md\<rparr>) = strip c" "strip (strip c) = strip c"
  by (simp_all add: strip_def)

lemma strip_id: "strip c = strip c' \<Longrightarrow> carnot_id c = carnot_id c'"
  by (metis carnot_id_metadata strip_def)

definition heap_le :: "carnot_info list \<Rightarrow> carnot_info list \<Rightarrow> bool" where
  "heap_le h h' \<longleftrightarrow> length h \<le> length h' \<and> (\<forall>p<length h. strip (h' ! p) = strip (h ! p))"

lemma heap_le_refl [simp]: "heap_le h h"
  by (simp add: heap_le_def)

lemma heap_le_trans: "heap_le h h' \<Longrightarrow> heap_le h' h'' \<Longrightarrow> heap_le h h''"
  by (auto simp: heap_le_def)

lemma heap_le_append: "heap_le h (h @ [c])"
  by (simp add: heap_le_def nth_append)

lemma heap_le_metadata: "heap_le h (h[p := (h ! p)\<lparr>ci_MetadataInfo := md\<rparr>])"
  by (cases "p < length h") (auto simp: heap_le_def nth_list_update)

lemma state_wf_mono:
  assumes "state_wf h d" and "heap_le h h'"
  shows "state_wf h' d"
proof -
  have p: "p < length h'" "carnot_id (h' ! p) = carnot_id (h ! p)" if "p \<in> set (CarnotInfo d)" for p
  proof -
    have l: "p < length h" using assms(1) that by (simp add: state_wf_def list_all_iff)
    with assms(2) show "p < length h'" by (simp add: heap_le_def)
    have "strip (h' ! p) = strip (h ! p)" using l assms(2) by (simp add: heap_le_def)
    then show "carnot_id (h' ! p) = carnot_id (h ! p)" by (rule strip_id)
  qed
  have "map (\<lambda>p. carnot_id (h' ! p)) (CarnotInfo d) = map (\<lambda>p. carnot_id (h ! p)) (CarnotInfo d)"
    by (rule map_cong [OF refl p(2)])
  then show ?thesis using assms(1) p(1) unfolding state_wf_def list_all_iff by metis
qed

section \<open>The abstract tracker\<close>

definition carnot_of :: "tracker_env \<Rightarrow> uuid \<Rightarrow> agent \<Rightarrow> string option \<Rightarrow> carnot_info" where
  "carnot_of T i agt md =
     (case Info agt of
        Some info \<Rightarrow>
          if Capabilities info = Some False then makeKelvinCarnotInfo T i (IPAddress info) (ASID agt)
          else makeAgentCarnotInfo T i (ASID agt) md
      | None \<Rightarrow> makeAgentCarnotInfo T i (ASID agt) md)"

definition track_update :: "tracker_env \<Rightarrow> (uuid \<rightharpoonup> carnot_info) \<Rightarrow> agent_update \<Rightarrow> uuid \<rightharpoonup> carnot_info" where
  "track_update T v u =
     (let i = UUIDFromProtoOrNil (upd_AgentID u) in
      case upd_Update u of
        AAgent agt \<Rightarrow> v(i \<mapsto> carnot_of T i agt (Option.bind (v i) ci_MetadataInfo))
      | ADataInfo x \<Rightarrow>
          (case MetadataInfo x of
             None \<Rightarrow> v
           | Some md \<Rightarrow> v(i := map_option (\<lambda>c. c\<lparr>ci_MetadataInfo := Some md\<rparr>) (v i)))
      | ADeleted \<Rightarrow> v(i := None))"

text \<open>An update the tracker accepts: it has an identifier, and an agent has its information.\<close>

definition update_ok :: "agent_update \<Rightarrow> bool" where
  "update_ok u \<longleftrightarrow> ok (UUIDFromProto (upd_AgentID u)) \<and>
     (case upd_Update u of AAgent agt \<Rightarrow> Info agt \<noteq> None | _ \<Rightarrow> True)"

section \<open>The map of a response\<close>

definition map_ok :: "carnot_info list \<Rightarrow> (uuid, nat) gomap \<Rightarrow> bool" where
  "map_ok h m \<longleftrightarrow> gomap_ok m \<and> (\<forall>i p. map_of m i = Some p \<longrightarrow> p < length h \<and> carnot_id (h ! p) = i)"

definition map_view :: "carnot_info list \<Rightarrow> (uuid, nat) gomap \<Rightarrow> uuid \<rightharpoonup> carnot_info" where
  "map_view h m = (\<lambda>i. map_option (\<lambda>p. h ! p) (map_of m i))"

lemma map_okD: "map_ok h m \<Longrightarrow> map_of m i = Some p \<Longrightarrow> p < length h \<and> carnot_id (h ! p) = i"
  by (simp add: map_ok_def)

lemma carnot_map_spec:
  assumes "heap_typed T h"
  shows "list_all (\<lambda>p. p < length h) ps \<Longrightarrow> distinct (map (\<lambda>p. carnot_id (h ! p)) ps) \<Longrightarrow> gomap_ok m0 \<Longrightarrow>
    \<exists>m. carnot_map h m0 ps = Inr m \<and> gomap_ok m \<and>
      map_of m = map_of m0 ++ map_of (map (\<lambda>p. (carnot_id (h ! p), p)) ps)"
proof (induction ps arbitrary: m0)
  case (Cons p ps)
  have "carnot_typed T (h ! p)" using assms Cons.prems(1) by (simp add: heap_typed_def list_all_iff)
  then have id: "UUIDFromProto (ci_AgentID (h ! p)) = Inr (carnot_id (h ! p))" by (rule carnot_typed_id)
  have "carnot_id (h ! p) \<notin> dom (map_of (map (\<lambda>p. (carnot_id (h ! p), p)) ps))"
    using Cons.prems(2) by (auto simp: dom_map_of_conv_image_fst image_image)
  then have "(map_of m0)(carnot_id (h ! p) \<mapsto> p) ++ map_of (map (\<lambda>p. (carnot_id (h ! p), p)) ps) =
      map_of m0 ++ map_of (map (\<lambda>p. (carnot_id (h ! p), p)) (p # ps))"
    by (simp add: map_add_upd_left)
  moreover have ps: "list_all (\<lambda>p. p < length h) ps" "distinct (map (\<lambda>p. carnot_id (h ! p)) ps)" using Cons.prems(1,2) by simp_all
  moreover obtain m where "carnot_map h (AList.update (carnot_id (h ! p)) p m0) ps = Inr m" "gomap_ok m"
    "map_of m = (map_of m0)(carnot_id (h ! p) \<mapsto> p) ++ map_of (map (\<lambda>p. (carnot_id (h ! p), p)) ps)"
    using Cons.IH [OF ps gomap_ok_update [OF Cons.prems(3)]] unfolding map_of_update by blast
  ultimately show ?case unfolding carnot_map.simps id bind_res_simps by metis
qed simp

lemma carnot_map_wf:
  assumes "heap_typed T h" and "state_wf h d"
  obtains m where "carnot_map h [] (CarnotInfo d) = Inr m" "map_ok h m" "map_view h m = carnot_view h (CarnotInfo d)"
proof -
  from assms(2) have w: "list_all (\<lambda>p. p < length h) (CarnotInfo d)" "distinct (map (\<lambda>p. carnot_id (h ! p)) (CarnotInfo d))"
    by (simp_all add: state_wf_def)
  obtain m where m: "carnot_map h [] (CarnotInfo d) = Inr m" "gomap_ok m"
    "map_of m = map_of (map (\<lambda>p. (carnot_id (h ! p), p)) (CarnotInfo d))"
    using carnot_map_spec [OF assms(1) w, of "[]"] by auto
  have "p < length h \<and> carnot_id (h ! p) = i" if "map_of m i = Some p" for i p
    using map_of_SomeD [OF that [unfolded m(3)]] w(1) by (auto simp: list_all_iff)
  then have "map_ok h m" using m(2) by (simp add: map_ok_def)
  moreover have "map_view h m = carnot_view h (CarnotInfo d)"
    using map_of_map_values [of "\<lambda>p. h ! p" "map (\<lambda>p. (carnot_id (h ! p), p)) (CarnotInfo d)"]
    by (auto simp: map_view_def carnot_view_def m(3) comp_def)
  ultimately show ?thesis using that m(1) by blast
qed

lemma range_state_wf:
  assumes "map_ok h m" and rng: "range_order_ok (tk_range T)"
  shows "state_wf h (d\<lparr>CarnotInfo := map snd (go_range (tk_range T) m)\<rparr>)"
    and "carnot_view h (map snd (go_range (tk_range T) m)) = map_view h m"
proof -
  let ?r = "go_range (tk_range T) m"
  have gm: "gomap_ok m" using assms(1) by (simp add: map_ok_def)
  have mem: "p < length h \<and> carnot_id (h ! p) = i" if "(i, p) \<in> set ?r" for i p
    using that gm assms(1) unfolding set_go_range [OF rng gm] by (simp add: map_ok_def)
  have ids: "map (\<lambda>p. carnot_id (h ! p)) (map snd ?r) = map fst ?r"
    unfolding map_map by (rule map_cong) (use mem in auto)
  have "distinct (map fst ?r)" using gm range_order_distinct [OF rng] by simp
  then show "state_wf h (d\<lparr>CarnotInfo := map snd ?r\<rparr>)"
    using ids mem by (auto simp: state_wf_def list_all_iff)
  have "map (\<lambda>p. (carnot_id (h ! p), h ! p)) (map snd ?r) = map (\<lambda>(i, p). (i, h ! p)) ?r"
    unfolding map_map by (rule map_cong) (use mem in auto)
  then have "carnot_view h (map snd ?r) = map_of (map (\<lambda>(i, p). (i, h ! p)) ?r)" unfolding carnot_view_def by metis
  then show "carnot_view h (map snd ?r) = map_view h m"
    using map_of_map_values [of "\<lambda>p. h ! p" ?r] map_of_go_range [OF rng gm] by (simp add: map_view_def fun_eq_iff)
qed

lemma update_ok_id: "update_ok u \<Longrightarrow> UUIDFromProto (upd_AgentID u) = Inr (UUIDFromProtoOrNil (upd_AgentID u))"
  by (auto simp: update_ok_def UUIDFromProtoOrNil_def split: sum.splits)

lemma UUIDFromProto_Inr: "UUIDFromProto p = Inr i \<Longrightarrow> p = Some (ProtoFromUUID i) \<and> proto_uuid i"
proof -
  assume a: "UUIDFromProto p = Inr i"
  then obtain q where q: "p = Some q" by (cases p) (simp_all add: UUIDFromProto_def)
  with a have "q = ProtoFromUUID i" using UUIDFromProto_Some by blast
  with a q show ?thesis by (auto simp: UUIDFromProto_ProtoFromUUID split: if_splits)
qed

lemma carnot_of_facts [simp]:
  "carnot_id (carnot_of T i agt md) = (if proto_uuid i then i else UUIDFromProtoOrNil (Some (ProtoFromUUID i)))"
  "proto_uuid i \<Longrightarrow> carnot_typed T (carnot_of T i agt md)"
proof -
  show "carnot_id (carnot_of T i agt md) = (if proto_uuid i then i else UUIDFromProtoOrNil (Some (ProtoFromUUID i)))"
    by (auto simp: carnot_of_def carnot_id_def makeAgentCarnotInfo_def makeKelvinCarnotInfo_def split: option.splits)
  show "carnot_typed T (carnot_of T i agt md)" if i: "proto_uuid i"
  proof -
    have "carnot_typed T (makeAgentCarnotInfo T i asid md)" for asid md unfolding carnot_typed_def using i by blast
    moreover have "makeKelvinCarnotInfo T i addr asid = (makeKelvinCarnotInfo T i addr asid)\<lparr>ci_MetadataInfo := None\<rparr>" for addr asid
      by (simp add: makeKelvinCarnotInfo_def)
    then have "carnot_typed T (makeKelvinCarnotInfo T i addr asid)" for addr asid
      unfolding carnot_typed_def using i by blast
    ultimately show ?thesis unfolding carnot_of_def by (auto split: option.splits)
  qed
qed

text \<open>The three cases of one update, and that nothing else is accepted.\<close>

lemma carnot_step_agent:
  assumes "UUIDFromProto (upd_AgentID u) = Inr i" and "upd_Update u = AAgent agt" and "Info agt \<noteq> None"
  shows "carnot_step T (h, m) u =
    ((h @ [carnot_of T i agt (Option.bind (map_view h m i) ci_MetadataInfo)], AList.update i (length h) m), None)"
  using assms by (auto simp: carnot_step_def carnot_of_def map_view_def Let_def split: option.splits)

lemma carnot_step_other:
  assumes "UUIDFromProto (upd_AgentID u) = Inr i"
  shows "upd_Update u = ADeleted \<Longrightarrow> carnot_step T (h, m) u = ((h, AList.delete i m), None)"
    and "upd_Update u = ADataInfo x \<Longrightarrow> map_of m i = None \<or> MetadataInfo x = None \<Longrightarrow> carnot_step T (h, m) u = ((h, m), None)"
    and "upd_Update u = ADataInfo x \<Longrightarrow> map_of m i = Some p \<Longrightarrow> MetadataInfo x = Some md \<Longrightarrow>
      carnot_step T (h, m) u = ((h[p := (h ! p)\<lparr>ci_MetadataInfo := Some md\<rparr>], m), None)"
  using assms by (auto simp: carnot_step_def split: option.splits)

lemma carnot_step_rejects: "\<not> update_ok u \<Longrightarrow> \<exists>e. carnot_step T (h, m) u = ((h, m), Some e)"
  by (cases "UUIDFromProto (upd_AgentID u)"; cases "upd_Update u")
    (auto simp: update_ok_def carnot_step_def split: option.splits)

lemma map_ok_append:
  assumes ok: "map_ok h m" and c: "carnot_id c = i"
  shows "map_ok (h @ [c]) (AList.update i (length h) m)"
    and "map_view (h @ [c]) (AList.update i (length h) m) = (map_view h m)(i \<mapsto> c)"
proof -
  have old: "p < length h \<and> carnot_id (h ! p) = j" if "map_of m j = Some p" for j p using ok that by (rule map_okD)
  show "map_ok (h @ [c]) (AList.update i (length h) m)"
    unfolding map_ok_def
  proof (intro conjI allI impI)
    show "gomap_ok (AList.update i (length h) m)" using ok by (simp add: map_ok_def)
    fix j p assume a: "map_of (AList.update i (length h) m) j = Some p"
    show "p < length (h @ [c])" "carnot_id ((h @ [c]) ! p) = j"
      using a c old [of j p] by (cases "j = i"; simp add: nth_append)+
  qed
  show "map_view (h @ [c]) (AList.update i (length h) m) = (map_view h m)(i \<mapsto> c)"
  proof
    fix j show "map_view (h @ [c]) (AList.update i (length h) m) j = ((map_view h m)(i \<mapsto> c)) j"
      using old [of j] by (cases "j = i"; cases "map_of m j") (simp_all add: map_view_def nth_append)
  qed
qed

lemma map_ok_metadata:
  assumes ok: "map_ok h m" and p: "map_of m i = Some p"
  shows "map_ok (h[p := (h ! p)\<lparr>ci_MetadataInfo := md\<rparr>]) m"
    and "map_view (h[p := (h ! p)\<lparr>ci_MetadataInfo := md\<rparr>]) m =
      (map_view h m)(i := map_option (\<lambda>c. c\<lparr>ci_MetadataInfo := md\<rparr>) (map_view h m i))"
proof -
  have old: "q < length h \<and> carnot_id (h ! q) = j" if "map_of m j = Some q" for j q using ok that by (rule map_okD)
  show "map_ok (h[p := (h ! p)\<lparr>ci_MetadataInfo := md\<rparr>]) m"
    using ok old [OF p] old by (auto simp: map_ok_def nth_list_update)
  show "map_view (h[p := (h ! p)\<lparr>ci_MetadataInfo := md\<rparr>]) m =
      (map_view h m)(i := map_option (\<lambda>c. c\<lparr>ci_MetadataInfo := md\<rparr>) (map_view h m i))"
  proof
    fix j
    have "q \<noteq> p" if "map_of m j = Some q" "j \<noteq> i" for q using old [OF that(1)] old [OF p] that(2) by auto
    then show "map_view (h[p := (h ! p)\<lparr>ci_MetadataInfo := md\<rparr>]) m j =
        ((map_view h m)(i := map_option (\<lambda>c. c\<lparr>ci_MetadataInfo := md\<rparr>) (map_view h m i))) j"
      using p old [OF p] by (cases "j = i"; cases "map_of m j") (auto simp: map_view_def)
  qed
qed

lemma map_ok_delete:
  assumes "map_ok h m"
  shows "map_ok h (AList.delete i m)" and "map_view h (AList.delete i m) = (map_view h m)(i := None)"
  using assms by (auto simp: map_ok_def map_view_def fun_eq_iff)

lemma carnot_step_spec:
  assumes t: "heap_typed T h" and ok: "map_ok h m" and u: "update_ok u"
  shows "\<exists>h' m'. carnot_step T (h, m) u = ((h', m'), None) \<and> heap_typed T h' \<and> map_ok h' m' \<and> heap_le h h' \<and>
    map_view h' m' = track_update T (map_view h m) u"
proof -
  define i where "i = UUIDFromProtoOrNil (upd_AgentID u)"
  have id: "UUIDFromProto (upd_AgentID u) = Inr i" using update_ok_id [OF u] by (simp add: i_def)
  then have pr: "proto_uuid i" by (blast dest: UUIDFromProto_Inr)
  show ?thesis
  proof (cases "upd_Update u")
    case ADeleted
    then show ?thesis using carnot_step_other(1) [OF id ADeleted] map_ok_delete [OF ok, of i] t
      by (simp add: track_update_def i_def [symmetric])
  next
    case (AAgent agt)
    let ?c = "carnot_of T i agt (Option.bind (map_view h m i) ci_MetadataInfo)"
    have "Info agt \<noteq> None" using u AAgent by (simp add: update_ok_def)
    then have "carnot_step T (h, m) u = ((h @ [?c], AList.update i (length h) m), None)"
      by (rule carnot_step_agent [OF id AAgent])
    moreover have "heap_typed T (h @ [?c])" using t pr by (simp add: heap_typed_def)
    ultimately show ?thesis using map_ok_append [OF ok, of ?c i] pr heap_le_append [of h ?c] AAgent
      by (simp add: track_update_def i_def [symmetric])
  next
    case (ADataInfo x)
    show ?thesis
    proof (cases "map_of m i = None \<or> MetadataInfo x = None")
      case True
      then have "track_update T (map_view h m) u = map_view h m"
        using ADataInfo by (auto simp: track_update_def i_def [symmetric] map_view_def fun_eq_iff split: option.splits)
      then show ?thesis using carnot_step_other(2) [OF id ADataInfo True] t ok by simp
    next
      case False
      then obtain p md where p: "map_of m i = Some p" "MetadataInfo x = Some md" by auto
      let ?h = "h[p := (h ! p)\<lparr>ci_MetadataInfo := Some md\<rparr>]"
      have "p < length h" using map_okD [OF ok p(1)] by simp
      then have "carnot_typed T (h ! p)" using t by (simp add: heap_typed_def list_all_length)
      then have "carnot_typed T ((h ! p)\<lparr>ci_MetadataInfo := Some md\<rparr>)" by (rule carnot_typed_metadata)
      then have "heap_typed T ?h" using t by (auto simp: heap_typed_def list_all_iff dest!: set_update_subset_insert [THEN subsetD])
      moreover have "map_view ?h m = track_update T (map_view h m) u"
        using map_ok_metadata(2) [OF ok p(1)] ADataInfo p(2) by (simp add: track_update_def i_def [symmetric])
      ultimately show ?thesis
        using carnot_step_other(3) [OF id ADataInfo p] map_ok_metadata(1) [OF ok p(1)] heap_le_metadata by blast
    qed
  qed
qed

lemma carnot_steps_spec:
  assumes "heap_typed T h" and "map_ok h m"
  shows "\<exists>h' m' e. for_each (carnot_step T) (h, m) us = ((h', m'), e) \<and> heap_typed T h' \<and> heap_le h h' \<and>
    (e = None \<longleftrightarrow> list_all update_ok us) \<and>
    (e = None \<longrightarrow> map_ok h' m' \<and> map_view h' m' = foldl (track_update T) (map_view h m) us)"
  using assms
proof (induction us arbitrary: h m)
  case (Cons u us)
  show ?case
  proof (cases "update_ok u")
    case True
    obtain h1 m1 where s: "carnot_step T (h, m) u = ((h1, m1), None)" "heap_typed T h1" "map_ok h1 m1" "heap_le h h1"
      "map_view h1 m1 = track_update T (map_view h m) u" using carnot_step_spec [OF Cons.prems True] by blast
    from Cons.IH [OF s(2,3)] obtain h' m' e where "for_each (carnot_step T) (h1, m1) us = ((h', m'), e)" "heap_typed T h'"
      "heap_le h1 h'" "e = None \<longleftrightarrow> list_all update_ok us"
      "e = None \<longrightarrow> map_ok h' m' \<and> map_view h' m' = foldl (track_update T) (map_view h1 m1) us" by blast
    with s True heap_le_trans [OF s(4)] show ?thesis by simp
  next
    case False
    then obtain e where "carnot_step T (h, m) u = ((h, m), Some e)" using carnot_step_rejects by blast
    with False Cons.prems show ?thesis by simp
  qed
qed simp

section \<open>Applying responses\<close>

definition with_schemas :: "updates_response \<Rightarrow> distributed_state \<Rightarrow> distributed_state" where
  "with_schemas u d = (if AgentSchemasUpdated u then d\<lparr>SchemaInfo := AgentSchemas u\<rparr> else d)"

lemma UpdateAgentsInfo_spec:
  assumes wf: "tracker_wf T a" and rng: "range_order_ok (tk_range T)"
  obtains a' e where "UpdateAgentsInfo T a u = (a', e)" "tracker_wf T a'" "heap_le (ai_heap a) (ai_heap a')"
    "e = None \<longleftrightarrow> list_all update_ok (AgentUpdates u)"
    "SchemaInfo (the (pendingDs a')) = SchemaInfo (with_schemas u (the (pendingDs a)))"
    "e = None \<Longrightarrow> pending_view a' = foldl (track_update T) (pending_view a) (AgentUpdates u)"
    "ai_ds a' = (if e = None \<and> EndOfVersion u then the (pendingDs a') else ai_ds a)"
proof -
  let ?h = "ai_heap a"
  obtain d where d: "pendingDs a = Some d" "state_wf ?h d" and t: "heap_typed T ?h" and pub: "state_wf ?h (ai_ds a)"
    using wf by (auto simp: tracker_wf_def)
  let ?d = "with_schemas u d"
  have d1: "CarnotInfo ?d = CarnotInfo d" by (simp add: with_schemas_def)
  obtain m where m: "carnot_map ?h [] (CarnotInfo d) = Inr m" "map_ok ?h m" "map_view ?h m = carnot_view ?h (CarnotInfo d)"
    using carnot_map_wf [OF t d(2)] by blast
  obtain h' m' e where s: "for_each (carnot_step T) (?h, m) (AgentUpdates u) = ((h', m'), e)" "heap_typed T h'" "heap_le ?h h'"
    "e = None \<longleftrightarrow> list_all update_ok (AgentUpdates u)"
    "e = None \<longrightarrow> map_ok h' m' \<and> map_view h' m' = foldl (track_update T) (map_view ?h m) (AgentUpdates u)"
    using carnot_steps_spec [OF t m(2)] by blast
  let ?a1 = "a\<lparr>pendingDs := Some ?d\<rparr>"
  have pub': "state_wf h' (ai_ds a)" and d': "state_wf h' d" using state_wf_mono [OF _ s(3)] pub d(2) by simp_all
  then have wd: "state_wf h' ?d" unfolding state_wf_def d1 by simp
  show ?thesis
  proof (cases e)
    case (Some e')
    have "UpdateAgentsInfo T a u = (?a1\<lparr>ai_heap := h'\<rparr>, e)"
      using s(1) m(1) d(1) Some d1 by (simp add: UpdateAgentsInfo_def Let_def with_schemas_def split: if_splits)
    moreover have "tracker_wf T (?a1\<lparr>ai_heap := h'\<rparr>)" using s(2) pub' wd by (simp add: tracker_wf_def)
    ultimately show ?thesis using that [of "?a1\<lparr>ai_heap := h'\<rparr>" e] s(3,4) d(1) Some by simp
  next
    case None
    let ?d2 = "?d\<lparr>CarnotInfo := map snd (go_range (tk_range T) m')\<rparr>"
    let ?a2 = "?a1\<lparr>ai_heap := h', pendingDs := Some ?d2, ai_ds := (if EndOfVersion u then ?d2 else ai_ds a)\<rparr>"
    have ok: "map_ok h' m'" "map_view h' m' = foldl (track_update T) (carnot_view ?h (CarnotInfo d)) (AgentUpdates u)"
      using s(5) None m(3) by simp_all
    have "UpdateAgentsInfo T a u = (?a2, None)"
      using s(1) m(1) d(1) None d1 by (simp add: UpdateAgentsInfo_def Let_def with_schemas_def split: if_splits)
    moreover have "tracker_wf T ?a2" using s(2) pub' range_state_wf(1) [OF ok(1) rng, of ?d] by (simp add: tracker_wf_def)
    moreover have "pending_view ?a2 = foldl (track_update T) (pending_view a) (AgentUpdates u)"
      using range_state_wf(2) [OF ok(1) rng] ok(2) d(1) by (simp add: pending_view_def)
    ultimately show ?thesis using that [of ?a2 None] s(3,4) d(1) None by simp
  qed
qed

lemma tracker_wf_clear: "tracker_wf T a \<Longrightarrow> tracker_wf T (ClearPendingState a)"
  by (simp add: tracker_wf_def ClearPendingState_def state_wf_def)

lemma tracker_wf_new: "tracker_wf T NewAgentsInfo"
  by (simp add: tracker_wf_def NewAgentsInfo_def state_wf_def heap_typed_def)

lemma updateState_wf:
  assumes "tracker_wf T a" and "range_order_ok (tk_range T)" and "updateState T a u fresh = (a', e)"
  shows "tracker_wf T a'" and "heap_le (ai_heap a) (ai_heap a')"
proof -
  let ?a = "if fresh then ClearPendingState a else a"
  have w: "tracker_wf T ?a" and h: "ai_heap ?a = ai_heap a"
    using assms(1) tracker_wf_clear by (auto simp: ClearPendingState_def)
  have "tracker_wf T a' \<and> heap_le (ai_heap a) (ai_heap a')"
  proof (cases u)
    case None
    with assms(3) have "a' = ?a" by (simp add: updateState_def Let_def)
    with w h show ?thesis by simp
  next
    case (Some r)
    with assms(3) have "UpdateAgentsInfo T ?a r = (a', e)" by (simp add: updateState_def Let_def)
    with UpdateAgentsInfo_spec [OF w assms(2), of r] h show ?thesis by (metis prod.inject)
  qed
  then show "tracker_wf T a'" and "heap_le (ai_heap a) (ai_heap a')" by simp_all
qed

lemma run_stream_wf:
  assumes rng: "range_order_ok (tk_range T)"
  shows "tracker_wf T a \<Longrightarrow> run_stream T a fresh msgs = (a', e) \<Longrightarrow> tracker_wf T a' \<and> heap_le (ai_heap a) (ai_heap a')"
proof (induction msgs arbitrary: a fresh)
  case (Cons msg msgs)
  show ?case
  proof (cases msg)
    case (Inr u)
    obtain a1 e1 where s: "updateState T a u fresh = (a1, e1)" by fastforce
    note w = updateState_wf [OF Cons.prems(1) rng s]
    show ?thesis
    proof (cases e1)
      case None
      then have "run_stream T a1 False msgs = (a', e)" using Cons.prems(2) Inr s by simp
      from Cons.IH [OF w(1) this] show ?thesis using heap_le_trans [OF w(2)] by simp
    next
      case (Some e')
      then show ?thesis using Cons.prems(2) Inr s w by simp
    qed
  qed (use Cons.prems in simp)
qed simp

lemma pending_view_clear: "pending_view (ClearPendingState a) = Map.empty"
  by (simp add: pending_view_def ClearPendingState_def carnot_view_def)

lemma run_responses:
  assumes rng: "range_order_ok (tk_range T)"
  shows "tracker_wf T a \<Longrightarrow> run_stream T a fresh (map (\<lambda>r. Inr (Some r)) rs) = (a', None) \<Longrightarrow> rs \<noteq> [] \<Longrightarrow>
    list_all update_ok (concat (map AgentUpdates rs)) \<and>
    pending_view a' = foldl (track_update T) (if fresh then Map.empty else pending_view a) (concat (map AgentUpdates rs)) \<and>
    (EndOfVersion (last rs) \<longrightarrow> ai_ds a' = the (pendingDs a')) \<and>
    (list_all (\<lambda>r. \<not> EndOfVersion r) rs \<longrightarrow> ai_ds a' = ai_ds a)"
proof (induction rs arbitrary: a fresh)
  case (Cons r rs)
  let ?a = "if fresh then ClearPendingState a else a"
  have w: "tracker_wf T ?a" using Cons.prems(1) tracker_wf_clear by simp
  have v: "pending_view ?a = (if fresh then Map.empty else pending_view a)" and ds: "ai_ds ?a = ai_ds a"
    by (simp_all add: pending_view_clear) (simp add: ClearPendingState_def)
  obtain a1 e where s: "UpdateAgentsInfo T ?a r = (a1, e)" "tracker_wf T a1" "e = None \<longleftrightarrow> list_all update_ok (AgentUpdates r)"
    "e = None \<Longrightarrow> pending_view a1 = foldl (track_update T) (pending_view ?a) (AgentUpdates r)"
    "ai_ds a1 = (if e = None \<and> EndOfVersion r then the (pendingDs a1) else ai_ds ?a)"
    by (rule UpdateAgentsInfo_spec [OF w rng, of r]) (rule that)
  have up: "updateState T a (Some r) fresh = (a1, e)" using s(1) by (simp add: updateState_def Let_def)
  then have e: "e = None" and rest: "run_stream T a1 False (map (\<lambda>r. Inr (Some r)) rs) = (a', None)"
    using Cons.prems(2) by (simp_all add: and_then_None_iff)
  show ?case
  proof (cases "rs = []")
    case True
    then show ?thesis using rest s(3-5) e v ds by simp
  next
    case False
    from Cons.IH [OF s(2) rest this] s(3-5) e v ds False show ?thesis by auto
  qed
qed simp

section \<open>Agents known to the broker\<close>

definition known :: "(uuid \<rightharpoonup> carnot_info) \<Rightarrow> uuid \<rightharpoonup> carnot_info" where
  "known v = (\<lambda>i. map_option strip (v i))"

definition agents_known :: "tracker_env \<Rightarrow> followed \<Rightarrow> uuid \<rightharpoonup> carnot_info" where
  "agents_known T s =
     (\<lambda>i. if proto_uuid i then map_option (\<lambda>agt. strip (carnot_of T i agt None)) (f_agents s (ProtoFromUUID i)) else None)"

lemma strip_carnot_of: "strip (carnot_of T i agt md) = strip (carnot_of T i agt None)"
  by (simp add: carnot_of_def strip_def makeAgentCarnotInfo_def split: option.splits)

lemma known_track:
  assumes u: "update_ok u" and k: "known v = agents_known T s"
  shows "known (track_update T v u) = agents_known T (apply_update s u)"
proof
  fix j
  define i where "i = UUIDFromProtoOrNil (upd_AgentID u)"
  have i: "upd_AgentID u = Some (ProtoFromUUID i)" "proto_uuid i"
    using UUIDFromProto_Inr [OF update_ok_id [OF u]] by (simp_all add: i_def)
  have inj: "ProtoFromUUID j = ProtoFromUUID i \<longleftrightarrow> j = i" by (simp add: ProtoFromUUID_inj inj_eq)
  have kj: "map_option strip (v j) = agents_known T s j" using k by (simp add: known_def fun_eq_iff)
  show "known (track_update T v u) j = agents_known T (apply_update s u) j"
    using kj i inj
    by (cases "upd_Update u"; cases "j = i")
      (auto simp: known_def agents_known_def track_update_def apply_update_def strip_carnot_of [of T _ _ "Option.bind _ _"]
        i_def [symmetric] option.map_comp comp_def split: option.splits)
qed

lemma known_foldl:
  "list_all update_ok us \<Longrightarrow> known v = agents_known T s \<Longrightarrow> known (foldl (track_update T) v us) = agents_known T (replay s us)"
proof (induction us arbitrary: v s)
  case (Cons u us)
  then have "known (track_update T v u) = agents_known T (apply_update s u)" by (simp add: known_track)
  with Cons.IH [of "track_update T v u" "apply_update s u"] Cons.prems(1) show ?case by (simp add: replay_def)
qed simp

lemma known_mono:
  assumes "state_wf h d" and "heap_le h h'"
  shows "known (carnot_view h' (CarnotInfo d)) = known (carnot_view h (CarnotInfo d))"
proof -
  have p: "strip (h' ! p) = strip (h ! p)" if "p \<in> set (CarnotInfo d)" for p
    using assms that by (simp add: state_wf_def heap_le_def list_all_iff)
  have view: "known (carnot_view h ps) = map_of (map (\<lambda>p. (carnot_id (h ! p), strip (h ! p))) ps)" for h ps
  proof
    fix i show "known (carnot_view h ps) i = map_of (map (\<lambda>p. (carnot_id (h ! p), strip (h ! p))) ps) i"
      by (induction ps) (simp_all add: known_def carnot_view_def)
  qed
  have eq: "map (\<lambda>p. (carnot_id (h' ! p), strip (h' ! p))) (CarnotInfo d) = map (\<lambda>p. (carnot_id (h ! p), strip (h ! p))) (CarnotInfo d)"
  proof (rule map_cong [OF refl])
    fix q assume "q \<in> set (CarnotInfo d)"
    then show "(carnot_id (h' ! q), strip (h' ! q)) = (carnot_id (h ! q), strip (h ! q))"
      using p [of q] strip_id [OF p [of q]] by simp
  qed
  show ?thesis unfolding view eq ..
qed

section \<open>Concrete runs\<close>

definition sample_tracker :: tracker_env where
  "sample_tracker = \<lparr>tk_uuid = ref_uuid, tk_namespace = ''pl'', tk_range = id\<rparr>"

definition agent_response :: "agent_update list \<Rightarrow> bool \<Rightarrow> updates_response" where
  "agent_response us end_version =
     \<lparr>AgentUpdates = us, AgentSchemas = [], AgentSchemasUpdated = False, EndOfVersion = end_version\<rparr>"

definition agent_added :: agent_update where
  "agent_added = \<lparr>upd_AgentID = Some (ProtoFromUUID sample_id), upd_Update = AAgent sample_agent\<rparr>"

definition info_added :: agent_update where
  "info_added = \<lparr>upd_AgentID = Some (ProtoFromUUID sample_id), upd_Update = ADataInfo \<lparr>MetadataInfo = Some ''m''\<rparr>\<rparr>"

lemma sample_range [simp]: "range_order_ok (tk_range sample_tracker)"
  by (simp add: sample_tracker_def)

section \<open>Properties\<close>

text \<open>
  C8. A response acts on the pending state as its updates act one after the other on a map from
  agents to their entries: an agent gets a new entry that keeps the known summary of a PEM, a
  summary goes to the entry of its agent, and a deletion removes the entry. The response is rejected
  exactly if an update has no identifier or an agent no information. The published state becomes the
  pending one at the end of a version and keeps its entries otherwise.
\<close>

theorem UpdateAgentsInfo_refines:
  assumes "tracker_wf T a" and "range_order_ok (tk_range T)"
  shows "\<exists>a' e. UpdateAgentsInfo T a u = (a', e) \<and> tracker_wf T a' \<and>
    (e = None \<longleftrightarrow> list_all update_ok (AgentUpdates u)) \<and>
    (e = None \<longrightarrow> pending_view a' = foldl (track_update T) (pending_view a) (AgentUpdates u)) \<and>
    (e = None \<and> EndOfVersion u \<longrightarrow> published_view a' = pending_view a') \<and>
    (\<not> EndOfVersion u \<longrightarrow> DistributedState a' = DistributedState a \<and> known (published_view a') = known (published_view a))"
proof -
  obtain a' e where s: "UpdateAgentsInfo T a u = (a', e)" "tracker_wf T a'" "heap_le (ai_heap a) (ai_heap a')"
    "e = None \<longleftrightarrow> list_all update_ok (AgentUpdates u)"
    "e = None \<Longrightarrow> pending_view a' = foldl (track_update T) (pending_view a) (AgentUpdates u)"
    "ai_ds a' = (if e = None \<and> EndOfVersion u then the (pendingDs a') else ai_ds a)"
    by (rule UpdateAgentsInfo_spec [OF assms, of u]) (rule that)
  have "state_wf (ai_heap a) (ai_ds a)" using assms(1) by (simp add: tracker_wf_def)
  then have "known (published_view a') = known (published_view a)" if "\<not> EndOfVersion u"
    using known_mono [OF _ s(3)] s(6) that by (simp add: published_view_def DistributedState_def)
  with s show ?thesis by (auto simp: published_view_def pending_view_def DistributedState_def)
qed

theorem UpdateAgentsInfo_refines_witness:
  "\<exists>a'. UpdateAgentsInfo sample_tracker NewAgentsInfo (agent_response [agent_added, info_added] True) = (a', None) \<and>
     published_view a' = foldl (track_update sample_tracker) (pending_view NewAgentsInfo) [agent_added, info_added]"
proof -
  have "list_all update_ok [agent_added, info_added]" by code_simp
  with UpdateAgentsInfo_refines [OF tracker_wf_new sample_range, of "agent_response [agent_added, info_added] True"]
  show ?thesis by (auto simp: agent_response_def)
qed

text \<open>
  C35. Whatever messages the streams of the broker deliver, including errors, updates it rejects and
  a stream that is cut off, the published state lists existing objects, one per agent, and each is
  well typed: either a PEM with a data store and no server, or a Kelvin with a server and an address
  and no data store, with the broker address of its own identifier.
\<close>

theorem tracker_entries_typed:
  assumes "range_order_ok (tk_range T)" and "run_stream T NewAgentsInfo fresh msgs = (a, e)"
  shows "list_all (carnot_typed T) (deref a (DistributedState a)) \<and> distinct (map carnot_id (deref a (DistributedState a)))"
proof -
  have "tracker_wf T a" using run_stream_wf [OF assms(1) tracker_wf_new assms(2)] by blast
  then show ?thesis
    by (auto simp: tracker_wf_def heap_typed_def state_wf_def deref_def DistributedState_def list_all_iff comp_def)
qed

theorem tracker_entries_typed_witness:
  "\<exists>a. run_stream sample_tracker NewAgentsInfo True
      [Inr (Some (agent_response [agent_added] True)), Inl (ErrMsg ''stream'')] = (a, Some (ErrMsg ''stream'')) \<and>
     length (deref a (DistributedState a)) = 1 \<and> list_all (carnot_typed sample_tracker) (deref a (DistributedState a))"
proof -
  let ?msgs = "[Inr (Some (agent_response [agent_added] True)), Inl (ErrMsg ''stream'')]"
  let ?r = "run_stream sample_tracker NewAgentsInfo True ?msgs"
  have "snd ?r = Some (ErrMsg ''stream'')" "length (deref (fst ?r) (DistributedState (fst ?r))) = 1" by code_simp+
  moreover have "?r = (fst ?r, snd ?r)" by simp
  ultimately show ?thesis using tracker_entries_typed [OF sample_range, of True ?msgs] by metis
qed

text \<open>
  The published and the pending state share their objects, so that a summary that arrives in the
  middle of a version is visible in the published state at once.
\<close>

theorem unpublished_summary_visible:
  "let (a, _) = UpdateAgentsInfo sample_tracker NewAgentsInfo (agent_response [agent_added] True);
       (a', e) = UpdateAgentsInfo sample_tracker a (agent_response [info_added] False)
   in e = None \<and> DistributedState a' = DistributedState a \<and>
      map ci_MetadataInfo (deref a (DistributedState a)) = [None] \<and>
      map ci_MetadataInfo (deref a' (DistributedState a')) = [Some ''m'']"
  by code_simp

end
