(* ===== verification/BrokerStream.thy ===== *)
theory BrokerStream
  imports AgentTrackerCorrect
begin

text \<open>
  The path of the agents from the store of the metadata service to the planner of the query broker:
  the manager writes the store and appends to the tracker of the stream (theory \<open>AgentManager\<close>), the
  handler of the stream takes a batch and sends it in chunks (theory \<open>MetadataServer\<close>), and the
  broker applies each chunk to its pending state and publishes it with the last one (theory
  \<open>AgentTracker\<close>). \<open>broker_step\<close> interleaves them; the lemmas show that the published agents are those
  the client of a stream has replayed.
\<close>

record 'd broker =
  br_follow :: "'d following"
  br_tracker :: agents_info

text \<open>
  A step is a step of the writer or of the first half of a read, or the second half of a read whose
  batch is sent and applied. \<open>k\<close> is the size of a response.
\<close>

inductive broker_step :: "'d manager_env \<Rightarrow> tracker_env \<Rightarrow> nat \<Rightarrow> uuid \<Rightarrow> 'd broker \<Rightarrow> 'd broker \<Rightarrow> bool" for E T k cur where
  background: "follow_step E cur (br_follow b) f' \<Longrightarrow> (fo_taken f' = None \<longrightarrow> fo_taken (br_follow b) = None) \<Longrightarrow>
    broker_step E T k cur b (b\<lparr>br_follow := f'\<rparr>)"
| streamed: "fo_taken (br_follow b) = Some t \<Longrightarrow>
    read_updates E (agtStore (fo_mgr (br_follow b))) t = Inr (us, cs) \<Longrightarrow>
    int (length us + k) < 2 ^ 63 \<Longrightarrow>
    send_batch (Suc (length us div k)) (\<lambda>_. SendOk) (int k) us cs = Some (Over c) \<Longrightarrow>
    run_stream T (br_tracker b) (fo_client (br_follow b) = None) (map (\<lambda>r. Inr (Some r)) (sent c)) = (a', None) \<Longrightarrow>
    broker_step E T k cur b
      (b\<lparr>br_follow := (br_follow b)\<lparr>fo_taken := None,
           fo_client := Some (replay (case fo_client (br_follow b) of None \<Rightarrow> nothing | Some c \<Rightarrow> c) us)\<rparr>,
         br_tracker := a'\<rparr>)"

definition start_broker :: "'d manager \<Rightarrow> uuid \<Rightarrow> agents_info \<Rightarrow> 'd broker" where
  "start_broker m cur a =
     \<lparr>br_follow = \<lparr>fo_mgr = NewAgentUpdateCursor m cur, fo_inflight = None, fo_taken = None, fo_client = None\<rparr>, br_tracker = a\<rparr>"

lemma broker_follows:
  "broker_step E T k cur b b' \<Longrightarrow> follow_step E cur (br_follow b) (br_follow b')"
  by (induction rule: broker_step.induct) (auto intro: follow_step.completed)

text \<open>The broker has published what the client has replayed.\<close>

definition broker_inv :: "tracker_env \<Rightarrow> 'd broker \<Rightarrow> bool" where
  "broker_inv T b \<longleftrightarrow> tracker_wf T (br_tracker b) \<and>
     (\<forall>c. fo_client (br_follow b) = Some c \<longrightarrow>
        known (pending_view (br_tracker b)) = agents_known T c \<and> known (published_view (br_tracker b)) = agents_known T c)"

lemma follow_step_client:
  "follow_step E cur f f' \<Longrightarrow> (fo_taken f' = None \<longrightarrow> fo_taken f = None) \<Longrightarrow> fo_client f' = fo_client f"
  by (induction rule: follow_step.induct) auto

lemma agents_known_nothing: "known Map.empty = agents_known T nothing"
  by (simp add: known_def agents_known_def nothing_def fun_eq_iff)

lemma batch_sent:
  assumes k: "0 < k" and small: "int (length us + k) < 2 ^ 63" and conv: "converted cs schemas"
    and sb: "send_batch (Suc (length us div k)) (\<lambda>_. SendOk) (int k) us cs = Some (Over c)"
  shows "sent c \<noteq> [] \<and> concat (map AgentUpdates (sent c)) = us \<and> (EndOfVersion (last (sent c)) \<or>
    us = [] \<and> cs = None \<and> list_all (\<lambda>r. \<not> EndOfVersion r) (sent c))"
proof (cases "us = [] \<and> cs = None")
  case True
  then show ?thesis using sb by (auto simp: send_batch_def send_def Let_def)
next
  case False
  have "\<exists>c. send_batch (Suc (length us div k)) (\<lambda>_. SendOk) (int k) us cs = Some (Over c) \<and> sent c = batch_responses k us schemas"
    using send_batch_sends(1) [OF k small conv False lessI, of "\<lambda>_. SendOk"] by simp
  then have s: "sent c = batch_responses k us schemas" using sb by simp
  show ?thesis unfolding s batch_responses_props(1,4) [OF k] by (simp add: batch_responses_def)
qed

context agent_store
begin

lemma read_schema_wf:
  assumes "me_store E = A" and "canonical A (view d)" and "read_updates E d t = Inr (us, Some cs)"
  shows "cs_wf cs"
proof -
  have g: "AgentStore.GetComputedSchema A d = Inr cs" using assms(1,3) by (auto simp: read_updates_def seq_iffs split: if_splits)
  have "schema_at A (view d) = Some cs" using g unfolding GetComputedSchema_at schema_at_def
    by (auto simp: bind_res_Inr_iff split: option.splits)
  with assms(2) show ?thesis by (simp add: canonical_def schema_ok_def)
qed

lemma read_sends_schema:
  "read_updates E d t = Inr (us, cs) \<Longrightarrow> \<not> hasReadInitialState t \<Longrightarrow> cs \<noteq> None"
  by (auto simp: read_updates_def seq_iffs)

lemma stream_inv:
  assumes A: "me_store E = A" and rng: "range_order_ok (tk_range T)" and k: "0 < k" and inv: "broker_inv T b"
    and fi: "follow_inv E view cur (br_follow b)" and t: "fo_taken (br_follow b) = Some t"
    and r: "read_updates E (agtStore (fo_mgr (br_follow b))) t = Inr (us, cs)" and small: "int (length us + k) < 2 ^ 63"
    and sb: "send_batch (Suc (length us div k)) (\<lambda>_. SendOk) (int k) us cs = Some (Over c)"
    and run: "run_stream T (br_tracker b) (fo_client (br_follow b) = None) (map (\<lambda>r. Inr (Some r)) (sent c)) = (a', None)"
  shows "tracker_wf T a'"
    and "known (pending_view a') = agents_known T (replay (case fo_client (br_follow b) of None \<Rightarrow> nothing | Some c \<Rightarrow> c) us)"
    and "known (published_view a') = agents_known T (replay (case fo_client (br_follow b) of None \<Rightarrow> nothing | Some c \<Rightarrow> c) us)"
proof -
  let ?f = "br_follow b" and ?a = "br_tracker b"
  let ?old = "case fo_client ?f of None \<Rightarrow> nothing | Some c \<Rightarrow> c"
  let ?start = "if fo_client ?f = None then Map.empty else pending_view ?a"
  have wf: "tracker_wf T ?a" using inv by (simp add: broker_inv_def)
  have can: "canonical A (view (agtStore (fo_mgr ?f)))" using fi A by (simp add: follow_inv_def)
  have old: "known ?start = agents_known T ?old"
    using inv agents_known_nothing by (cases "fo_client ?f") (simp_all add: broker_inv_def)
  obtain w: "tracker_wf T a'" and le: "heap_le (ai_heap ?a) (ai_heap a')" using run_stream_wf [OF rng wf run] by blast
  show "tracker_wf T a'" by (rule w)
  have "(\<exists>schemas. converted cs schemas)"
    using read_schema_wf [OF A can] r convert_wf(1) by (cases cs) (force simp: converted_def split: option.splits)+
  then obtain schemas where conv: "converted cs schemas" by blast
  have fresh: "\<not> (us = [] \<and> cs = None)" if "fo_client ?f = None"
    using fi t that read_sends_schema [OF r] by (auto simp: follow_inv_def split: option.splits)
  let ?rs = "sent c"
  have sent: "?rs \<noteq> [] \<and> concat (map AgentUpdates ?rs) = us \<and> (EndOfVersion (last ?rs) \<or>
      us = [] \<and> cs = None \<and> list_all (\<lambda>r. \<not> EndOfVersion r) ?rs)"
    using k small conv sb by (rule batch_sent)
  have run': "list_all update_ok us" "pending_view a' = foldl (track_update T) ?start us"
    "EndOfVersion (last ?rs) \<longrightarrow> ai_ds a' = the (pendingDs a')"
    "list_all (\<lambda>r. \<not> EndOfVersion r) ?rs \<longrightarrow> ai_ds a' = ai_ds ?a"
    using run_responses [OF rng wf run] sent by auto
  show pend: "known (pending_view a') = agents_known T (replay ?old us)"
    unfolding run'(2) by (rule known_foldl [OF run'(1) old])
  show "known (published_view a') = agents_known T (replay ?old us)"
  proof (cases "EndOfVersion (last ?rs)")
    case True
    then have "published_view a' = pending_view a'" using run'(3) by (simp add: published_view_def pending_view_def DistributedState_def)
    then show ?thesis using pend by simp
  next
    case False
    then have noop: "us = []" "cs = None" and ds: "ai_ds a' = ai_ds ?a" using sent run'(4) by auto
    obtain cl where cl: "fo_client ?f = Some cl" using fresh noop by auto
    have "known (published_view a') = known (published_view ?a)"
      unfolding published_view_def DistributedState_def ds
      using wf le by (intro known_mono) (simp_all add: tracker_wf_def)
    then show ?thesis using inv cl noop by (simp add: broker_inv_def replay_def)
  qed
qed

lemma broker_inv_step:
  assumes "me_store E = A" and "range_order_ok (tk_range T)" and "0 < k" and "follow_inv E view cur (br_follow b)"
    and "broker_inv T b" and "broker_step E T k cur b b'"
  shows "broker_inv T b'"
  using assms(6)
proof cases
  case (background f')
  then show ?thesis using assms(5) follow_step_client [OF background(2,3)] by (simp add: broker_inv_def)
next
  case (streamed t us cs c a')
  from stream_inv [OF assms(1-3,5,4) streamed(2-6)] streamed(1) show ?thesis by (simp add: broker_inv_def)
qed

lemma broker_reachable:
  assumes "me_store E = A" and "range_order_ok (tk_range T)" and "0 < k" and "follow_inv E view cur (br_follow b)"
    and "broker_inv T b" and "(broker_step E T k cur)\<^sup>*\<^sup>* b b'"
  shows "follow_inv E view cur (br_follow b') \<and> broker_inv T b'"
  using assms(6,4,5)
  by (induction rule: rtranclp_induct)
    (auto intro: broker_inv_step [OF assms(1-3)] follow_inv_step [OF assms(1) _ broker_follows])

lemma agents_known_content:
  assumes "agent_keys_ok A m"
  shows "agents_known T (content A m) i = map_option (\<lambda>agt. strip (carnot_of T i agt None)) (agent_at A m i)"
  using agent_at_own [OF assms, of i]
  by (cases "agent_at A m i") (auto simp: agents_known_def content_def own_id_def)

end

section \<open>A concrete stream\<close>

definition streams_ok :: "'d manager_env \<Rightarrow> tracker_env \<Rightarrow> nat \<Rightarrow> 'd \<Rightarrow> agentUpdateTracker \<Rightarrow> agents_info \<Rightarrow> bool" where
  "streams_ok E T k d t a =
     (case read_updates E d t of
        Inl _ \<Rightarrow> False
      | Inr (us, cs) \<Rightarrow> length us < 8 \<and>
          (case send_batch (Suc (length us div k)) (\<lambda>_. SendOk) (int k) us cs of
             Some (Over c) \<Rightarrow> snd (run_stream T a True (map (\<lambda>r. Inr (Some r)) (sent c))) = None
           | _ \<Rightarrow> False))"

lemma streams_ok_step:
  assumes "streams_ok E T 1 (agtStore (fo_mgr (br_follow b))) t (br_tracker b)"
    and "fo_taken (br_follow b) = Some t" and "fo_client (br_follow b) = None"
  obtains us a' where "broker_step E T 1 cur b
    (b\<lparr>br_follow := (br_follow b)\<lparr>fo_taken := None, fo_client := Some (replay nothing us)\<rparr>, br_tracker := a'\<rparr>)"
proof -
  obtain us cs c where r: "read_updates E (agtStore (fo_mgr (br_follow b))) t = Inr (us, cs)" "length us < 8"
    "send_batch (Suc (length us div 1)) (\<lambda>_. SendOk) (int 1) us cs = Some (Over c)"
    "snd (run_stream T (br_tracker b) True (map (\<lambda>r. Inr (Some r)) (sent c))) = None"
    using assms(1) unfolding streams_ok_def by (simp split: sum.splits prod.splits option.splits round.splits)
  obtain a' where a: "run_stream T (br_tracker b) True (map (\<lambda>r. Inr (Some r)) (sent c)) = (a', None)"
    using r(4) by (metis prod.collapse)
  have "broker_step E T 1 cur b
      (b\<lparr>br_follow := (br_follow b)\<lparr>fo_taken := None,
           fo_client := Some (replay (case fo_client (br_follow b) of None \<Rightarrow> nothing | Some c \<Rightarrow> c) us)\<rparr>, br_tracker := a'\<rparr>)"
    using assms(2) r a assms(3) by (intro broker_step.streamed [of b t E us cs 1 c]) simp_all
  then show thesis using assms(3) that by simp
qed

lemma sample_streams_ok: "streams_ok sample_mgr_env sample_tracker 1 sample_store newAgentUpdateTracker NewAgentsInfo"
  by code_simp

lemma sample_stored: "agent_at sample_env (pebble_view map_of sample_store) sample_id = Some sample_agent"
  by code_simp

end
