(* ===== verification/AgentTopicListener.thy ===== *)
theory AgentTopicListener
  imports Tracepoint
begin

text \<open>
  \<open>src/vizier/services/metadata/controllers/agent_topic_listener.go\<close>: the messages of the agents.
  One goroutine (\<open>handleMessages\<close> of \<open>message_bus.go\<close>) calls \<open>HandleMessage\<close> for every message and
  hands it to the handler of its agent over a channel with room for ten messages; a goroutine per
  handler takes them from there, and declares its agent dead when none arrives in time.

  The handlers are in a heap, a pointer is an index into it, and \<open>agentMap\<close> maps identifiers to
  pointers. \<open>ah_pc\<close> says where the goroutine of a handler is, and \<open>ls_main\<close> where the goroutine
  that calls \<open>HandleMessage\<close> and \<open>Stop\<close> is. A step of \<open>listener_step\<close> runs one of them up to the next
  point at which it can block; the clock is nondeterministic, so that a timer may fire whenever a
  handler waits. An error that the code only logs is dropped, and a panic ends the process: it has
  no step.
\<close>

section \<open>Messages\<close>

record heartbeat =
  hb_AgentID :: "uuidpb option"
  SequenceNumber :: int
  hb_UpdateInfo :: "agent_update_info option"

record register_agent =
  ra_Info :: "agent_info option"
  ra_ASID :: "32 word"

record tracepoint_update =
  tu_ID :: "uuidpb option"
  tu_AgentID :: "uuidpb option"
  tu_State :: life_cycle_state
  tu_Status :: "status option"

datatype tracepoint_message = TracepointInfoUpdate tracepoint_update | OtherTracepointMessage | NilTracepointMessage

datatype vizier_message =
    NilMessage
  | HeartbeatMessage heartbeat
  | RegisterAgentRequest register_agent
  | TracepointMessage tracepoint_message
  | OtherMessage

datatype reply =
    HeartbeatNack bool
  | RegisterAgentResponse "32 word"
  | HeartbeatAck int string "string list" int

record 'd listener_env =
  le_tp :: "'d tracepoint_env"
  le_Unmarshal :: "string \<Rightarrow> vizier_message res"
  le_Marshal :: "reply \<Rightarrow> string res"

abbreviation le_mgr :: "'d listener_env \<Rightarrow> 'd manager_env" where
  "le_mgr L \<equiv> te_mgr (le_tp L)"

section \<open>State\<close>

text \<open>
  A handler has not started, is at the head of its loop, is in the second \<open>select\<close> of the loop (past
  the one that looks at the quit channel only), waits in \<open>Stop\<close> for another handler in the middle of a
  registration, or has left the loop: the deferred function deletes the agent, then the entry of the
  map, then the tracepoint states of the agent.
\<close>

datatype handler_pc =
    Starting
  | Looping
  | Selecting
  | Waiting nat register_agent
  | Leaving
  | AgentDeleted
  | Unmapped
  | Finished

record agent_handler =
  ah_id :: uuid
  MsgChannel :: "string list"
  quitCh :: bool
  ah_pc :: handler_pc

datatype main_pc = Free | Sending nat string | Stopping "nat list"

record 'd listener =
  ls_mgr :: "'d manager"
  ls_handlers :: "agent_handler list"
  agentMap :: "(uuid, nat) gomap"
  ls_main :: main_pc
  ls_jobs :: "agent list"

definition handler_upd :: "nat \<Rightarrow> (agent_handler \<Rightarrow> agent_handler) \<Rightarrow> 'd listener \<Rightarrow> 'd listener" where
  "handler_upd p f s = s\<lparr>ls_handlers := (ls_handlers s)[p := f (ls_handlers s ! p)]\<rparr>"

definition on_mgr :: "'d listener \<Rightarrow> 'd manager \<times> err option \<Rightarrow> 'd listener \<times> err option" where
  "on_mgr s r = (case r of (m, e) \<Rightarrow> (s\<lparr>ls_mgr := m\<rparr>, e))"

definition channel_size :: nat where
  "channel_size = 10"

section \<open>The listener\<close>

definition SendMessageToAgent :: "'d listener_env \<Rightarrow> 'd listener \<Rightarrow> uuid \<Rightarrow> reply \<Rightarrow> 'd listener \<times> err option" where
  "SendMessageToAgent L s agentID msg =
     with_res (le_Marshal L msg) s (\<lambda>b.
       on_mgr s (publish (le_mgr L) (ls_mgr s) (AgentUUIDTopic (te_uuid (le_tp L)) agentID) b))"

definition createAgentHandler :: "'d listener \<Rightarrow> uuid \<Rightarrow> 'd listener \<times> nat" where
  "createAgentHandler s agentID =
     (case map_of (agentMap s) agentID of
        Some p \<Rightarrow> (s, p)
      | None \<Rightarrow>
          (s\<lparr>ls_handlers := ls_handlers s @ [\<lparr>ah_id = agentID, MsgChannel = [], quitCh = False, ah_pc = Starting\<rparr>],
             agentMap := AList.update agentID (length (ls_handlers s)) (agentMap s)\<rparr>,
           length (ls_handlers s)))"

fun create_handlers :: "'d listener \<Rightarrow> agent list \<Rightarrow> 'd listener \<times> err option" where
  "create_handlers s [] = (s, None)"
| "create_handlers s (agt # agts) =
     (case Info agt of
        None \<Rightarrow> (s, Some nil_deref)
      | Some info \<Rightarrow>
          with_res (UUIDFromProto (AgentID info)) s (\<lambda>agentID. create_handlers (fst (createAgentHandler s agentID)) agts))"

definition Initialize :: "'d listener_env \<Rightarrow> 'd listener \<Rightarrow> 'd listener \<times> err option" where
  "Initialize L s = with_res (GetActiveAgents (le_mgr L) (ls_mgr s)) s (\<lambda>agents. create_handlers s agents)"

definition NewAgentTopicListener :: "'d listener_env \<Rightarrow> 'd manager \<Rightarrow> 'd listener \<times> err option" where
  "NewAgentTopicListener L m =
     Initialize L \<lparr>ls_mgr = m, ls_handlers = [], agentMap = [], ls_main = Free, ls_jobs = []\<rparr>"

text \<open>Sending on the channel of a handler: a full one blocks the goroutine.\<close>

definition to_handler :: "nat \<Rightarrow> string \<Rightarrow> 'd listener \<Rightarrow> 'd listener" where
  "to_handler p msg s =
     (if length (MsgChannel (ls_handlers s ! p)) < channel_size
      then handler_upd p (\<lambda>h. h\<lparr>MsgChannel := MsgChannel h @ [msg]\<rparr>) s
      else s\<lparr>ls_main := Sending p msg\<rparr>)"

definition forwardAgentHeartBeat :: "'d listener_env \<Rightarrow> 'd listener \<Rightarrow> heartbeat \<Rightarrow> string \<Rightarrow> 'd listener \<times> err option" where
  "forwardAgentHeartBeat L s m msg =
     (case UUIDFromProto (hb_AgentID m) of
        Inl _ \<Rightarrow> (s, None)
      | Inr agentID \<Rightarrow>
          (case map_of (agentMap s) agentID of
             Some p \<Rightarrow> (to_handler p msg s, None)
           | None \<Rightarrow> log_err (SendMessageToAgent L s agentID (HeartbeatNack True))))"

definition forwardAgentRegisterRequest :: "'d listener \<Rightarrow> register_agent \<Rightarrow> string \<Rightarrow> 'd listener \<times> err option" where
  "forwardAgentRegisterRequest s m msg =
     (case ra_Info m of
        None \<Rightarrow> (s, Some nil_deref)
      | Some info \<Rightarrow>
          (case UUIDFromProto (AgentID info) of
             Inl _ \<Rightarrow> (s, None)
           | Inr agentID \<Rightarrow>
               (case createAgentHandler s agentID of (s', p) \<Rightarrow> (to_handler p msg s', None))))"

definition onAgentTracepointInfoUpdate :: "'d listener_env \<Rightarrow> 'd listener \<Rightarrow> tracepoint_update \<Rightarrow> 'd listener \<times> err option" where
  "onAgentTracepointInfoUpdate L s m =
     log_err (on_mgr s (UpdateAgentTracepointStatus (le_tp L) (ls_mgr s) (tu_ID m) (tu_AgentID m) (tu_State m) (tu_Status m)))"

text \<open>The type of a nil message has no name: logging it panics.\<close>

definition onAgentTracepointMessage :: "'d listener_env \<Rightarrow> 'd listener \<Rightarrow> tracepoint_message \<Rightarrow> 'd listener \<times> err option" where
  "onAgentTracepointMessage L s msg =
     (case msg of
        TracepointInfoUpdate m \<Rightarrow> onAgentTracepointInfoUpdate L s m
      | OtherTracepointMessage \<Rightarrow> (s, None)
      | NilTracepointMessage \<Rightarrow> (s, Some nil_deref))"

definition HandleMessage :: "'d listener_env \<Rightarrow> 'd listener \<Rightarrow> string \<Rightarrow> 'd listener \<times> err option" where
  "HandleMessage L s msg =
     (case le_Unmarshal L msg of
        Inl _ \<Rightarrow> (s, None)
      | Inr pb \<Rightarrow>
          (case pb of
             NilMessage \<Rightarrow> (s, None)
           | HeartbeatMessage m \<Rightarrow> forwardAgentHeartBeat L s m msg
           | RegisterAgentRequest m \<Rightarrow> forwardAgentRegisterRequest s m msg
           | TracepointMessage m \<Rightarrow> onAgentTracepointMessage L s m
           | OtherMessage \<Rightarrow> (s, None)))"

definition deleteAgent :: "'d listener_env \<Rightarrow> 'd listener \<Rightarrow> uuid \<Rightarrow> 'd listener \<times> err option" where
  "deleteAgent L s agentID =
     and_then (log_err (SendMessageToAgent L s agentID (HeartbeatNack False))) (\<lambda>s.
       (s\<lparr>agentMap := AList.delete agentID (agentMap s)\<rparr>, None))"

section \<open>The handler of an agent\<close>

text \<open>\<open>Stop\<close> closes the channel and then waits for the goroutine, if it has registered with the group.\<close>

definition close_quit :: "nat \<Rightarrow> 'd listener \<Rightarrow> 'd listener" where
  "close_quit p s = handler_upd p (\<lambda>h. h\<lparr>quitCh := True\<rparr>) s"

definition wg_done :: "'d listener \<Rightarrow> nat \<Rightarrow> bool" where
  "wg_done s p \<longleftrightarrow> ah_pc (ls_handlers s ! p) \<in> {Starting, Finished}"

text \<open>The first part of \<open>onAgentRegisterRequest\<close>: the handler of the agent now known at that host, if any.\<close>

definition registered_at_host :: "'d listener_env \<Rightarrow> 'd listener \<Rightarrow> register_agent \<Rightarrow> nat option res" where
  "registered_at_host L s m =
     (case ra_Info m of
        None \<Rightarrow> Inl nil_deref
      | Some info \<Rightarrow>
          (case (Capabilities info, HostInfo info) of
             (Some collectsData, Some host) \<Rightarrow>
               let hostname = (if \<not> collectsData then Hostname host else []) in
               (case mgr_GetAgentIDForHostnamePair (le_mgr L) (ls_mgr s) \<lparr>pair_Hostname = hostname, pair_IP = HostIP host\<rparr> of
                  Inl e \<Rightarrow> if is_panic e then Inl e else Inr None
                | Inr hostnameAgID \<Rightarrow>
                    if hostnameAgID = [] then Inr None
                    else (case uuid_FromString (te_uuid (le_tp L)) hostnameAgID of
                            Inl _ \<Rightarrow> Inr None
                          | Inr delAgID \<Rightarrow> Inr (map_of (agentMap s) delAgID)))
           | _ \<Rightarrow> Inl nil_deref))"

text \<open>The rest of it, once the other handler has been stopped.\<close>

definition register_agent_rest :: "'d listener_env \<Rightarrow> int \<Rightarrow> nat \<Rightarrow> register_agent \<Rightarrow> 'd listener \<Rightarrow> 'd listener \<times> err option" where
  "register_agent_rest L now p m s =
     (case ra_Info m of
        None \<Rightarrow> (s, Some nil_deref)
      | Some info \<Rightarrow>
          let agentID = ah_id (ls_handlers s ! p);
              agentInfo = \<lparr>Info = Some (info\<lparr>AgentID := Some (ProtoFromUUID agentID)\<rparr>), CreateTimeNS = now,
                LastHeartbeatNS = now, ASID = ra_ASID m\<rparr>
          in (case RegisterAgent (le_mgr L) now (ls_mgr s) agentInfo of
                (m', Inl e) \<Rightarrow> log_err (s\<lparr>ls_mgr := m'\<rparr>, Some e)
              | (m', Inr asid) \<Rightarrow>
                  log_err (and_then (SendMessageToAgent L (s\<lparr>ls_mgr := m'\<rparr>) agentID (RegisterAgentResponse asid)) (\<lambda>s.
                    (s\<lparr>ls_jobs := ls_jobs s @ [agentInfo]\<rparr>, None)))))"

definition onAgentRegisterRequest :: "'d listener_env \<Rightarrow> int \<Rightarrow> nat \<Rightarrow> register_agent \<Rightarrow> 'd listener \<Rightarrow> 'd listener \<times> err option" where
  "onAgentRegisterRequest L now p m s =
     with_res (registered_at_host L s m) s (\<lambda>q.
       case q of
         None \<Rightarrow> register_agent_rest L now p m s
       | Some q' \<Rightarrow>
           let s' = close_quit q' s in
           if wg_done s' q' then register_agent_rest L now p m s'
           else (handler_upd p (\<lambda>h. h\<lparr>ah_pc := Waiting q' m\<rparr>) s', None))"

text \<open>The goroutine that registers the tracepoints on a new agent.\<close>

definition register_tracepoints :: "'d listener_env \<Rightarrow> agent \<Rightarrow> 'd manager \<Rightarrow> 'd manager \<times> err option" where
  "register_tracepoints L agentInfo m =
     (case GetAllTracepoints (le_tp L) m of
        Inl e \<Rightarrow> if is_panic e then (m, Some e) else (m, None)
      | Inr tracepoints \<Rightarrow>
          for_each (\<lambda>m tp.
            case tp of
              None \<Rightarrow> (m, Some nil_deref)
            | Some t \<Rightarrow>
                if ExpectedState t \<noteq> TERMINATED_STATE
                then log_err (RegisterTracepoint (le_tp L) m [agentInfo] (UUIDFromProtoOrNil (tp_ID t)) (tp_Tracepoint t))
                else (m, None)) m tracepoints)"

definition onAgentHeartbeat :: "'d listener_env \<Rightarrow> int \<Rightarrow> nat \<Rightarrow> heartbeat \<Rightarrow> 'd listener \<Rightarrow> 'd listener \<times> err option" where
  "onAgentHeartbeat L now p m s =
     (let agentID = ah_id (ls_handlers s ! p) in
      case on_mgr s (UpdateHeartbeat (le_mgr L) now (ls_mgr s) agentID) of
        (s', Some e) \<Rightarrow>
          if is_panic e then (s', Some e) else log_err (SendMessageToAgent L s' agentID (HeartbeatNack True))
      | (s', None) \<Rightarrow>
          and_then (log_err (SendMessageToAgent L s' agentID
            (HeartbeatAck now (GetServiceCIDR (le_mgr L)) (GetPodCIDRs (le_mgr L)) (SequenceNumber m)))) (\<lambda>s.
            case hb_UpdateInfo m of
              None \<Rightarrow> (s, None)
            | Some info \<Rightarrow> log_err (on_mgr s (ApplyAgentUpdate (le_mgr L) now (ls_mgr s) agentID info))))"

text \<open>The body of the loop of \<open>processMessages\<close> for one message.\<close>

definition process_message :: "'d listener_env \<Rightarrow> int \<Rightarrow> nat \<Rightarrow> string \<Rightarrow> 'd listener \<Rightarrow> 'd listener \<times> err option" where
  "process_message L now p msg s =
     (case le_Unmarshal L msg of
        Inl _ \<Rightarrow> (s, None)
      | Inr pb \<Rightarrow>
          (case pb of
             HeartbeatMessage m \<Rightarrow> onAgentHeartbeat L now p m s
           | RegisterAgentRequest m \<Rightarrow> onAgentRegisterRequest L now p m s
           | NilMessage \<Rightarrow> (s, Some nil_deref)
           | _ \<Rightarrow> (s, None)))"

section \<open>Steps\<close>

definition set_pc :: "nat \<Rightarrow> handler_pc \<Rightarrow> 'd listener \<Rightarrow> 'd listener" where
  "set_pc p pc s = handler_upd p (\<lambda>h. h\<lparr>ah_pc := pc\<rparr>) s"

inductive listener_step :: "'d listener_env \<Rightarrow> 'd listener \<Rightarrow> 'd listener \<Rightarrow> bool" for L where
  initialize: "ls_main s = Free \<Longrightarrow> log_err (Initialize L s) = (s', None) \<Longrightarrow> listener_step L s s'"
| handle: "ls_main s = Free \<Longrightarrow> HandleMessage L s msg = (s', None) \<Longrightarrow> listener_step L s s'"
| sent_to: "ls_main s = Sending p msg \<Longrightarrow> length (MsgChannel (ls_handlers s ! p)) < channel_size \<Longrightarrow>
    listener_step L s (to_handler p msg (s\<lparr>ls_main := Free\<rparr>))"
| stop: "ls_main s = Free \<Longrightarrow> mset ps = mset (map snd (agentMap s)) \<Longrightarrow> listener_step L s (s\<lparr>ls_main := Stopping ps\<rparr>)"
| stop_close: "ls_main s = Stopping (p # ps) \<Longrightarrow> listener_step L s (close_quit p s)"
| stop_wait: "ls_main s = Stopping (p # ps) \<Longrightarrow> quitCh (ls_handlers s ! p) \<Longrightarrow> wg_done s p \<Longrightarrow>
    listener_step L s (s\<lparr>ls_main := Stopping ps\<rparr>)"
| stop_end: "ls_main s = Stopping [] \<Longrightarrow> listener_step L s (s\<lparr>ls_main := Free\<rparr>)"
| start: "p < length (ls_handlers s) \<Longrightarrow> ah_pc (ls_handlers s ! p) = Starting \<Longrightarrow> listener_step L s (set_pc p Looping s)"
| poll: "p < length (ls_handlers s) \<Longrightarrow> ah_pc (ls_handlers s ! p) = Looping \<Longrightarrow> \<not> quitCh (ls_handlers s ! p) \<Longrightarrow>
    listener_step L s (set_pc p Selecting s)"
| quit: "p < length (ls_handlers s) \<Longrightarrow> ah_pc (ls_handlers s ! p) = Looping \<or> ah_pc (ls_handlers s ! p) = Selecting \<Longrightarrow>
    quitCh (ls_handlers s ! p) \<Longrightarrow> listener_step L s (set_pc p Leaving s)"
| timeout: "p < length (ls_handlers s) \<Longrightarrow> ah_pc (ls_handlers s ! p) = Selecting \<Longrightarrow> listener_step L s (set_pc p Leaving s)"
| process: "p < length (ls_handlers s) \<Longrightarrow> ah_pc (ls_handlers s ! p) = Selecting \<Longrightarrow>
    MsgChannel (ls_handlers s ! p) = msg # msgs \<Longrightarrow>
    process_message L now p msg (handler_upd p (\<lambda>h. h\<lparr>MsgChannel := msgs, ah_pc := Looping\<rparr>) s) = (s', None) \<Longrightarrow>
    listener_step L s s'"
| resume: "p < length (ls_handlers s) \<Longrightarrow> ah_pc (ls_handlers s ! p) = Waiting q m \<Longrightarrow> wg_done s q \<Longrightarrow>
    register_agent_rest L now p m (set_pc p Looping s) = (s', None) \<Longrightarrow> listener_step L s s'"
| leave_agent: "p < length (ls_handlers s) \<Longrightarrow> ah_pc (ls_handlers s ! p) = Leaving \<Longrightarrow>
    mgr_DeleteAgent (le_mgr L) (ls_mgr s) (ah_id (ls_handlers s ! p)) = (m', None) \<Longrightarrow>
    listener_step L s (set_pc p AgentDeleted (s\<lparr>ls_mgr := m'\<rparr>))"
| leave_map: "p < length (ls_handlers s) \<Longrightarrow> ah_pc (ls_handlers s ! p) = AgentDeleted \<Longrightarrow>
    deleteAgent L s (ah_id (ls_handlers s ! p)) = (s', None) \<Longrightarrow> listener_step L s (set_pc p Unmapped s')"
| leave_tracepoints: "p < length (ls_handlers s) \<Longrightarrow> ah_pc (ls_handlers s ! p) = Unmapped \<Longrightarrow>
    log_err (tpm_DeleteAgent (le_tp L) (ls_mgr s) (ah_id (ls_handlers s ! p))) = (m', None) \<Longrightarrow>
    listener_step L s (set_pc p Finished (s\<lparr>ls_mgr := m'\<rparr>))"
| deploy: "ls_jobs s = agt # jobs \<Longrightarrow> register_tracepoints L agt (ls_mgr s) = (m', None) \<Longrightarrow>
    listener_step L s (s\<lparr>ls_mgr := m', ls_jobs := jobs\<rparr>)"

end
