(* ===== verification/AgentTopicListenerCorrect.thy ===== *)
theory AgentTopicListenerCorrect
  imports AgentTopicListener TracepointCorrect
begin

text \<open>
  The interleavings of the goroutines of the listener. The first result is that an agent has at
  most one handler that is still in use, whatever the order of messages, timeouts and stops. The
  second is a deadlock: an agent that registers again from the host it is known at makes its handler
  wait for itself, for ever, and once the channel of that handler is full no message of any agent is
  handled any more.
\<close>

section \<open>Parts of the state that an operation leaves alone\<close>

definition same :: "'d listener \<Rightarrow> 'd listener \<Rightarrow> bool" where
  "same s s' \<longleftrightarrow> ls_handlers s' = ls_handlers s \<and> agentMap s' = agentMap s \<and> ls_main s' = ls_main s"

lemma same_refl [simp]: "same s s"
  by (simp add: same_def)

lemma same_trans: "same s t \<Longrightarrow> same t u \<Longrightarrow> same s u"
  by (simp add: same_def)

lemma same_upd [simp]: "same (s\<lparr>ls_mgr := m\<rparr>) t = same s t" "same s (t\<lparr>ls_mgr := m\<rparr>) = same s t" "same s (t\<lparr>ls_jobs := js\<rparr>) = same s t"
  by (simp_all add: same_def)

lemma same_on_mgr [simp]: "same s (fst (on_mgr s r))"
  by (simp add: on_mgr_def same_def split: prod.splits)

lemma fst_log_err [simp]: "fst (log_err r) = fst r"
  by (simp add: log_err_def split: prod.splits option.splits)

lemma same_send [simp]: "same s (fst (SendMessageToAgent L s i msg))"
  by (simp add: SendMessageToAgent_def with_res_def split: sum.splits)

lemma same_and_then: "same s (fst r) \<Longrightarrow> (\<And>t. same t (fst (f t))) \<Longrightarrow> same s (fst (and_then r f))"
  by (auto simp: and_then_def split: prod.splits option.splits intro: same_trans)

lemma same_heartbeat: "same s (fst (onAgentHeartbeat L now p m s))"
proof -
  obtain s' e where r: "on_mgr s (UpdateHeartbeat (le_mgr L) now (ls_mgr s) (ah_id (ls_handlers s ! p))) = (s', e)" by fastforce
  have "same s s'" using same_on_mgr r by (metis fst_conv)
  moreover have "same s' (fst (and_then (log_err (SendMessageToAgent L s' i r')) f))" if "\<And>t. same t (fst (f t))" for i r' f
    by (rule same_and_then) (simp_all add: that)
  ultimately show ?thesis unfolding onAgentHeartbeat_def Let_def r
    by (auto split: option.splits intro: same_trans intro!: same_and_then)
qed

lemma same_register_rest: "same s (fst (register_agent_rest L now p m s))"
proof -
  have "same s (fst (and_then (SendMessageToAgent L (s\<lparr>ls_mgr := m'\<rparr>) i r) (\<lambda>s. (s\<lparr>ls_jobs := ls_jobs s @ [agt]\<rparr>, None))))" for m' i r agt
  proof -
    have "same (s\<lparr>ls_mgr := m'\<rparr>) (fst (and_then (SendMessageToAgent L (s\<lparr>ls_mgr := m'\<rparr>) i r) (\<lambda>s. (s\<lparr>ls_jobs := ls_jobs s @ [agt]\<rparr>, None))))"
      by (rule same_and_then [OF same_send]) simp
    then show ?thesis unfolding same_upd .
  qed
  then show ?thesis by (simp add: register_agent_rest_def Let_def split: option.splits prod.splits sum.splits)
qed

section \<open>One handler for an agent\<close>

definition in_use :: "agent_handler \<Rightarrow> bool" where
  "in_use h \<longleftrightarrow> ah_pc h \<noteq> Unmapped \<and> ah_pc h \<noteq> Finished"

text \<open>The map leads to the handlers in use, and to all of them.\<close>

definition handlers_ok :: "(uuid \<times> bool) list \<Rightarrow> (uuid, nat) gomap \<Rightarrow> bool" where
  "handlers_ok hs m \<longleftrightarrow> gomap_ok m \<and> (\<forall>i p. map_of m i = Some p \<longleftrightarrow> p < length hs \<and> hs ! p = (i, True))"

definition outline :: "'d listener \<Rightarrow> (uuid \<times> bool) list" where
  "outline s = map (\<lambda>h. (ah_id h, in_use h)) (ls_handlers s)"

definition listener_inv :: "'d listener \<Rightarrow> bool" where
  "listener_inv s \<longleftrightarrow> handlers_ok (outline s) (agentMap s) \<and>
     list_all (\<lambda>h. length (MsgChannel h) \<le> channel_size) (ls_handlers s)"

lemma listener_inv_same: "same s t \<Longrightarrow> listener_inv s \<Longrightarrow> listener_inv t"
  by (simp add: listener_inv_def same_def outline_def)

lemma listener_inv_main [simp]: "listener_inv (s\<lparr>ls_main := x\<rparr>) = listener_inv s"
  by (simp add: listener_inv_def outline_def)

lemma handler_upd_inv:
  assumes inv: "listener_inv s"
    and f: "p < length (ls_handlers s) \<Longrightarrow> ah_id (f (ls_handlers s ! p)) = ah_id (ls_handlers s ! p) \<and>
      in_use (f (ls_handlers s ! p)) = in_use (ls_handlers s ! p) \<and>
      length (MsgChannel (f (ls_handlers s ! p))) \<le> channel_size"
  shows "listener_inv (handler_upd p f s)"
proof (cases "p < length (ls_handlers s)")
  case True
  have "outline (handler_upd p f s) = (outline s)[p := outline s ! p]"
    using f [OF True] True by (simp add: outline_def handler_upd_def map_update)
  then have o: "outline (handler_upd p f s) = outline s" by simp
  have "list_all (\<lambda>h. length (MsgChannel h) \<le> channel_size) ((ls_handlers s)[p := f (ls_handlers s ! p)])"
    using inv f [OF True] by (auto simp: listener_inv_def list_all_iff dest!: set_update_subset_insert [THEN subsetD])
  with inv show ?thesis unfolding listener_inv_def o by (simp add: handler_upd_def)
next
  case False
  then have "handler_upd p f s = s" by (simp add: handler_upd_def list_update_beyond)
  with inv show ?thesis by simp
qed

lemma listener_inv_channel: "listener_inv s \<Longrightarrow> p < length (ls_handlers s) \<Longrightarrow> length (MsgChannel (ls_handlers s ! p)) \<le> channel_size"
  by (simp add: listener_inv_def list_all_length)

lemma listener_inv_map:
  assumes "listener_inv s" and "p < length (ls_handlers s)" and "in_use (ls_handlers s ! p)"
  shows "map_of (agentMap s) (ah_id (ls_handlers s ! p)) = Some p"
proof -
  have "map_of (agentMap s) i = Some q \<longleftrightarrow> q < length (outline s) \<and> outline s ! q = (i, True)" for i q
    using assms(1) by (simp add: listener_inv_def handlers_ok_def)
  from this [of "ah_id (ls_handlers s ! p)" p] assms(2,3) show ?thesis by (simp add: outline_def)
qed

lemma to_handler_inv: "listener_inv s \<Longrightarrow> listener_inv (to_handler p msg s)"
  by (auto simp: to_handler_def in_use_def intro!: handler_upd_inv)

lemma close_quit_inv: "listener_inv s \<Longrightarrow> listener_inv (close_quit p s)"
  unfolding close_quit_def by (rule handler_upd_inv) (auto simp: in_use_def listener_inv_channel)

lemma set_pc_inv:
  assumes "listener_inv s" and "p < length (ls_handlers s) \<Longrightarrow> in_use (ls_handlers s ! p) = (pc \<noteq> Unmapped \<and> pc \<noteq> Finished)"
  shows "listener_inv (set_pc p pc s)"
  unfolding set_pc_def by (rule handler_upd_inv) (use assms listener_inv_channel in \<open>auto simp: in_use_def\<close>)

lemma createAgentHandler_inv:
  assumes inv: "listener_inv s"
  shows "listener_inv (fst (createAgentHandler s i))"
proof (cases "map_of (agentMap s) i")
  case None
  let ?n = "length (ls_handlers s)"
  have l: "length (outline s) = ?n" by (simp add: outline_def)
  have ok: "gomap_ok (agentMap s)" "map_of (agentMap s) j = Some p \<longleftrightarrow> p < ?n \<and> outline s ! p = (j, True)" for j p
    using inv l by (simp_all add: listener_inv_def handlers_ok_def)
  have "map_of (AList.update i ?n (agentMap s)) j = Some p \<longleftrightarrow> p < Suc ?n \<and> (outline s @ [(i, True)]) ! p = (j, True)" for j p
    using ok(2) [of j p] None l by (cases "j = i") (auto simp: nth_append less_Suc_eq)
  then have "handlers_ok (outline s @ [(i, True)]) (AList.update i ?n (agentMap s))"
    using ok(1) l by (simp add: handlers_ok_def)
  with inv None show ?thesis by (simp add: createAgentHandler_def listener_inv_def outline_def in_use_def)
next
  case (Some p)
  with inv show ?thesis by (simp add: createAgentHandler_def)
qed

lemma create_handlers_inv: "listener_inv s \<Longrightarrow> listener_inv (fst (create_handlers s agts))"
  by (induction s agts rule: create_handlers.induct)
    (auto simp: with_res_def createAgentHandler_inv split: option.splits sum.splits)

lemma Initialize_inv: "listener_inv s \<Longrightarrow> listener_inv (fst (Initialize L s))"
  by (simp add: Initialize_def with_res_def create_handlers_inv split: sum.splits)

lemma HandleMessage_inv:
  assumes "listener_inv s"
  shows "listener_inv (fst (HandleMessage L s msg))"
proof -
  have "listener_inv (fst (forwardAgentHeartBeat L s m msg))" for m
    using assms listener_inv_same [OF same_send assms]
    by (simp add: forwardAgentHeartBeat_def to_handler_inv split: sum.splits option.splits)
  moreover have "listener_inv (fst (forwardAgentRegisterRequest s m msg))" for m
  proof -
    have "listener_inv t" if "createAgentHandler s i = (t, q)" for i t q
      using createAgentHandler_inv [OF assms, of i] that by simp
    then show ?thesis using assms
      by (simp add: forwardAgentRegisterRequest_def to_handler_inv split: sum.splits option.splits prod.splits)
  qed
  moreover have "listener_inv (fst (onAgentTracepointMessage L s m))" for m
    using assms listener_inv_same [OF same_on_mgr assms]
    by (simp add: onAgentTracepointMessage_def onAgentTracepointInfoUpdate_def split: tracepoint_message.splits)
  ultimately show ?thesis using assms by (simp add: HandleMessage_def split: sum.splits vizier_message.splits)
qed

lemma onAgentRegisterRequest_inv:
  assumes "listener_inv s" and "p < length (ls_handlers s) \<Longrightarrow> ah_pc (ls_handlers s ! p) = Looping"
  shows "listener_inv (fst (onAgentRegisterRequest L now p m s))"
proof -
  have q: "listener_inv (close_quit q s)" for q using assms(1) by (rule close_quit_inv)
  have pc: "ah_pc (ls_handlers (close_quit q s) ! p) = Looping" if "p < length (ls_handlers (close_quit q s))" for q
    using assms(2) that by (cases "p = q") (simp_all add: close_quit_def handler_upd_def)
  have "listener_inv (set_pc p (Waiting q m) (close_quit q s))" for q
    by (rule set_pc_inv [OF q]) (use pc in \<open>simp add: in_use_def\<close>)
  with assms(1) q show ?thesis
    by (auto simp: onAgentRegisterRequest_def set_pc_def with_res_def Let_def split: sum.splits option.splits
        intro: listener_inv_same [OF same_register_rest])
qed

lemma process_message_inv:
  assumes "listener_inv s" and "p < length (ls_handlers s) \<Longrightarrow> ah_pc (ls_handlers s ! p) = Looping"
  shows "listener_inv (fst (process_message L now p msg s))"
  using assms onAgentRegisterRequest_inv [OF assms] listener_inv_same [OF same_heartbeat assms(1)]
  by (simp add: process_message_def split: sum.splits vizier_message.splits)

lemma unmap_inv:
  assumes inv: "listener_inv s" and p: "p < length (ls_handlers s)" "ah_pc (ls_handlers s ! p) = AgentDeleted"
    and d: "deleteAgent L s (ah_id (ls_handlers s ! p)) = (s', None)"
  shows "listener_inv (set_pc p Unmapped s')"
proof -
  let ?i = "ah_id (ls_handlers s ! p)"
  define t where "t = fst (SendMessageToAgent L s ?i (HeartbeatNack False))"
  have t: "same s t" "s' = t\<lparr>agentMap := AList.delete ?i (agentMap t)\<rparr>"
    using d by (auto simp: t_def deleteAgent_def and_then_None_iff dest!: arg_cong [where f = fst])
  have o: "outline (set_pc p Unmapped s') = (outline s)[p := (?i, False)]"
    using t p by (simp add: outline_def set_pc_def handler_upd_def same_def map_update in_use_def)
  have l: "length (outline s) = length (ls_handlers s)" by (simp add: outline_def)
  have ok: "gomap_ok (agentMap s)" "map_of (agentMap s) j = Some q \<longleftrightarrow> q < length (ls_handlers s) \<and> outline s ! q = (j, True)" for j q
    using inv l by (simp_all add: listener_inv_def handlers_ok_def)
  have pi: "outline s ! p = (?i, True)" using p by (simp add: outline_def in_use_def)
  have "map_of (AList.delete ?i (agentMap s)) j = Some q \<longleftrightarrow>
      q < length (ls_handlers s) \<and> (outline s)[p := (?i, False)] ! q = (j, True)" for j q
  proof (cases "j = ?i")
    case True
    have "q = p" if "q < length (ls_handlers s)" "outline s ! q = (?i, True)" using ok(2) [of ?i q] ok(2) [of ?i p] that p(1) pi by simp
    then show ?thesis using True p(1) l by (auto simp: nth_list_update)
  next
    case False
    then show ?thesis using ok(2) [of j q] p(1) l pi by (auto simp: nth_list_update)
  qed
  then have "handlers_ok ((outline s)[p := (?i, False)]) (AList.delete ?i (agentMap s))" using ok(1) l by (simp add: handlers_ok_def)
  moreover have "list_all (\<lambda>h. length (MsgChannel h) \<le> channel_size) (ls_handlers (set_pc p Unmapped s'))"
    using inv p(1) t listener_inv_channel [OF inv p(1)]
    by (auto simp: listener_inv_def set_pc_def handler_upd_def same_def list_all_iff dest!: set_update_subset_insert [THEN subsetD])
  ultimately show ?thesis unfolding listener_inv_def o using t by (simp add: set_pc_def handler_upd_def same_def)
qed

lemma listener_step_inv:
  assumes "listener_step L s s'" and inv: "listener_inv s"
  shows "listener_inv s'"
  using assms(1)
proof cases
  case initialize
  then show ?thesis using Initialize_inv [OF inv, of L] by (metis fst_conv fst_log_err)
next
  case (handle msg)
  then show ?thesis using HandleMessage_inv [OF inv, of L msg] by simp
next
  case (sent_to p msg)
  then show ?thesis using inv by (simp add: to_handler_inv)
next
  case (stop ps)
  then show ?thesis using inv by simp
next
  case (stop_close p ps)
  then show ?thesis using inv by (simp add: close_quit_inv)
next
  case (stop_wait p ps)
  then show ?thesis using inv by simp
next
  case stop_end
  then show ?thesis using inv by simp
next
  case (start p)
  then show ?thesis using inv by (simp add: set_pc_inv in_use_def)
next
  case (poll p)
  then show ?thesis using inv by (simp add: set_pc_inv in_use_def)
next
  case (quit p)
  then show ?thesis using inv by (auto simp: set_pc_inv in_use_def)
next
  case (timeout p)
  then show ?thesis using inv by (simp add: set_pc_inv in_use_def)
next
  case (process p msg msgs now)
  let ?s = "handler_upd p (\<lambda>h. h\<lparr>MsgChannel := msgs, ah_pc := Looping\<rparr>) s"
  have "listener_inv ?s" using inv process listener_inv_channel [OF inv process(1)]
    by (intro handler_upd_inv) (auto simp: in_use_def)
  moreover have "ah_pc (ls_handlers ?s ! p) = Looping" using process by (simp add: handler_upd_def)
  ultimately show ?thesis using process_message_inv [of ?s p L now msg] process by simp
next
  case (resume p q m now)
  have "listener_inv (set_pc p Looping s)" using inv resume by (simp add: set_pc_inv in_use_def)
  from listener_inv_same [OF same_register_rest this] resume show ?thesis by (metis fst_conv)
next
  case (leave_agent p m')
  have "listener_inv (s\<lparr>ls_mgr := m'\<rparr>)" using inv by (simp add: listener_inv_def outline_def)
  then show ?thesis using leave_agent by (simp add: set_pc_inv in_use_def)
next
  case (leave_map p t)
  then show ?thesis using unmap_inv [OF inv] by simp
next
  case (leave_tracepoints p m')
  have "listener_inv (s\<lparr>ls_mgr := m'\<rparr>)" using inv by (simp add: listener_inv_def outline_def)
  then show ?thesis using leave_tracepoints by (simp add: set_pc_inv in_use_def)
next
  case (deploy agt jobs m')
  then show ?thesis using inv by (simp add: listener_inv_def outline_def)
qed

lemma listener_reachable_inv: "(listener_step L)\<^sup>*\<^sup>* s s' \<Longrightarrow> listener_inv s \<Longrightarrow> listener_inv s'"
  by (induction rule: rtranclp_induct) (auto intro: listener_step_inv)

lemma new_listener_inv: "NewAgentTopicListener L m = (s, e) \<Longrightarrow> listener_inv s"
  using Initialize_inv [of "\<lparr>ls_mgr = m, ls_handlers = [], agentMap = [], ls_main = Free, ls_jobs = []\<rparr>" L]
  by (simp add: NewAgentTopicListener_def listener_inv_def handlers_ok_def outline_def)

section \<open>A handler that waits for itself\<close>

text \<open>What an operation may change of a handler it does not run: nothing but the closed channel.\<close>

definition apart :: "nat \<Rightarrow> 'd listener \<Rightarrow> 'd listener \<Rightarrow> bool" where
  "apart p s s' \<longleftrightarrow> length (ls_handlers s') = length (ls_handlers s) \<and> ls_main s' = ls_main s \<and>
     ah_pc (ls_handlers s' ! p) = ah_pc (ls_handlers s ! p) \<and> MsgChannel (ls_handlers s' ! p) = MsgChannel (ls_handlers s ! p)"

lemma apart_same: "same s t \<Longrightarrow> apart p s t"
  by (simp add: same_def apart_def)

lemma apart_trans: "apart p s t \<Longrightarrow> apart p t u \<Longrightarrow> apart p s u"
  by (simp add: apart_def)

lemma apart_upd: "q \<noteq> p \<Longrightarrow> apart p s (handler_upd q f s)"
  by (simp add: apart_def handler_upd_def)

lemma apart_set_pc: "q \<noteq> p \<Longrightarrow> apart p s (set_pc q pc s)"
  unfolding set_pc_def by (rule apart_upd)

lemma apart_quit: "apart p s (close_quit q s)"
  by (cases "q = p"; cases "p < length (ls_handlers s)") (simp_all add: apart_def close_quit_def handler_upd_def list_update_beyond)

lemma apart_process:
  assumes "q \<noteq> p"
  shows "apart p s (fst (process_message L now q msg s))"
proof -
  have "apart p s (fst (onAgentRegisterRequest L now q m s))" for m
  proof (cases "registered_at_host L s m")
    case (Inl e)
    then show ?thesis by (simp add: onAgentRegisterRequest_def apart_same)
  next
    case (Inr r)
    have rest: "apart p t (fst (register_agent_rest L now q m t))" for t using same_register_rest by (rule apart_same)
    then have "apart p s (fst (register_agent_rest L now q m (close_quit q' s)))"
      "apart p s (handler_upd q f (close_quit q' s))" for q' f
      using apart_trans [OF apart_quit] apart_upd [OF assms] by blast+
    with Inr rest show ?thesis
      by (auto simp: onAgentRegisterRequest_def Let_def apart_same split: option.splits)
  qed
  moreover have "apart p s (fst (onAgentHeartbeat L now q m s))" for m using same_heartbeat by (rule apart_same)
  ultimately show ?thesis by (simp add: process_message_def apart_same split: sum.splits vizier_message.splits)
qed

lemma keeps_waiting_create:
  "p < length (ls_handlers s) \<Longrightarrow> p < length (ls_handlers (fst (createAgentHandler s i))) \<and>
    ah_pc (ls_handlers (fst (createAgentHandler s i)) ! p) = ah_pc (ls_handlers s ! p)"
  by (simp add: createAgentHandler_def nth_append split: option.splits)

lemma keeps_waiting_creates:
  "p < length (ls_handlers s) \<Longrightarrow> p < length (ls_handlers (fst (create_handlers s agts))) \<and>
    ah_pc (ls_handlers (fst (create_handlers s agts)) ! p) = ah_pc (ls_handlers s ! p)"
proof (induction s agts rule: create_handlers.induct)
  case (2 s agt agts)
  then show ?case using keeps_waiting_create [of p s]
    by (auto simp: with_res_def split: option.splits sum.splits)
qed simp

lemma keeps_waiting_to:
  "p < length (ls_handlers s) \<Longrightarrow> p < length (ls_handlers (to_handler q msg s)) \<and>
    ah_pc (ls_handlers (to_handler q msg s) ! p) = ah_pc (ls_handlers s ! p)"
  by (cases "q = p") (simp_all add: to_handler_def handler_upd_def)

lemma keeps_waiting_handle:
  assumes "p < length (ls_handlers s)"
  shows "p < length (ls_handlers (fst (HandleMessage L s msg))) \<and>
    ah_pc (ls_handlers (fst (HandleMessage L s msg)) ! p) = ah_pc (ls_handlers s ! p)"
proof -
  let ?ok = "\<lambda>t. p < length (ls_handlers t) \<and> ah_pc (ls_handlers t ! p) = ah_pc (ls_handlers s ! p)"
  have same: "?ok t" if "same s t" for t using that assms by (simp add: same_def)
  have "?ok (fst (forwardAgentHeartBeat L s m msg))" for m
    using same [OF same_send] keeps_waiting_to [OF assms] assms
    by (simp add: forwardAgentHeartBeat_def split: sum.splits option.splits)
  moreover have "?ok (fst (forwardAgentRegisterRequest s m msg))" for m
  proof -
    have "?ok (to_handler q msg t)" if "createAgentHandler s i = (t, q)" for i t q
      using keeps_waiting_create [OF assms, of i] keeps_waiting_to [of p t q msg] that by simp
    then show ?thesis using assms by (simp add: forwardAgentRegisterRequest_def split: sum.splits option.splits prod.splits)
  qed
  moreover have "?ok (fst (onAgentTracepointMessage L s m))" for m
    using same [OF same_on_mgr] assms by (simp add: onAgentTracepointMessage_def onAgentTracepointInfoUpdate_def split: tracepoint_message.splits)
  ultimately show ?thesis using assms by (simp add: HandleMessage_def split: sum.splits vizier_message.splits)
qed

definition self_waiting :: "nat \<Rightarrow> register_agent \<Rightarrow> 'd listener \<Rightarrow> bool" where
  "self_waiting p m s \<longleftrightarrow> p < length (ls_handlers s) \<and> ah_pc (ls_handlers s ! p) = Waiting p m"

definition blocked_on :: "nat \<Rightarrow> string \<Rightarrow> 'd listener \<Rightarrow> bool" where
  "blocked_on p msg s \<longleftrightarrow> ls_main s = Sending p msg \<and> channel_size \<le> length (MsgChannel (ls_handlers s ! p))"

lemma apart_waits: "apart p s t \<Longrightarrow> self_waiting p m s \<Longrightarrow> self_waiting p m t \<and> (blocked_on p b s \<longrightarrow> blocked_on p b t)"
  by (simp add: apart_def self_waiting_def blocked_on_def)

lemma step_waits:
  assumes "listener_step L s s'" and w: "self_waiting p m s"
  shows "self_waiting p m s' \<and> (blocked_on p b s \<longrightarrow> blocked_on p b s')"
  using assms(1)
proof cases
  case initialize
  then have "s' = fst (Initialize L s)" by (metis fst_conv fst_log_err)
  then show ?thesis using w keeps_waiting_creates [of p s] initialize(1)
    by (auto simp: Initialize_def with_res_def self_waiting_def blocked_on_def split: sum.splits)
next
  case (handle msg)
  then show ?thesis using w keeps_waiting_handle [of p s L msg] by (simp add: self_waiting_def blocked_on_def)
next
  case (sent_to q msg)
  then show ?thesis using w keeps_waiting_to [of p "s\<lparr>ls_main := Free\<rparr>" q msg] by (auto simp: self_waiting_def blocked_on_def)
next
  case (stop ps)
  then show ?thesis using w by (simp add: self_waiting_def blocked_on_def)
next
  case (stop_close q ps)
  then show ?thesis using apart_waits [OF apart_quit w] by simp
next
  case (stop_wait q ps)
  then show ?thesis using w by (simp add: self_waiting_def blocked_on_def)
next
  case stop_end
  then show ?thesis using w by (simp add: self_waiting_def blocked_on_def)
next
  case (start q)
  then have "q \<noteq> p" using w by (auto simp: self_waiting_def)
  then show ?thesis using start apart_waits [OF apart_set_pc w] by simp
next
  case (poll q)
  then have "q \<noteq> p" using w by (auto simp: self_waiting_def)
  then show ?thesis using poll apart_waits [OF apart_set_pc w] by simp
next
  case (quit q)
  then have "q \<noteq> p" using w by (auto simp: self_waiting_def)
  then show ?thesis using quit apart_waits [OF apart_set_pc w] by simp
next
  case (timeout q)
  then have "q \<noteq> p" using w by (auto simp: self_waiting_def)
  then show ?thesis using timeout apart_waits [OF apart_set_pc w] by simp
next
  case (process q msg msgs now)
  then have q: "q \<noteq> p" using w by (auto simp: self_waiting_def)
  have "apart p s (fst (process_message L now q msg (handler_upd q (\<lambda>h. h\<lparr>MsgChannel := msgs, ah_pc := Looping\<rparr>) s)))"
    using apart_trans [OF apart_upd [OF q] apart_process [OF q]] .
  then show ?thesis using process apart_waits [OF _ w] by simp
next
  case (resume q r m' now)
  then have q: "q \<noteq> p" using w by (auto simp: self_waiting_def wg_done_def)
  have "apart p s (fst (register_agent_rest L now q m' (set_pc q Looping s)))"
    using apart_trans [OF apart_set_pc [OF q] apart_same [OF same_register_rest]] .
  then show ?thesis using resume apart_waits [OF _ w] by simp
next
  case (leave_agent q m')
  then have q: "q \<noteq> p" using w by (auto simp: self_waiting_def)
  have "apart p s (set_pc q AgentDeleted (s\<lparr>ls_mgr := m'\<rparr>))"
    by (rule apart_trans [OF apart_same apart_set_pc [OF q]]) simp
  then show ?thesis using leave_agent apart_waits [OF _ w] by simp
next
  case (leave_map q t)
  then have q: "q \<noteq> p" using w by (auto simp: self_waiting_def)
  have "same s (fst (SendMessageToAgent L s (ah_id (ls_handlers s ! q)) (HeartbeatNack False)))" by simp
  then have "apart p s t" using leave_map(4)
    by (auto simp: deleteAgent_def and_then_None_iff same_def apart_def dest!: arg_cong [where f = fst])
  then have "apart p s (set_pc q Unmapped t)" using apart_trans apart_set_pc [OF q] by blast
  then show ?thesis using leave_map apart_waits [OF _ w] by simp
next
  case (leave_tracepoints q m')
  then have q: "q \<noteq> p" using w by (auto simp: self_waiting_def)
  have "apart p s (set_pc q Finished (s\<lparr>ls_mgr := m'\<rparr>))"
    by (rule apart_trans [OF apart_same apart_set_pc [OF q]]) simp
  then show ?thesis using leave_tracepoints apart_waits [OF _ w] by simp
next
  case (deploy agt jobs m')
  then show ?thesis using w by (simp add: self_waiting_def blocked_on_def)
qed

lemma waits_forever:
  "(listener_step L)\<^sup>*\<^sup>* s s' \<Longrightarrow> self_waiting p m s \<Longrightarrow> self_waiting p m s' \<and> (blocked_on p b s \<longrightarrow> blocked_on p b s')"
proof (induction rule: rtranclp_induct)
  case (step t u)
  then show ?case using step_waits [OF step.hyps(2), of p m b] by blast
qed simp

section \<open>Concrete runs\<close>

definition sample_registration :: register_agent where
  "sample_registration = \<lparr>ra_Info = Some sample_info, ra_ASID = 1\<rparr>"

definition sample_listener_env :: "(string, string) gomap pebble_ds listener_env" where
  "sample_listener_env =
     \<lparr>le_tp = sample_tp_env,
      le_Unmarshal = (\<lambda>b. if b = ''r'' then Inr (RegisterAgentRequest sample_registration) else Inl (ErrMsg ''proto'')),
      le_Marshal = (\<lambda>_. Inr ''reply'')\<rparr>"

definition sample_listener :: "(string, string) gomap pebble_ds listener" where
  "sample_listener =
     \<lparr>ls_mgr = NewManager sample_store,
      ls_handlers = [\<lparr>ah_id = sample_id, MsgChannel = [''r''], quitCh = False, ah_pc = Selecting\<rparr>],
      agentMap = [(sample_id, 0)], ls_main = Free, ls_jobs = []\<rparr>"

lemma sample_listener_inv: "listener_inv sample_listener"
  by (auto simp: listener_inv_def handlers_ok_def outline_def sample_listener_def in_use_def channel_size_def)

section \<open>Properties\<close>

text \<open>
  C17. An agent never has two handlers in use. In every state that the listener reaches from its
  start, by any interleaving of messages, timeouts, stops and registrations, the map leads from an
  identifier exactly to the one handler in use of that agent, and no channel holds more than ten
  messages.
\<close>

theorem one_handler_per_agent:
  assumes "NewAgentTopicListener L m = (s0, None)" and "(listener_step L)\<^sup>*\<^sup>* s0 s"
    and "p < length (ls_handlers s)" and "in_use (ls_handlers s ! p)"
  shows "map_of (agentMap s) (ah_id (ls_handlers s ! p)) = Some p \<and>
    (\<forall>q<length (ls_handlers s). in_use (ls_handlers s ! q) \<and> ah_id (ls_handlers s ! q) = ah_id (ls_handlers s ! p) \<longrightarrow> q = p) \<and>
    length (MsgChannel (ls_handlers s ! p)) \<le> channel_size"
proof -
  have inv: "listener_inv s" using listener_reachable_inv [OF assms(2) new_listener_inv [OF assms(1)]] .
  have m: "map_of (agentMap s) (ah_id (ls_handlers s ! q)) = Some q" if "q < length (ls_handlers s)" "in_use (ls_handlers s ! q)" for q
    using inv that by (rule listener_inv_map)
  have "q = p" if "q < length (ls_handlers s)" "in_use (ls_handlers s ! q)" "ah_id (ls_handlers s ! q) = ah_id (ls_handlers s ! p)" for q
    using trans [OF m [OF that(1,2), unfolded that(3), symmetric] m [OF assms(3,4)]] by (rule option.inject [THEN iffD1])
  then have "\<forall>q<length (ls_handlers s). in_use (ls_handlers s ! q) \<and> ah_id (ls_handlers s ! q) = ah_id (ls_handlers s ! p) \<longrightarrow> q = p"
    by simp
  with m [OF assms(3,4)] listener_inv_channel [OF inv assms(3)] show ?thesis by (intro conjI)
qed

theorem one_handler_per_agent_witness:
  "\<exists>s0. NewAgentTopicListener sample_listener_env (NewManager sample_store) = (s0, None) \<and>
     length (ls_handlers s0) = 1 \<and> map_of (agentMap s0) (ah_id (ls_handlers s0 ! 0)) = Some 0"
proof -
  let ?r = "NewAgentTopicListener sample_listener_env (NewManager sample_store)"
  have e: "?r = (fst ?r, None)" by (rule prod_eqI) (simp, code_simp)
  have h: "length (ls_handlers (fst ?r)) = 1" "in_use (ls_handlers (fst ?r) ! 0)" by code_simp+
  from one_handler_per_agent [OF e rtranclp.rtrancl_refl, of 0] h
  have "map_of (agentMap (fst ?r)) (ah_id (ls_handlers (fst ?r) ! 0)) = Some 0" by simp
  with e h show ?thesis by metis
qed

text \<open>
  C23. An agent that registers again while the store still knows it at its host blocks its own
  handler: the handler stops the handler of the agent at that host, which is itself, and waits for
  itself to finish. It never does, whatever happens afterwards. Once the channel of the handler is
  full and the goroutine that receives the messages of all agents waits to send to it, that
  goroutine never handles another message.
\<close>

theorem reregistration_deadlocks:
  assumes "listener_inv s" and "uuid_ok (te_uuid (le_tp L))"
    and p: "p < length (ls_handlers s)" "ah_pc (ls_handlers s ! p) = Selecting"
    and ch: "MsgChannel (ls_handlers s ! p) = msg # msgs" "le_Unmarshal L msg = Inr (RegisterAgentRequest m)"
    and m: "ra_Info m = Some info" "Capabilities info = Some collects" "HostInfo info = Some host"
    and st: "mgr_GetAgentIDForHostnamePair (le_mgr L) (ls_mgr s)
        \<lparr>pair_Hostname = (if collects then [] else Hostname host), pair_IP = HostIP host\<rparr> =
      Inr (uuid_String (te_uuid (le_tp L)) (ah_id (ls_handlers s ! p)))"
  shows "\<exists>s1. listener_step L s s1 \<and>
    (\<forall>s2. (listener_step L)\<^sup>*\<^sup>* s1 s2 \<longrightarrow> ah_pc (ls_handlers s2 ! p) = Waiting p m \<and>
      (\<forall>b s3. ls_main s2 = Sending p b \<and> channel_size \<le> length (MsgChannel (ls_handlers s2 ! p)) \<and>
        (listener_step L)\<^sup>*\<^sup>* s2 s3 \<longrightarrow> ls_main s3 = Sending p b))"
proof -
  let ?U = "te_uuid (le_tp L)" and ?i = "ah_id (ls_handlers s ! p)"
  let ?s = "handler_upd p (\<lambda>h. h\<lparr>MsgChannel := msgs, ah_pc := Looping\<rparr>) s"
  have "in_use (ls_handlers s ! p)" using p(2) by (simp add: in_use_def)
  then have "map_of (agentMap s) ?i = Some p" by (rule listener_inv_map [OF assms(1) p(1)])
  moreover have "uuid_String ?U ?i \<noteq> []" "uuid_FromString ?U (uuid_String ?U ?i) = Inr ?i"
    using assms(2) by (auto simp: uuid_ok_def)
  ultimately have "registered_at_host L ?s m = Inr (Some p)"
    using m st by (auto simp: registered_at_host_def handler_upd_def)
  moreover let ?s1 = "handler_upd p (\<lambda>h. h\<lparr>ah_pc := Waiting p m\<rparr>) (close_quit p ?s)"
  have "\<not> wg_done (close_quit p ?s) p" using p by (simp add: wg_done_def close_quit_def handler_upd_def)
  ultimately have "process_message L 0 p msg ?s = (?s1, None)"
    using ch(2) by (simp add: process_message_def onAgentRegisterRequest_def Let_def)
  then have step: "listener_step L s ?s1" by (rule listener_step.process [OF p ch(1)])
  have w: "self_waiting p m ?s1" using p(1) by (simp add: self_waiting_def close_quit_def handler_upd_def)
  have "ah_pc (ls_handlers s2 ! p) = Waiting p m \<and>
      (\<forall>b s3. ls_main s2 = Sending p b \<and> channel_size \<le> length (MsgChannel (ls_handlers s2 ! p)) \<and>
        (listener_step L)\<^sup>*\<^sup>* s2 s3 \<longrightarrow> ls_main s3 = Sending p b)" if r: "(listener_step L)\<^sup>*\<^sup>* ?s1 s2" for s2
  proof -
    have w2: "self_waiting p m s2" using waits_forever [OF r w] by blast
    have "ls_main s3 = Sending p b" if "ls_main s2 = Sending p b \<and> channel_size \<le> length (MsgChannel (ls_handlers s2 ! p)) \<and>
        (listener_step L)\<^sup>*\<^sup>* s2 s3" for b s3
      using waits_forever [OF _ w2, of L s3 b] that unfolding blocked_on_def by blast
    with w2 show ?thesis unfolding self_waiting_def by blast
  qed
  with step show ?thesis by blast
qed

theorem reregistration_deadlocks_witness:
  "\<exists>s1. listener_step sample_listener_env sample_listener s1 \<and>
     (\<forall>s2. (listener_step sample_listener_env)\<^sup>*\<^sup>* s1 s2 \<longrightarrow> ah_pc (ls_handlers s2 ! 0) = Waiting 0 sample_registration)"
proof -
  have st: "mgr_GetAgentIDForHostnamePair (le_mgr sample_listener_env) (ls_mgr sample_listener)
      \<lparr>pair_Hostname = (if False then [] else Hostname sample_host), pair_IP = HostIP sample_host\<rparr> =
      Inr (uuid_String (te_uuid (le_tp sample_listener_env)) (ah_id (ls_handlers sample_listener ! 0)))"
    by code_simp
  have "te_uuid (le_tp sample_listener_env) = ref_uuid"
    by (simp add: sample_listener_env_def sample_tp_env_def sample_mgr_env_def sample_env_def)
  then have u: "uuid_ok (te_uuid (le_tp sample_listener_env))" by simp
  have "le_Unmarshal sample_listener_env ''r'' = Inr (RegisterAgentRequest sample_registration)"
    by (simp add: sample_listener_env_def)
  from reregistration_deadlocks [OF sample_listener_inv u _ _ _ this _ _ _ st, of "[]" sample_info]
  show ?thesis by (auto simp: sample_listener_def sample_registration_def sample_info_def)
qed

end
