(* ===== verification/ActiveSet.thy ===== *)
theory ActiveSet
  imports Prelude
begin

text \<open>
  The set of pods the adaptive export streams, and the path from an attribution to the filter of a
  table scanner: \<open>activeset/activeset.go\<close>, \<open>streaming/notifier.go\<close> and \<open>streaming/filter.go\<close> of
  \<open>vizier/services/adaptive_export/internal\<close>. A buffered channel is the list of its items, oldest first,
  with its capacity and an identity. A change of the set has two halves, the change under the lock and the
  broadcast after it, and \<open>stream_step\<close> interleaves them with the updater and the scanners.
\<close>

section \<open>Channels\<close>

record 'a channel =
  ch_id :: nat
  ch_cap :: nat
  ch_buf :: "'a list"

text \<open>
  A send that does not block: when the channel is full the oldest item is taken out first. The attempts are
  one step; a receiver that comes in between them could only make the send drop one more of the
  older items.
\<close>

definition offer :: "'a \<Rightarrow> 'a channel \<Rightarrow> 'a channel" where
  "offer x c =
     (if length (ch_buf c) < ch_cap c then c\<lparr>ch_buf := ch_buf c @ [x]\<rparr>
      else let b = tl (ch_buf c) in c\<lparr>ch_buf := (if length b < ch_cap c then b @ [x] else b)\<rparr>)"

section \<open>The set\<close>

record pod_key =
  key_Namespace :: string
  key_Pod :: string

definition key_Render :: "pod_key \<Rightarrow> string" where
  "key_Render k = (if key_Namespace k = [] then key_Pod k else key_Namespace k @ ''/'' @ key_Pod k)"

record delta =
  Added :: "pod_key list"
  Removed :: "pod_key list"
  delta_Version :: "64 word"

record active_set =
  members :: "(pod_key, int) gomap"
  set_version :: "64 word"
  set_subs :: "delta channel list"

definition set_New :: active_set where
  "set_New = \<lparr>members = [], set_version = 0, set_subs = []\<rparr>"

definition set_broadcast :: "delta \<Rightarrow> active_set \<Rightarrow> active_set" where
  "set_broadcast d s = s\<lparr>set_subs := map (offer d) (set_subs s)\<rparr>"

text \<open>The part of a change under the lock, with the delta that is broadcast afterwards.\<close>

definition upsert_locked :: "active_set \<Rightarrow> pod_key \<Rightarrow> int \<Rightarrow> active_set \<times> delta option" where
  "upsert_locked s k tEnd =
     (case map_of (members s) k of
        Some prev \<Rightarrow> (if tEnd > prev then s\<lparr>members := AList.update k tEnd (members s)\<rparr> else s, None)
      | None \<Rightarrow>
          (s\<lparr>members := AList.update k tEnd (members s), set_version := set_version s + 1\<rparr>,
           Some \<lparr>Added = [k], Removed = [], delta_Version = set_version s + 1\<rparr>))"

definition remove_locked :: "active_set \<Rightarrow> pod_key \<Rightarrow> active_set \<times> delta option" where
  "remove_locked s k =
     (if map_of (members s) k = None then (s, None)
      else (s\<lparr>members := AList.delete k (members s), set_version := set_version s + 1\<rparr>,
            Some \<lparr>Added = [], Removed = [k], delta_Version = set_version s + 1\<rparr>))"

definition prune_locked :: "(pod_key list \<Rightarrow> pod_key list) \<Rightarrow> active_set \<Rightarrow> int \<Rightarrow> active_set \<times> delta option" where
  "prune_locked rng s at =
     (let removed = map fst (filter (\<lambda>(k, tEnd). \<not> tEnd > at) (go_range rng (members s)))
      in if removed = [] then (s, None)
         else (s\<lparr>members := filter (\<lambda>(k, tEnd). tEnd > at) (members s), set_version := set_version s + 1\<rparr>,
               Some \<lparr>Added = [], Removed = removed, delta_Version = set_version s + 1\<rparr>))"

definition broadcast_opt :: "active_set \<times> delta option \<Rightarrow> active_set" where
  "broadcast_opt r = (case r of (s, None) \<Rightarrow> s | (s, Some d) \<Rightarrow> set_broadcast d s)"

definition Upsert :: "active_set \<Rightarrow> pod_key \<Rightarrow> int \<Rightarrow> active_set" where
  "Upsert s k tEnd = broadcast_opt (upsert_locked s k tEnd)"

definition Remove :: "active_set \<Rightarrow> pod_key \<Rightarrow> active_set" where
  "Remove s k = broadcast_opt (remove_locked s k)"

definition set_PruneExpired :: "(pod_key list \<Rightarrow> pod_key list) \<Rightarrow> active_set \<Rightarrow> int \<Rightarrow> active_set \<times> pod_key list" where
  "set_PruneExpired rng s at =
     (let r = prune_locked rng s at in (broadcast_opt r, case snd r of None \<Rightarrow> [] | Some d \<Rightarrow> Removed d))"

definition Snapshot :: "(pod_key list \<Rightarrow> pod_key list) \<Rightarrow> active_set \<Rightarrow> pod_key list \<times> 64 word" where
  "Snapshot rng s = (map fst (go_range rng (members s)), set_version s)"

definition Size :: "active_set \<Rightarrow> nat" where
  "Size s = length (members s)"

definition set_Subscribe :: "active_set \<Rightarrow> nat \<Rightarrow> int \<Rightarrow> active_set" where
  "set_Subscribe s ch buffer =
     s\<lparr>set_subs := set_subs s @ [\<lparr>ch_id = ch, ch_cap = nat (if buffer < 1 then 1 else buffer), ch_buf = []\<rparr>]\<rparr>"

definition SubscribeAndSnapshot :: "(pod_key list \<Rightarrow> pod_key list) \<Rightarrow> active_set \<Rightarrow> nat \<Rightarrow> int \<Rightarrow>
    active_set \<times> pod_key list \<times> 64 word" where
  "SubscribeAndSnapshot rng s ch buffer = (case Snapshot rng s of (keys, v) \<Rightarrow> (set_Subscribe s ch buffer, keys, v))"

fun drop_channel :: "nat \<Rightarrow> 'a channel list \<Rightarrow> 'a channel list" where
  "drop_channel ch [] = []"
| "drop_channel ch (c # cs) = (if ch_id c = ch then cs else c # drop_channel ch cs)"

definition Unsubscribe :: "active_set \<Rightarrow> nat \<Rightarrow> active_set" where
  "Unsubscribe s ch = s\<lparr>set_subs := drop_channel ch (set_subs s)\<rparr>"

section \<open>The notifier\<close>

datatype notify_event = NotifyUpsert pod_key int | NotifyRemove pod_key

record notifier =
  no_in :: "notify_event list"
  BufferSize :: nat
  dropped :: nat
  filtered :: nat

definition NewAttributionNotifier :: "int \<Rightarrow> notifier" where
  "NewAttributionNotifier bufferSize =
     \<lparr>no_in = [], BufferSize = nat (if bufferSize \<le> 0 then 1024 else bufferSize), dropped = 0, filtered = 0\<rparr>"

definition notifier_send :: "notifier \<Rightarrow> notify_event \<Rightarrow> notifier" where
  "notifier_send n e =
     (if length (no_in n) < BufferSize n then n\<lparr>no_in := no_in n @ [e]\<rparr>
      else let n1 = (if no_in n = [] then n else n\<lparr>no_in := tl (no_in n), dropped := Suc (dropped n)\<rparr>)
           in if length (no_in n1) < BufferSize n1 then n1\<lparr>no_in := no_in n1 @ [e]\<rparr>
              else n1\<lparr>dropped := Suc (dropped n1)\<rparr>)"

definition Submit :: "notifier \<Rightarrow> pod_key \<Rightarrow> int \<Rightarrow> notifier" where
  "Submit n k tEnd = (if key_Pod k = [] then n\<lparr>filtered := Suc (filtered n)\<rparr> else notifier_send n (NotifyUpsert k tEnd))"

definition SubmitRemove :: "notifier \<Rightarrow> pod_key \<Rightarrow> notifier" where
  "SubmitRemove n k = (if key_Pod k = [] then n\<lparr>filtered := Suc (filtered n)\<rparr> else notifier_send n (NotifyRemove k))"

definition SubmitFromController :: "notifier \<Rightarrow> string \<times> string \<times> int \<Rightarrow> notifier" where
  "SubmitFromController n = (\<lambda>(ns, pod, tEnd). Submit n \<lparr>key_Namespace = ns, key_Pod = pod\<rparr> tEnd)"

definition RemoveFromController :: "notifier \<Rightarrow> string \<times> string \<Rightarrow> notifier" where
  "RemoveFromController n = (\<lambda>(ns, pod). SubmitRemove n \<lparr>key_Namespace = ns, key_Pod = pod\<rparr>)"

definition notifier_apply :: "active_set \<Rightarrow> notify_event \<Rightarrow> active_set" where
  "notifier_apply s e = (case e of NotifyUpsert k tEnd \<Rightarrow> Upsert s k tEnd | NotifyRemove k \<Rightarrow> Remove s k)"

section \<open>The filter updater\<close>

datatype filter_mode = FilterModeAllowlist | FilterModeUnfiltered

record pod_filter =
  Mode :: filter_mode
  Pods :: "pod_key list"
  filter_Version :: "64 word"

record updater_config =
  Debounce :: int
  MaxAllowlistSize :: int
  SubscribeBuffer :: int

definition updater_defaulted :: "updater_config \<Rightarrow> updater_config" where
  "updater_defaulted c =
     \<lparr>Debounce = (if Debounce c \<le> 0 then Second else Debounce c),
      MaxAllowlistSize = (if MaxAllowlistSize c = 0 then 500 else MaxAllowlistSize c),
      SubscribeBuffer = (if SubscribeBuffer c \<le> 0 then 32 else SubscribeBuffer c)\<rparr>"

definition computeFilter :: "(pod_key list \<Rightarrow> pod_key list) \<Rightarrow> updater_config \<Rightarrow> active_set \<Rightarrow> pod_filter" where
  "computeFilter rng cfg s =
     (case Snapshot rng s of (keys, v) \<Rightarrow>
        if MaxAllowlistSize cfg > 0 \<and> int (length keys) > MaxAllowlistSize cfg
        then \<lparr>Mode = FilterModeUnfiltered, Pods = [], filter_Version = v\<rparr>
        else \<lparr>Mode = FilterModeAllowlist, Pods = keys, filter_Version = v\<rparr>)"

text \<open>
  The updater goroutine waits in its \<open>select\<close>, or has computed a filter and not yet broadcast it. A scanner
  holds the filter it has read last.
\<close>

datatype updater_pc = Selecting_delta | Computed pod_filter

record updater =
  up_cfg :: updater_config
  deltaCh :: nat
  up_subs :: "pod_filter channel list"
  up_closed :: bool
  up_timer :: bool
  up_pc :: updater_pc

definition NewUpdater :: "active_set \<Rightarrow> nat \<Rightarrow> updater_config \<Rightarrow> active_set \<times> updater" where
  "NewUpdater s ch cfg =
     (let d = updater_defaulted cfg in
      (set_Subscribe s ch (SubscribeBuffer d),
       \<lparr>up_cfg = d, deltaCh = ch, up_subs = [], up_closed = False, up_timer = False, up_pc = Selecting_delta\<rparr>))"

definition updater_Subscribe :: "(pod_key list \<Rightarrow> pod_key list) \<Rightarrow> active_set \<Rightarrow> updater \<Rightarrow> nat \<Rightarrow> updater" where
  "updater_Subscribe rng s u ch =
     u\<lparr>up_subs := up_subs u @
        [\<lparr>ch_id = ch, ch_cap = 4, ch_buf = (if up_closed u then [] else [computeFilter rng (up_cfg u) s])\<rparr>]\<rparr>"

definition updater_broadcast :: "updater \<Rightarrow> pod_filter \<Rightarrow> updater" where
  "updater_broadcast u f = u\<lparr>up_subs := map (offer f) (up_subs u)\<rparr>"

definition closeSubs :: "updater \<Rightarrow> updater" where
  "closeSubs u = u\<lparr>up_closed := True, up_subs := []\<rparr>"

section \<open>Steps\<close>

record stream_state =
  st_set :: active_set
  st_pending :: "delta list"
  st_updater :: updater
  st_current :: "nat \<Rightarrow> pod_filter option"

fun take_item :: "nat \<Rightarrow> 'a channel list \<Rightarrow> ('a \<times> 'a channel list) option" where
  "take_item ch [] = None"
| "take_item ch (c # cs) =
     (if ch_id c = ch
      then (case ch_buf c of [] \<Rightarrow> None | x # xs \<Rightarrow> Some (x, c\<lparr>ch_buf := xs\<rparr> # cs))
      else map_option (\<lambda>(x, cs'). (x, c # cs')) (take_item ch cs))"

inductive change :: "active_set \<Rightarrow> active_set \<times> delta option \<Rightarrow> bool" where
  "change s (upsert_locked s k tEnd)"
| "change s (remove_locked s k)"
| "range_order_ok rng \<Longrightarrow> change s (prune_locked rng s at)"

inductive stream_step :: "stream_state \<Rightarrow> stream_state \<Rightarrow> bool" where
  changed: "change (st_set s) (set', d) \<Longrightarrow>
    stream_step s (s\<lparr>st_set := set', st_pending := st_pending s @ (case d of None \<Rightarrow> [] | Some x \<Rightarrow> [x])\<rparr>)"
| delivered: "st_pending s = ds @ d # ds' \<Longrightarrow>
    stream_step s (s\<lparr>st_set := set_broadcast d (st_set s), st_pending := ds @ ds'\<rparr>)"
| received: "up_pc (st_updater s) = Selecting_delta \<Longrightarrow> \<not> up_closed (st_updater s) \<Longrightarrow>
    take_item (deltaCh (st_updater s)) (set_subs (st_set s)) = Some (d, cs) \<Longrightarrow>
    stream_step s (s\<lparr>st_set := (st_set s)\<lparr>set_subs := cs\<rparr>, st_updater := (st_updater s)\<lparr>up_timer := True\<rparr>\<rparr>)"
| fired: "up_pc (st_updater s) = Selecting_delta \<Longrightarrow> \<not> up_closed (st_updater s) \<Longrightarrow> up_timer (st_updater s) \<Longrightarrow>
    range_order_ok rng \<Longrightarrow>
    stream_step s (s\<lparr>st_updater := (st_updater s)\<lparr>up_timer := False,
      up_pc := Computed (computeFilter rng (up_cfg (st_updater s)) (st_set s))\<rparr>\<rparr>)"
| emitted: "up_pc (st_updater s) = Computed f \<Longrightarrow>
    stream_step s (s\<lparr>st_updater := updater_broadcast ((st_updater s)\<lparr>up_pc := Selecting_delta\<rparr>) f\<rparr>)"
| subscribed: "ch \<notin> ch_id ` set (up_subs (st_updater s)) \<Longrightarrow> range_order_ok rng \<Longrightarrow>
    stream_step s (s\<lparr>st_updater := updater_Subscribe rng (st_set s) (st_updater s) ch, st_current := (st_current s)(ch := None)\<rparr>)"
| read_filter: "take_item ch (up_subs (st_updater s)) = Some (f, cs) \<Longrightarrow>
    stream_step s (s\<lparr>st_updater := (st_updater s)\<lparr>up_subs := cs\<rparr>, st_current := (st_current s)(ch := Some f)\<rparr>)"
| cancelled: "up_pc (st_updater s) = Selecting_delta \<Longrightarrow> \<not> up_closed (st_updater s) \<Longrightarrow>
    stream_step s (s\<lparr>st_set := Unsubscribe (st_set s) (deltaCh (st_updater s)), st_updater := closeSubs (st_updater s)\<rparr>)"

end
