(* ===== verification/ActiveSetCorrect.thy ===== *)
theory ActiveSetCorrect
  imports ActiveSet
begin

text \<open>
  No change of the streamed pods is missed. Deltas and filters may be dropped on the way and may overtake
  each other, but as long as the filter a scanner will read last is not that of the current set, something is
  still under way: a broadcast, a delta in the channel of the updater, its timer, or a filter it has
  computed.
\<close>

section \<open>Channels\<close>

lemma offer_last: "0 < ch_cap c \<Longrightarrow> length (ch_buf c) \<le> ch_cap c \<Longrightarrow> \<exists>b. ch_buf (offer x c) = b @ [x]"
  by (cases "ch_buf c") (auto simp: offer_def Let_def)

lemma offer_simps [simp]: "ch_id (offer x c) = ch_id c" "ch_cap (offer x c) = ch_cap c"
  by (simp_all add: offer_def Let_def)

definition chan_ok :: "'a channel \<Rightarrow> bool" where
  "chan_ok c \<longleftrightarrow> 0 < ch_cap c \<and> length (ch_buf c) \<le> ch_cap c"

lemma chan_ok_offer: "chan_ok c \<Longrightarrow> chan_ok (offer x c)"
  by (auto simp: chan_ok_def offer_def Let_def)

lemma offer_nonempty: "chan_ok c \<Longrightarrow> ch_buf (offer x c) \<noteq> [] \<and> last (ch_buf (offer x c)) = x"
  using offer_last [of c x] by (auto simp: chan_ok_def)

text \<open>The channel with an identity, in a list of channels with distinct identities.\<close>

definition chan :: "nat \<Rightarrow> 'a channel list \<Rightarrow> 'a channel option" where
  "chan ch cs = map_of (map (\<lambda>c. (ch_id c, c)) cs) ch"

lemma chan_simps [simp]: "chan ch [] = None" "chan ch (c # cs) = (if ch_id c = ch then Some c else chan ch cs)"
  by (simp_all add: chan_def)

lemma chan_map: "(\<And>c. ch_id (f c) = ch_id c) \<Longrightarrow> chan ch (map f cs) = map_option f (chan ch cs)"
  by (induction cs) auto

lemma chan_set: "chan ch cs = Some c \<Longrightarrow> c \<in> set cs \<and> ch_id c = ch"
  by (induction cs) (auto split: if_splits)

lemma chan_append: "chan ch (cs @ ds) = (case chan ch cs of None \<Rightarrow> chan ch ds | Some c \<Rightarrow> Some c)"
  by (induction cs) auto

lemma chan_None: "chan ch cs = None \<longleftrightarrow> ch \<notin> ch_id ` set cs"
  by (induction cs) auto

lemma take_item_Some:
  assumes "take_item ch cs = Some (x, cs')"
  shows "\<exists>c xs. chan ch cs = Some c \<and> ch_buf c = x # xs \<and> chan ch cs' = Some (c\<lparr>ch_buf := xs\<rparr>)"
    and "ch' \<noteq> ch \<Longrightarrow> chan ch' cs' = chan ch' cs"
    and "list_all chan_ok cs \<Longrightarrow> list_all chan_ok cs'"
    and "map ch_id cs' = map ch_id cs"
proof -
  have "(\<exists>c xs. chan ch cs = Some c \<and> ch_buf c = x # xs \<and> chan ch cs' = Some (c\<lparr>ch_buf := xs\<rparr>)) \<and>
      (ch' \<noteq> ch \<longrightarrow> chan ch' cs' = chan ch' cs) \<and> (list_all chan_ok cs \<longrightarrow> list_all chan_ok cs') \<and> map ch_id cs' = map ch_id cs"
    using assms
    by (induction cs arbitrary: cs') (auto simp: chan_ok_def split: if_splits list.splits)
  then show "\<exists>c xs. chan ch cs = Some c \<and> ch_buf c = x # xs \<and> chan ch cs' = Some (c\<lparr>ch_buf := xs\<rparr>)"
    and "ch' \<noteq> ch \<Longrightarrow> chan ch' cs' = chan ch' cs" and "list_all chan_ok cs \<Longrightarrow> list_all chan_ok cs'"
    and "map ch_id cs' = map ch_id cs" by blast+
qed

section \<open>The filter of a set\<close>

text \<open>A filter that tells a scanner what the set holds now.\<close>

definition fresh :: "updater_config \<Rightarrow> active_set \<Rightarrow> pod_filter \<Rightarrow> bool" where
  "fresh cfg s f \<longleftrightarrow> filter_Version f = set_version s \<and>
     (if MaxAllowlistSize cfg > 0 \<and> int (card (dom (map_of (members s)))) > MaxAllowlistSize cfg
      then Mode f = FilterModeUnfiltered
      else Mode f = FilterModeAllowlist \<and> distinct (Pods f) \<and> set (Pods f) = dom (map_of (members s)))"

definition set_ok :: "active_set \<Rightarrow> bool" where
  "set_ok s \<longleftrightarrow> gomap_ok (members s) \<and> list_all chan_ok (set_subs s)"

lemma dom_map_of_members: "dom (map_of m) = set (map fst m)"
  by (simp add: dom_map_of_conv_image_fst)

lemma card_members: "gomap_ok m \<Longrightarrow> card (dom (map_of m)) = length m"
  using distinct_card [of "map fst m"] by (simp add: dom_map_of_members)

lemma computeFilter_fresh: "gomap_ok (members s) \<Longrightarrow> range_order_ok rng \<Longrightarrow> fresh cfg s (computeFilter rng cfg s)"
  using card_members [of "members s"]
  by (simp add: fresh_def computeFilter_def Snapshot_def range_order_set range_order_distinct
      dom_map_of_members range_order_ok_def [THEN iffD1, THEN spec, THEN mset_eq_length])

lemma fresh_cong:
  "dom (map_of (members s')) = dom (map_of (members s)) \<Longrightarrow> set_version s' = set_version s \<Longrightarrow> fresh cfg s' f = fresh cfg s f"
  by (simp add: fresh_def)

lemma change_facts:
  assumes "change s (s', d)"
  shows "gomap_ok (members s) \<Longrightarrow> gomap_ok (members s')" and "set_subs s' = set_subs s"
    and "d = None \<Longrightarrow> dom (map_of (members s')) = dom (map_of (members s)) \<and> set_version s' = set_version s"
  using assms
  by (auto simp: change.simps upsert_locked_def remove_locked_def prune_locked_def Let_def insert_absorb domI
      split: option.splits if_splits intro!: distinct_map_filter)

section \<open>The invariant\<close>

text \<open>The filter a scanner will have read once it has emptied its channel.\<close>

definition newest :: "stream_state \<Rightarrow> nat \<Rightarrow> pod_filter option" where
  "newest s ch =
     (case chan ch (up_subs (st_updater s)) of
        None \<Rightarrow> st_current s ch
      | Some c \<Rightarrow> (if ch_buf c = [] then st_current s ch else Some (last (ch_buf c))))"

text \<open>A change of the set is under way to the updater.\<close>

definition unsettled :: "stream_state \<Rightarrow> bool" where
  "unsettled s \<longleftrightarrow> st_pending s \<noteq> [] \<or> up_timer (st_updater s) \<or>
     (\<exists>c. chan (deltaCh (st_updater s)) (set_subs (st_set s)) = Some c \<and> ch_buf c \<noteq> [])"

definition follows :: "stream_state \<Rightarrow> bool" where
  "follows s \<longleftrightarrow>
     (case up_pc (st_updater s) of
        Computed f \<Rightarrow> fresh (up_cfg (st_updater s)) (st_set s) f
      | Selecting_delta \<Rightarrow> (\<forall>ch c. chan ch (up_subs (st_updater s)) = Some c \<longrightarrow>
          (\<exists>f. newest s ch = Some f \<and> fresh (up_cfg (st_updater s)) (st_set s) f)))"

definition scan_inv :: "stream_state \<Rightarrow> bool" where
  "scan_inv s \<longleftrightarrow> set_ok (st_set s) \<and> list_all chan_ok (up_subs (st_updater s)) \<and> distinct (map ch_id (up_subs (st_updater s))) \<and>
     (\<not> up_closed (st_updater s) \<longrightarrow>
        chan (deltaCh (st_updater s)) (set_subs (st_set s)) \<noteq> None \<and> (unsettled s \<or> follows s))"

lemma chan_ok_list: "list_all chan_ok cs \<Longrightarrow> chan ch cs = Some c \<Longrightarrow> chan_ok c"
  using chan_set [of ch cs c] by (auto simp: list_all_iff)

lemma offer_list: "list_all chan_ok cs \<Longrightarrow> list_all chan_ok (map (offer x) cs)"
  by (auto simp: list_all_iff chan_ok_offer)

lemma inv_changed:
  assumes inv: "scan_inv s" and ch: "change (st_set s) (set', d)"
  shows "scan_inv (s\<lparr>st_set := set', st_pending := st_pending s @ (case d of None \<Rightarrow> [] | Some x \<Rightarrow> [x])\<rparr>)"
proof (cases d)
  case (Some x)
  with inv change_facts [OF ch] show ?thesis by (simp add: scan_inv_def set_ok_def unsettled_def)
next
  case None
  from change_facts(3) [OF ch None] have "fresh cfg set' f = fresh cfg (st_set s) f" for cfg f using fresh_cong by blast
  then have f: "follows (s\<lparr>st_set := set'\<rparr>) = follows s"
    by (cases "up_pc (st_updater s)") (simp_all add: follows_def newest_def)
  have "unsettled (s\<lparr>st_set := set'\<rparr>) = unsettled s" using change_facts(2) [OF ch] by (simp add: unsettled_def)
  with f inv change_facts [OF ch] None show ?thesis by (auto simp: scan_inv_def set_ok_def)
qed

lemma inv_delivered:
  assumes inv: "scan_inv s" and p: "st_pending s = ds @ d # ds'"
  shows "scan_inv (s\<lparr>st_set := set_broadcast d (st_set s), st_pending := ds @ ds'\<rparr>)"
proof (cases "up_closed (st_updater s)")
  case True
  with inv show ?thesis by (simp add: scan_inv_def set_ok_def set_broadcast_def offer_list)
next
  case False
  then obtain c where c: "chan (deltaCh (st_updater s)) (set_subs (st_set s)) = Some c" using inv by (auto simp: scan_inv_def)
  have "chan (deltaCh (st_updater s)) (map (offer d) (set_subs (st_set s))) = Some (offer d c)" using c by (simp add: chan_map)
  moreover have "chan_ok c" using inv by (auto simp: scan_inv_def set_ok_def intro: chan_ok_list [OF _ c])
  then have "ch_buf (offer d c) \<noteq> []" by (simp add: offer_nonempty)
  ultimately show ?thesis using inv by (simp add: scan_inv_def set_ok_def set_broadcast_def offer_list unsettled_def)
qed

lemma inv_received:
  assumes inv: "scan_inv s" and t: "take_item (deltaCh (st_updater s)) (set_subs (st_set s)) = Some (d, cs)"
  shows "scan_inv (s\<lparr>st_set := (st_set s)\<lparr>set_subs := cs\<rparr>, st_updater := (st_updater s)\<lparr>up_timer := True\<rparr>\<rparr>)"
  using inv take_item_Some(1) [OF t] take_item_Some(3) [OF t] by (auto simp: scan_inv_def set_ok_def unsettled_def)

lemma inv_fired:
  assumes inv: "scan_inv s" and r: "range_order_ok rng"
  shows "scan_inv (s\<lparr>st_updater := (st_updater s)\<lparr>up_timer := False,
      up_pc := Computed (computeFilter rng (up_cfg (st_updater s)) (st_set s))\<rparr>\<rparr>)"
  using inv computeFilter_fresh [OF _ r] by (simp add: scan_inv_def set_ok_def follows_def)

lemma inv_emitted:
  assumes inv: "scan_inv s" and pc: "up_pc (st_updater s) = Computed f"
  shows "scan_inv (s\<lparr>st_updater := updater_broadcast ((st_updater s)\<lparr>up_pc := Selecting_delta\<rparr>) f\<rparr>)" (is "scan_inv ?s")
proof -
  have n: "newest ?s ch = Some f" if c: "chan ch (up_subs (st_updater ?s)) = Some c" for ch c
  proof -
    obtain c0 where c0: "chan ch (up_subs (st_updater s)) = Some c0" "c = offer f c0"
      using c by (auto simp: updater_broadcast_def chan_map)
    have "chan_ok c0" using inv c0(1) by (auto simp: scan_inv_def intro: chan_ok_list)
    then show ?thesis using c c0(2) offer_nonempty [of c0 f] by (simp add: newest_def)
  qed
  have u: "unsettled ?s = unsettled s" by (simp add: unsettled_def updater_broadcast_def)
  have "follows s \<longrightarrow> follows ?s" using n pc by (auto simp: follows_def updater_broadcast_def)
  with inv u show ?thesis by (auto simp: scan_inv_def updater_broadcast_def offer_list comp_def)
qed

lemma inv_subscribed:
  assumes inv: "scan_inv s" and new: "ch \<notin> ch_id ` set (up_subs (st_updater s))" and r: "range_order_ok rng"
  shows "scan_inv (s\<lparr>st_updater := updater_Subscribe rng (st_set s) (st_updater s) ch, st_current := (st_current s)(ch := None)\<rparr>)"
    (is "scan_inv ?s")
proof -
  let ?c = "\<lparr>ch_id = ch, ch_cap = 4, ch_buf = (if up_closed (st_updater s) then [] else [computeFilter rng (up_cfg (st_updater s)) (st_set s)])\<rparr>"
  have u: "unsettled ?s = unsettled s" by (simp add: unsettled_def updater_Subscribe_def)
  have "follows ?s" if f: "follows s" "\<not> up_closed (st_updater s)"
  proof -
    have "fresh (up_cfg (st_updater s)) (st_set s) (computeFilter rng (up_cfg (st_updater s)) (st_set s))"
      using inv by (intro computeFilter_fresh [OF _ r]) (simp add: scan_inv_def set_ok_def)
    moreover have "chan ch (up_subs (st_updater s)) = None" using new by (simp add: chan_None)
    ultimately show ?thesis using f
      by (auto simp: follows_def newest_def updater_Subscribe_def chan_append split: updater_pc.splits option.splits if_splits)
  qed
  with inv u new show ?thesis by (auto simp: scan_inv_def updater_Subscribe_def chan_ok_def)
qed

lemma inv_read:
  assumes inv: "scan_inv s" and t: "take_item ch (up_subs (st_updater s)) = Some (f, cs)"
  shows "scan_inv (s\<lparr>st_updater := (st_updater s)\<lparr>up_subs := cs\<rparr>, st_current := (st_current s)(ch := Some f)\<rparr>)" (is "scan_inv ?s")
proof -
  obtain c xs where c: "chan ch (up_subs (st_updater s)) = Some c" "ch_buf c = f # xs" "chan ch cs = Some (c\<lparr>ch_buf := xs\<rparr>)"
    using take_item_Some(1) [OF t] by blast
  have n: "newest ?s ch' = newest s ch'" for ch'
    using c take_item_Some(2) [OF t, of ch'] by (cases "ch' = ch") (auto simp: newest_def split: option.splits)
  have e: "(\<exists>x. chan ch' cs = Some x) = (\<exists>x. chan ch' (up_subs (st_updater s)) = Some x)" for ch'
    using c take_item_Some(2) [OF t, of ch'] by (cases "ch' = ch") auto
  have u: "unsettled ?s = unsettled s" by (simp add: unsettled_def)
  have "follows s \<longrightarrow> follows ?s" using n e by (fastforce simp: follows_def split: updater_pc.splits)
  with inv u take_item_Some(3,4) [OF t] show ?thesis by (auto simp: scan_inv_def)
qed

lemma drop_channel_ok: "list_all chan_ok cs \<Longrightarrow> list_all chan_ok (drop_channel ch cs)"
  by (induction cs) auto

lemma scan_inv_step: "stream_step s s' \<Longrightarrow> scan_inv s \<Longrightarrow> scan_inv s'"
proof (induction rule: stream_step.induct)
  case (cancelled s)
  then show ?case by (simp add: scan_inv_def set_ok_def closeSubs_def Unsubscribe_def drop_channel_ok)
qed (auto intro: inv_changed inv_delivered inv_received inv_fired inv_emitted inv_subscribed inv_read)

lemma stream_reachable: "stream_step\<^sup>*\<^sup>* s s' \<Longrightarrow> scan_inv s \<Longrightarrow> scan_inv s'"
  by (induction rule: rtranclp_induct) (auto intro: scan_inv_step)

section \<open>Properties\<close>

text \<open>The updater of a set and the scanners that subscribe to it, as the supervisor starts them.\<close>

definition start_stream :: "active_set \<Rightarrow> nat \<Rightarrow> updater_config \<Rightarrow> stream_state" where
  "start_stream s ch cfg =
     (case NewUpdater s ch cfg of (s', u) \<Rightarrow> \<lparr>st_set = s', st_pending = [], st_updater = u, st_current = (\<lambda>_. None)\<rparr>)"

lemma start_stream_inv: "gomap_ok (members s) \<Longrightarrow> set_subs s = [] \<Longrightarrow> scan_inv (start_stream s ch cfg)"
  by (simp add: start_stream_def NewUpdater_def set_Subscribe_def scan_inv_def set_ok_def follows_def chan_ok_def
      updater_defaulted_def Let_def)

text \<open>
  C22. The scanners never miss a change of the streamed pods. Take any interleaving of additions, removals and
  prunings, of their broadcasts, which may overtake each other and overflow the channels, of the updater with its
  debounce timer, and of scanners that subscribe and read. When nothing is on its way to the updater and the
  updater is waiting, the last filter in the channel of each scanner, or the one it holds, lists exactly the
  pods of the set, or is the unfiltered one when there are more pods than a script may list.
\<close>

theorem scanners_follow_set:
  assumes "gomap_ok (members a)" and "set_subs a = []" and "stream_step\<^sup>*\<^sup>* (start_stream a ch0 cfg) s"
    and "\<not> up_closed (st_updater s)" and "\<not> unsettled s" and "up_pc (st_updater s) = Selecting_delta"
    and "chan ch (up_subs (st_updater s)) = Some c"
  shows "\<exists>f. newest s ch = Some f \<and> fresh (up_cfg (st_updater s)) (st_set s) f"
  using stream_reachable [OF assms(3) start_stream_inv [OF assms(1,2)]] assms(4-7)
  by (auto simp: scan_inv_def follows_def)

definition sample_pod :: pod_key where
  "sample_pod = \<lparr>key_Namespace = ''default'', key_Pod = ''redis''\<rparr>"

definition sample_updater_config :: updater_config where
  "sample_updater_config = \<lparr>Debounce = 0, MaxAllowlistSize = 0, SubscribeBuffer = 0\<rparr>"

theorem scanners_follow_set_witness:
  "\<exists>s f. stream_step (start_stream (Upsert set_New sample_pod 9) 0 sample_updater_config) s \<and>
     newest s 1 = Some f \<and> Mode f = FilterModeAllowlist \<and> set (Pods f) = {sample_pod}"
proof -
  let ?a = "Upsert set_New sample_pod 9"
  let ?s0 = "start_stream ?a 0 sample_updater_config"
  let ?s1 = "?s0\<lparr>st_updater := updater_Subscribe id (st_set ?s0) (st_updater ?s0) 1, st_current := (st_current ?s0)(1 := None)\<rparr>"
  have a: "members ?a = [(sample_pod, 9)]" "set_subs ?a = []"
    by (simp_all add: Upsert_def upsert_locked_def set_New_def broadcast_opt_def set_broadcast_def)
  have e: "st_set ?s0 = set_Subscribe ?a 0 32" "st_pending ?s0 = []" "up_closed (st_updater ?s0) = False" "up_timer (st_updater ?s0) = False"
    "up_pc (st_updater ?s0) = Selecting_delta" "up_subs (st_updater ?s0) = []" "deltaCh (st_updater ?s0) = 0"
    "MaxAllowlistSize (up_cfg (st_updater ?s0)) = 500"
    by (simp_all add: start_stream_def NewUpdater_def updater_defaulted_def sample_updater_config_def Let_def)
  have 1: "stream_step ?s0 ?s1" by (rule stream_step.subscribed) (simp_all add: e)
  then have "\<exists>f. newest ?s1 1 = Some f \<and> fresh (up_cfg (st_updater ?s1)) (st_set ?s1) f"
    using a by (intro scanners_follow_set [of ?a 0 sample_updater_config, OF _ _ r_into_rtranclp])
      (simp_all add: e unsettled_def updater_Subscribe_def set_Subscribe_def)
  then obtain f where "newest ?s1 1 = Some f" "fresh (up_cfg (st_updater ?s1)) (st_set ?s1) f" by blast
  moreover from this(2) have "Mode f = FilterModeAllowlist \<and> set (Pods f) = {sample_pod}"
    using a by (simp add: fresh_def e updater_Subscribe_def set_Subscribe_def)
  ultimately show ?thesis using 1 by blast
qed

end
