(* ===== verification/PxlQuery.thy ===== *)
theory PxlQuery
  imports Prelude
begin

text \<open>
  The scripts the adaptive export sends to Pixie and the identity of an anomaly: \<open>pxl/tables.go\<close>,
  \<open>pxl/queryfor.go\<close> and \<open>pxl/compile.go\<close>, and \<open>anomaly/hash.go\<close> of
  \<open>vizier/services/adaptive_export/internal\<close>. A script is text in PxL, a dialect of Python.
  \<open>sha256\<close> is an argument of \<open>Hash\<close>, and the value of the environment variable
  \<open>DC_SNOOP_EXCLUDE_COMMS\<close> an argument of the functions that read it.
\<close>

section \<open>Anomaly identity\<close>

record target =
  PID :: "64 word"
  Comm :: string
  Pod :: string
  Namespace :: string

definition big_endian :: "nat \<Rightarrow> nat \<Rightarrow> string" where
  "big_endian n v = map (\<lambda>i. char_of (v div 256 ^ (n - 1 - i))) [0..<n]"

definition writeLenPrefixed :: "string \<Rightarrow> string" where
  "writeLenPrefixed s = rev (big_endian 4 (length s mod 2 ^ 32)) @ s"

definition target_bytes :: "target \<Rightarrow> string" where
  "target_bytes t = big_endian 8 (unat (PID t)) @ writeLenPrefixed (Comm t) @ writeLenPrefixed (Pod t) @
     writeLenPrefixed (Namespace t)"

definition hex_digit :: "nat \<Rightarrow> char" where
  "hex_digit d = (if d < 10 then char_of (48 + d) else char_of (87 + d))"

definition EncodeToString :: "string \<Rightarrow> string" where
  "EncodeToString bs = concat (map (\<lambda>c. [hex_digit (of_char c div 16), hex_digit (of_char c mod 16)]) bs)"

definition Hash :: "(string \<Rightarrow> string) \<Rightarrow> target \<Rightarrow> string" where
  "Hash sha256 t = EncodeToString (take 16 (sha256 (target_bytes t)))"

section \<open>Text\<close>

definition quoted :: "string \<Rightarrow> string" where
  "quoted s = [CHR 0x27] @ s @ [CHR 0x27]"

definition line :: "string \<Rightarrow> string" where
  "line s = s @ [CHR 0x0A]"

text \<open>\<open>strings.TrimSpace\<close>: the encodings of the characters Unicode counts as white space.\<close>

definition spaces :: "string list" where
  "spaces =
     [[CHR 0x09], [CHR 0x0A], [CHR 0x0B], [CHR 0x0C], [CHR 0x0D], [CHR 0x20], [CHR 0xC2, CHR 0x85],
      [CHR 0xC2, CHR 0xA0], [CHR 0xE1, CHR 0x9A, CHR 0x80]] @
     map (\<lambda>i. [CHR 0xE2, CHR 0x80, char_of (128 + i :: nat)]) [0..<11] @
     [[CHR 0xE2, CHR 0x80, CHR 0xA8], [CHR 0xE2, CHR 0x80, CHR 0xA9], [CHR 0xE2, CHR 0x80, CHR 0xAF],
      [CHR 0xE2, CHR 0x81, CHR 0x9F], [CHR 0xE3, CHR 0x80, CHR 0x80]]"

fun trim_front :: "string list \<Rightarrow> nat \<Rightarrow> string \<Rightarrow> string" where
  "trim_front ps 0 s = s"
| "trim_front ps (Suc n) s =
     (case find (\<lambda>p. prefix p s) ps of None \<Rightarrow> s | Some p \<Rightarrow> trim_front ps n (drop (length p) s))"

definition TrimSpace :: "string \<Rightarrow> string" where
  "TrimSpace s =
     (let t = trim_front spaces (length s) s in rev (trim_front (map rev spaces) (length t) (rev t)))"

definition QuoteMeta :: "string \<Rightarrow> string" where
  "QuoteMeta s = concat (map (\<lambda>c. if c \<in> set ([CHR 0x5C] @ ''.+*?()|[]{}^$'') then [CHR 0x5C, c] else [c]) s)"

text \<open>A \<open>strings.NewReplacer\<close> whose old strings are single bytes replaces byte by byte.\<close>

definition escape_byte :: "char \<Rightarrow> string" where
  "escape_byte c =
     (if c = CHR 0x5C then [CHR 0x5C, CHR 0x5C]
      else if c = CHR 0x27 then [CHR 0x5C, CHR 0x27]
      else if c = CHR 0x0A then [CHR 0x5C, CHR ''n'']
      else if c = CHR 0x0D then [CHR 0x5C, CHR ''r'']
      else if c = CHR 0x09 then [CHR 0x5C, CHR ''t'']
      else if c = CHR 0x00 then [CHR 0x5C, CHR ''0'']
      else [c])"

definition escapePxL :: "string \<Rightarrow> string" where
  "escapePxL s = concat (map escape_byte s)"

section \<open>Tables\<close>

definition builtinTables :: "string list" where
  "builtinTables =
     [''http_events'', ''http2_messages.beta'', ''dns_events'', ''redis_events'', ''mysql_events'', ''pgsql_events'',
      ''cql_events'', ''mongodb_events'', ''kafka_events.beta'', ''amqp_events'', ''mux_events'', ''tls_events'',
      ''conn_stats'', ''dc_snoop'', ''creds_change'', ''stack_trace'', ''dx_vfs_events'', ''dx_unlink'', ''dx_dlookup'',
      ''dx_mprotect'', ''dx_bpf'', ''dx_ptrace'']"

definition IsBuiltin :: "string \<Rightarrow> bool" where
  "IsBuiltin name = list_ex (\<lambda>t. t = name) builtinTables"

definition darkVectorTables :: "string list" where
  "darkVectorTables =
     [''dc_snoop'', ''creds_change'', ''dx_vfs_events'', ''dx_unlink'', ''dx_dlookup'', ''dx_mprotect'', ''dx_bpf'', ''dx_ptrace'']"

definition IsDarkVector :: "string \<Rightarrow> bool" where
  "IsDarkVector table = (table \<in> set darkVectorTables)"

definition darkVectorHasComm :: "string \<Rightarrow> bool" where
  "darkVectorHasComm table =
     (table \<in> set [''dc_snoop'', ''creds_change'', ''dx_vfs_events'', ''dx_unlink'', ''dx_dlookup'', ''dx_mprotect'',
       ''dx_bpf'', ''dx_ptrace''])"

definition pixieSourceFor :: "string \<Rightarrow> string" where
  "pixieSourceFor table = (if table = ''stack_trace'' then ''stack_traces.beta'' else table)"

definition darkProcStatsWindow :: string where
  "darkProcStatsWindow = ''-2m''"

definition PodEnrichPxL :: "string \<Rightarrow> string" where
  "PodEnrichPxL table =
     (if IsDarkVector table
      then line (''proc = px.DataFrame(table='' @ quoted ''process_stats'' @ '', start_time='' @ quoted darkProcStatsWindow @ '')'') @
        line (''proc.pod = proc.ctx['' @ quoted ''pod'' @ '']'') @
        line (''proc.namespace = proc.ctx['' @ quoted ''namespace'' @ '']'') @
        line ''proc.pid = px.upid_to_pid(proc.upid)'' @
        line (''proc = proc.groupby(['' @ quoted ''pod'' @ '', '' @ quoted ''namespace'' @ '', '' @ quoted ''pid'' @ '']).agg()'') @
        line (''df = df.merge(proc, how='' @ quoted ''left'' @ '', left_on=['' @ quoted ''pid'' @ ''], right_on=['' @ quoted ''pid'' @
          ''], suffixes=['' @ quoted [] @ '', '' @ quoted ''_x'' @ ''])'')
      else line ''df.namespace = px.upid_to_namespace(df.upid)'' @ line ''df.pod = px.upid_to_pod_name(df.upid)'')"

definition darkExcludeCommsDefault :: "string list" where
  "darkExcludeCommsDefault =
     [''pem'', ''kelvin'', ''containerd'', ''containerd-shim'', ''runc'', ''node-agent'', ''runc:[2:INIT]'', ''runc:[1:CHILD]'',
      ''vizier-query-broker'', ''vizier-metadata'', ''nats-server'', ''k3s-server'', ''k3s-agent'', ''systemd'',
      ''systemd-journal'', ''SystemLogFlush'', ''kubelet'', ''AsyncInsertQ'', ''BgSchPool'', ''Collector'', ''AsyncMetrics'',
      ''MergeMutate'', ''MergeTreeIndex'', ''CgrpMemUsgObsr'', ''coredns'', ''metadata'', ''storage'', ''operator'', ''iptables'',
      ''iptables-save'', ''iptables-restor'', ''ip6tables'', ''ConfigReloader'', ''clickhouse-oper'', ''Formatter'', ''(setup.sh)'',
      ''cmd'', ''vector-worker'', ''metrics-server'', ''local-path-prov'', ''portmap'', ''(udev-worker)'', ''systemd-resolve'',
      ''systemd-timesyn'']"

definition darkCommExclusion :: "string \<Rightarrow> string \<Rightarrow> string" where
  "darkCommExclusion env table =
     (if \<not> darkVectorHasComm table then []
      else let v = TrimSpace env;
               comms = (if v \<noteq> [] then filter (\<lambda>s. s \<noteq> []) (map TrimSpace (split_on CHR '','' v)) else darkExcludeCommsDefault)
           in concat (map (\<lambda>c. line (''df = df[df.comm != '' @ quoted (escapePxL c) @ '']'')) comms))"

section \<open>Scripts\<close>

definition pxSetMaxRows :: string where
  "pxSetMaxRows = line ''#px:set max_output_rows_per_table=1000000''"

definition ErrUnknownTable :: err where
  "ErrUnknownTable = Sentinel ''pxl: unknown pixie table''"

definition UnixNano :: "int \<Rightarrow> int" where
  "UnixNano t = wrap64 t"

definition rel_start :: "int \<Rightarrow> string" where
  "rel_start d =
     (let pad = wrap64 (d + 30 * Second); pad = (if pad < 30 * Second then 30 * Second else pad)
      in ''-'' @ int_dec (pad div Second) @ ''s'')"

text \<open>The clause for the pod, in the form the column \<open>df.pod\<close> has in the tables with process identifiers.\<close>

definition target_clauses :: "target \<Rightarrow> string" where
  "target_clauses t =
     (if Namespace t \<noteq> [] then line (''df = df[df.namespace == '' @ quoted (escapePxL (Namespace t)) @ '']'') else []) @
     (if Pod t \<noteq> []
      then (if Namespace t \<noteq> [] then line (''df = df[df.pod == '' @ quoted (escapePxL (Namespace t @ ''/'' @ Pod t)) @ '']'')
            else line (''df = df[px.regex_match('' @ quoted (''^[^/]+/'' @ escapePxL (QuoteMeta (Pod t)) @ ''$'') @ '', df.pod)]''))
      else [])"

definition QueryFor :: "string \<Rightarrow> string \<Rightarrow> target \<Rightarrow> int \<Rightarrow> int \<Rightarrow> int \<Rightarrow> string res" where
  "QueryFor env table t sliceStart sliceEnd now =
     (if \<not> IsBuiltin table then Inl ErrUnknownTable
      else Inr (pxSetMaxRows @ line ''import px'' @
        line (''df = px.DataFrame(table='' @ quoted (pixieSourceFor table) @ '', start_time='' @
          quoted (rel_start (duration_sub now sliceStart)) @ '')'') @
        line (''df = df[df.time_ >= px.int64_to_time('' @ int_dec (UnixNano sliceStart) @ '')]'') @
        line (''df = df[df.time_ <  px.int64_to_time('' @ int_dec (UnixNano sliceEnd) @ '')]'') @
        (if table = ''stack_trace''
         then line (''df.namespace = df.ctx['' @ quoted ''namespace'' @ '']'') @
           line (''df.pod = df.ctx['' @ quoted ''pod'' @ '']'') @
           line (''df.container = df.ctx['' @ quoted ''container'' @ '']'') @
           line ''df.hostname = px.upid_to_node_name(df.upid)'' @
           line ''df.event_time = df.time_'' @ target_clauses t
         else if IsDarkVector table then darkCommExclusion env table @ PodEnrichPxL table
         else PodEnrichPxL table @ target_clauses t) @
        line (''px.display(df, '' @ quoted table @ '')'')))"

definition CompilePassthrough :: "string \<Rightarrow> int \<Rightarrow> string res" where
  "CompilePassthrough table window =
     (if \<not> IsBuiltin table then Inl ErrUnknownTable
      else Inr (pxSetMaxRows @ line ''import px'' @
        line (''df = px.DataFrame(table='' @ quoted table @ '', start_time='' @ quoted (rel_start window) @ '')'') @
        line ''df = df[df.time_ >= px.int64_to_time(%d)]'' @
        line ''df = df[df.time_ <  px.int64_to_time(%d)]'' @
        PodEnrichPxL table @
        line (''px.display(df, '' @ quoted table @ '')'')))"

text \<open>
  \<open>fmt.Sprintf\<close> for formats whose only verb is \<open>%d\<close>; \<open>None\<close> stands for a format with other verbs or with
  another number of arguments.
\<close>

fun Sprintf_d :: "string \<Rightarrow> int list \<Rightarrow> string option" where
  "Sprintf_d [] args = (if args = [] then Some [] else None)"
| "Sprintf_d (c # cs) args =
     (if c = CHR ''%''
      then (case (cs, args) of
              (v # cs', a # args') \<Rightarrow> if v = CHR ''d'' then map_option (\<lambda>r. int_dec a @ r) (Sprintf_d cs' args') else None
            | _ \<Rightarrow> None)
      else map_option (\<lambda>r. c # r) (Sprintf_d cs args))"

definition Render :: "string \<Rightarrow> int \<Rightarrow> int \<Rightarrow> string option" where
  "Render tmpl sliceStart sliceEnd = Sprintf_d tmpl [UnixNano sliceStart, UnixNano sliceEnd]"

end
