(* ===== verification/ExportController.thy ===== *)
theory ExportController
  imports PxlQuery
begin

text \<open>
  The controller of the adaptive export, \<open>controller/controller.go\<close> of
  \<open>vizier/services/adaptive_export/internal\<close>: the attribution windows of the workloads with anomalies and the
  goroutines that copy the data of a window from Pixie to ClickHouse. The database and Pixie are
  arguments: \<open>write\<close> and \<open>query\<close> give the outcome of a call. The semaphores only delay queries and are left
  out. \<open>handle\<close> is cut where it releases the lock, a pass over the tables is cut where it waits for the
  queries, and \<open>export_step\<close> interleaves these parts.
\<close>

section \<open>State\<close>

record attribution_row =
  AnomalyHash :: string
  row_Namespace :: string
  row_Pod :: string
  row_Comm :: string
  row_PID :: "64 word"
  row_Hostname :: string
  TStart :: int
  TEnd :: int
  LastSeen :: int
  LastRuleID :: string
  NAnomalies :: "64 word"

record kubescape_event =
  ev_Target :: target
  EventTime :: "64 word"
  RuleID :: string

record export_config =
  cfg_Hostname :: string
  Before :: int
  After :: int
  PushPixieTables :: "string list"
  PushRefreshInterval :: int
  QueryLag :: int
  DisableSelfSteer :: bool
  ExportAllFloor :: int
  EmptyResultSkipAfterN :: int
  EmptyResultSkipTTL :: int

definition cfg_defaulted :: "export_config \<Rightarrow> export_config" where
  "cfg_defaulted c =
     c\<lparr>Before := (if Before c = 0 then 300 * Second else Before c),
       After := (if After c = 0 then 300 * Second else After c),
       PushRefreshInterval := (if PushRefreshInterval c = 0 then 30 * Second else PushRefreshInterval c),
       QueryLag := (if QueryLag c = 0 then 30 * Second else QueryLag c),
       ExportAllFloor := (if ExportAllFloor c = 0 then 30 * Second else ExportAllFloor c)\<rparr>"

record controller =
  ctl_cfg :: export_config
  has_querier :: bool
  active :: "(string, attribution_row) gomap"
  inFlight :: "(string, bool) gomap"
  emptyStreak :: "(string, int) gomap"
  emptySkipUntil :: "(string, int) gomap"
  exportAllAt :: "(string, int) gomap"

definition ctl_New :: "export_config \<Rightarrow> controller" where
  "ctl_New cfg =
     \<lparr>ctl_cfg = cfg_defaulted cfg, has_querier = False, active = [], inFlight = [], emptyStreak = [], emptySkipUntil = [],
      exportAllAt = []\<rparr>"

definition WithPixieQuerier :: "controller \<Rightarrow> controller" where
  "WithPixieQuerier c = c\<lparr>has_querier := True\<rparr>"

definition in_flight :: "controller \<Rightarrow> string \<Rightarrow> bool" where
  "in_flight c h = (map_of (inFlight c) h = Some True)"

definition may_spawn :: "controller \<Rightarrow> string \<Rightarrow> bool" where
  "may_spawn c h \<longleftrightarrow>
     \<not> DisableSelfSteer (ctl_cfg c) \<and> has_querier c \<and> PushPixieTables (ctl_cfg c) \<noteq> [] \<and> \<not> in_flight c h"

section \<open>Events\<close>

text \<open>Seconds, milliseconds or nanoseconds by magnitude; the products are in \<open>int64\<close>.\<close>

definition eventTimeToTime :: "64 word \<Rightarrow> int" where
  "eventTimeToTime et =
     (if uint et < 10 ^ 10 then uint et * Second
      else if uint et < 10 ^ 13 then wrap64 (uint et * 1000000)
      else wrap64 (uint et))"

definition opened_row :: "export_config \<Rightarrow> string \<Rightarrow> int \<Rightarrow> kubescape_event \<Rightarrow> attribution_row" where
  "opened_row cfg hash now ev =
     \<lparr>AnomalyHash = hash, row_Namespace = Namespace (ev_Target ev), row_Pod = Pod (ev_Target ev), row_Comm = Comm (ev_Target ev),
      row_PID = PID (ev_Target ev), row_Hostname = cfg_Hostname cfg,
      TStart = eventTimeToTime (EventTime ev) + wrap64 (- Before cfg), TEnd = now + After cfg,
      LastSeen = eventTimeToTime (EventTime ev), LastRuleID = RuleID ev, NAnomalies = 1\<rparr>"

definition extended_row :: "export_config \<Rightarrow> int \<Rightarrow> kubescape_event \<Rightarrow> attribution_row \<Rightarrow> attribution_row" where
  "extended_row cfg now ev row =
     (let tEvent = eventTimeToTime (EventTime ev); proposed = now + After cfg in
      row\<lparr>TEnd := (if proposed > TEnd row then proposed else TEnd row),
          LastSeen := (if tEvent > LastSeen row then tEvent else LastSeen row),
          LastRuleID := RuleID ev, NAnomalies := NAnomalies row + 1\<rparr>)"

text \<open>What \<open>handle\<close> remembers while it writes: the row, the row before, if there was one, and its decision to spawn.\<close>

record held_event =
  op_row :: attribution_row
  op_prev :: "attribution_row option"
  op_spawn :: bool

definition handle_open :: "(string \<Rightarrow> string) \<Rightarrow> int \<Rightarrow> kubescape_event \<Rightarrow> controller \<Rightarrow> controller \<times> held_event" where
  "handle_open sha256 now ev c =
     (let hash = Hash sha256 (ev_Target ev);
          prev = map_of (active c) hash;
          row = (case prev of None \<Rightarrow> opened_row (ctl_cfg c) hash now ev | Some r \<Rightarrow> extended_row (ctl_cfg c) now ev r);
          spawn = may_spawn c hash;
          c1 = c\<lparr>active := AList.update hash row (active c)\<rparr>
      in (if spawn then c1\<lparr>inFlight := AList.update hash True (inFlight c)\<rparr> else c1,
          \<lparr>op_row = row, op_prev = prev, op_spawn = spawn\<rparr>))"

definition op_hash :: "(string \<Rightarrow> string) \<Rightarrow> kubescape_event \<Rightarrow> string" where
  "op_hash sha256 ev = Hash sha256 (ev_Target ev)"

definition handle_failed :: "string \<Rightarrow> held_event \<Rightarrow> controller \<Rightarrow> controller \<times> err option" where
  "handle_failed hash op c =
     (let release = (\<lambda>c. if op_spawn op then c\<lparr>inFlight := AList.delete hash (inFlight c)\<rparr> else c) in
      case op_prev op of
        None \<Rightarrow> (release (c\<lparr>active := AList.delete hash (active c)\<rparr>), None)
      | Some prev \<Rightarrow>
          (if map_of (active c) hash = None then (c, Some (Panic ''nil pointer''))
           else (release (c\<lparr>active := AList.update hash prev (active c)\<rparr>), None)))"

text \<open>
  The whole handler when nothing comes in between: the new state, what \<open>OnAttribution\<close> is called with and the row a
  goroutine is started for.
\<close>

definition handle_event :: "(string \<Rightarrow> string) \<Rightarrow> (attribution_row \<Rightarrow> err option) \<Rightarrow> int \<Rightarrow> kubescape_event \<Rightarrow> controller \<Rightarrow>
    (controller \<times> (string \<times> string \<times> int) option \<times> attribution_row option) res" where
  "handle_event sha256 write now ev c =
     (case handle_open sha256 now ev c of (c1, op) \<Rightarrow>
        (case write (op_row op) of
           Some _ \<Rightarrow>
             (case handle_failed (op_hash sha256 ev) op c1 of (c2, Some e) \<Rightarrow> Inl e | (c2, None) \<Rightarrow> Inr (c2, None, None))
         | None \<Rightarrow>
             Inr (c1, Some (row_Namespace (op_row op), row_Pod (op_row op), TEnd (op_row op)),
                  if op_spawn op then Some (op_row op) else None)))"

fun rehydrate_rows :: "controller \<Rightarrow> attribution_row list \<Rightarrow> controller \<times> attribution_row list" where
  "rehydrate_rows c [] = (c, [])"
| "rehydrate_rows c (row # rows) =
     (let c1 = c\<lparr>active := AList.update (AnomalyHash row) row (active c)\<rparr> in
      if may_spawn c (AnomalyHash row)
      then (case rehydrate_rows (c1\<lparr>inFlight := AList.update (AnomalyHash row) True (inFlight c1)\<rparr>) rows of
              (c2, resume) \<Rightarrow> (c2, row # resume))
      else rehydrate_rows c1 rows)"

definition Rehydrate :: "attribution_row list res \<Rightarrow> controller \<Rightarrow> controller \<times> attribution_row list res" where
  "Rehydrate queryActive c =
     (case queryActive of
        Inl e \<Rightarrow> (c, Inl e)
      | Inr rows \<Rightarrow> (case rehydrate_rows c rows of (c', resume) \<Rightarrow> (c', Inr resume)))"

text \<open>The grace period is twice \<open>After\<close>. Pods that lost their last row are reported, in the order of the map.\<close>

definition window_over :: "export_config \<Rightarrow> int \<Rightarrow> attribution_row \<Rightarrow> bool" where
  "window_over cfg now row \<longleftrightarrow> \<not> TEnd row + wrap64 (2 * After cfg) > now"

definition ctl_PruneExpired :: "((string \<times> string) list \<Rightarrow> (string \<times> string) list) \<Rightarrow> int \<Rightarrow> controller \<Rightarrow>
    controller \<times> nat \<times> (string \<times> string) list" where
  "ctl_PruneExpired rng now c =
     (let gone = filter (\<lambda>(h, row). window_over (ctl_cfg c) now row) (active c);
          kept = filter (\<lambda>(h, row). \<not> window_over (ctl_cfg c) now row) (active c);
          candidatePods = foldl (\<lambda>m (h, row). AList.update (row_Namespace row, row_Pod row) () m) [] gone;
          left = foldl (\<lambda>m (h, row). AList.delete (row_Namespace row, row_Pod row) m) candidatePods kept
      in (c\<lparr>active := kept\<rparr>, length gone, map fst (go_range rng left)))"

section \<open>Empty results\<close>

definition empty_key :: "string \<Rightarrow> string \<Rightarrow> string \<Rightarrow> string" where
  "empty_key ns pod table = ns @ ''|'' @ pod @ ''|'' @ table"

definition skip_enabled :: "controller \<Rightarrow> bool" where
  "skip_enabled c \<longleftrightarrow> \<not> (EmptyResultSkipAfterN (ctl_cfg c) \<le> 0 \<or> EmptyResultSkipTTL (ctl_cfg c) \<le> 0)"

definition shouldSkipEmpty :: "int \<Rightarrow> string \<Rightarrow> string \<Rightarrow> string \<Rightarrow> controller \<Rightarrow> controller \<times> bool" where
  "shouldSkipEmpty now ns pod table c =
     (if \<not> skip_enabled c then (c, False)
      else let key = empty_key ns pod table in
        case map_of (emptySkipUntil c) key of
          None \<Rightarrow> (c, False)
        | Some until \<Rightarrow>
            if now < until then (c, True)
            else (c\<lparr>emptySkipUntil := AList.delete key (emptySkipUntil c), emptyStreak := AList.delete key (emptyStreak c)\<rparr>, False))"

definition noteQueryResult :: "int \<Rightarrow> string \<Rightarrow> string \<Rightarrow> string \<Rightarrow> nat \<Rightarrow> controller \<Rightarrow> controller" where
  "noteQueryResult now ns pod table nrows c =
     (if \<not> skip_enabled c then c
      else let key = empty_key ns pod table in
        if nrows > 0
        then c\<lparr>emptyStreak := AList.delete key (emptyStreak c), emptySkipUntil := AList.delete key (emptySkipUntil c)\<rparr>
        else let streak = wrap64 ((case map_of (emptyStreak c) key of None \<Rightarrow> 0 | Some n \<Rightarrow> n) + 1);
                 c1 = c\<lparr>emptyStreak := AList.update key streak (emptyStreak c)\<rparr>
             in if streak \<ge> EmptyResultSkipAfterN (ctl_cfg c)
                then c1\<lparr>emptySkipUntil := AList.update key (now + EmptyResultSkipTTL (ctl_cfg c)) (emptySkipUntil c)\<rparr>
                else c1)"

section \<open>Ordered queries\<close>

record reconcile_row =
  rc_TS :: int
  rc_Mode :: string
  rc_Table :: string
  rc_Namespace :: string
  rc_Pod :: string
  WinStart :: int
  WinEnd :: int
  ReadCount :: nat
  WroteCount :: nat
  WriteErr :: "err option"
  rc_Hostname :: string

text \<open>The result of the call and the record of the pull, which is made on every path after the script is built.\<close>

definition OrderQuery :: "string \<Rightarrow> (string \<Rightarrow> 'r list res) \<Rightarrow> (string \<Rightarrow> 'r list \<Rightarrow> err option) \<Rightarrow> controller \<Rightarrow> int \<Rightarrow> target \<Rightarrow>
    string \<Rightarrow> int \<Rightarrow> int \<Rightarrow> reconcile_row option \<times> err option" where
  "OrderQuery env query write c now t table start until =
     (if \<not> has_querier c then (None, Some (ErrMsg ''controller: no pixie querier (operator-side push disabled)''))
      else (case QueryFor env table t start until now of
        Inl e \<Rightarrow> (None, Some e)
      | Inr q \<Rightarrow>
          let rec = (\<lambda>n w e. Some \<lparr>rc_TS = now, rc_Mode = ''ordered'', rc_Table = table, rc_Namespace = Namespace t, rc_Pod = Pod t,
                WinStart = start, WinEnd = until, ReadCount = n, WroteCount = w, WriteErr = e,
                rc_Hostname = cfg_Hostname (ctl_cfg c)\<rparr>)
          in (case query q of
                Inl e \<Rightarrow> (rec 0 0 (Some e), Some e)
              | Inr rows \<Rightarrow>
                  if rows = [] then (rec 0 0 None, None)
                  else (case write table rows of
                          Some e \<Rightarrow> (rec (length rows) 0 (Some e), Some e)
                        | None \<Rightarrow> (rec (length rows) (length rows) None, None)))))"

text \<open>The floor of \<open>OrderExportAll\<close>; \<open>now1\<close> and \<open>now2\<close> are its two readings of the clock.\<close>

definition export_all_due :: "int \<Rightarrow> int \<Rightarrow> target \<Rightarrow> controller \<Rightarrow> controller \<times> bool" where
  "export_all_due now1 now2 t c =
     (let tk = Namespace t @ ''/'' @ Pod t in
      case map_of (exportAllAt c) tk of
        Some prev \<Rightarrow>
          if duration_sub now1 prev < ExportAllFloor (ctl_cfg c) then (c, False)
          else (c\<lparr>exportAllAt := AList.update tk now2 (exportAllAt c)\<rparr>, True)
      | None \<Rightarrow> (c\<lparr>exportAllAt := AList.update tk now2 (exportAllAt c)\<rparr>, True))"

definition OrderExportAll :: "string \<Rightarrow> (string \<Rightarrow> 'r list res) \<Rightarrow> (string \<Rightarrow> 'r list \<Rightarrow> err option) \<Rightarrow> int \<Rightarrow> int \<Rightarrow> (string \<Rightarrow> int) \<Rightarrow>
    target \<Rightarrow> int \<Rightarrow> int \<Rightarrow> controller \<Rightarrow> controller \<times> (string \<times> reconcile_row option \<times> err option) list" where
  "OrderExportAll env query write now1 now2 clk t start until c =
     (if \<not> has_querier c \<or> PushPixieTables (ctl_cfg c) = [] then (c, [])
      else (case export_all_due now1 now2 t c of
        (c', False) \<Rightarrow> (c', [])
      | (c', True) \<Rightarrow>
          (c', map (\<lambda>table. (table, OrderQuery env query write c' (clk table) t table start until)) (PushPixieTables (ctl_cfg c)))))"

section \<open>The fan-out of a window\<close>

text \<open>
  A goroutine of \<open>pushPixieRows\<close>: the row it was started for, its watermark for each table, where it is, and
  (for the statements only) the slices it has copied, with the end of the window as it was known then.
\<close>

record slice =
  sl_table :: string
  sl_start :: int
  sl_end :: int
  sl_window :: int

datatype pusher_pc = Top | Pulling "slice list" | Leaving

record pusher =
  pu_row :: attribution_row
  lastUpper :: "(string, int) gomap"
  pu_pc :: pusher_pc
  copied :: "slice list"

definition start_pusher :: "export_config \<Rightarrow> attribution_row \<Rightarrow> pusher" where
  "start_pusher cfg row =
     \<lparr>pu_row = row, lastUpper = foldl (\<lambda>m t. AList.update t (TStart row) m) [] (PushPixieTables cfg), pu_pc = Top, copied = []\<rparr>"

definition row_target :: "attribution_row \<Rightarrow> target" where
  "row_target r = \<lparr>PID = row_PID r, Comm = row_Comm r, Pod = row_Pod r, Namespace = row_Namespace r\<rparr>"

definition zero_time :: int where
  "zero_time = - 62135596800 * Second"

text \<open>
  The loop over the tables that starts the queries of a pass. \<open>clk\<close> gives the readings of the clock in
  \<open>shouldSkipEmpty\<close>.
\<close>

fun plan_slices :: "string \<Rightarrow> (string \<Rightarrow> int) \<Rightarrow> int \<Rightarrow> int \<Rightarrow> pusher \<Rightarrow> string list \<Rightarrow> controller \<Rightarrow> controller \<times> slice list" where
  "plan_slices env clk now tEnd p [] c = (c, [])"
| "plan_slices env clk now tEnd p (table # tables) c =
     (case shouldSkipEmpty (clk table) (row_Namespace (pu_row p)) (row_Pod (pu_row p)) table c of
        (c1, True) \<Rightarrow> plan_slices env clk now tEnd p tables c1
      | (c1, False) \<Rightarrow>
          let sliceStart = (case map_of (lastUpper p) table of None \<Rightarrow> zero_time | Some u \<Rightarrow> u);
              sliceEnd = now + wrap64 (- QueryLag (ctl_cfg c))
          in if \<not> sliceEnd > sliceStart then plan_slices env clk now tEnd p tables c1
             else (case QueryFor env table (row_target (pu_row p)) sliceStart sliceEnd now of
                     Inl _ \<Rightarrow> plan_slices env clk now tEnd p tables c1
                   | Inr q \<Rightarrow>
                       (case plan_slices env clk now tEnd p tables c1 of
                          (c2, sls) \<Rightarrow> (c2, \<lparr>sl_table = table, sl_start = sliceStart, sl_end = sliceEnd, sl_window = tEnd\<rparr> # sls))))"

text \<open>
  The start of a pass: the goroutine leaves when the window is gone or over. \<open>reached\<close> is the number of tables
  the loop gets to before the context is cancelled.
\<close>

definition pass_begin :: "string \<Rightarrow> (string \<Rightarrow> int) \<Rightarrow> nat \<Rightarrow> int \<Rightarrow> pusher \<Rightarrow> controller \<Rightarrow> controller \<times> pusher" where
  "pass_begin env clk reached now p c =
     (case map_of (active c) (AnomalyHash (pu_row p)) of
        None \<Rightarrow> (c, p\<lparr>pu_pc := Leaving\<rparr>)
      | Some current \<Rightarrow>
          if \<not> TEnd current > now then (c, p\<lparr>pu_pc := Leaving\<rparr>)
          else (case plan_slices env clk now (TEnd current) p (take reached (PushPixieTables (ctl_cfg c))) c of
                  (c', sls) \<Rightarrow> (c', p\<lparr>pu_pc := Pulling sls\<rparr>)))"

text \<open>The query of one slice: the number of rows it returns or an error, and the outcome of the write.\<close>

definition pull_slice :: "int \<Rightarrow> (slice \<Rightarrow> nat res) \<Rightarrow> (slice \<Rightarrow> err option) \<Rightarrow> slice \<Rightarrow> pusher \<times> controller \<Rightarrow> pusher \<times> controller" where
  "pull_slice now query write sl = (\<lambda>(p, c).
     case query sl of
       Inl _ \<Rightarrow> (p, c)
     | Inr nrows \<Rightarrow>
         let c' = noteQueryResult now (row_Namespace (pu_row p)) (row_Pod (pu_row p)) (sl_table sl) nrows c in
         if nrows > 0 \<and> write sl \<noteq> None then (p, c')
         else (p\<lparr>lastUpper := AList.update (sl_table sl) (sl_end sl) (lastUpper p), copied := copied p @ [sl]\<rparr>, c'))"

definition pass_end :: "int \<Rightarrow> (slice \<Rightarrow> nat res) \<Rightarrow> (slice \<Rightarrow> err option) \<Rightarrow> bool \<Rightarrow> slice list \<Rightarrow> pusher \<Rightarrow> controller \<Rightarrow> pusher \<times> controller" where
  "pass_end now query write slept sls p c =
     (case fold (pull_slice now query write) sls (p, c) of (p', c') \<Rightarrow>
        (p'\<lparr>pu_pc := (if PushRefreshInterval (ctl_cfg c) < 0 \<or> \<not> slept then Leaving else Top)\<rparr>, c'))"

section \<open>Steps\<close>

datatype handle_pc = Waiting_event | Writing string held_event

record export_state =
  ex_ctl :: controller
  ex_main :: handle_pc
  ex_pushers :: "pusher list"
  ex_now :: int

inductive export_step :: "string \<Rightarrow> (string \<Rightarrow> string) \<Rightarrow> export_state \<Rightarrow> export_state \<Rightarrow> bool" for env sha256 where
  clock: "ex_now s \<le> t \<Longrightarrow> export_step env sha256 s (s\<lparr>ex_now := t\<rparr>)"
| event: "ex_main s = Waiting_event \<Longrightarrow> handle_open sha256 (ex_now s) ev (ex_ctl s) = (c, h) \<Longrightarrow>
    export_step env sha256 s (s\<lparr>ex_ctl := c, ex_main := Writing (op_hash sha256 ev) h\<rparr>)"
| wrote: "ex_main s = Writing hash h \<Longrightarrow>
    export_step env sha256 s (s\<lparr>ex_main := Waiting_event,
      ex_pushers := ex_pushers s @ (if op_spawn h then [start_pusher (ctl_cfg (ex_ctl s)) (op_row h)] else [])\<rparr>)"
| write_failed: "ex_main s = Writing hash h \<Longrightarrow> handle_failed hash h (ex_ctl s) = (c, None) \<Longrightarrow>
    export_step env sha256 s (s\<lparr>ex_ctl := c, ex_main := Waiting_event\<rparr>)"
| pruned: "range_order_ok rng \<Longrightarrow> ctl_PruneExpired rng (ex_now s) (ex_ctl s) = (c, n, pods) \<Longrightarrow>
    export_step env sha256 s (s\<lparr>ex_ctl := c\<rparr>)"
| pass: "ex_pushers s = ps @ p # ps' \<Longrightarrow> pu_pc p = Top \<Longrightarrow> pass_begin env clk reached (ex_now s) p (ex_ctl s) = (c, p') \<Longrightarrow>
    export_step env sha256 s (s\<lparr>ex_ctl := c, ex_pushers := ps @ p' # ps'\<rparr>)"
| pulled: "ex_pushers s = ps @ p # ps' \<Longrightarrow> pu_pc p = Pulling sls \<Longrightarrow>
    pass_end (ex_now s) query write slept sls p (ex_ctl s) = (p', c) \<Longrightarrow>
    export_step env sha256 s (s\<lparr>ex_ctl := c, ex_pushers := ps @ p' # ps'\<rparr>)"
| cancelled: "ex_pushers s = ps @ p # ps' \<Longrightarrow> pu_pc p = Top \<Longrightarrow>
    export_step env sha256 s (s\<lparr>ex_pushers := ps @ p\<lparr>pu_pc := Leaving\<rparr> # ps'\<rparr>)"
| left: "ex_pushers s = ps @ p # ps' \<Longrightarrow> pu_pc p = Leaving \<Longrightarrow>
    export_step env sha256 s (s\<lparr>ex_ctl := (ex_ctl s)\<lparr>inFlight := AList.delete (AnomalyHash (pu_row p)) (inFlight (ex_ctl s))\<rparr>,
      ex_pushers := ps @ ps'\<rparr>)"

end
