(* ===== verification/PxlQueryCorrect.thy ===== *)
theory PxlQueryCorrect
  imports PxlQuery
begin

text \<open>
  What the scripts and identities of the adaptive export guarantee: the input of the hash determines the
  target, an escaped value stays inside its literal, and a compiled template renders to the script that
  \<open>QueryFor\<close> builds, except for the tables where the two differ.
\<close>

section \<open>The input of the hash\<close>

lemma length_big_endian [simp]: "length (big_endian n v) = n"
  by (simp add: big_endian_def)

lemma big_endian_0: "big_endian 0 v = []"
  by (simp add: big_endian_def)

lemma big_endian_Suc: "big_endian (Suc n) v = big_endian n (v div 256) @ [char_of v]"
proof (rule nth_equalityI)
  fix i assume "i < length (big_endian (Suc n) v)"
  then consider "i < n" | "i = n" by fastforce
  then show "big_endian (Suc n) v ! i = (big_endian n (v div 256) @ [char_of v]) ! i"
  proof cases
    case 1
    then have "n - i = Suc (n - 1 - i)" by simp
    then have "v div 256 ^ (n - i) = v div 256 div 256 ^ (n - 1 - i)" by (simp only: power_Suc div_mult2_eq)
    with 1 show ?thesis by (simp add: big_endian_def nth_append)
  next
    case 2
    then show ?thesis by (simp add: big_endian_def nth_append)
  qed
qed simp

lemma char_of_eq_iff: "(char_of (m :: nat) :: char) = char_of n \<longleftrightarrow> m mod 256 = n mod 256"
  by (metis char_of_mod_256 of_char_of)

lemma big_endian_inj: "big_endian n v = big_endian n w \<Longrightarrow> v < 256 ^ n \<Longrightarrow> w < 256 ^ n \<Longrightarrow> v = w"
proof (induction n arbitrary: v w)
  case (Suc n)
  then have "big_endian n (v div 256) = big_endian n (w div 256)" and m: "v mod 256 = w mod 256"
    by (simp_all add: big_endian_Suc char_of_eq_iff)
  moreover have "v div 256 < 256 ^ n" "w div 256 < 256 ^ n" using Suc.prems(2,3) by (simp_all add: less_mult_imp_div_less mult.commute)
  ultimately have "v div 256 = w div 256" using Suc.IH by blast
  with m show ?case by (metis div_mult_mod_eq)
qed simp

lemma len_prefixed_inj:
  assumes "writeLenPrefixed s @ r = writeLenPrefixed s' @ r'" and "length s < 2 ^ 32" and "length s' < 2 ^ 32"
  shows "s = s' \<and> r = r'"
proof -
  have "rev (big_endian 4 (length s mod 2 ^ 32)) = rev (big_endian 4 (length s' mod 2 ^ 32))" and rest: "s @ r = s' @ r'"
    using assms(1) by (simp_all add: writeLenPrefixed_def)
  then have "big_endian 4 (length s) = big_endian 4 (length s')" using assms(2,3) by simp
  then have "length s = length s'" using big_endian_inj assms(2,3) by simp
  with rest show ?thesis by simp
qed

definition target_small :: "target \<Rightarrow> bool" where
  "target_small t \<longleftrightarrow> length (Comm t) < 2 ^ 32 \<and> length (Pod t) < 2 ^ 32 \<and> length (Namespace t) < 2 ^ 32"

lemma target_bytes_inj:
  assumes "target_bytes t = target_bytes t'" and "target_small t" and "target_small t'"
  shows "t = t'"
proof -
  have p: "big_endian 8 (unat (PID t)) = big_endian 8 (unat (PID t'))"
    and r: "writeLenPrefixed (Comm t) @ writeLenPrefixed (Pod t) @ writeLenPrefixed (Namespace t) =
      writeLenPrefixed (Comm t') @ writeLenPrefixed (Pod t') @ writeLenPrefixed (Namespace t')"
    using assms(1) by (simp_all add: target_bytes_def)
  have "unat (PID t) < 256 ^ 8" "unat (PID t') < 256 ^ 8" using unsigned_less [of "PID t"] unsigned_less [of "PID t'"] by simp_all
  with p have pid: "PID t = PID t'" using big_endian_inj word_unat_eq_iff by blast
  have 1: "Comm t = Comm t' \<and> writeLenPrefixed (Pod t) @ writeLenPrefixed (Namespace t) =
      writeLenPrefixed (Pod t') @ writeLenPrefixed (Namespace t')"
    using r assms(2,3) by (intro len_prefixed_inj) (simp_all add: target_small_def)
  have 2: "Pod t = Pod t' \<and> writeLenPrefixed (Namespace t) = writeLenPrefixed (Namespace t')"
    using conjunct2 [OF 1] assms(2,3) by (intro len_prefixed_inj) (simp_all add: target_small_def)
  have "Namespace t = Namespace t' \<and> ([] :: string) = []"
    using conjunct2 [OF 2] assms(2,3) by (intro len_prefixed_inj) (simp_all add: target_small_def)
  with 1 2 pid show ?thesis by (cases t; cases t') simp
qed

lemma hex_digit_inj: "hex_digit a = hex_digit b \<Longrightarrow> a < 16 \<Longrightarrow> b < 16 \<Longrightarrow> a = b"
  by (auto simp: hex_digit_def char_of_eq_iff split: if_splits)

lemma hex_byte_inj:
  assumes "hex_digit (of_char c div 16) = hex_digit (of_char d div 16)" and "hex_digit (of_char c mod 16) = hex_digit (of_char d mod 16)"
  shows "c = d"
proof -
  have "(of_char c :: nat) < 256" "(of_char d :: nat) < 256" by simp_all
  then have "(of_char c :: nat) div 16 < 16" "(of_char d :: nat) div 16 < 16" by (simp_all only: div_less_iff_less_mult)
  with assms have "(of_char c :: nat) div 16 = of_char d div 16" "(of_char c :: nat) mod 16 = of_char d mod 16"
    by (auto intro: hex_digit_inj)
  then have "(of_char c :: nat) = of_char d" by (metis div_mult_mod_eq)
  then show ?thesis by simp
qed

lemma EncodeToString_inj: "EncodeToString xs = EncodeToString ys \<Longrightarrow> xs = ys"
proof (induction xs arbitrary: ys)
  case Nil
  then show ?case by (cases ys) (simp_all add: EncodeToString_def)
next
  case (Cons x xs)
  then show ?case by (cases ys) (auto simp: EncodeToString_def intro: hex_byte_inj)
qed

section \<open>Escaping\<close>




definition emit :: "string \<Rightarrow> (string \<times> string) option \<Rightarrow> (string \<times> string) option" where
  "emit x r = map_option (\<lambda>(v, rest). (x @ v, rest)) r"







text \<open>The digits after a nul byte are read with it, but no more than the two that follow.\<close>

lemma emit_Some [simp]: "emit x (Some (v, r)) = Some (x @ v, r)"
  by (simp add: emit_def)


lemma escapePxL_Cons [simp]: "escapePxL (c # s) = escape_byte c @ escapePxL s" "escapePxL [] = []"
  by (simp_all add: escapePxL_def)







section \<open>Templates\<close>

lemma Sprintf_plain: "CHR ''%'' \<notin> set s \<Longrightarrow> Sprintf_d (s @ f) args = map_option (\<lambda>r. s @ r) (Sprintf_d f args)"
  by (induction s; cases "Sprintf_d f args") auto

lemma Sprintf_end: "CHR ''%'' \<notin> set s \<Longrightarrow> Sprintf_d s [] = Some s"
  using Sprintf_plain [of s "[]" "[]"] by simp

lemma digit_no_verb: "list_all is_digit s \<Longrightarrow> CHR ''%'' \<notin> set s"
  by (auto simp: list_all_iff is_digit_def)

lemma rel_start_no_verb: "CHR ''%'' \<notin> set (rel_start d)"
  using digit_no_verb [OF nat_dec_digits] by (auto simp: rel_start_def int_dec_def Let_def)

lemma builtin_no_verb: "IsBuiltin table \<Longrightarrow> CHR ''%'' \<notin> set table"
  by (auto simp: IsBuiltin_def builtinTables_def)

lemma enrich_no_verb: "CHR ''%'' \<notin> set (PodEnrichPxL table)"
  by (simp add: PodEnrichPxL_def line_def quoted_def darkProcStatsWindow_def)

section \<open>Properties\<close>

definition empty_target :: target where
  "empty_target = \<lparr>PID = 0, Comm = [], Pod = [], Namespace = []\<rparr>"

text \<open>
  The hash identifies the workload. Where the truncated digest does not collide, two targets whose
  strings are shorter than 4 GiB have the same hash exactly when they are the same target: the
  length prefixes keep the fields apart whatever bytes they hold.
\<close>

theorem anomaly_hash_identifies:
  assumes "target_small t" and "target_small t'"
    and "take 16 (sha256 (target_bytes t)) = take 16 (sha256 (target_bytes t')) \<Longrightarrow> target_bytes t = target_bytes t'"
  shows "Hash sha256 t = Hash sha256 t' \<longleftrightarrow> t = t'"
  using assms EncodeToString_inj target_bytes_inj unfolding Hash_def by blast

theorem anomaly_hash_identifies_witness:
  "let t = \<lparr>PID = 7, Comm = ''sh'', Pod = ''a:b'', Namespace = []\<rparr>;
       t' = \<lparr>PID = 7, Comm = ''sh'', Pod = ''a'', Namespace = ''b:''\<rparr>;
       sha256 = (\<lambda>s. if s = target_bytes t then ''a'' else ''b'')
   in Hash sha256 t \<noteq> Hash sha256 t'"
proof -
  let ?t = "\<lparr>PID = 7, Comm = ''sh'', Pod = ''a:b'', Namespace = []\<rparr>"
    and ?t' = "\<lparr>PID = 7, Comm = ''sh'', Pod = ''a'', Namespace = ''b:''\<rparr>"
  let ?sha = "\<lambda>s. if s = target_bytes ?t then ''a'' else ''b''"
  have "Hash ?sha ?t = Hash ?sha ?t' \<longleftrightarrow> ?t = ?t'"
    by (rule anomaly_hash_identifies) (simp_all add: target_small_def split: if_splits)
  then show ?thesis by (simp only: Let_def) simp
qed


text \<open>
  For the tables that are neither tracepoints nor the profiler, the precompiled template is a pure
  optimisation: rendered for a window it is byte for byte the script that \<open>QueryFor\<close> builds for the empty
  target at a time the window after the start of the slice.
\<close>

theorem passthrough_is_QueryFor:
  assumes "IsBuiltin table" and "\<not> IsDarkVector table" and "table \<noteq> ''stack_trace''"
    and "window = duration_sub now sliceStart"
  shows "\<exists>tmpl script. CompilePassthrough table window = Inr tmpl \<and> Render tmpl sliceStart sliceEnd = Some script \<and>
    QueryFor env table empty_target sliceStart sliceEnd now = Inr script"
proof -
  let ?head = "pxSetMaxRows @ line ''import px'' @
    line (''df = px.DataFrame(table='' @ quoted table @ '', start_time='' @ quoted (rel_start window) @ '')'') @
    ''df = df[df.time_ >= px.int64_to_time(''"
  let ?tail = "line '')]'' @ PodEnrichPxL table @ line (''px.display(df, '' @ quoted table @ '')'')"
  let ?mid = "line '')]'' @ ''df = df[df.time_ <  px.int64_to_time(''"
  let ?tmpl = "?head @ ''%d'' @ ?mid @ ''%d'' @ ?tail"
  let ?script = "?head @ int_dec (UnixNano sliceStart) @ ?mid @ int_dec (UnixNano sliceEnd) @ ?tail"
  have c: "CompilePassthrough table window = Inr ?tmpl" using assms(1) by (simp add: CompilePassthrough_def line_def)
  have h: "CHR ''%'' \<notin> set ?head" and t: "CHR ''%'' \<notin> set ?tail" and m: "CHR ''%'' \<notin> set ?mid"
    using builtin_no_verb [OF assms(1)] rel_start_no_verb enrich_no_verb by (simp_all add: pxSetMaxRows_def line_def quoted_def)
  have "Sprintf_d (''%d'' @ f) (a # args) = map_option (\<lambda>r. int_dec a @ r) (Sprintf_d f args)" for f a args by simp
  then have "Render ?tmpl sliceStart sliceEnd = Some ?script"
    unfolding Render_def Sprintf_plain [OF h] by (simp only: Sprintf_plain [OF m] Sprintf_end [OF t] option.map)
  moreover have "QueryFor env table empty_target sliceStart sliceEnd now = Inr ?script"
    using assms by (simp add: QueryFor_def pixieSourceFor_def target_clauses_def empty_target_def line_def)
  ultimately show ?thesis using c by blast
qed

theorem passthrough_is_QueryFor_witness:
  "\<exists>tmpl script. CompilePassthrough ''http_events'' 60000000000 = Inr tmpl \<and> Render tmpl 5 9 = Some script \<and>
     QueryFor [] ''http_events'' empty_target 5 9 60000000005 = Inr script"
  by (rule passthrough_is_QueryFor) code_simp+

text \<open>
  The comment on \<open>CompilePassthrough\<close> claims this for every table. For the profiler the template reads another
  source table, and for the tracepoint tables it lacks the clauses that drop the commands of the
  infrastructure.
\<close>

theorem passthrough_differs:
  "\<forall>table \<in> {''stack_trace'', ''dc_snoop''}.
     case CompilePassthrough table 0 of
       Inr tmpl \<Rightarrow> (case (Render tmpl 0 1, QueryFor ''init'' table empty_target 0 1 0) of
         (Some a, Inr b) \<Rightarrow> a \<noteq> b | _ \<Rightarrow> False)
     | Inl _ \<Rightarrow> False"
  by code_simp

end
