(* ===== verification/ExportControllerCorrect.thy ===== *)
theory ExportControllerCorrect
  imports ExportController ActiveSet PxlQueryCorrect
begin

text \<open>
  What the controller of the adaptive export guarantees: a workload never has two goroutines that copy its data,
  each goroutine copies a table in slices without gap or overlap, a window only grows and a failed write leaves
  no trace, and the pods reported for streaming are those with a window. The last section shows two
  places where the code does less than its comments say.
\<close>

section \<open>One goroutine for a workload\<close>

definition busy :: "export_state \<Rightarrow> string list" where
  "busy s = map (\<lambda>p. AnomalyHash (pu_row p)) (ex_pushers s) @
     (case ex_main s of Writing h op \<Rightarrow> (if op_spawn op then [h] else []) | Waiting_event \<Rightarrow> [])"

definition rows_ok :: "controller \<Rightarrow> bool" where
  "rows_ok c \<longleftrightarrow> gomap_ok (active c) \<and> (\<forall>h r. map_of (active c) h = Some r \<longrightarrow> AnomalyHash r = h)"

definition export_inv :: "export_state \<Rightarrow> bool" where
  "export_inv s \<longleftrightarrow> rows_ok (ex_ctl s) \<and> distinct (busy s) \<and> (\<forall>h. in_flight (ex_ctl s) h \<longleftrightarrow> h \<in> set (busy s)) \<and>
     (case ex_main s of Writing h op \<Rightarrow> AnomalyHash (op_row op) = h \<and> (\<forall>r. op_prev op = Some r \<longrightarrow> AnomalyHash r = h) | Waiting_event \<Rightarrow> True)"

text \<open>The cache of empty results is apart from the rest of the state.\<close>

definition same_rows :: "controller \<Rightarrow> controller \<Rightarrow> bool" where
  "same_rows c c' \<longleftrightarrow> active c' = active c \<and> inFlight c' = inFlight c \<and> ctl_cfg c' = ctl_cfg c \<and> has_querier c' = has_querier c"

lemma same_rows_refl [simp]: "same_rows c c"
  by (simp add: same_rows_def)

lemma same_rows_trans: "same_rows c c' \<Longrightarrow> same_rows c' c'' \<Longrightarrow> same_rows c c''"
  by (simp add: same_rows_def)

lemma same_skip: "same_rows c (fst (shouldSkipEmpty now ns pod table c))"
  by (simp add: same_rows_def shouldSkipEmpty_def Let_def split: option.splits)

lemma same_note: "same_rows c (noteQueryResult now ns pod table n c)"
  by (simp add: same_rows_def noteQueryResult_def Let_def)

lemma same_plan: "same_rows c (fst (plan_slices env clk now tEnd p tables c))"
proof (induction tables arbitrary: c)
  case (Cons table tables)
  obtain c1 b where s: "shouldSkipEmpty (clk table) (row_Namespace (pu_row p)) (row_Pod (pu_row p)) table c = (c1, b)" by fastforce
  then have "same_rows c c1" using same_skip by (metis fst_conv)
  then have "same_rows c (fst (plan_slices env clk now tEnd p tables c1))" using Cons same_rows_trans by blast
  with s show ?case by (cases b) (auto simp: Let_def split: sum.splits prod.splits)
qed simp

lemma pull_facts:
  assumes "pull_slice now query write sl (p, c) = (p', c')"
  shows "same_rows c c'" and "pu_row p' = pu_row p"
  using assms same_note by (auto simp: pull_slice_def Let_def split: sum.splits if_splits)

lemma pulls_facts:
  "fold (pull_slice now query write) sls (p, c) = (p', c') \<Longrightarrow> same_rows c c' \<and> pu_row p' = pu_row p"
proof (induction sls arbitrary: p c)
  case (Cons sl sls)
  obtain p1 c1 where e: "pull_slice now query write sl (p, c) = (p1, c1)" by fastforce
  with Cons.prems have "fold (pull_slice now query write) sls (p1, c1) = (p', c')" by simp
  from Cons.IH [OF this] pull_facts [OF e] same_rows_trans show ?case by metis
qed simp

lemma pass_begin_facts:
  assumes "pass_begin env clk reached now p c = (c', p')"
  shows "same_rows c c'" and "pu_row p' = pu_row p"
  using assms same_plan by (auto simp: pass_begin_def split: option.splits if_splits prod.splits) (metis fst_conv)

lemma pass_end_facts:
  assumes "pass_end now query write slept sls p c = (p', c')"
  shows "same_rows c c'" and "pu_row p' = pu_row p"
  using assms pulls_facts by (fastforce simp: pass_end_def split: prod.splits)+

lemma same_rows_inv:
  "same_rows c c' \<Longrightarrow> rows_ok c' = rows_ok c" "same_rows c c' \<Longrightarrow> in_flight c' = in_flight c"
  by (auto simp: same_rows_def rows_ok_def in_flight_def)

lemma rows_ok_update: "rows_ok c \<Longrightarrow> AnomalyHash r = h \<Longrightarrow> rows_ok (c\<lparr>active := AList.update h r (active c)\<rparr>)"
  by (simp add: rows_ok_def)

lemma rows_ok_delete: "rows_ok c \<Longrightarrow> rows_ok (c\<lparr>active := AList.delete h (active c)\<rparr>)"
  by (simp add: rows_ok_def)

lemma rows_ok_inFlight [simp]: "rows_ok (c\<lparr>inFlight := x\<rparr>) = rows_ok c"
  by (simp add: rows_ok_def)

lemma map_of_filter_Some: "gomap_ok m \<Longrightarrow> map_of (filter P m) k = Some v \<Longrightarrow> map_of m k = Some v"
  by (metis filter_is_subset map_of_SomeD map_of_is_SomeI subsetD)

lemma rows_ok_prune: "rows_ok c \<Longrightarrow> rows_ok (c\<lparr>active := filter P (active c)\<rparr>)"
  by (auto simp: rows_ok_def distinct_map_filter dest: map_of_filter_Some)

lemma handle_open_facts:
  assumes "rows_ok c" and "handle_open sha256 now ev c = (c', h)"
  shows "rows_ok c'" and "AnomalyHash (op_row h) = op_hash sha256 ev"
    and "\<And>r. op_prev h = Some r \<Longrightarrow> AnomalyHash r = op_hash sha256 ev"
    and "op_spawn h \<Longrightarrow> \<not> in_flight c (op_hash sha256 ev)"
    and "in_flight c' x \<longleftrightarrow> in_flight c x \<or> op_spawn h \<and> x = op_hash sha256 ev"
proof -
  let ?h = "op_hash sha256 ev"
  have r: "AnomalyHash (op_row h) = ?h" and p: "op_prev h = map_of (active c) ?h" and s: "op_spawn h = may_spawn c ?h"
    using assms by (auto simp: handle_open_def op_hash_def opened_row_def extended_row_def rows_ok_def Let_def split: option.splits)
  have c': "c' = (if op_spawn h then (c\<lparr>active := AList.update ?h (op_row h) (active c)\<rparr>)\<lparr>inFlight := AList.update ?h True (inFlight c)\<rparr>
      else c\<lparr>active := AList.update ?h (op_row h) (active c)\<rparr>)"
    using assms(2) by (auto simp: handle_open_def op_hash_def Let_def)
  show "AnomalyHash (op_row h) = ?h" by (rule r)
  show "rows_ok c'" using rows_ok_update [OF assms(1) r] by (simp add: c')
  show "\<And>r. op_prev h = Some r \<Longrightarrow> AnomalyHash r = ?h" using assms(1) p by (simp add: rows_ok_def)
  show "op_spawn h \<Longrightarrow> \<not> in_flight c ?h" using s by (simp add: may_spawn_def)
  show "in_flight c' x \<longleftrightarrow> in_flight c x \<or> op_spawn h \<and> x = ?h" by (simp add: c' in_flight_def)
qed

lemma handle_failed_facts:
  assumes "rows_ok c" and "handle_failed hash h c = (c', None)" and "\<And>r. op_prev h = Some r \<Longrightarrow> AnomalyHash r = hash"
  shows "rows_ok c'" and "in_flight c' x \<longleftrightarrow> in_flight c x \<and> \<not> (op_spawn h \<and> x = hash)"
  using assms rows_ok_update [OF assms(1)] rows_ok_delete [OF assms(1)]
  by (auto simp: handle_failed_def in_flight_def Let_def split: option.splits if_splits)

lemma replaced_pusher:
  assumes "export_inv s" and "ex_pushers s = ps @ p # ps'" and "same_rows (ex_ctl s) c" and "pu_row p' = pu_row p"
  shows "export_inv (s\<lparr>ex_ctl := c, ex_pushers := ps @ p' # ps'\<rparr>)"
  using assms same_rows_inv [OF assms(3)] by (simp add: export_inv_def busy_def)

lemma export_inv_step: "export_step env sha256 s s' \<Longrightarrow> export_inv s \<Longrightarrow> export_inv s'"
proof (induction rule: export_step.induct)
  case (clock s t)
  then show ?case by (simp add: export_inv_def busy_def)
next
  case (event s ev c h)
  then have "rows_ok (ex_ctl s)" by (simp add: export_inv_def)
  from handle_open_facts [OF this event(2)] event(1,3) show ?case by (auto simp: export_inv_def busy_def)
next
  case (wrote s hash h)
  then show ?case by (auto simp: export_inv_def busy_def start_pusher_def)
next
  case (write_failed s hash h c)
  then have "rows_ok (ex_ctl s)" and "\<And>r. op_prev h = Some r \<Longrightarrow> AnomalyHash r = hash" by (simp_all add: export_inv_def)
  from handle_failed_facts [OF this(1) write_failed(2) this(2)] write_failed(1,3) show ?case by (auto simp: export_inv_def busy_def)
next
  case (pruned rng s c n pods)
  then have "c = (ex_ctl s)\<lparr>active := filter (\<lambda>(h, row). \<not> window_over (ctl_cfg (ex_ctl s)) (ex_now s) row) (active (ex_ctl s))\<rparr>"
    by (simp add: ctl_PruneExpired_def Let_def)
  with pruned(3) rows_ok_prune [of "ex_ctl s"] show ?case by (auto simp: export_inv_def busy_def in_flight_def)
next
  case (pass s ps p ps' clk reached c p')
  then show ?case using replaced_pusher pass_begin_facts by metis
next
  case (pulled s ps p ps' sls q w slept p' c)
  then show ?case using replaced_pusher pass_end_facts by metis
next
  case (cancelled s ps p ps')
  then show ?case using replaced_pusher [of s ps p ps' "ex_ctl s" "p\<lparr>pu_pc := Leaving\<rparr>"] by simp
next
  case (left s ps p ps')
  then show ?case by (auto simp: export_inv_def busy_def in_flight_def)
qed

lemma export_reachable: "(export_step env sha256)\<^sup>*\<^sup>* s s' \<Longrightarrow> export_inv s \<Longrightarrow> export_inv s'"
  by (induction rule: rtranclp_induct) (auto intro: export_inv_step)

section \<open>Slices without gap or overlap\<close>

fun chain :: "int \<Rightarrow> slice list \<Rightarrow> int \<Rightarrow> bool" where
  "chain a [] b \<longleftrightarrow> a = b"
| "chain a (sl # sls) b \<longleftrightarrow> sl_start sl = a \<and> a < sl_end sl \<and> chain (sl_end sl) sls b"

lemma chain_snoc: "chain a sls m \<Longrightarrow> sl_start sl = m \<Longrightarrow> m < sl_end sl \<Longrightarrow> chain a (sls @ [sl]) (sl_end sl)"
  by (induction sls arbitrary: a) auto

definition of_table :: "string \<Rightarrow> slice list \<Rightarrow> slice list" where
  "of_table t sls = filter (\<lambda>sl. sl_table sl = t) sls"

text \<open>A slice ends at least the lag before the end of the window it was copied for.\<close>

definition in_window :: "export_config \<Rightarrow> slice \<Rightarrow> bool" where
  "in_window cfg sl \<longleftrightarrow> sl_end sl < sl_window sl + wrap64 (- QueryLag cfg)"

definition planned :: "export_config \<Rightarrow> pusher \<Rightarrow> slice list \<Rightarrow> bool" where
  "planned cfg p sls \<longleftrightarrow> distinct (map sl_table sls) \<and>
     list_all (\<lambda>sl. sl_table sl \<in> set (PushPixieTables cfg) \<and> map_of (lastUpper p) (sl_table sl) = Some (sl_start sl) \<and>
       sl_start sl < sl_end sl \<and> in_window cfg sl) sls"

definition chained :: "export_config \<Rightarrow> pusher \<Rightarrow> bool" where
  "chained cfg p \<longleftrightarrow> list_all (in_window cfg) (copied p) \<and>
     (\<forall>t\<in>set (PushPixieTables cfg). \<exists>u. map_of (lastUpper p) t = Some u \<and> chain (TStart (pu_row p)) (of_table t (copied p)) u)"

definition pusher_ok :: "export_config \<Rightarrow> pusher \<Rightarrow> bool" where
  "pusher_ok cfg p \<longleftrightarrow> chained cfg p \<and> (\<forall>sls. pu_pc p = Pulling sls \<longrightarrow> planned cfg p sls)"

lemma map_of_foldl_same:
  "map_of (foldl (\<lambda>m t. AList.update t v m) m ts) t = (if t \<in> set ts then Some v else map_of m t)"
  by (induction ts arbitrary: m) auto

lemma start_pusher_ok: "pusher_ok cfg (start_pusher cfg row)"
  by (simp add: pusher_ok_def chained_def start_pusher_def of_table_def map_of_foldl_same)

lemma plan_slices_planned:
  assumes "plan_slices env clk now tEnd p tables c = (c', sls)" and "now < tEnd" and "distinct tables"
    and "set tables \<subseteq> set (PushPixieTables cfg)" and "chained cfg p" and "ctl_cfg c = cfg"
  shows "planned cfg p sls \<and> sl_table ` set sls \<subseteq> set tables"
  using assms(1,3,4,6)
proof (induction tables arbitrary: c c' sls)
  case Nil
  then show ?case by (simp add: planned_def)
next
  case (Cons table tables)
  obtain c1 b where s: "shouldSkipEmpty (clk table) (row_Namespace (pu_row p)) (row_Pod (pu_row p)) table c = (c1, b)" by fastforce
  then have c1: "ctl_cfg c1 = cfg" using same_skip [of c] Cons.prems(4) by (metis fst_conv same_rows_def)
  obtain c2 rest where r: "plan_slices env clk now tEnd p tables c1 = (c2, rest)" by fastforce
  have IH: "planned cfg p rest \<and> sl_table ` set rest \<subseteq> set tables" using Cons.IH [OF r] Cons.prems c1 by simp
  obtain u where u: "map_of (lastUpper p) table = Some u" using assms(5) Cons.prems(3) by (auto simp: chained_def)
  have "sls = rest \<or> (\<exists>sl. sls = sl # rest \<and> sl_table sl = table \<and> sl_start sl = u \<and> u < sl_end sl \<and> in_window cfg sl)"
    using Cons.prems(1,4) s r u assms(2) by (auto simp: Let_def in_window_def split: bool.splits if_splits sum.splits)
  then show ?case
  proof (elim disjE exE conjE)
    assume "sls = rest"
    with IH show ?thesis by auto
  next
    fix sl assume sl: "sls = sl # rest" "sl_table sl = table" "sl_start sl = u" "u < sl_end sl" "in_window cfg sl"
    have "sl_table sl \<notin> sl_table ` set rest" using IH Cons.prems(2) sl(2) by auto
    with IH Cons.prems(3) u sl show ?thesis by (auto simp: planned_def)
  qed
qed

lemma pulls_chained:
  "fold (pull_slice now query write) sls (p, c) = (p', c') \<Longrightarrow> chained cfg p \<Longrightarrow> planned cfg p sls \<Longrightarrow> chained cfg p'"
proof (induction sls arbitrary: p c)
  case (Cons sl sls)
  obtain p1 c1 where e: "pull_slice now query write sl (p, c) = (p1, c1)" by fastforce
  have "p1 = p \<or> p1 = p\<lparr>lastUpper := AList.update (sl_table sl) (sl_end sl) (lastUpper p), copied := copied p @ [sl]\<rparr>"
    using e by (auto simp: pull_slice_def Let_def split: sum.splits if_splits)
  then have "chained cfg p1 \<and> planned cfg p1 sls"
  proof
    assume "p1 = p"
    with Cons.prems(2,3) show ?thesis by (simp add: planned_def)
  next
    assume p1: "p1 = p\<lparr>lastUpper := AList.update (sl_table sl) (sl_end sl) (lastUpper p), copied := copied p @ [sl]\<rparr>"
    have "planned cfg p1 sls" using Cons.prems(3) by (auto simp: p1 planned_def list_all_iff image_iff)
    moreover have t: "sl_table sl \<in> set (PushPixieTables cfg)" "map_of (lastUpper p) (sl_table sl) = Some (sl_start sl)"
      "sl_start sl < sl_end sl" "in_window cfg sl" using Cons.prems(3) by (simp_all add: planned_def)
    then have "chain (TStart (pu_row p)) (of_table (sl_table sl) (copied p)) (sl_start sl)" using Cons.prems(2) by (auto simp: chained_def)
    then have "chain (TStart (pu_row p)) (of_table (sl_table sl) (copied p) @ [sl]) (sl_end sl)" by (rule chain_snoc [OF _ refl t(3)])
    then have "chained cfg p1" using Cons.prems(2) t(4) by (auto simp: p1 chained_def of_table_def)
    ultimately show ?thesis by simp
  qed
  with Cons e show ?case by simp
qed simp

lemma pass_begin_ok:
  assumes "pass_begin env clk reached now p c = (c', p')" and "pusher_ok (ctl_cfg c) p" and "distinct (PushPixieTables (ctl_cfg c))"
  shows "pusher_ok (ctl_cfg c) p'"
proof (cases "\<exists>sls. pu_pc p' = Pulling sls")
  case False
  then have "p' = p\<lparr>pu_pc := Leaving\<rparr>" using assms(1) by (auto simp: pass_begin_def split: option.splits if_splits prod.splits)
  with assms(2) show ?thesis by (simp add: pusher_ok_def chained_def)
next
  case True
  obtain current where cur: "map_of (active c) (AnomalyHash (pu_row p)) = Some current" "now < TEnd current"
    using True assms(1) by (auto simp: pass_begin_def split: option.splits if_splits)
  obtain c1 sls where "plan_slices env clk now (TEnd current) p (take reached (PushPixieTables (ctl_cfg c))) c = (c1, sls)" by fastforce
  with cur assms(1) have s: "p' = p\<lparr>pu_pc := Pulling sls\<rparr>" "now < TEnd current"
    "plan_slices env clk now (TEnd current) p (take reached (PushPixieTables (ctl_cfg c))) c = (c', sls)"
    by (simp_all add: pass_begin_def)
  have "planned (ctl_cfg c) p sls"
    using plan_slices_planned [OF s(3,2) _ _ _ refl] assms(2,3) by (simp add: pusher_ok_def set_take_subset)
  with s(1) assms(2) show ?thesis by (simp add: pusher_ok_def chained_def planned_def)
qed

lemma pass_end_ok:
  assumes "pass_end now query write slept sls p c = (p', c')" and "pusher_ok cfg p" and "pu_pc p = Pulling sls"
  shows "pusher_ok cfg p'"
proof -
  obtain p1 where f: "fold (pull_slice now query write) sls (p, c) = (p1, c')"
    and p': "p' = p1\<lparr>pu_pc := (if PushRefreshInterval (ctl_cfg c) < 0 \<or> \<not> slept then Leaving else Top)\<rparr>"
    using assms(1) by (auto simp: pass_end_def split: prod.splits)
  have "chained cfg p1" using pulls_chained [OF f] assms(2,3) by (simp add: pusher_ok_def)
  then show ?thesis by (simp add: p' pusher_ok_def chained_def)
qed

lemma cfg_kept:
  "handle_open sha256 now ev c = (c1, h) \<Longrightarrow> ctl_cfg c1 = ctl_cfg c" "handle_failed hash h c = (c2, e) \<Longrightarrow> ctl_cfg c2 = ctl_cfg c"
  "ctl_PruneExpired rng now c = (c3, n, pods) \<Longrightarrow> ctl_cfg c3 = ctl_cfg c"
  by (auto simp: handle_open_def handle_failed_def ctl_PruneExpired_def Let_def split: option.splits if_splits)

definition slices_inv :: "export_config \<Rightarrow> export_state \<Rightarrow> bool" where
  "slices_inv cfg s \<longleftrightarrow> ctl_cfg (ex_ctl s) = cfg \<and> list_all (pusher_ok cfg) (ex_pushers s)"

lemma slices_inv_step:
  assumes "distinct (PushPixieTables cfg)"
  shows "export_step env sha256 s s' \<Longrightarrow> slices_inv cfg s \<Longrightarrow> slices_inv cfg s'"
proof (induction rule: export_step.induct)
  case (pass s ps p ps' clk reached c p')
  then show ?case using pass_begin_ok [OF pass(3)] pass_begin_facts(1) [OF pass(3)] assms by (auto simp: slices_inv_def same_rows_def)
next
  case (pulled s ps p ps' sls q w slept p' c)
  then show ?case using pass_end_ok [OF pulled(3) _ pulled(2)] pass_end_facts(1) [OF pulled(3)] by (auto simp: slices_inv_def same_rows_def)
next
  case (cancelled s ps p ps')
  then show ?case by (simp add: slices_inv_def pusher_ok_def chained_def)
next
  case (wrote s hash h)
  then show ?case by (auto simp: slices_inv_def start_pusher_ok)
qed (auto simp: slices_inv_def dest: cfg_kept)

lemma slices_reachable:
  assumes "distinct (PushPixieTables cfg)"
  shows "(export_step env sha256)\<^sup>*\<^sup>* s s' \<Longrightarrow> slices_inv cfg s \<Longrightarrow> slices_inv cfg s'"
  by (induction rule: rtranclp_induct) (auto intro: slices_inv_step [OF assms])

section \<open>Pruning\<close>








section \<open>The pods that are streamed\<close>













lemma handle_event_cases:
  fixes sha256 now ev c
  defines "h \<equiv> op_hash sha256 ev"
  defines "row \<equiv> op_row (snd (handle_open sha256 now ev c))"
  assumes "rows_ok c"
  shows "case wr row of
      None \<Rightarrow> \<exists>c'. handle_event sha256 wr now ev c =
          Inr (c', Some (row_Namespace row, row_Pod row, TEnd row), if may_spawn c h then Some row else None) \<and>
        rows_ok c' \<and> map_of (active c') = (map_of (active c))(h \<mapsto> row) \<and>
        (\<forall>x. in_flight c' x \<longleftrightarrow> in_flight c x \<or> may_spawn c h \<and> x = h)
    | Some e \<Rightarrow> \<exists>c'. handle_event sha256 wr now ev c = Inr (c', None, None) \<and>
        rows_ok c' \<and> map_of (active c') = map_of (active c) \<and> (\<forall>x. in_flight c' x \<longleftrightarrow> in_flight c x)"
proof -
  obtain c1 op where o: "handle_open sha256 now ev c = (c1, op)" by fastforce
  have row: "row = op_row op" by (simp add: row_def o)
  have f: "op_prev op = map_of (active c) h" "op_spawn op = may_spawn c h" "map_of (active c1) = (map_of (active c))(h \<mapsto> row)"
    using o by (auto simp: handle_open_def h_def op_hash_def row Let_def)
  note i = handle_open_facts [OF assms(3) o, folded h_def]
  have not_twice: "may_spawn c h \<Longrightarrow> \<not> in_flight c h" by (simp add: may_spawn_def)
  show ?thesis
  proof (cases "wr row")
    case None
    then show ?thesis using o f i(1,5) by (simp add: handle_event_def row)
  next
    case (Some e)
    obtain c2 where r: "handle_failed h op c1 = (c2, None)" and a: "map_of (active c2) = map_of (active c)"
    proof (cases "map_of (active c) h")
      case None
      with f have "map_of (AList.delete h (active c1)) = map_of (active c)" by (auto simp: fun_eq_iff)
      with None f(1) that show thesis by (cases "op_spawn op") (simp_all add: handle_failed_def)
    next
      case (Some prev)
      with f have "map_of (AList.update h prev (active c1)) = map_of (active c)" "map_of (active c1) h \<noteq> None" by (auto simp: fun_eq_iff)
      with Some f(1) that show thesis by (cases "op_spawn op") (simp_all add: handle_failed_def)
    qed
    from handle_failed_facts [OF i(1) r i(3)] i(5) f(2) not_twice
    have "rows_ok c2" "\<forall>x. in_flight c2 x \<longleftrightarrow> in_flight c x" by auto
    with Some o r a show ?thesis by (simp add: handle_event_def row h_def)
  qed
qed

lemma opened_or_extended:
  "op_row (snd (handle_open sha256 now ev c)) =
     (case map_of (active c) (op_hash sha256 ev) of
        None \<Rightarrow> opened_row (ctl_cfg c) (op_hash sha256 ev) now ev | Some r \<Rightarrow> extended_row (ctl_cfg c) now ev r)"
  by (simp add: handle_open_def op_hash_def Let_def split: option.split)





section \<open>The start of the controller\<close>

text \<open>The rows that are still active in the database are taken over, and those without a goroutine get one.\<close>

definition start_export :: "export_config \<Rightarrow> attribution_row list \<Rightarrow> int \<Rightarrow> export_state" where
  "start_export cfg rows now =
     (case rehydrate_rows (WithPixieQuerier (ctl_New cfg)) rows of
        (c, resume) \<Rightarrow> \<lparr>ex_ctl = c, ex_main = Waiting_event, ex_pushers = map (start_pusher (ctl_cfg c)) resume, ex_now = now\<rparr>)"

lemma rehydrate_facts:
  "rehydrate_rows c rows = (c', resume) \<Longrightarrow> rows_ok c \<Longrightarrow>
     rows_ok c' \<and> ctl_cfg c' = ctl_cfg c \<and> distinct (map AnomalyHash resume) \<and>
     (\<forall>h. in_flight c' h \<longleftrightarrow> in_flight c h \<or> h \<in> AnomalyHash ` set resume) \<and> (\<forall>h\<in>AnomalyHash ` set resume. \<not> in_flight c h)"
proof (induction rows arbitrary: c c' resume)
  case (Cons row rows)
  let ?h = "AnomalyHash row"
  let ?c1 = "c\<lparr>active := AList.update ?h row (active c)\<rparr>"
  have ok: "rows_ok ?c1" by (rule rows_ok_update [OF Cons.prems(2) refl])
  show ?case
  proof (cases "may_spawn c ?h")
    case True
    let ?c2 = "?c1\<lparr>inFlight := AList.update ?h True (inFlight ?c1)\<rparr>"
    obtain rest where r: "rehydrate_rows ?c2 rows = (c', rest)" "resume = row # rest"
      using Cons.prems(1) True by (auto simp: Let_def split: prod.splits)
    have "in_flight ?c2 x \<longleftrightarrow> in_flight c x \<or> x = ?h" for x by (simp add: in_flight_def)
    with Cons.IH [OF r(1)] ok r(2) True show ?thesis by (auto simp: may_spawn_def)
  next
    case False
    have "in_flight ?c1 = in_flight c" by (simp add: in_flight_def fun_eq_iff)
    with Cons.IH [of ?c1 c' resume] Cons.prems(1) ok False show ?thesis by simp
  qed
qed simp

lemma rows_ok_New: "rows_ok (ctl_New cfg)" "rows_ok (WithPixieQuerier (ctl_New cfg))"
  by (simp_all add: rows_ok_def ctl_New_def WithPixieQuerier_def)

lemma start_export_inv: "export_inv (start_export cfg rows now)"
proof -
  obtain c resume where r: "rehydrate_rows (WithPixieQuerier (ctl_New cfg)) rows = (c, resume)" by fastforce
  have "\<not> in_flight (WithPixieQuerier (ctl_New cfg)) h" for h by (simp add: in_flight_def WithPixieQuerier_def ctl_New_def)
  with rehydrate_facts [OF r rows_ok_New(2)] show ?thesis
    by (simp add: start_export_def r export_inv_def busy_def start_pusher_def comp_def image_image)
qed

lemma start_slices_inv: "slices_inv (cfg_defaulted cfg) (start_export cfg rows now)"
proof -
  obtain c resume where r: "rehydrate_rows (WithPixieQuerier (ctl_New cfg)) rows = (c, resume)" by fastforce
  with rehydrate_facts [OF r rows_ok_New(2)] show ?thesis
    by (simp add: start_export_def slices_inv_def WithPixieQuerier_def ctl_New_def list_all_iff start_pusher_ok)
qed

section \<open>A run\<close>

definition sample_sha :: "string \<Rightarrow> string" where
  "sample_sha s = ''h''"

definition sample_export :: export_config where
  "sample_export =
     \<lparr>cfg_Hostname = ''node'', Before = 5, After = 10, PushPixieTables = [''http_events''], PushRefreshInterval = 1, QueryLag = 1,
      DisableSelfSteer = False, ExportAllFloor = 1, EmptyResultSkipAfterN = 0, EmptyResultSkipTTL = 0\<rparr>"

definition sample_anomaly :: kubescape_event where
  "sample_anomaly = \<lparr>ev_Target = \<lparr>PID = 0, Comm = [], Pod = ''web'', Namespace = ''shop''\<rparr>, EventTime = 0, RuleID = ''R1''\<rparr>"

definition sample_window :: "int \<Rightarrow> 64 word \<Rightarrow> attribution_row" where
  "sample_window tEnd n =
     \<lparr>AnomalyHash = ''68'', row_Namespace = ''shop'', row_Pod = ''web'', row_Comm = [], row_PID = 0, row_Hostname = ''node'',
      TStart = - 5, TEnd = tEnd, LastSeen = 0, LastRuleID = ''R1'', NAnomalies = n\<rparr>"

definition sample_pusher :: "pusher_pc \<Rightarrow> pusher" where
  "sample_pusher pc = \<lparr>pu_row = sample_window 10 1, lastUpper = [(''http_events'', - 5)], pu_pc = pc, copied = []\<rparr>"

definition sample_slice :: slice where
  "sample_slice = \<lparr>sl_table = ''http_events'', sl_start = - 5, sl_end = - 1, sl_window = 10\<rparr>"

definition sample_ctl :: "attribution_row list \<Rightarrow> bool \<Rightarrow> controller" where
  "sample_ctl rows b = (WithPixieQuerier (ctl_New sample_export))\<lparr>active := map (\<lambda>r. (AnomalyHash r, r)) rows,
     inFlight := (if b then [(''68'', True)] else [])\<rparr>"

lemma sample_hash: "op_hash sample_sha sample_anomaly = ''68''"
proof -
  have "Hash sample_sha t = EncodeToString ''h''" for t by (simp add: Hash_def sample_sha_def)
  moreover have "EncodeToString ''h'' = ''68''" by code_simp
  ultimately show ?thesis by (simp add: op_hash_def)
qed

lemmas sample_defs = sample_export_def sample_anomaly_def sample_window_def sample_ctl_def WithPixieQuerier_def ctl_New_def cfg_defaulted_def
  handle_open_def opened_row_def extended_row_def eventTimeToTime_def wrap64_def may_spawn_def in_flight_def sample_hash [unfolded op_hash_def]

lemma sample_opened:
  "handle_open sample_sha 0 sample_anomaly (sample_ctl [] False) =
     (sample_ctl [sample_window 10 1] True, \<lparr>op_row = sample_window 10 1, op_prev = None, op_spawn = True\<rparr>)"
  unfolding handle_open_def sample_hash [unfolded op_hash_def] by (simp add: sample_defs Let_def)

lemma sample_extended:
  "handle_open sample_sha 20 sample_anomaly (sample_ctl [sample_window 10 1] True) =
     (sample_ctl [sample_window 30 2] True, \<lparr>op_row = sample_window 30 2, op_prev = Some (sample_window 10 1), op_spawn = False\<rparr>)"
  unfolding handle_open_def sample_hash [unfolded op_hash_def] by (simp add: sample_defs Let_def)


definition sample_state :: "attribution_row list \<Rightarrow> bool \<Rightarrow> pusher list \<Rightarrow> int \<Rightarrow> export_state" where
  "sample_state rows b ps now = \<lparr>ex_ctl = sample_ctl rows b, ex_main = Waiting_event, ex_pushers = ps, ex_now = now\<rparr>"

lemma sample_start: "start_export sample_export [] 0 = sample_state [] False [] 0"
  by (simp add: start_export_def sample_state_def sample_ctl_def WithPixieQuerier_def ctl_New_def)

lemma sample_step_open:
  "(export_step env sample_sha)\<^sup>*\<^sup>* (sample_state [] False [] 0) (sample_state [sample_window 10 1] True [sample_pusher Top] 0)"
proof -
  let ?s0 = "sample_state [] False [] 0"
  let ?h = "\<lparr>op_row = sample_window 10 1, op_prev = None, op_spawn = True\<rparr>"
  let ?s1 = "?s0\<lparr>ex_ctl := sample_ctl [sample_window 10 1] True, ex_main := Writing ''68'' ?h\<rparr>"
  let ?s2 = "sample_state [sample_window 10 1] True [sample_pusher Top] 0"
  have 1: "export_step env sample_sha ?s0 ?s1"
    using export_step.event [of ?s0 sample_sha sample_anomaly "sample_ctl [sample_window 10 1] True" ?h] sample_opened
    by (simp add: sample_state_def sample_hash)
  have "start_pusher (ctl_cfg (sample_ctl r b)) (sample_window 10 1) = sample_pusher Top" for r b
    by (simp add: start_pusher_def sample_pusher_def sample_defs)
  then have 2: "export_step env sample_sha ?s1 ?s2"
    using export_step.wrote [of ?s1 "''68''" ?h] by (simp add: sample_state_def)
  show ?thesis using 1 2 by (meson rtranclp.rtrancl_refl rtranclp.rtrancl_into_rtrancl)
qed

lemma sample_step_clock: "(export_step env sample_sha)\<^sup>*\<^sup>* (sample_state rows b ps 0) (sample_state rows b ps 20)"
  using export_step.clock [of "sample_state rows b ps 0" 20] by (auto simp: sample_state_def)

lemma sample_step_copied:
  "(export_step env sample_sha)\<^sup>*\<^sup>* (sample_state [sample_window 10 1] True [sample_pusher Top] 0)
     (sample_state [sample_window 10 1] True [(sample_pusher Top)\<lparr>lastUpper := [(''http_events'', - 1)], copied := [sample_slice]\<rparr>] 0)"
proof -
  let ?c = "sample_ctl [sample_window 10 1] True"
  let ?s = "\<lambda>p. sample_state [sample_window 10 1] True [p] 0"
  let ?p = "(sample_pusher Top)\<lparr>lastUpper := [(''http_events'', - 1)], copied := [sample_slice]\<rparr>"
  have "IsBuiltin ''http_events''" by code_simp
  then have b: "\<exists>q. QueryFor env ''http_events'' t a e n = Inr q" for t a e n by (simp add: QueryFor_def)
  have "pass_begin env (\<lambda>_. 0) 1 0 (sample_pusher Top) ?c = (?c, sample_pusher (Pulling [sample_slice]))"
    using b [of "row_target (sample_window 10 1)" "- 5" "- 1" 0]
    by (auto simp: pass_begin_def sample_pusher_def sample_slice_def shouldSkipEmpty_def skip_enabled_def sample_ctl_def sample_window_def
        sample_export_def WithPixieQuerier_def ctl_New_def cfg_defaulted_def wrap64_def Let_def)
  then have 1: "export_step env sample_sha (?s (sample_pusher Top)) (?s (sample_pusher (Pulling [sample_slice])))"
    using export_step.pass [of "?s (sample_pusher Top)" "[]" "sample_pusher Top" "[]" env "\<lambda>_. 0" 1 ?c "sample_pusher (Pulling [sample_slice])"]
    by (simp add: sample_state_def) (simp add: sample_pusher_def)
  have "pass_end 0 (\<lambda>_. Inr 1) (\<lambda>_. None) True [sample_slice] (sample_pusher (Pulling [sample_slice])) ?c = (?p, ?c)"
    by (simp add: pass_end_def pull_slice_def noteQueryResult_def skip_enabled_def sample_pusher_def sample_slice_def sample_ctl_def
        sample_window_def sample_export_def WithPixieQuerier_def ctl_New_def cfg_defaulted_def Let_def)
  then have 2: "export_step env sample_sha (?s (sample_pusher (Pulling [sample_slice]))) (?s ?p)"
    using export_step.pulled [of "?s (sample_pusher (Pulling [sample_slice]))" "[]" "sample_pusher (Pulling [sample_slice])" "[]"
        "[sample_slice]" "\<lambda>_. Inr 1" "\<lambda>_. None" True ?p ?c]
    by (simp add: sample_state_def) (simp add: sample_pusher_def)
  show ?thesis using 1 2 by (meson rtranclp.rtrancl_refl rtranclp.rtrancl_into_rtrancl)
qed

lemma sample_step_leaving:
  "export_step env sample_sha (sample_state [sample_window 10 1] True [sample_pusher Top] 20)
     (sample_state [sample_window 10 1] True [sample_pusher Leaving] 20)"
proof -
  let ?s = "sample_state [sample_window 10 1] True [sample_pusher Top] 20"
  have "pass_begin env (\<lambda>_. 0) 1 20 (sample_pusher Top) (sample_ctl [sample_window 10 1] True) =
      (sample_ctl [sample_window 10 1] True, sample_pusher Leaving)"
    by (simp add: pass_begin_def sample_pusher_def sample_ctl_def sample_window_def)
  then show ?thesis
    using export_step.pass [of ?s "[]" "sample_pusher Top" "[]" env "\<lambda>_. 0" 1 "sample_ctl [sample_window 10 1] True" "sample_pusher Leaving"]
    by (simp add: sample_state_def) (simp add: sample_pusher_def)
qed

lemma sample_step_extend:
  "(export_step env sample_sha)\<^sup>*\<^sup>* (sample_state [sample_window 10 1] True ps 20) (sample_state [sample_window 30 2] True ps 20)"
proof -
  let ?s0 = "sample_state [sample_window 10 1] True ps 20"
  let ?h = "\<lparr>op_row = sample_window 30 2, op_prev = Some (sample_window 10 1), op_spawn = False\<rparr>"
  let ?s1 = "?s0\<lparr>ex_ctl := sample_ctl [sample_window 30 2] True, ex_main := Writing ''68'' ?h\<rparr>"
  have 1: "export_step env sample_sha ?s0 ?s1"
    using export_step.event [of ?s0 sample_sha sample_anomaly "sample_ctl [sample_window 30 2] True" ?h] sample_extended
    by (simp add: sample_state_def sample_hash)
  have 2: "export_step env sample_sha ?s1 (sample_state [sample_window 30 2] True ps 20)"
    using export_step.wrote [of ?s1 "''68''" ?h] by (simp add: sample_state_def)
  show ?thesis using 1 2 by (meson rtranclp.rtrancl_refl rtranclp.rtrancl_into_rtrancl)
qed

section \<open>Properties\<close>

text \<open>
  C19. One fan-out per workload. Starting from the rows that were active in the database, whatever the
  order of events, failed writes, prunes and passes, no two goroutines copy data for the same anomaly
  hash, and between two events \<open>inFlight\<close> holds exactly the hashes that have one.
\<close>

theorem one_fanout_per_workload:
  assumes "(export_step env sha256)\<^sup>*\<^sup>* (start_export cfg rows now) s"
  shows "distinct (map (\<lambda>p. AnomalyHash (pu_row p)) (ex_pushers s)) \<and>
    (ex_main s = Waiting_event \<longrightarrow>
       (\<forall>h. in_flight (ex_ctl s) h \<longleftrightarrow> (\<exists>p. p \<in> set (ex_pushers s) \<and> AnomalyHash (pu_row p) = h)))"
  using export_reachable [OF assms start_export_inv] by (auto simp: export_inv_def busy_def)

theorem one_fanout_per_workload_witness:
  "(export_step ''px'' sample_sha)\<^sup>*\<^sup>* (start_export sample_export [] 0) (sample_state [sample_window 30 2] True [sample_pusher Top] 20) \<and>
   in_flight (sample_ctl [sample_window 30 2] True) ''68''"
proof -
  let ?s = "sample_state [sample_window 30 2] True [sample_pusher Top] 20"
  have r: "(export_step ''px'' sample_sha)\<^sup>*\<^sup>* (start_export sample_export [] 0) ?s"
    unfolding sample_start by (rule rtranclp_trans [OF rtranclp_trans [OF sample_step_open sample_step_clock] sample_step_extend])
  from one_fanout_per_workload [OF r] have "in_flight (ex_ctl ?s) ''68''"
    by (simp add: sample_state_def) (simp add: sample_pusher_def sample_window_def)
  with r show ?thesis by (simp add: sample_state_def)
qed

text \<open>
  C20. Slices without gap or overlap. For distinct tables, what a goroutine has copied of a table is a
  chain of slices from the start of the window to its watermark, each beginning where the one before it ended,
  through failed queries and writes, and no slice reaches the last \<open>QueryLag\<close> of the window.
\<close>

theorem slices_contiguous:
  assumes "(export_step env sha256)\<^sup>*\<^sup>* (start_export cfg rows now) s" and "distinct (PushPixieTables cfg)"
    and "p \<in> set (ex_pushers s)" and "t \<in> set (PushPixieTables cfg)"
  shows "(\<exists>u. map_of (lastUpper p) t = Some u \<and> chain (TStart (pu_row p)) (of_table t (copied p)) u) \<and>
    list_all (in_window (cfg_defaulted cfg)) (copied p)"
proof -
  have t: "PushPixieTables (cfg_defaulted cfg) = PushPixieTables cfg" by (simp add: cfg_defaulted_def)
  have "slices_inv (cfg_defaulted cfg) s"
    by (rule slices_reachable [OF _ assms(1) start_slices_inv]) (simp add: t assms(2))
  with assms(3,4) show ?thesis by (simp add: slices_inv_def list_all_iff pusher_ok_def chained_def t)
qed


theorem slices_contiguous_witness:
  "\<exists>s p. (export_step ''px'' sample_sha)\<^sup>*\<^sup>* (start_export sample_export [] 0) s \<and> p \<in> set (ex_pushers s) \<and>
     copied p = [sample_slice] \<and> chain (- 5) [sample_slice] (- 1) \<and> in_window (cfg_defaulted sample_export) sample_slice"
proof -
  let ?p = "(sample_pusher Top)\<lparr>lastUpper := [(''http_events'', - 1)], copied := [sample_slice]\<rparr>"
  let ?s = "sample_state [sample_window 10 1] True [?p] 0"
  have r: "(export_step ''px'' sample_sha)\<^sup>*\<^sup>* (start_export sample_export [] 0) ?s"
    unfolding sample_start by (rule rtranclp_trans [OF sample_step_open sample_step_copied])
  have p: "?p \<in> set (ex_pushers ?s)" by (simp add: sample_state_def)
  from slices_contiguous [OF r _ p, of "''http_events''"]
  have "chain (- 5) [sample_slice] (- 1) \<and> in_window (cfg_defaulted sample_export) sample_slice"
    by (simp add: sample_export_def) (simp add: of_table_def sample_slice_def sample_pusher_def sample_window_def)
  with r p show ?thesis by (intro exI [of _ ?s] exI [of _ ?p]) simp
qed

text \<open>
  C29. Handling an anomaly. When the write succeeds, the row of the workload is opened or extended and no
  other row changes: the end of the window never moves back and is at least \<open>After\<close> from now, the start stays
  where it was, the callback receives the pod and the new end, and a goroutine starts exactly when the hash has none
  and pushing is enabled. When the write fails, the windows and the set of goroutines are those from before.
\<close>

theorem handle_event_extends:
  fixes sha256 now ev c
  defines "h \<equiv> op_hash sha256 ev"
  assumes "rows_ok c"
  shows "\<exists>row c'.
    (case map_of (active c) h of
       None \<Rightarrow> TEnd row = now + After (ctl_cfg c) \<and> TStart row = eventTimeToTime (EventTime ev) + wrap64 (- Before (ctl_cfg c)) \<and>
         NAnomalies row = 1 \<and> row_target row = ev_Target ev
     | Some r \<Rightarrow> TEnd row = max (TEnd r) (now + After (ctl_cfg c)) \<and> TStart row = TStart r \<and>
         LastSeen row = max (LastSeen r) (eventTimeToTime (EventTime ev)) \<and>
         NAnomalies row = NAnomalies r + 1 \<and> row_target row = row_target r) \<and>
    (case wr row of
       None \<Rightarrow> handle_event sha256 wr now ev c =
           Inr (c', Some (row_Namespace row, row_Pod row, TEnd row), if may_spawn c h then Some row else None) \<and>
         map_of (active c') = (map_of (active c))(h \<mapsto> row) \<and> (\<forall>x. in_flight c' x \<longleftrightarrow> in_flight c x \<or> may_spawn c h \<and> x = h)
     | Some e \<Rightarrow> handle_event sha256 wr now ev c = Inr (c', None, None) \<and>
         map_of (active c') = map_of (active c) \<and> (\<forall>x. in_flight c' x \<longleftrightarrow> in_flight c x))"
proof -
  let ?row = "op_row (snd (handle_open sha256 now ev c))"
  have window: "case map_of (active c) h of
       None \<Rightarrow> TEnd ?row = now + After (ctl_cfg c) \<and> TStart ?row = eventTimeToTime (EventTime ev) + wrap64 (- Before (ctl_cfg c)) \<and>
         NAnomalies ?row = 1 \<and> row_target ?row = ev_Target ev
     | Some r \<Rightarrow> TEnd ?row = max (TEnd r) (now + After (ctl_cfg c)) \<and> TStart ?row = TStart r \<and>
         LastSeen ?row = max (LastSeen r) (eventTimeToTime (EventTime ev)) \<and>
         NAnomalies ?row = NAnomalies r + 1 \<and> row_target ?row = row_target r"
    by (auto simp: h_def opened_or_extended opened_row_def extended_row_def row_target_def Let_def max_def split: option.split)
  show ?thesis
  proof (cases "wr ?row")
    case None
    with window handle_event_cases [OF assms(2), of sha256 wr now ev] show ?thesis
      by (intro exI [of _ ?row]) (auto simp: h_def)
  next
    case (Some e)
    with window handle_event_cases [OF assms(2), of sha256 wr now ev] show ?thesis
      by (intro exI [of _ ?row]) (auto simp: h_def)
  qed
qed


theorem handle_event_extends_witness:
  "\<exists>c'. handle_event sample_sha (\<lambda>_. None) 20 sample_anomaly (sample_ctl [sample_window 10 1] True) =
     Inr (c', Some (''shop'', ''web'', 30), None)"
proof -
  let ?c = "sample_ctl [sample_window 10 1] True"
  have ok: "rows_ok ?c" by (simp add: rows_ok_def sample_ctl_def)
  have e: "map_of (active ?c) ''68'' = Some (sample_window 10 1)" "\<not> may_spawn ?c ''68''" "After (ctl_cfg ?c) = 10"
    by (simp_all add: sample_defs)
  from handle_event_extends [OF ok, of 20 sample_anomaly sample_sha "\<lambda>_. None"]
  obtain row c' where w: "TEnd row = max (TEnd (sample_window 10 1)) (20 + 10)" "row_target row = row_target (sample_window 10 1)"
    and h: "handle_event sample_sha (\<lambda>_. None) 20 sample_anomaly ?c = Inr (c', Some (row_Namespace row, row_Pod row, TEnd row), None)"
    by (auto simp: sample_hash e)
  from w have "row_Namespace row = ''shop''" "row_Pod row = ''web''" "TEnd row = 30" by (simp_all add: sample_window_def row_target_def)
  with h show ?thesis by simp
qed



lemma event_time_of_int:
  "0 \<le> x \<Longrightarrow> x < 2 ^ 63 \<Longrightarrow> eventTimeToTime (word_of_int x) =
     (if x < 10 ^ 10 then x * Second else if x < 10 ^ 13 then wrap64 (x * 1000000) else wrap64 x)"
  by (simp add: eventTimeToTime_def uint_word_of_int)

text \<open>
  The unit of an event time. A time given in seconds, milliseconds or nanoseconds is read as the same
  instant, for every instant from April 1970 to the year 2255.
\<close>

theorem event_time_units:
  assumes "10 ^ 7 \<le> t" and "t < 9 * 10 ^ 9"
  shows "eventTimeToTime (word_of_int t) = t * Second \<and> eventTimeToTime (word_of_int (t * 1000)) = t * Second \<and>
    eventTimeToTime (word_of_int (t * Second)) = t * Second"
proof -
  have s: "Second = 10 ^ 9" by (simp add: Second_def)
  have w: "wrap64 (t * 1000 * 1000000) = t * Second" "wrap64 (t * Second) = t * Second"
    using assms wrap64_id [of "t * 1000 * 1000000"] wrap64_id [of "t * Second"] by (simp_all add: s)
  show ?thesis using assms w event_time_of_int [of t] event_time_of_int [of "t * 1000"] event_time_of_int [of "t * Second"] by (simp add: s)
qed

theorem event_time_units_witness:
  "eventTimeToTime (word_of_int 1700000000) = 1700000000 * Second \<and> eventTimeToTime (word_of_int (1700000000 * 1000)) = 1700000000 * Second \<and>
   eventTimeToTime (word_of_int (1700000000 * Second)) = 1700000000 * Second"
  by (rule event_time_units) simp_all


section \<open>Where the code does less\<close>

text \<open>
  A window without a goroutine. A goroutine that found its window over has not yet cleared \<open>inFlight\<close>; an anomaly that
  extends the window at that moment starts no other. Then the goroutine leaves, and the window is open for as long as
  \<open>After\<close> with nothing that copies its data, until the next anomaly of the workload.
\<close>

theorem extended_window_without_fanout:
  "\<exists>s row. (export_step ''px'' sample_sha)\<^sup>*\<^sup>* (start_export sample_export [] 0) s \<and> ex_main s = Waiting_event \<and>
     map_of (active (ex_ctl s)) ''68'' = Some row \<and> ex_now s < TEnd row \<and> ex_pushers s = [] \<and>
     \<not> DisableSelfSteer (ctl_cfg (ex_ctl s)) \<and> has_querier (ex_ctl s) \<and> PushPixieTables (ctl_cfg (ex_ctl s)) \<noteq> []"
proof -
  let ?s1 = "sample_state [sample_window 30 2] True [sample_pusher Leaving] 20"
  let ?s2 = "sample_state [sample_window 30 2] False [] 20"
  have "export_step ''px'' sample_sha ?s1 ?s2"
    using export_step.left [of ?s1 "[]" "sample_pusher Leaving" "[]" "''px''" sample_sha]
    by (simp add: sample_state_def) (simp add: sample_pusher_def sample_window_def sample_ctl_def)
  moreover have "(export_step ''px'' sample_sha)\<^sup>*\<^sup>* (start_export sample_export [] 0)
      (sample_state [sample_window 10 1] True [sample_pusher Leaving] 20)"
    unfolding sample_start
    using rtranclp_trans [OF sample_step_open sample_step_clock] sample_step_leaving by (rule rtranclp.rtrancl_into_rtrancl)
  ultimately have "(export_step ''px'' sample_sha)\<^sup>*\<^sup>* (start_export sample_export [] 0) ?s2"
    using sample_step_extend by (meson rtranclp.rtrancl_into_rtrancl rtranclp_trans)
  then show ?thesis by (intro exI [of _ ?s2]) (simp add: sample_state_def, simp add: sample_defs)
qed

text \<open>
  A pod with a window that is not streamed. \<open>PruneExpired\<close> calls \<open>OnPrune\<close> after it has released the lock. When an anomaly
  of the same pod is handled between the two, its \<open>OnAttribution\<close> comes first and the removal last.
\<close>

theorem late_removal_hides_pod:
  "\<exists>c pods c' att n.
     ctl_PruneExpired id 100 ((ctl_New sample_export)\<lparr>active := [(''68'', sample_window 10 1)]\<rparr>) = (c, 1, pods) \<and>
     handle_event sample_sha (\<lambda>_. None) 100 sample_anomaly c = Inr (c', Some att, None) \<and>
     n = foldl RemoveFromController (SubmitFromController (NewAttributionNotifier 0) att) pods \<and>
     map_of (active c') ''68'' = Some (sample_window 110 1) \<and> dropped n = 0 \<and>
     members (foldl notifier_apply (Upsert set_New \<lparr>key_Namespace = ''shop'', key_Pod = ''web''\<rparr> 10) (no_in n)) = []"
proof -
  let ?c = "ctl_New sample_export"
  have 1: "ctl_PruneExpired id 100 (?c\<lparr>active := [(''68'', sample_window 10 1)]\<rparr>) = (?c, 1, [(''shop'', ''web'')])"
    by (simp add: ctl_PruneExpired_def window_over_def go_range_def sample_defs Let_def)
  have 2: "handle_event sample_sha (\<lambda>_. None) 100 sample_anomaly ?c =
      Inr (?c\<lparr>active := [(''68'', sample_window 110 1)]\<rparr>, Some (''shop'', ''web'', 110), None)"
    unfolding handle_event_def handle_open_def sample_hash [unfolded op_hash_def] by (simp add: sample_defs Let_def)
  show ?thesis unfolding 1
    by (intro exI conjI, rule refl, rule 2, rule refl)
      (simp_all add: SubmitFromController_def RemoveFromController_def Submit_def SubmitRemove_def notifier_send_def NewAttributionNotifier_def
        notifier_apply_def Upsert_def upsert_locked_def Remove_def remove_locked_def broadcast_opt_def set_broadcast_def set_New_def)
qed

end
