(* ===== verification/QueryFlags.thy ===== *)
theory QueryFlags
  imports Prelude
begin

text \<open>
  Settings of a query: \<open>query_flags.go\<close>, the flags in the comments of a script, and \<open>data_privacy.go\<close>, the
  redaction of results, of \<open>query_broker/controllers\<close>.
\<close>

section \<open>Flags\<close>

datatype flag_value = FlagBool bool | FlagInt int

definition plConfigPrefix :: string where
  "plConfigPrefix = ''#px:set ''"

definition defaultQueryFlags :: "(string, flag_value) gomap" where
  "defaultQueryFlags =
     [(''explain'', FlagBool False), (''analyze'', FlagBool False), (''max_output_rows_per_table'', FlagInt 10000)]"

type_synonym query_flags = "(string, flag_value) gomap"

definition newQueryFlags :: query_flags where
  "newQueryFlags = []"

definition flags_get :: "query_flags \<Rightarrow> string \<Rightarrow> flag_value option" where
  "flags_get f key = (case map_of f key of Some v \<Rightarrow> Some v | None \<Rightarrow> map_of defaultQueryFlags key)"

text \<open>The package \<open>cast\<close> on the values that occur: a missing flag is the zero value.\<close>

definition GetInt64 :: "query_flags \<Rightarrow> string \<Rightarrow> int" where
  "GetInt64 f key = (case flags_get f key of Some (FlagInt i) \<Rightarrow> i | Some (FlagBool b) \<Rightarrow> (if b then 1 else 0) | None \<Rightarrow> 0)"

definition GetBool :: "query_flags \<Rightarrow> string \<Rightarrow> bool" where
  "GetBool f key = (case flags_get f key of Some (FlagBool b) \<Rightarrow> b | Some (FlagInt i) \<Rightarrow> i \<noteq> 0 | None \<Rightarrow> False)"

definition ParseBool :: "string \<Rightarrow> bool res" where
  "ParseBool s =
     (if s \<in> set [''1'', ''t'', ''T'', ''true'', ''TRUE'', ''True''] then Inr True
      else if s \<in> set [''0'', ''f'', ''F'', ''false'', ''FALSE'', ''False''] then Inr False
      else Inl (ErrMsg ''invalid syntax''))"

definition flags_set :: "query_flags \<Rightarrow> string \<Rightarrow> string \<Rightarrow> query_flags res" where
  "flags_set f key val =
     (case map_of defaultQueryFlags key of
        Some (FlagInt _) \<Rightarrow> bind_res (parse_int64 val) (\<lambda>i. Inr (AList.update key (FlagInt i) f))
      | Some (FlagBool _) \<Rightarrow> bind_res (ParseBool val) (\<lambda>b. Inr (AList.update key (FlagBool b) f))
      | None \<Rightarrow> Inl (ErrMsg (key @ '' is not a valid flag'')))"

record plan_options =
  Explain :: bool
  Analyze :: bool
  MaxOutputRowsPerTable :: int

definition GetPlanOptions :: "query_flags \<Rightarrow> plan_options" where
  "GetPlanOptions f =
     \<lparr>Explain = GetBool f ''explain'', Analyze = GetBool f ''analyze'',
      MaxOutputRowsPerTable = GetInt64 f ''max_output_rows_per_table''\<rparr>"

definition err_malformed :: err where
  "err_malformed = ErrMsg ''Config setting is malformed''"

definition flag_line :: "query_flags \<Rightarrow> string \<Rightarrow> query_flags res" where
  "flag_line f l =
     (if \<not> prefix plConfigPrefix l then Inr f
      else (case split_on CHR '' '' l of
        [_, c] \<Rightarrow> (case split_on CHR ''='' c of [k, v] \<Rightarrow> flags_set f k v | _ \<Rightarrow> Inl err_malformed)
      | _ \<Rightarrow> Inl err_malformed))"

fun flag_lines :: "query_flags \<Rightarrow> string list \<Rightarrow> query_flags res" where
  "flag_lines f [] = Inr f"
| "flag_lines f (l # ls) = bind_res (flag_line f l) (\<lambda>f'. flag_lines f' ls)"

definition TrimSuffix_nl :: "string \<Rightarrow> string" where
  "TrimSuffix_nl s = (if s \<noteq> [] \<and> last s = CHR 0x0A then butlast s else s)"

definition ParseQueryFlags :: "string \<Rightarrow> query_flags res" where
  "ParseQueryFlags queryStr = flag_lines newQueryFlags (split_on CHR 0x0A (TrimSuffix_nl queryStr))"

definition getPlanOpts :: "string \<Rightarrow> plan_options res" where
  "getPlanOpts queryStr = bind_res (ParseQueryFlags queryStr) (\<lambda>f. Inr (GetPlanOptions f))"

section \<open>Data privacy\<close>

datatype data_access = DataAccessFull | DataAccessRestricted | DataAccessPIIRestricted

record redaction_options =
  UseFullRedaction :: bool
  UsePxRedactPiiBestEffort :: bool

definition RedactionOptions :: "data_access \<Rightarrow> redaction_options option" where
  "RedactionOptions dp =
     (if dp = DataAccessFull then None
      else Some \<lparr>UseFullRedaction = (dp = DataAccessRestricted), UsePxRedactPiiBestEffort = (dp = DataAccessPIIRestricted)\<rparr>)"

definition CreateDataPrivacyManager :: "string \<Rightarrow> data_access res" where
  "CreateDataPrivacyManager s =
     (if s = ''Full'' then Inr DataAccessFull
      else if s = ''Restricted'' then Inr DataAccessRestricted
      else if s = ''PIIRestricted'' then Inr DataAccessPIIRestricted
      else Inl (ErrMsg (''Invalid DataAccess: '' @ s)))"

end
