(* ===== verification/QueryFlagsCorrect.thy ===== *)
theory QueryFlagsCorrect
  imports QueryFlags PxlQueryCorrect
begin

text \<open>
  The flags of a script. A setting is read back as it was written, the last one wins, and the scripts of the adaptive
  export carry exactly the settings they are meant to, whatever the names in them are.
\<close>

section \<open>Lines\<close>

definition script_of :: "string list \<Rightarrow> string" where
  "script_of ls = concat (map line ls)"

lemma script_of_join: "ls \<noteq> [] \<Longrightarrow> script_of ls = str_join [CHR 0x0A] ls @ [CHR 0x0A]"
proof (induction ls rule: induct_list012)
  case (3 a b ls)
  then show ?case by (simp add: script_of_def line_def)
qed (simp_all add: script_of_def line_def)

lemma script_lines:
  assumes "ls \<noteq> []" and "\<forall>l\<in>set ls. CHR 0x0A \<notin> set l"
  shows "split_on CHR 0x0A (TrimSuffix_nl (script_of ls)) = ls"
  using assms by (simp add: script_of_join TrimSuffix_nl_def split_on_str_join)

definition plain_line :: "string \<Rightarrow> bool" where
  "plain_line l \<longleftrightarrow> CHR 0x0A \<notin> set l \<and> \<not> prefix ''#'' l"

lemma plain_no_flag: "plain_line l \<Longrightarrow> flag_line f l = Inr f"
  by (auto simp: plain_line_def flag_line_def plConfigPrefix_def prefix_def)

lemma flag_lines_append: "flag_lines f (ls @ ms) = bind_res (flag_lines f ls) (\<lambda>f'. flag_lines f' ms)"
proof (induction ls arbitrary: f)
  case (Cons l ls)
  then show ?case by (cases "flag_line f l") (simp_all add: bind_res_def)
qed (simp add: bind_res_def)

lemma plain_no_flags: "list_all plain_line ls \<Longrightarrow> flag_lines f ls = Inr f"
  by (induction ls) (simp_all add: plain_no_flag bind_res_def)

section \<open>Scripts in plain lines\<close>

definition plain_block :: "string \<Rightarrow> bool" where
  "plain_block s \<longleftrightarrow> (\<exists>ls. s = script_of ls \<and> list_all plain_line ls)"

lemma plain_block_Nil [simp]: "plain_block []"
  by (auto simp: plain_block_def script_of_def intro: exI [of _ "[]"])

lemma plain_block_line [simp]: "plain_line l \<Longrightarrow> plain_block (line l)"
  by (auto simp: plain_block_def script_of_def intro: exI [of _ "[l]"])

lemma plain_block_append [simp]:
  assumes "plain_block s" and "plain_block t"
  shows "plain_block (s @ t)"
proof -
  obtain ls ms where "s = script_of ls" "t = script_of ms" "list_all plain_line ls" "list_all plain_line ms"
    using assms by (auto simp: plain_block_def)
  then show ?thesis by (auto simp: plain_block_def script_of_def intro!: exI [of _ "ls @ ms"])
qed

lemma plain_block_concat: "(\<And>s. s \<in> set ss \<Longrightarrow> plain_block s) \<Longrightarrow> plain_block (concat ss)"
  by (induction ss) auto

lemma escape_no_newline [simp]: "CHR 0x0A \<notin> set (escapePxL s)"
  by (induction s) (auto simp: escape_byte_def)

lemma digits_no_newline: "list_all is_digit s \<Longrightarrow> CHR 0x0A \<notin> set s"
  by (auto simp: list_all_iff is_digit_def)

lemma int_dec_no_newline [simp]: "CHR 0x0A \<notin> set (int_dec i)"
  using digits_no_newline [OF nat_dec_digits] by (auto simp: int_dec_def)

lemma rel_start_no_newline [simp]: "CHR 0x0A \<notin> set (rel_start d)"
  by (simp add: rel_start_def Let_def)

lemma builtin_no_newline: "IsBuiltin table \<Longrightarrow> CHR 0x0A \<notin> set table"
  by (auto simp: IsBuiltin_def builtinTables_def)

lemma quoted_no_newline [simp]: "CHR 0x0A \<in> set (quoted s) \<longleftrightarrow> CHR 0x0A \<in> set s"
  by (simp add: quoted_def)

lemma plain_target: "plain_block (target_clauses t)"
  unfolding target_clauses_def by (intro plain_block_append) (simp_all add: plain_line_def)

lemma plain_enrich: "plain_block (PodEnrichPxL table)"
  unfolding PodEnrichPxL_def by (simp add: plain_line_def darkProcStatsWindow_def)

lemma plain_exclusion: "plain_block (darkCommExclusion env table)"
  unfolding darkCommExclusion_def Let_def by (auto intro!: plain_block_concat simp: plain_line_def)

lemma QueryFor_lines:
  assumes "QueryFor env table t a b now = Inr script"
  shows "\<exists>s. script = line ''#px:set max_output_rows_per_table=1000000'' @ s \<and> plain_block s"
proof -
  have t: "IsBuiltin table" using assms by (auto simp: QueryFor_def split: if_splits)
  have "\<exists>s. QueryFor env table t a b now = Inr (pxSetMaxRows @ s) \<and> plain_block s"
    unfolding QueryFor_def
    by (simp only: t if_False not_True_eq_False sum.inject append_same_eq same_append_eq ex_simps simp_thms)
      (auto intro!: plain_block_append plain_block_line plain_target plain_enrich plain_exclusion
        simp: plain_line_def pixieSourceFor_def builtin_no_newline [OF t])
  with assms show ?thesis by (auto simp: pxSetMaxRows_def)
qed

lemma flag_line_set:
  assumes "CHR '' '' \<notin> set k" "CHR ''='' \<notin> set k" "CHR '' '' \<notin> set v" "CHR ''='' \<notin> set v"
  shows "flag_line f (plConfigPrefix @ k @ ''='' @ v) = flags_set f k v"
proof -
  have "split_on CHR '' '' (plConfigPrefix @ k @ ''='' @ v) = [''#px:set'', k @ ''='' @ v]"
    using assms split_on_append [of "CHR '' ''" "''#px:set''" "k @ ''='' @ v"] by (simp add: plConfigPrefix_def split_on_no_sep)
  moreover have "split_on CHR ''='' (k @ ''='' @ v) = [k, v]"
    using assms split_on_append [of "CHR ''=''" k v] by (simp add: split_on_no_sep)
  ultimately show ?thesis by (simp add: flag_line_def)
qed

section \<open>Properties\<close>

text \<open>
  C31. The flags of an exported query. For every table, window and target, whatever bytes the namespace and the pod
  consist of and whatever the environment holds, the query broker reads from the script of \<open>QueryFor\<close> exactly the limit
  of a million rows and no other setting: a name cannot smuggle in a line with a flag.
\<close>

theorem exported_query_flags:
  assumes "QueryFor env table t sliceStart sliceEnd now = Inr script"
  shows "getPlanOpts script = Inr \<lparr>Explain = False, Analyze = False, MaxOutputRowsPerTable = 1000000\<rparr>"
proof -
  let ?k = "''max_output_rows_per_table''" and ?v = "''1000000''"
  obtain s where s: "script = line ''#px:set max_output_rows_per_table=1000000'' @ s" "plain_block s" using QueryFor_lines [OF assms] by blast
  then obtain ls where ls: "s = script_of ls" "list_all plain_line ls" by (auto simp: plain_block_def)
  let ?l = "plConfigPrefix @ ?k @ ''='' @ ?v"
  have "script = script_of (?l # ls)" using s(1) ls(1) by (simp add: script_of_def plConfigPrefix_def)
  moreover have "\<forall>l\<in>set (?l # ls). CHR 0x0A \<notin> set l" using ls(2) by (auto simp: list_all_iff plain_line_def plConfigPrefix_def)
  ultimately have "ParseQueryFlags script = flag_lines newQueryFlags (?l # ls)"
    using script_lines [of "?l # ls"] by (simp add: ParseQueryFlags_def)
  also have "\<dots> = Inr [(?k, FlagInt 1000000)]"
  proof -
    have "flags_set newQueryFlags ?k ?v = Inr [(?k, FlagInt 1000000)]"
      by (simp add: flags_set_def defaultQueryFlags_def parse_int64_def is_digit_def digit_val_def bind_res_def newQueryFlags_def)
    moreover have "flag_line newQueryFlags ?l = flags_set newQueryFlags ?k ?v" by (rule flag_line_set) simp_all
    ultimately have "flag_line newQueryFlags ?l = Inr [(?k, FlagInt 1000000)]" by (simp only:)
    then show ?thesis unfolding flag_lines.simps by (simp only: bind_res_def sum.case plain_no_flags [OF ls(2)])
  qed
  finally show ?thesis by (simp add: getPlanOpts_def bind_res_def GetPlanOptions_def GetBool_def GetInt64_def flags_get_def defaultQueryFlags_def)
qed

theorem exported_query_flags_witness:
  "\<exists>script. QueryFor [] ''http_events'' \<lparr>PID = 0, Comm = [], Pod = [CHR 0x0A] @ ''#px:set explain=true'', Namespace = ''shop''\<rparr> 5 9 10 = Inr script \<and>
     getPlanOpts script = Inr \<lparr>Explain = False, Analyze = False, MaxOutputRowsPerTable = 1000000\<rparr>"
proof -
  have "IsBuiltin ''http_events''" by code_simp
  then obtain script where s: "QueryFor [] ''http_events'' \<lparr>PID = 0, Comm = [], Pod = [CHR 0x0A] @ ''#px:set explain=true'', Namespace = ''shop''\<rparr>
      5 9 10 = Inr script" by (auto simp: QueryFor_def)
  from exported_query_flags [OF this] s show ?thesis by blast
qed

end
