(* ===== verification/QueryProto.thy ===== *)
theory QueryProto
  imports Uuid Upid
begin

text \<open>
  The messages around a query: \<open>proto_utils.go\<close> of \<open>query_broker/controllers\<close>; its requests to the planner are in
  theory \<open>MutationExecutor\<close>. An enumeration is its number in the protocol buffer definition; the two
  definitions of data types and semantic types use the same numbers. The decoding of the context of a status
  belongs to the protocol buffer library and is the argument \<open>details\<close>; statistics of single agents
  only pass through and are kept encoded. The methods of a nil message return zero values, and a field
  access on one is a panic.
\<close>

section \<open>Status\<close>

record exec_status =
  sp_ErrCode :: nat
  sp_Msg :: string
  sp_Context :: string

record line_col_error =
  lc_Line :: "64 word"
  lc_Column :: "64 word"
  lc_Message :: string

record vizier_status =
  vs_Code :: nat
  vs_Message :: string
  vs_Details :: "line_col_error list"

definition statusCodeToGRPCCode :: "nat \<Rightarrow> nat" where
  "statusCodeToGRPCCode c =
     (case map_of [(0, 0), (1, 1), (2, 2), (3, 3), (4, 4), (5, 5), (6, 6), (7, 7), (8, 16), (9, 13), (11, 14), (12, 13)] c of
        None \<Rightarrow> 0 | Some g \<Rightarrow> g)"

text \<open>\<open>details\<close> is \<open>None\<close> for a context that is not a group of compiler errors; an error of the group may not be set.\<close>

definition getErrorsFromStatusContext :: "(string \<Rightarrow> line_col_error option list option) \<Rightarrow> string \<Rightarrow> line_col_error list res" where
  "getErrorsFromStatusContext details ctx =
     (case details ctx of
        None \<Rightarrow> Inr []
      | Some es \<Rightarrow> map_res (\<lambda>e. case e of None \<Rightarrow> Inl (Panic ''nil pointer dereference: LineColError'') | Some lc \<Rightarrow> Inr lc) es)"

definition StatusToVizierStatus :: "(string \<Rightarrow> line_col_error option list option) \<Rightarrow> exec_status \<Rightarrow> vizier_status res" where
  "StatusToVizierStatus details s =
     bind_res (getErrorsFromStatusContext details (sp_Context s)) (\<lambda>es.
       Inr \<lparr>vs_Code = statusCodeToGRPCCode (sp_ErrCode s), vs_Message = sp_Msg s, vs_Details = es\<rparr>)"

text \<open>\<open>status.Error\<close> of gRPC gives no error for the code OK.\<close>

definition grpc_error :: "nat \<Rightarrow> string \<Rightarrow> err option" where
  "grpc_error c m = (if c = 0 then None else Some (GrpcErr c m))"

definition StatusToError :: "exec_status \<Rightarrow> err option" where
  "StatusToError s = grpc_error (sp_ErrCode s) (sp_Msg s)"

definition VizierStatusToError :: "vizier_status \<Rightarrow> err option" where
  "VizierStatusToError s = grpc_error (vs_Code s) (vs_Message s)"

section \<open>Row batches\<close>

datatype col_data =
  BooleanData "bool list" | Int64Data "64 word list" | Uint128Data "uint128 list" | Time64NsData "64 word list"
| Float64Data "64 word list" | StringData "string list"

record row_batch =
  rb_Cols :: "col_data option list"
  rb_NumRows :: int
  rb_Eow :: bool
  rb_Eos :: bool

record vizier_batch =
  vb_TableID :: string
  vb_Cols :: "col_data list"
  vb_NumRows :: int
  vb_Eow :: bool
  vb_Eos :: bool

definition colToVizierCol :: "col_data option \<Rightarrow> col_data res" where
  "colToVizierCol col = (case col of None \<Rightarrow> Inl (ErrMsg ''Could not get column type'') | Some c \<Rightarrow> Inr c)"

definition RowBatchToVizierRowBatch :: "row_batch \<Rightarrow> string \<Rightarrow> vizier_batch res" where
  "RowBatchToVizierRowBatch rb tableID =
     bind_res (map_res colToVizierCol (rb_Cols rb)) (\<lambda>cols.
       Inr \<lparr>vb_TableID = tableID, vb_Cols = cols, vb_NumRows = rb_NumRows rb, vb_Eow = rb_Eow rb, vb_Eos = rb_Eos rb\<rparr>)"

section \<open>Messages of agents and responses to clients\<close>

record exec_stats =
  es_Timing :: "int option"
  es_BytesProcessed :: int
  es_RecordsProcessed :: int

datatype chunk_result =
  InitiateConn
| ExecutionAndTimingInfo "exec_stats option" "string list"
| QueryResult string "row_batch option"
| ExecutionError exec_status

record result_chunk =
  rc_QueryID :: "uuidpb option"
  rc_Result :: "chunk_result option"

record vizier_stats =
  ExecutionTimeNs :: int
  CompilationTimeNs :: int
  BytesProcessed :: int
  RecordsProcessed :: int

record relation_col =
  vc_ColumnName :: string
  vc_ColumnDesc :: string
  vc_ColumnType :: nat
  vc_ColumnSemanticType :: nat

record mutation_state =
  mu_ID :: string
  mu_State :: nat
  mu_Name :: string

datatype response_result =
  BatchResult vizier_batch
| StatsResult vizier_stats
| MetaResult string string "relation_col list"

record script_response =
  sr_QueryID :: string
  sr_Status :: "vizier_status option"
  sr_Result :: "response_result option"
  sr_Mutation :: "(vizier_status \<times> mutation_state list) option"

definition empty_response :: "string \<Rightarrow> script_response" where
  "empty_response q = \<lparr>sr_QueryID = q, sr_Status = None, sr_Result = None, sr_Mutation = None\<rparr>"

definition StatusToVizierResponse :: "uuid_ops \<Rightarrow> (string \<Rightarrow> line_col_error option list option) \<Rightarrow> uuid \<Rightarrow> exec_status \<Rightarrow>
    script_response res" where
  "StatusToVizierResponse U details q s =
     bind_res (StatusToVizierStatus details s) (\<lambda>v. Inr ((empty_response (uuid_String U q))\<lparr>sr_Status := Some v\<rparr>))"

definition QueryResultStatsToVizierStats :: "exec_stats option \<Rightarrow> int \<Rightarrow> vizier_stats res" where
  "QueryResultStatsToVizierStats e compilationTimeNs =
     (case e of
        None \<Rightarrow> Inl (Panic ''nil pointer dereference: QueryExecutionStats'')
      | Some s \<Rightarrow>
          (case es_Timing s of
             None \<Rightarrow> Inl (Panic ''nil pointer dereference: QueryTimingInfo'')
           | Some t \<Rightarrow>
               Inr \<lparr>ExecutionTimeNs = t, CompilationTimeNs = compilationTimeNs, BytesProcessed = es_BytesProcessed s,
                    RecordsProcessed = es_RecordsProcessed s\<rparr>))"

definition err_bad_chunk :: err where
  "err_bad_chunk = ErrMsg ''error in ForwardQueryResult: Expected TransferResultChunkRequest to have init message, row batch, exec stats, exec error''"

definition BuildExecuteScriptResponse :: "uuid_ops \<Rightarrow> (string \<Rightarrow> line_col_error option list option) \<Rightarrow> result_chunk \<Rightarrow>
    (string, string) gomap \<Rightarrow> int \<Rightarrow> script_response option res" where
  "BuildExecuteScriptResponse U details r tableIDMap compilationTimeNs =
     (let res = empty_response (uuid_String U (UUIDFromProtoOrNil (rc_QueryID r))) in
      case rc_Result r of
        Some (ExecutionAndTimingInfo stats agents) \<Rightarrow>
          bind_res (QueryResultStatsToVizierStats stats compilationTimeNs) (\<lambda>s. Inr (Some (res\<lparr>sr_Result := Some (StatsResult s)\<rparr>)))
      | Some InitiateConn \<Rightarrow> Inr None
      | Some (QueryResult tableName batch) \<Rightarrow>
          (case map_of tableIDMap tableName of
             None \<Rightarrow> Inl (ErrMsg (''table '' @ tableName @ '' does not have an ID in the table ID map''))
           | Some tableID \<Rightarrow>
               (case batch of
                  None \<Rightarrow> Inl (ErrMsg ''BuildExecuteScriptResponse expected a non-nil row batch'')
                | Some rb \<Rightarrow> bind_res (RowBatchToVizierRowBatch rb tableID) (\<lambda>b. Inr (Some (res\<lparr>sr_Result := Some (BatchResult b)\<rparr>)))))
      | Some (ExecutionError s) \<Rightarrow>
          bind_res (StatusToVizierStatus details s) (\<lambda>v. Inr (Some (res\<lparr>sr_Status := Some v\<rparr>)))
      | None \<Rightarrow> Inl err_bad_chunk)"

section \<open>The query plan\<close>

text \<open>The text of the plan in pieces of at most \<open>maxQueryPlanStringSize\<close> bytes; the last one ends the table.\<close>

definition maxQueryPlanStringSize :: nat where
  "maxQueryPlanStringSize = 1024 * 1024 - 64 * 1024"

definition plan_batch :: "string \<Rightarrow> string \<Rightarrow> bool \<Rightarrow> vizier_batch" where
  "plan_batch planTableID s last_piece =
     \<lparr>vb_TableID = planTableID, vb_Cols = [StringData [s]], vb_NumRows = 1, vb_Eow = last_piece, vb_Eos = last_piece\<rparr>"

function plan_pieces :: "string \<Rightarrow> string \<Rightarrow> vizier_batch list" where
  "plan_pieces planTableID s =
     (if s = [] then []
      else plan_batch planTableID (take maxQueryPlanStringSize s) (length s \<le> maxQueryPlanStringSize) #
        plan_pieces planTableID (drop maxQueryPlanStringSize s))"
  by pat_completeness auto
termination
  by (relation "measure (\<lambda>(t, s). length s)") (auto simp: maxQueryPlanStringSize_def)

declare plan_pieces.simps [simp del]

definition QueryPlanResponse :: "uuid_ops \<Rightarrow> uuid \<Rightarrow> string res \<Rightarrow> string \<Rightarrow> script_response list res" where
  "QueryPlanResponse U queryID queryPlan planTableID =
     bind_res queryPlan (\<lambda>s.
       Inr (map (\<lambda>b. (empty_response (uuid_String U queryID))\<lparr>sr_Result := Some (BatchResult b)\<rparr>) (plan_pieces planTableID s)))"

definition QueryPlanRelationResponse :: "uuid_ops \<Rightarrow> uuid \<Rightarrow> string \<Rightarrow> script_response" where
  "QueryPlanRelationResponse U queryID planTableID =
     (empty_response (uuid_String U queryID))\<lparr>sr_Result := Some (MetaResult ''__query_plan__'' planTableID
        [\<lparr>vc_ColumnName = ''query_plan'', vc_ColumnDesc = ''The query plan'', vc_ColumnType = 5, vc_ColumnSemanticType = 0\<rparr>])\<rparr>"

section \<open>Tables of a plan\<close>

record output_table =
  ot_TableName :: string
  ot_ColumnNames :: "string list"
  ot_ColumnTypes :: "nat list"
  ot_SemanticTypes :: "nat list"

text \<open>An operator: a gRPC sink with its output table, if it has one, or another operator.\<close>

datatype plan_op = GRPCSink "output_table option" | OtherOp

type_synonym plan = "plan_op list list"

definition output_tables :: "plan \<Rightarrow> output_table list" where
  "output_tables p = List.map_filter (\<lambda>op. case op of GRPCSink t \<Rightarrow> t | OtherOp \<Rightarrow> None) (concat p)"

definition dataTypeToVizierDataType :: "nat \<Rightarrow> nat" where
  "dataTypeToVizierDataType t = (if t \<le> 6 then t else 0)"

definition semanticTypeToVizierSemanticType :: "nat \<Rightarrow> nat" where
  "semanticTypeToVizierSemanticType t =
     (if t \<in> set [0, 1, 2, 100, 101, 200, 300, 400, 401, 402, 500, 600, 601, 602, 700, 800, 900, 901, 902, 903, 1000, 1001, 1100,
        1200, 1300, 1400, 1500, 3000] then t else 0)"

definition relation_of :: "output_table \<Rightarrow> relation_col list res" where
  "relation_of t =
     (if length (ot_ColumnNames t) \<le> length (ot_ColumnTypes t) \<and> length (ot_ColumnNames t) \<le> length (ot_SemanticTypes t)
      then Inr (map (\<lambda>(n, ty, st). \<lparr>vc_ColumnName = n, vc_ColumnDesc = [], vc_ColumnType = ty, vc_ColumnSemanticType = st\<rparr>)
        (zip (ot_ColumnNames t) (zip (ot_ColumnTypes t) (ot_SemanticTypes t))))
      else Inl (Panic ''index out of range''))"

fun add_relations :: "(string, relation_col list) gomap \<Rightarrow> output_table list \<Rightarrow> (string, relation_col list) gomap res" where
  "add_relations m [] = Inr m"
| "add_relations m (t # ts) = bind_res (relation_of t) (\<lambda>r. add_relations (AList.update (ot_TableName t) r m) ts)"

definition plan_tables :: "(uuid list \<Rightarrow> uuid list) \<Rightarrow> (uuid, plan) gomap \<Rightarrow> output_table list" where
  "plan_tables rng planMap = concat (map (output_tables \<circ> snd) (go_range rng planMap))"

definition OutputSchemaFromPlan :: "(uuid list \<Rightarrow> uuid list) \<Rightarrow> (uuid, plan) gomap \<Rightarrow> (string, relation_col list) gomap res" where
  "OutputSchemaFromPlan rng planMap = add_relations [] (plan_tables rng planMap)"

definition AgentRelationToVizierRelation :: "relation_col list \<Rightarrow> relation_col list" where
  "AgentRelationToVizierRelation cols =
     map (\<lambda>c. c\<lparr>vc_ColumnType := dataTypeToVizierDataType (vc_ColumnType c),
       vc_ColumnSemanticType := semanticTypeToVizierSemanticType (vc_ColumnSemanticType c)\<rparr>) cols"

definition TableRelationResponses :: "uuid_ops \<Rightarrow> (uuid list \<Rightarrow> uuid list) \<Rightarrow> (string list \<Rightarrow> string list) \<Rightarrow> uuid \<Rightarrow>
    (string, string) gomap \<Rightarrow> (uuid, plan) gomap \<Rightarrow> script_response list res" where
  "TableRelationResponses U rng rng' queryID tableIDMap planMap =
     bind_res (OutputSchemaFromPlan rng planMap) (\<lambda>schemas.
       map_res (\<lambda>(tableName, schema).
         case map_of tableIDMap tableName of
           None \<Rightarrow> Inl (ErrMsg (''Table ID for table name '' @ tableName @ '' not found in table map''))
         | Some tableID \<Rightarrow>
             Inr ((empty_response (uuid_String U queryID))\<lparr>sr_Result := Some (MetaResult tableName tableID (AgentRelationToVizierRelation schema))\<rparr>))
         (go_range rng' schemas))"

end
