(* ===== verification/ResultForwarder.thy ===== *)
theory ResultForwarder
  imports QueryProto
begin

text \<open>
  The way of results from the agents to the client of a query: \<open>query_result_forwarder.go\<close> of
  \<open>query_broker/controllers\<close>. The goroutines are a watchdog for every query, the calls of \<open>StreamResults\<close> (consumers)
  and the calls that the streams of the agents make (producers); \<open>forward_step\<close> interleaves them. A context is the fact that it has been cancelled, a timer may fire at any time. The handling of one
  message is one step, as the comment on \<open>updateQueryState\<close> asks that only one goroutine does it. Health checks
  only reset timers. Metrics are left out.
\<close>

section \<open>Sets of names\<close>

text \<open>The keys of the map of a \<open>concurrentSet\<close>, each once.\<close>

type_synonym name_set = "string list"

definition set_add :: "string \<Rightarrow> name_set \<Rightarrow> name_set" where
  "set_add key s = List.insert key s"

definition set_exists :: "string \<Rightarrow> name_set \<Rightarrow> bool" where
  "set_exists key s \<longleftrightarrow> key \<in> set s"

definition set_remove :: "string \<Rightarrow> name_set \<Rightarrow> name_set" where
  "set_remove key s = filter (\<lambda>k. k \<noteq> key) s"

definition set_size :: "name_set \<Rightarrow> nat" where
  "set_size s = length s"

section \<open>Active queries\<close>

text \<open>The plan is represented by its rendering for given statistics of the agents, which a graph library does.\<close>

record query_plan_opts =
  qp_TableID :: string
  qp_dot :: "string list option \<Rightarrow> string res"

text \<open>
  The watchdog holds the consumer whose context it cancels: it watches, has left its loop, or has deleted the
  query and not yet cancelled the consumer.
\<close>

datatype watchdog_pc = Watching "nat option" | Deleting "nat option" | Ending "nat option" | Ended

text \<open>\<open>accepted\<close> and \<open>handled\<close> are for the statements only: the messages put into the channel and those handled so far.\<close>

record active_query =
  aq_queryID :: uuid
  queryResultCh :: "result_chunk list"
  tableIDMap :: "(string, string) gomap"
  uninitializedTables :: name_set
  allTablesConnected :: bool
  remainingTableEos :: name_set
  gotFinalExecStats :: bool
  agentExecStats :: "string list option"
  aq_compilationTimeNs :: int
  queryPlanOpts :: "query_plan_opts option"
  cancelQueryError :: "err option"
  query_cancelled :: bool
  producer_done :: bool
  aq_watchdog :: watchdog_pc
  aq_accepted :: "result_chunk list"
  aq_handled :: "result_chunk list"

definition activeQueryBufferSize :: nat where
  "activeQueryBufferSize = 1024"

definition newActiveQuery :: "uuid \<Rightarrow> (string, string) gomap \<Rightarrow> int \<Rightarrow> query_plan_opts option \<Rightarrow> active_query" where
  "newActiveQuery queryID tables compilationTimeNs opts =
     \<lparr>aq_queryID = queryID, queryResultCh = [], tableIDMap = tables,
      uninitializedTables = foldl (\<lambda>s (t, _). set_add t s) [] tables, allTablesConnected = False,
      remainingTableEos = foldl (\<lambda>s (t, _). set_add t s) [] tables, gotFinalExecStats = False, agentExecStats = None,
      aq_compilationTimeNs = compilationTimeNs, queryPlanOpts = opts, cancelQueryError = None, query_cancelled = False,
      producer_done = False, aq_watchdog = Watching None, aq_accepted = [], aq_handled = []\<rparr>"

definition table_connected :: "string \<Rightarrow> active_query \<Rightarrow> active_query \<times> err option" where
  "table_connected tableName a =
     (if set_exists tableName (uninitializedTables a)
      then let u = set_remove tableName (uninitializedTables a); a1 = a\<lparr>uninitializedTables := u\<rparr> in
        if set_size u = 0
        then (if allTablesConnected a then (a1, Some (Panic ''close of closed channel'')) else (a1\<lparr>allTablesConnected := True\<rparr>, None))
        else (a1, None)
      else (a, None))"

definition err_stats_twice :: err where
  "err_stats_twice = ErrMsg ''already received exec stats for query''"

definition err_eos_twice :: err where
  "err_eos_twice = ErrMsg ''received multiple EOS for table name''"

definition updateQueryState :: "result_chunk \<Rightarrow> active_query \<Rightarrow> active_query \<times> err option" where
  "updateQueryState msg a =
     (case rc_Result msg of
        Some InitiateConn \<Rightarrow> (a, None)
      | Some (ExecutionAndTimingInfo _ _) \<Rightarrow>
          if gotFinalExecStats a then (a, Some err_stats_twice) else (a\<lparr>gotFinalExecStats := True\<rparr>, None)
      | Some (QueryResult tableName (Some rb)) \<Rightarrow>
          and_then (table_connected tableName a) (\<lambda>a.
            if \<not> rb_Eos rb then (a, None)
            else if \<not> set_exists tableName (remainingTableEos a) then (a, Some err_eos_twice)
            else (a\<lparr>remainingTableEos := set_remove tableName (remainingTableEos a)\<rparr>, None))
      | Some (ExecutionError _) \<Rightarrow> (a, None)
      | _ \<Rightarrow> (a, Some err_bad_chunk))"

definition queryComplete :: "active_query \<Rightarrow> bool" where
  "queryComplete a \<longleftrightarrow> set_size (uninitializedTables a) = 0 \<and> set_size (remainingTableEos a) = 0 \<and> gotFinalExecStats a"

definition cancelQuery :: "err option \<Rightarrow> active_query \<Rightarrow> active_query" where
  "cancelQuery e a = a\<lparr>cancelQueryError := e, query_cancelled := True\<rparr>"

text \<open>
  \<open>handleRequest\<close>: the new state, the responses to send, and the result once they are sent. When the context is
  cancelled while one is sent, the rest is dropped and the result is no error.
\<close>

definition note_agent_stats :: "result_chunk \<Rightarrow> active_query \<Rightarrow> active_query" where
  "note_agent_stats msg a =
     (case rc_Result msg of Some (ExecutionAndTimingInfo _ agents) \<Rightarrow> a\<lparr>agentExecStats := Some agents\<rparr> | _ \<Rightarrow> a)"

definition plan_responses :: "uuid_ops \<Rightarrow> active_query \<Rightarrow> script_response list res" where
  "plan_responses U a =
     (if queryComplete a
      then (case queryPlanOpts a of
              None \<Rightarrow> Inr []
            | Some opts \<Rightarrow> QueryPlanResponse U (aq_queryID a) (qp_dot opts (agentExecStats a)) (qp_TableID opts))
      else Inr [])"

definition handleRequest :: "uuid_ops \<Rightarrow> (string \<Rightarrow> line_col_error option list option) \<Rightarrow> result_chunk \<Rightarrow> active_query \<Rightarrow>
    active_query \<times> script_response list \<times> err option" where
  "handleRequest U details msg a =
     (case updateQueryState msg a of
        (a1, Some e) \<Rightarrow> (a1, [], Some e)
      | (a1, None) \<Rightarrow>
          let a2 = note_agent_stats msg a1 in
          (case plan_responses U a2 of
             Inl e \<Rightarrow> (a2, [], Some e)
           | Inr qpResps \<Rightarrow>
               (case BuildExecuteScriptResponse U details msg (tableIDMap a2) (aq_compilationTimeNs a2) of
                  Inl e \<Rightarrow> (a2, qpResps, Some e)
                | Inr None \<Rightarrow> (a2, qpResps, None)
                | Inr (Some resp) \<Rightarrow>
                    (a2, qpResps @ [resp],
                     case sr_Status resp of None \<Rightarrow> None | Some s \<Rightarrow> if vs_Code s \<noteq> 0 then VizierStatusToError s else None))))"

section \<open>The forwarder\<close>

text \<open>
  A call of \<open>StreamResults\<close>: it registers with the watchdog, waits for a message, reports its health before it handles
  the message it took, sends responses, and returns. \<open>co_out\<close> is what it has sent to the client.
\<close>

datatype consumer_pc =
  Registering | Awaiting | Checking result_chunk | Emitting "script_response list" "err option" | Finished "err option"

record consumer =
  co_query :: nat
  co_pc :: consumer_pc
  co_cancelled :: bool
  co_out :: "script_response list"

text \<open>Queries that are no longer in the map can still be in use by goroutines; \<open>fw_objs\<close> holds all of them.\<close>

record forwarder =
  activeQueries :: "(uuid, nat) gomap"
  fw_objs :: "active_query list"
  fw_consumers :: "consumer list"

definition NewQueryResultForwarder :: forwarder where
  "NewQueryResultForwarder = \<lparr>activeQueries = [], fw_objs = [], fw_consumers = []\<rparr>"

definition upd_query :: "nat \<Rightarrow> (active_query \<Rightarrow> active_query) \<Rightarrow> forwarder \<Rightarrow> forwarder" where
  "upd_query i g f = f\<lparr>fw_objs := (fw_objs f)[i := g (fw_objs f ! i)]\<rparr>"

definition upd_consumer :: "nat \<Rightarrow> (consumer \<Rightarrow> consumer) \<Rightarrow> forwarder \<Rightarrow> forwarder" where
  "upd_consumer k g f = f\<lparr>fw_consumers := (fw_consumers f)[k := g (fw_consumers f ! k)]\<rparr>"

text \<open>Cancelling the context of a consumer that has returned has no effect.\<close>

definition cancel_context :: "consumer \<Rightarrow> consumer" where
  "cancel_context c = (case co_pc c of Finished _ \<Rightarrow> c | _ \<Rightarrow> c\<lparr>co_cancelled := True\<rparr>)"

definition cancelConsumer :: "nat option \<Rightarrow> forwarder \<Rightarrow> forwarder" where
  "cancelConsumer k f = (case k of None \<Rightarrow> f | Some k \<Rightarrow> upd_consumer k cancel_context f)"

definition RegisterQuery :: "uuid \<Rightarrow> (string, string) gomap \<Rightarrow> int \<Rightarrow> query_plan_opts option \<Rightarrow> forwarder \<Rightarrow> forwarder \<times> err option" where
  "RegisterQuery queryID tables compilationTimeNs opts f =
     (if map_of (activeQueries f) queryID \<noteq> None then (f, Some (ErrMsg ''Query already registered''))
      else (f\<lparr>activeQueries := AList.update queryID (length (fw_objs f)) (activeQueries f),
              fw_objs := fw_objs f @ [newActiveQuery queryID tables compilationTimeNs opts]\<rparr>, None))"

definition GetProducerCtx :: "uuid \<Rightarrow> forwarder \<Rightarrow> nat res" where
  "GetProducerCtx queryID f =
     (case map_of (activeQueries f) queryID of
        None \<Rightarrow> Inl (ErrMsg ''error in GetProducerCtx: Query is not registered in query forwarder'') | Some i \<Rightarrow> Inr i)"

text \<open>
  Of the cases of a \<open>select\<close> that are ready, any may be taken: \<open>pick\<close> names one, and the result is \<open>None\<close> when it is not
  ready.
\<close>

datatype forward_pick = PickProducerDone | PickCtxDone | PickSend | PickDefault

definition err_full :: err where
  "err_full = ErrMsg ''error in ForwardQueryResult: Query can not accept more data, consumer likely died''"

definition ForwardQueryResult :: "forward_pick \<Rightarrow> bool \<Rightarrow> result_chunk \<Rightarrow> forwarder \<Rightarrow> (forwarder \<times> err option) option" where
  "ForwardQueryResult pick ctx_done msg f =
     (case map_of (activeQueries f) (UUIDFromProtoOrNil (rc_QueryID msg)) of
        None \<Rightarrow> Some (f, Some (ErrMsg ''error in ForwardQueryResult: Query is not registered in query forwarder''))
      | Some i \<Rightarrow>
          let a = fw_objs f ! i; space = (length (queryResultCh a) < activeQueryBufferSize) in
          (case pick of
             PickProducerDone \<Rightarrow> if producer_done a then Some (f, cancelQueryError a) else None
           | PickCtxDone \<Rightarrow> if ctx_done then Some (f, cancelQueryError a) else None
           | PickSend \<Rightarrow>
               if space
               then Some (upd_query i (\<lambda>a. a\<lparr>queryResultCh := queryResultCh a @ [msg], aq_accepted := aq_accepted a @ [msg]\<rparr>) f, None)
               else None
           | PickDefault \<Rightarrow>
               if producer_done a \<or> ctx_done \<or> space then None else Some (upd_query i (cancelQuery (Some err_full)) f, Some err_full)))"

definition ProducerCancelStream :: "uuid \<Rightarrow> err \<Rightarrow> forwarder \<Rightarrow> forwarder" where
  "ProducerCancelStream queryID e f =
     (case map_of (activeQueries f) queryID of None \<Rightarrow> f | Some i \<Rightarrow> upd_query i (cancelQuery (Some e)) f)"

definition no_panic :: "err option \<Rightarrow> bool" where
  "no_panic e = (case e of None \<Rightarrow> True | Some e \<Rightarrow> \<not> is_panic e)"

inductive forward_step :: "uuid_ops \<Rightarrow> (string \<Rightarrow> line_col_error option list option) \<Rightarrow> forwarder \<Rightarrow> forwarder \<Rightarrow> bool" for U details where
  registered: "gomap_ok tables \<Longrightarrow> RegisterQuery queryID tables t opts f = (f', None) \<Longrightarrow> forward_step U details f f'"
| streaming: "map_of (activeQueries f) queryID = Some i \<Longrightarrow>
    forward_step U details f
      (f\<lparr>fw_consumers := fw_consumers f @ [\<lparr>co_query = i, co_pc = Registering, co_cancelled = False, co_out = []\<rparr>]\<rparr>)"
| attached: "k < length (fw_consumers f) \<Longrightarrow> co_pc (fw_consumers f ! k) = Registering \<Longrightarrow> i = co_query (fw_consumers f ! k) \<Longrightarrow>
    aq_watchdog (fw_objs f ! i) = Watching old \<Longrightarrow>
    forward_step U details f
      (upd_consumer k (\<lambda>c. c\<lparr>co_pc := Awaiting\<rparr>) (upd_query i (\<lambda>a. a\<lparr>aq_watchdog := Watching (Some k)\<rparr>) (cancelConsumer old f)))"
| not_attached: "k < length (fw_consumers f) \<Longrightarrow> co_pc (fw_consumers f ! k) = Registering \<Longrightarrow>
    forward_step U details f
      (upd_consumer k (\<lambda>c. c\<lparr>co_pc := Finished (Some (ErrMsg ''timedout trying to register consumer''))\<rparr>) f)"
| client_gone: "k < length (fw_consumers f) \<Longrightarrow> forward_step U details f (upd_consumer k cancel_context f)"
| received: "k < length (fw_consumers f) \<Longrightarrow> co_pc (fw_consumers f ! k) = Awaiting \<Longrightarrow> i = co_query (fw_consumers f ! k) \<Longrightarrow>
    queryResultCh (fw_objs f ! i) = m # ms \<Longrightarrow>
    forward_step U details f (upd_consumer k (\<lambda>c. c\<lparr>co_pc := Checking m\<rparr>) (upd_query i (\<lambda>a. a\<lparr>queryResultCh := ms\<rparr>) f))"
| handled: "k < length (fw_consumers f) \<Longrightarrow> co_pc (fw_consumers f ! k) = Checking m \<Longrightarrow> i = co_query (fw_consumers f ! k) \<Longrightarrow>
    co_cancelled (fw_consumers f ! k) \<or> (\<exists>c. aq_watchdog (fw_objs f ! i) = Watching c) \<Longrightarrow>
    handleRequest U details m (fw_objs f ! i) = (a, rs, e) \<Longrightarrow> no_panic e \<Longrightarrow>
    forward_step U details f
      (upd_consumer k (\<lambda>c. c\<lparr>co_pc := Emitting rs e\<rparr>) (upd_query i (\<lambda>_. a\<lparr>aq_handled := aq_handled a @ [m]\<rparr>) f))"
| emitted: "k < length (fw_consumers f) \<Longrightarrow> co_pc (fw_consumers f ! k) = Emitting (r # rs) e \<Longrightarrow>
    forward_step U details f (upd_consumer k (\<lambda>c. c\<lparr>co_pc := Emitting rs e, co_out := co_out c @ [r]\<rparr>) f)"
| abandoned: "k < length (fw_consumers f) \<Longrightarrow> co_pc (fw_consumers f ! k) = Emitting (r # rs) e \<Longrightarrow> co_cancelled (fw_consumers f ! k) \<Longrightarrow>
    forward_step U details f (upd_consumer k (\<lambda>c. c\<lparr>co_pc := Emitting [] None\<rparr>) f)"
| failed: "k < length (fw_consumers f) \<Longrightarrow> co_pc (fw_consumers f ! k) = Emitting [] (Some e) \<Longrightarrow> i = co_query (fw_consumers f ! k) \<Longrightarrow>
    forward_step U details f (upd_consumer k (\<lambda>c. c\<lparr>co_pc := Finished (Some e)\<rparr>) (upd_query i (cancelQuery (Some e)) f))"
| completed: "k < length (fw_consumers f) \<Longrightarrow> co_pc (fw_consumers f ! k) = Emitting [] None \<Longrightarrow> i = co_query (fw_consumers f ! k) \<Longrightarrow>
    queryComplete (fw_objs f ! i) \<Longrightarrow>
    forward_step U details f (upd_consumer k (\<lambda>c. c\<lparr>co_pc := Finished None\<rparr>) (upd_query i (cancelQuery None) f))"
| continued: "k < length (fw_consumers f) \<Longrightarrow> co_pc (fw_consumers f ! k) = Emitting [] None \<Longrightarrow> i = co_query (fw_consumers f ! k) \<Longrightarrow>
    \<not> queryComplete (fw_objs f ! i) \<Longrightarrow> forward_step U details f (upd_consumer k (\<lambda>c. c\<lparr>co_pc := Awaiting\<rparr>) f)"
| left: "k < length (fw_consumers f) \<Longrightarrow> co_pc (fw_consumers f ! k) = Awaiting \<Longrightarrow> co_cancelled (fw_consumers f ! k) \<Longrightarrow>
    i = co_query (fw_consumers f ! k) \<Longrightarrow>
    forward_step U details f (upd_consumer k (\<lambda>c. c\<lparr>co_pc := Finished (cancelQueryError (fw_objs f ! i))\<rparr>) f)"
| init_timeout: "k < length (fw_consumers f) \<Longrightarrow> co_pc (fw_consumers f ! k) \<noteq> Registering \<Longrightarrow> \<not> co_cancelled (fw_consumers f ! k) \<Longrightarrow>
    (\<And>e. co_pc (fw_consumers f ! k) \<noteq> Finished e) \<Longrightarrow> i = co_query (fw_consumers f ! k) \<Longrightarrow> \<not> allTablesConnected (fw_objs f ! i) \<Longrightarrow>
    forward_step U details f
      (upd_query i (cancelQuery (Some (ErrMsg ''failed to initialize all result tables within the deadline''))) f)"
| forwarded: "ForwardQueryResult pick ctx_done msg f = Some (f', e) \<Longrightarrow> forward_step U details f f'"
| producer_cancelled: "forward_step U details f (ProducerCancelStream queryID e f)"
| timed_out: "i < length (fw_objs f) \<Longrightarrow> aq_watchdog (fw_objs f ! i) = Watching c \<Longrightarrow>
    forward_step U details f (upd_query i (\<lambda>a. a\<lparr>cancelQueryError := Some (ErrMsg ''timedout''), aq_watchdog := Deleting c\<rparr>) f)"
| watchdog_cancelled: "i < length (fw_objs f) \<Longrightarrow> aq_watchdog (fw_objs f ! i) = Watching c \<Longrightarrow> query_cancelled (fw_objs f ! i) \<Longrightarrow>
    forward_step U details f (upd_query i (\<lambda>a. a\<lparr>aq_watchdog := Deleting c\<rparr>) f)"
| deleted: "i < length (fw_objs f) \<Longrightarrow> aq_watchdog (fw_objs f ! i) = Deleting c \<Longrightarrow>
    forward_step U details f (upd_query i (\<lambda>a. a\<lparr>producer_done := True, aq_watchdog := Ending c\<rparr>)
      (f\<lparr>activeQueries := AList.delete (aq_queryID (fw_objs f ! i)) (activeQueries f)\<rparr>))"
| ended: "i < length (fw_objs f) \<Longrightarrow> aq_watchdog (fw_objs f ! i) = Ending c \<Longrightarrow>
    forward_step U details f (upd_query i (\<lambda>a. a\<lparr>aq_watchdog := Ended\<rparr>) (cancelConsumer c f))"

end
