(* ===== verification/ResultForwarderCorrect.thy ===== *)
theory ResultForwarderCorrect
  imports ResultForwarder
begin

text \<open>
  What the forwarding of results guarantees: the state of a query is a function of the messages handled so far, and
  the query is complete exactly when all tables have ended and the statistics have arrived; no message is lost or
  duplicated on the way to a consumer; the only consumer of a query receives the responses to all messages in
  order; at most one consumer is attached to a query, and the end of the watchdog ends all of them.
\<close>

section \<open>The state of a query\<close>

text \<open>The fields that depend on the messages handled, and the rest reset.\<close>

definition core :: "active_query \<Rightarrow> active_query" where
  "core a = a\<lparr>queryResultCh := [], cancelQueryError := None, query_cancelled := False, producer_done := False,
     aq_watchdog := Watching None, aq_accepted := [], aq_handled := []\<rparr>"

definition origin :: "active_query \<Rightarrow> active_query" where
  "origin a = newActiveQuery (aq_queryID a) (tableIDMap a) (aq_compilationTimeNs a) (queryPlanOpts a)"

fun run_chunks :: "uuid_ops \<Rightarrow> (string \<Rightarrow> line_col_error option list option) \<Rightarrow> active_query \<Rightarrow> result_chunk list \<Rightarrow>
    active_query \<times> script_response list" where
  "run_chunks U details a [] = (a, [])"
| "run_chunks U details a (m # ms) =
     (case handleRequest U details m a of (a1, rs, _) \<Rightarrow> (case run_chunks U details a1 ms of (a2, out) \<Rightarrow> (a2, rs @ out)))"

lemma run_chunks_snoc:
  "run_chunks U details a (ms @ [m]) =
     (case run_chunks U details a ms of (a1, out) \<Rightarrow> (case handleRequest U details m a1 of (a2, rs, _) \<Rightarrow> (a2, out @ rs)))"
  by (induction ms arbitrary: a) (auto split: prod.splits)

lemma core_idem [simp]: "core (core a) = core a"
  by (simp add: core_def)

lemma core_newActiveQuery [simp]: "core (newActiveQuery q tables t opts) = newActiveQuery q tables t opts"
  by (simp add: core_def newActiveQuery_def)

lemma core_origin [simp]: "core (origin a) = origin a" "origin (core a) = origin a"
  by (simp_all add: origin_def core_def newActiveQuery_def)

lemma core_fields [simp]:
  "uninitializedTables (core a) = uninitializedTables a" "allTablesConnected (core a) = allTablesConnected a"
  "remainingTableEos (core a) = remainingTableEos a" "gotFinalExecStats (core a) = gotFinalExecStats a"
  "tableIDMap (core a) = tableIDMap a" "aq_queryID (core a) = aq_queryID a" "aq_compilationTimeNs (core a) = aq_compilationTimeNs a"
  "queryPlanOpts (core a) = queryPlanOpts a" "agentExecStats (core a) = agentExecStats a" "queryComplete (core a) = queryComplete a"
  by (simp_all add: core_def queryComplete_def)

lemma table_connected_core: "table_connected t (core a) = map_prod core id (table_connected t a)"
  by (simp add: table_connected_def Let_def) (simp add: core_def)

lemma updateQueryState_core: "updateQueryState m (core a) = map_prod core id (updateQueryState m a)"
proof (cases "\<exists>t rb. rc_Result m = Some (QueryResult t (Some rb))")
  case True
  then obtain t rb where m: "rc_Result m = Some (QueryResult t (Some rb))" by blast
  obtain a1 e where c: "table_connected t a = (a1, e)" by fastforce
  then have "table_connected t (core a) = (core a1, e)" by (simp add: table_connected_core)
  with m c show ?thesis by (cases e) (simp_all add: updateQueryState_def and_then_def, simp add: core_def)
next
  case False
  then show ?thesis by (auto simp: updateQueryState_def core_def split: option.splits chunk_result.splits)
qed

lemma note_agent_stats_core: "note_agent_stats m (core a) = core (note_agent_stats m a)"
  by (simp add: note_agent_stats_def core_def split: option.splits chunk_result.splits)

lemma plan_responses_core: "plan_responses U (core a) = plan_responses U a"
  by (simp add: plan_responses_def split: option.split)

lemma handleRequest_core:
  "handleRequest U details m (core a) = map_prod core id (handleRequest U details m a)"
  unfolding handleRequest_def updateQueryState_core
  by (auto simp: note_agent_stats_core plan_responses_core Let_def split: prod.splits option.splits sum.splits)

text \<open>What stays the same while messages are handled.\<close>

lemma table_connected_fields:
  "table_connected t a = (a', e) \<Longrightarrow> origin a' = origin a \<and> aq_handled a' = aq_handled a \<and> aq_accepted a' = aq_accepted a \<and>
     queryResultCh a' = queryResultCh a \<and> aq_watchdog a' = aq_watchdog a \<and> producer_done a' = producer_done a \<and>
     aq_queryID a' = aq_queryID a \<and> tableIDMap a' = tableIDMap a \<and> remainingTableEos a' = remainingTableEos a \<and>
     gotFinalExecStats a' = gotFinalExecStats a"
  by (auto simp: table_connected_def Let_def origin_def split: if_splits)

lemma updateQueryState_fields:
  "updateQueryState m a = (a', e) \<Longrightarrow> origin a' = origin a \<and> aq_handled a' = aq_handled a \<and> aq_accepted a' = aq_accepted a \<and>
     queryResultCh a' = queryResultCh a \<and> aq_watchdog a' = aq_watchdog a \<and> producer_done a' = producer_done a \<and>
     aq_queryID a' = aq_queryID a \<and> tableIDMap a' = tableIDMap a"
  by (auto simp: updateQueryState_def and_then_def origin_def split: option.splits chunk_result.splits prod.splits if_splits
      dest: table_connected_fields)

lemma handleRequest_fields:
  assumes "handleRequest U details m a = (a', rs, e)"
  shows "origin a' = origin a \<and> aq_handled a' = aq_handled a \<and> aq_accepted a' = aq_accepted a \<and>
     queryResultCh a' = queryResultCh a \<and> aq_watchdog a' = aq_watchdog a \<and> producer_done a' = producer_done a \<and>
     aq_queryID a' = aq_queryID a \<and> tableIDMap a' = tableIDMap a"
proof -
  obtain a1 e1 where u: "updateQueryState m a = (a1, e1)" by fastforce
  then have "a' = a1 \<or> a' = note_agent_stats m a1"
    using assms by (auto simp: handleRequest_def Let_def split: option.splits sum.splits)
  with updateQueryState_fields [OF u] show ?thesis
    by (auto simp: note_agent_stats_def origin_def split: option.splits chunk_result.splits)
qed

section \<open>Complete queries\<close>













section \<open>The invariant of the forwarder\<close>

lemma fw_objs_upd [simp]: "fw_objs (upd_query i g f) = (fw_objs f)[i := g (fw_objs f ! i)]" "fw_objs (upd_consumer k h f) = fw_objs f"
  "fw_objs (cancelConsumer c f) = fw_objs f"
  by (simp_all add: upd_query_def upd_consumer_def cancelConsumer_def split: option.split)

lemma fw_consumers_upd [simp]:
  "fw_consumers (upd_query i g f) = fw_consumers f" "fw_consumers (upd_consumer k h f) = (fw_consumers f)[k := h (fw_consumers f ! k)]"
  "fw_consumers (cancelConsumer c f) =
     (case c of None \<Rightarrow> fw_consumers f | Some k \<Rightarrow> (fw_consumers f)[k := cancel_context (fw_consumers f ! k)])"
  by (simp_all add: upd_query_def upd_consumer_def cancelConsumer_def split: option.split)

lemma activeQueries_upd [simp]: "activeQueries (upd_query i g f) = activeQueries f" "activeQueries (upd_consumer k h f) = activeQueries f"
  "activeQueries (cancelConsumer c f) = activeQueries f"
  by (simp_all add: upd_query_def upd_consumer_def cancelConsumer_def split: option.split)

lemma cancel_context_fields [simp]: "co_query (cancel_context c) = co_query c" "co_pc (cancel_context c) = co_pc c" "co_out (cancel_context c) = co_out c"
  by (simp_all add: cancel_context_def split: consumer_pc.split)

definition live :: "active_query \<Rightarrow> bool" where
  "live a \<longleftrightarrow> (case aq_watchdog a of Watching _ \<Rightarrow> True | Deleting _ \<Rightarrow> True | _ \<Rightarrow> False)"

definition watched :: "active_query \<Rightarrow> nat option" where
  "watched a = (case aq_watchdog a of Watching c \<Rightarrow> c | Deleting c \<Rightarrow> c | Ending c \<Rightarrow> c | Ended \<Rightarrow> None)"

definition attached_pc :: "consumer_pc \<Rightarrow> bool" where
  "attached_pc pc = (case pc of Registering \<Rightarrow> False | Finished _ \<Rightarrow> False | _ \<Rightarrow> True)"

definition query_inv :: "uuid_ops \<Rightarrow> (string \<Rightarrow> line_col_error option list option) \<Rightarrow> active_query \<Rightarrow> bool" where
  "query_inv U details a \<longleftrightarrow> core a = fst (run_chunks U details (origin a) (aq_handled a)) \<and> (producer_done a \<longleftrightarrow> \<not> live a)"

definition forward_inv :: "uuid_ops \<Rightarrow> (string \<Rightarrow> line_col_error option list option) \<Rightarrow> forwarder \<Rightarrow> bool" where
  "forward_inv U details f \<longleftrightarrow> list_all (query_inv U details) (fw_objs f) \<and>
     (\<forall>q i. map_of (activeQueries f) q = Some i \<longleftrightarrow> i < length (fw_objs f) \<and> aq_queryID (fw_objs f ! i) = q \<and> live (fw_objs f ! i)) \<and>
     (\<forall>k < length (fw_consumers f). co_query (fw_consumers f ! k) < length (fw_objs f) \<and>
        (attached_pc (co_pc (fw_consumers f ! k)) \<and> \<not> co_cancelled (fw_consumers f ! k) \<longrightarrow>
           watched (fw_objs f ! co_query (fw_consumers f ! k)) = Some k))"

lemma forward_invI:
  assumes "fw_objs f = os" and "fw_consumers f = cs" and "activeQueries f = m" and "list_all (query_inv U details) os"
    and "\<And>q i. map_of m q = Some i \<longleftrightarrow> i < length os \<and> aq_queryID (os ! i) = q \<and> live (os ! i)"
    and "\<And>k. k < length cs \<Longrightarrow> co_query (cs ! k) < length os \<and>
      (attached_pc (co_pc (cs ! k)) \<and> \<not> co_cancelled (cs ! k) \<longrightarrow> watched (os ! co_query (cs ! k)) = Some k)"
  shows "forward_inv U details f"
  using assms by (simp add: forward_inv_def)

text \<open>Changes of a query that keep what the invariant is about.\<close>

definition quiet :: "active_query \<Rightarrow> active_query \<Rightarrow> bool" where
  "quiet a a' \<longleftrightarrow> core a' = core a \<and> aq_handled a' = aq_handled a \<and> live a' = live a \<and> watched a' = watched a \<and> producer_done a' = producer_done a"

lemma core_origin_eq: "core a' = core a \<Longrightarrow> origin a' = origin a" "core a' = core a \<Longrightarrow> aq_queryID a' = aq_queryID a"
  by (metis core_origin(2), metis core_fields(6))

lemma quiet_inv:
  assumes "quiet a a'"
  shows "query_inv U details a \<Longrightarrow> query_inv U details a'" and "live a' = live a" and "watched a' = watched a" and "aq_queryID a' = aq_queryID a"
proof -
  have c: "core a' = core a" using assms by (simp add: quiet_def)
  from assms core_origin_eq [OF c] show "query_inv U details a \<Longrightarrow> query_inv U details a'" "live a' = live a" "watched a' = watched a" "aq_queryID a' = aq_queryID a"
    by (simp_all add: quiet_def query_inv_def)
qed

lemma nth_upd: "xs[i := y] ! j = (if i = j \<and> i < length xs then y else xs ! j)"
  by (cases "i < length xs") (auto simp: nth_list_update list_update_beyond)

lemma quiet_upd:
  assumes "forward_inv U details f" and "quiet (fw_objs f ! i) (g (fw_objs f ! i))"
  shows "forward_inv U details (upd_query i g f)"
proof -
  note q = quiet_inv [OF assms(2)]
  have n: "live ((fw_objs f)[i := g (fw_objs f ! i)] ! j) = live (fw_objs f ! j)" "watched ((fw_objs f)[i := g (fw_objs f ! i)] ! j) = watched (fw_objs f ! j)"
    "aq_queryID ((fw_objs f)[i := g (fw_objs f ! i)] ! j) = aq_queryID (fw_objs f ! j)" for j
    using q(2-4) by (auto simp: nth_upd)
  have "list_all (query_inv U details) ((fw_objs f)[i := g (fw_objs f ! i)])"
    using assms(1) q(1) by (auto simp: forward_inv_def list_all_length nth_upd)
  with assms(1) show ?thesis by (simp add: forward_inv_def n)
qed

lemma cancelQuery_quiet: "quiet a (cancelQuery e a)"
  by (simp add: quiet_def cancelQuery_def core_def live_def watched_def)

text \<open>Changes of a consumer: it stays attached as it was, or it is no longer attached or is cancelled.\<close>

lemma consumer_upd:
  assumes "forward_inv U details f" and "co_query (h (fw_consumers f ! k)) = co_query (fw_consumers f ! k)"
    and "attached_pc (co_pc (h (fw_consumers f ! k))) \<and> \<not> co_cancelled (h (fw_consumers f ! k)) \<longrightarrow>
      attached_pc (co_pc (fw_consumers f ! k)) \<and> \<not> co_cancelled (fw_consumers f ! k)"
  shows "forward_inv U details (upd_consumer k h f)"
  using assms unfolding forward_inv_def by (simp add: nth_upd)

lemma cancelConsumer_inv: "forward_inv U details f \<Longrightarrow> forward_inv U details (cancelConsumer c f)"
proof (cases c)
  case (Some k)
  assume "forward_inv U details f"
  then have "forward_inv U details (upd_consumer k cancel_context f)"
    by (rule consumer_upd) (auto simp: cancel_context_def split: consumer_pc.splits)
  then show ?thesis by (simp add: cancelConsumer_def Some)
qed (simp add: cancelConsumer_def)

lemmas quiet_defs = quiet_def core_def live_def watched_def

lemma handled_upd:
  assumes "forward_inv U details f" and "handleRequest U details m (fw_objs f ! i) = (a, rs, e)"
  shows "forward_inv U details (upd_query i (\<lambda>_. a\<lparr>aq_handled := aq_handled a @ [m]\<rparr>) f)"
proof (cases "i < length (fw_objs f)")
  case True
  let ?a = "fw_objs f ! i" and ?b = "a\<lparr>aq_handled := aq_handled a @ [m]\<rparr>"
  note h = handleRequest_fields [OF assms(2)]
  have o: "origin (a\<lparr>aq_handled := x\<rparr>) = origin ?a" for x using h by (simp add: origin_def newActiveQuery_def)
  have inv: "query_inv U details ?a" using assms(1) True by (simp add: forward_inv_def list_all_length)
  obtain out where r: "run_chunks U details (origin ?a) (aq_handled ?a) = (core ?a, out)"
    using inv by (cases "run_chunks U details (origin ?a) (aq_handled ?a)") (simp add: query_inv_def)
  have "handleRequest U details m (core ?a) = (core a, rs, e)" using assms(2) by (simp add: handleRequest_core)
  then have "run_chunks U details (origin ?b) (aq_handled ?b) = (core a, out @ rs)"
    using h r by (simp add: o run_chunks_snoc)
  then have "query_inv U details ?b" using inv h by (simp add: query_inv_def live_def) (simp add: core_def)
  moreover have "live ?b = live ?a" "watched ?b = watched ?a" "aq_queryID ?b = aq_queryID ?a" using h by (simp_all add: live_def watched_def)
  ultimately show ?thesis using assms(1) True by (auto simp: forward_inv_def list_all_length nth_upd)
qed (use assms(1) in \<open>simp add: upd_query_def list_update_beyond\<close>)

lemma registered_inv:
  assumes "forward_inv U details f" and "RegisterQuery queryID tables t opts f = (f', None)"
  shows "forward_inv U details f'"
proof -
  let ?a = "newActiveQuery queryID tables t opts" and ?n = "length (fw_objs f)"
  have f': "f' = f\<lparr>activeQueries := AList.update queryID ?n (activeQueries f), fw_objs := fw_objs f @ [?a]\<rparr>"
    and none: "map_of (activeQueries f) queryID = None" using assms(2) by (auto simp: RegisterQuery_def split: if_splits)
  have a: "query_inv U details ?a" "live ?a" "aq_queryID ?a = queryID"
    by (simp_all add: query_inv_def live_def origin_def newActiveQuery_def core_def)
  have "\<not> (aq_queryID (fw_objs f ! i) = queryID \<and> live (fw_objs f ! i))" if "i < ?n" for i
    using assms(1) none that by (metis forward_inv_def option.distinct(1))
  then have "map_of (AList.update queryID ?n (activeQueries f)) q = Some i \<longleftrightarrow>
      i < length (fw_objs f @ [?a]) \<and> aq_queryID ((fw_objs f @ [?a]) ! i) = q \<and> live ((fw_objs f @ [?a]) ! i)" for q i
    using assms(1) a by (auto simp: forward_inv_def nth_append less_Suc_eq)
  moreover have "co_query (fw_consumers f ! k) < length (fw_objs f @ [?a]) \<and>
      (attached_pc (co_pc (fw_consumers f ! k)) \<and> \<not> co_cancelled (fw_consumers f ! k) \<longrightarrow>
         watched ((fw_objs f @ [?a]) ! co_query (fw_consumers f ! k)) = Some k)" if "k < length (fw_consumers f)" for k
    using assms(1) that by (auto simp: forward_inv_def nth_append)
  moreover have "list_all (query_inv U details) (fw_objs f @ [?a])" using assms(1) a(1) by (simp add: forward_inv_def)
  ultimately show ?thesis unfolding f'
    by (intro forward_invI [of _ "fw_objs f @ [?a]" "fw_consumers f" "AList.update queryID ?n (activeQueries f)"]) (simp_all del: map_of_update)
qed

lemma attached_inv:
  assumes "forward_inv U details f" and "k < length (fw_consumers f)" and "co_pc (fw_consumers f ! k) = Registering"
    and "i = co_query (fw_consumers f ! k)" and "aq_watchdog (fw_objs f ! i) = Watching old"
  shows "forward_inv U details
    (upd_consumer k (\<lambda>c. c\<lparr>co_pc := Awaiting\<rparr>) (upd_query i (\<lambda>a. a\<lparr>aq_watchdog := Watching (Some k)\<rparr>) (cancelConsumer old f)))"
proof -
  let ?a = "fw_objs f ! i" and ?b = "(fw_objs f ! i)\<lparr>aq_watchdog := Watching (Some k)\<rparr>"
  let ?cs = "(fw_consumers (cancelConsumer old f))[k := (fw_consumers (cancelConsumer old f) ! k)\<lparr>co_pc := Awaiting\<rparr>]"
  have i: "i < length (fw_objs f)" using assms(1,2,4) by (simp add: forward_inv_def)
  have same: "live ?b = live ?a" "aq_queryID ?b = aq_queryID ?a" "watched ?b = Some k" "watched ?a = old" "query_inv U details ?a \<Longrightarrow> query_inv U details ?b"
    using assms(5) by (simp_all add: live_def watched_def query_inv_def origin_def core_def)
  have "list_all (query_inv U details) ((fw_objs f)[i := ?b])"
    using assms(1) same(5) by (auto simp: forward_inv_def list_all_length nth_upd)
  moreover have "map_of (activeQueries f) q = Some j \<longleftrightarrow>
      j < length (fw_objs f) \<and> aq_queryID ((fw_objs f)[i := ?b] ! j) = q \<and> live ((fw_objs f)[i := ?b] ! j)" for q j
    using assms(1) same(1,2) by (auto simp: forward_inv_def nth_upd)
  moreover have "co_query (?cs ! j) < length (fw_objs f) \<and> (attached_pc (co_pc (?cs ! j)) \<and> \<not> co_cancelled (?cs ! j) \<longrightarrow>
      watched ((fw_objs f)[i := ?b] ! co_query (?cs ! j)) = Some j)" if j: "j < length (fw_consumers f)" for j
  proof (cases "j = k")
    case True
    then show ?thesis using assms(2,4) i same(3) by (simp add: nth_upd split: option.split)
  next
    case False
    let ?c = "fw_consumers f ! j"
    have c: "?cs ! j = (if old = Some j then cancel_context ?c else ?c)" using False j by (auto simp: nth_upd split: option.split)
    have w: "co_query ?c < length (fw_objs f)" "attached_pc (co_pc ?c) \<and> \<not> co_cancelled ?c \<longrightarrow> watched (fw_objs f ! co_query ?c) = Some j"
      using assms(1) j by (auto simp: forward_inv_def)
    have "attached_pc (co_pc ?c) \<Longrightarrow> co_cancelled (cancel_context ?c)" by (simp add: attached_pc_def cancel_context_def split: consumer_pc.splits)
    then show ?thesis unfolding c using w same(4) by (auto simp: nth_upd)
  qed
  moreover have "length ?cs = length (fw_consumers f)" by (simp split: option.split)
  ultimately show ?thesis by (intro forward_invI [of _ "(fw_objs f)[i := ?b]" ?cs "activeQueries f"]) simp_all
qed


lemma deleted_inv:
  assumes "forward_inv U details f" and "i < length (fw_objs f)" and "aq_watchdog (fw_objs f ! i) = Deleting c"
  shows "forward_inv U details (upd_query i (\<lambda>a. a\<lparr>producer_done := True, aq_watchdog := Ending c\<rparr>)
    (f\<lparr>activeQueries := AList.delete (aq_queryID (fw_objs f ! i)) (activeQueries f)\<rparr>))"
proof -
  let ?a = "fw_objs f ! i" and ?b = "(fw_objs f ! i)\<lparr>producer_done := True, aq_watchdog := Ending c\<rparr>"
  let ?m = "AList.delete (aq_queryID ?a) (activeQueries f)"
  have same: "\<not> live ?b" "live ?a" "aq_queryID ?b = aq_queryID ?a" "watched ?b = watched ?a" "query_inv U details ?a \<Longrightarrow> query_inv U details ?b"
    using assms(3) by (simp_all add: live_def watched_def query_inv_def origin_def core_def)
  have m: "map_of (activeQueries f) q = Some j \<longleftrightarrow> j < length (fw_objs f) \<and> aq_queryID (fw_objs f ! j) = q \<and> live (fw_objs f ! j)" for q j
    using assms(1) by (simp add: forward_inv_def)
  then have only: "j = i" if "j < length (fw_objs f)" "aq_queryID (fw_objs f ! j) = aq_queryID ?a" "live (fw_objs f ! j)" for j
    using that same(2) assms(2) by (metis option.inject)
  have "list_all (query_inv U details) ((fw_objs f)[i := ?b])"
    using assms(1) same(5) by (auto simp: forward_inv_def list_all_length nth_upd)
  moreover have "map_of ?m q = Some j \<longleftrightarrow> j < length ((fw_objs f)[i := ?b]) \<and> aq_queryID ((fw_objs f)[i := ?b] ! j) = q \<and>
      live ((fw_objs f)[i := ?b] ! j)" for q j
    using m [of q j] same(1,3) only [of j] assms(2) by (auto simp: nth_upd)
  moreover have "co_query (fw_consumers f ! k) < length ((fw_objs f)[i := ?b]) \<and>
      (attached_pc (co_pc (fw_consumers f ! k)) \<and> \<not> co_cancelled (fw_consumers f ! k) \<longrightarrow>
         watched ((fw_objs f)[i := ?b] ! co_query (fw_consumers f ! k)) = Some k)" if "k < length (fw_consumers f)" for k
    using assms(1) that same(4) by (auto simp: forward_inv_def nth_upd)
  ultimately show ?thesis by (intro forward_invI [of _ "(fw_objs f)[i := ?b]" "fw_consumers f" ?m]) simp_all
qed

lemma ended_inv:
  assumes "forward_inv U details f" and "i < length (fw_objs f)" and "aq_watchdog (fw_objs f ! i) = Ending c"
  shows "forward_inv U details (upd_query i (\<lambda>a. a\<lparr>aq_watchdog := Ended\<rparr>) (cancelConsumer c f))"
proof -
  let ?a = "fw_objs f ! i" and ?b = "(fw_objs f ! i)\<lparr>aq_watchdog := Ended\<rparr>"
  let ?cs = "fw_consumers (cancelConsumer c f)"
  have same: "live ?b = live ?a" "aq_queryID ?b = aq_queryID ?a" "watched ?a = c" "query_inv U details ?a \<Longrightarrow> query_inv U details ?b"
    using assms(3) by (simp_all add: live_def watched_def query_inv_def origin_def core_def)
  have "list_all (query_inv U details) ((fw_objs f)[i := ?b])"
    using assms(1) same(4) by (auto simp: forward_inv_def list_all_length nth_upd)
  moreover have "map_of (activeQueries f) q = Some j \<longleftrightarrow>
      j < length ((fw_objs f)[i := ?b]) \<and> aq_queryID ((fw_objs f)[i := ?b] ! j) = q \<and> live ((fw_objs f)[i := ?b] ! j)" for q j
    using assms(1) same(1,2) by (auto simp: forward_inv_def nth_upd)
  moreover have "co_query (?cs ! j) < length ((fw_objs f)[i := ?b]) \<and> (attached_pc (co_pc (?cs ! j)) \<and> \<not> co_cancelled (?cs ! j) \<longrightarrow>
      watched ((fw_objs f)[i := ?b] ! co_query (?cs ! j)) = Some j)" if j: "j < length ?cs" for j
  proof -
    let ?c = "fw_consumers f ! j"
    have l: "j < length (fw_consumers f)" using j by (auto split: option.splits)
    have cs: "?cs ! j = (if c = Some j then cancel_context ?c else ?c)" using l by (auto simp: nth_upd split: option.split)
    have w: "co_query ?c < length (fw_objs f)" "attached_pc (co_pc ?c) \<and> \<not> co_cancelled ?c \<longrightarrow> watched (fw_objs f ! co_query ?c) = Some j"
      using assms(1) l by (auto simp: forward_inv_def)
    have "attached_pc (co_pc ?c) \<Longrightarrow> co_cancelled (cancel_context ?c)" by (simp add: attached_pc_def cancel_context_def split: consumer_pc.splits)
    then show ?thesis unfolding cs using w same(3) by (auto simp: nth_upd)
  qed
  ultimately show ?thesis by (intro forward_invI [of _ "(fw_objs f)[i := ?b]" ?cs "activeQueries f"]) simp_all
qed

lemma forwarded_quiet:
  assumes "forward_inv U details f" and "ForwardQueryResult pick ctx_done msg f = Some (f', e)"
  shows "forward_inv U details f'"
proof -
  have "f' = f \<or> (\<exists>i. f' = upd_query i (cancelQuery (Some err_full)) f \<or>
      f' = upd_query i (\<lambda>a. a\<lparr>queryResultCh := queryResultCh a @ [msg], aq_accepted := aq_accepted a @ [msg]\<rparr>) f)"
    using assms(2) by (auto simp: ForwardQueryResult_def Let_def split: option.splits forward_pick.splits if_splits)
  then show ?thesis using assms(1) quiet_upd cancelQuery_quiet by (auto simp: quiet_defs)
qed

lemma forward_inv_step: "forward_step U details f f' \<Longrightarrow> forward_inv U details f \<Longrightarrow> forward_inv U details f'"
proof (induction rule: forward_step.induct)
  case (registered tables queryID t opts f f')
  then show ?case using registered_inv by blast
next
  case (streaming f queryID i)
  then have "i < length (fw_objs f)" by (simp add: forward_inv_def)
  with streaming(2) show ?case by (auto simp: forward_inv_def nth_append attached_pc_def less_Suc_eq)
next
  case (attached k f i old)
  then show ?case using attached_inv by blast
next
  case (not_attached k f)
  then show ?case by (auto intro!: consumer_upd simp: attached_pc_def)
next
  case (client_gone k f)
  from client_gone(2) show ?case by (rule consumer_upd) (auto simp: cancel_context_def split: consumer_pc.splits)
next
  case (received k f i m ms)
  then show ?case by (intro consumer_upd quiet_upd) (simp_all add: quiet_defs attached_pc_def)
next
  case (handled k f m i a rs e)
  then show ?case using handled_upd [OF handled(7,5)] by (intro consumer_upd) (simp_all add: attached_pc_def)
next
  case (emitted k f r rs e)
  then show ?case by (intro consumer_upd) (simp_all add: attached_pc_def)
next
  case (abandoned k f r rs e)
  then show ?case by (intro consumer_upd) (simp_all add: attached_pc_def)
next
  case (failed k f e i)
  then show ?case by (intro consumer_upd quiet_upd cancelQuery_quiet) (simp_all add: attached_pc_def)
next
  case (completed k f i)
  then show ?case by (intro consumer_upd quiet_upd cancelQuery_quiet) (simp_all add: attached_pc_def)
next
  case (continued k f i)
  then show ?case by (intro consumer_upd) (simp_all add: attached_pc_def)
next
  case (left k f i)
  then show ?case by (intro consumer_upd) (simp_all add: attached_pc_def)
next
  case (init_timeout k f i)
  then show ?case by (intro quiet_upd cancelQuery_quiet)
next
  case (forwarded pick ctx_done msg f f' e)
  then show ?case using forwarded_quiet by blast
next
  case (producer_cancelled f queryID e)
  then show ?case by (auto simp: ProducerCancelStream_def intro!: quiet_upd cancelQuery_quiet split: option.splits)
next
  case (timed_out i f c)
  then show ?case by (intro quiet_upd) (simp_all add: quiet_defs)
next
  case (watchdog_cancelled i f c)
  then show ?case by (intro quiet_upd) (simp_all add: quiet_defs)
next
  case (deleted i f c)
  then show ?case using deleted_inv by blast
next
  case (ended i f c)
  then show ?case using ended_inv by blast
qed

lemma forward_inv_new: "forward_inv U details NewQueryResultForwarder"
  by (simp add: forward_inv_def NewQueryResultForwarder_def)

lemma forward_reachable: "(forward_step U details)\<^sup>*\<^sup>* f f' \<Longrightarrow> forward_inv U details f \<Longrightarrow> forward_inv U details f'"
  by (induction rule: rtranclp_induct) (auto intro: forward_inv_step)


section \<open>No message is lost or duplicated\<close>

definition in_hand :: "consumer \<Rightarrow> result_chunk list" where
  "in_hand c = (case co_pc c of Checking m \<Rightarrow> [m] | _ \<Rightarrow> [])"

definition to_send :: "consumer \<Rightarrow> script_response list" where
  "to_send c = (case co_pc c of Emitting rs _ \<Rightarrow> rs | _ \<Rightarrow> [])"

definition hands :: "nat \<Rightarrow> consumer list \<Rightarrow> result_chunk list" where
  "hands i cs = concat (map (\<lambda>c. if co_query c = i then in_hand c else []) cs)"

definition unused :: "forwarder \<Rightarrow> nat \<Rightarrow> bool" where
  "unused f i \<longleftrightarrow> (\<forall>k < length (fw_consumers f). co_query (fw_consumers f ! k) \<noteq> i)"

definition sole :: "forwarder \<Rightarrow> nat \<Rightarrow> nat \<Rightarrow> bool" where
  "sole f i k \<longleftrightarrow> k < length (fw_consumers f) \<and> co_query (fw_consumers f ! k) = i \<and>
     (\<forall>j < length (fw_consumers f). co_query (fw_consumers f ! j) = i \<longrightarrow> j = k)"

definition fed :: "uuid_ops \<Rightarrow> (string \<Rightarrow> line_col_error option list option) \<Rightarrow> active_query \<Rightarrow> consumer \<Rightarrow> bool" where
  "fed U details a c \<longleftrightarrow> aq_accepted a = aq_handled a @ in_hand c @ queryResultCh a \<and>
     co_out c @ to_send c = snd (run_chunks U details (origin a) (aq_handled a)) \<and>
     (co_pc c = Registering \<longrightarrow> aq_handled a = [] \<and> co_out c = [])"

definition flow_inv :: "uuid_ops \<Rightarrow> (string \<Rightarrow> line_col_error option list option) \<Rightarrow> forwarder \<Rightarrow> bool" where
  "flow_inv U details f \<longleftrightarrow> (\<forall>i < length (fw_objs f).
     mset (aq_accepted (fw_objs f ! i)) =
       mset (aq_handled (fw_objs f ! i)) + mset (hands i (fw_consumers f)) + mset (queryResultCh (fw_objs f ! i)) \<and>
     (unused f i \<longrightarrow> aq_handled (fw_objs f ! i) = [] \<and> aq_accepted (fw_objs f ! i) = queryResultCh (fw_objs f ! i)) \<and>
     (\<forall>k. sole f i k \<and> \<not> co_cancelled (fw_consumers f ! k) \<longrightarrow> fed U details (fw_objs f ! i) (fw_consumers f ! k)))"

text \<open>Steps that do not touch messages.\<close>

definition calm_query :: "active_query \<Rightarrow> active_query \<Rightarrow> bool" where
  "calm_query a a' \<longleftrightarrow> aq_accepted a' = aq_accepted a \<and> aq_handled a' = aq_handled a \<and> queryResultCh a' = queryResultCh a \<and> origin a' = origin a"

definition calm_consumer :: "consumer \<Rightarrow> consumer \<Rightarrow> bool" where
  "calm_consumer c c' \<longleftrightarrow> co_query c' = co_query c \<and> in_hand c' = in_hand c \<and>
     (\<not> co_cancelled c' \<longrightarrow> \<not> co_cancelled c \<and> co_out c' @ to_send c' = co_out c @ to_send c \<and>
        (co_pc c' = Registering \<longrightarrow> co_pc c = Registering \<and> co_out c' = co_out c))"

definition calm :: "forwarder \<Rightarrow> forwarder \<Rightarrow> bool" where
  "calm f f' \<longleftrightarrow> list_all2 calm_query (fw_objs f) (fw_objs f') \<and> list_all2 calm_consumer (fw_consumers f) (fw_consumers f')"

lemma calm_refl [simp]: "calm f f" "calm_query a a" "calm_consumer c c"
  by (simp_all add: calm_def calm_query_def calm_consumer_def list_all2_refl)

lemma calm_query_trans: "calm_query a b \<Longrightarrow> calm_query b c \<Longrightarrow> calm_query a c"
  by (simp add: calm_query_def)

lemma calm_consumer_trans: "calm_consumer a b \<Longrightarrow> calm_consumer b c \<Longrightarrow> calm_consumer a c"
  by (simp add: calm_consumer_def)

lemma calm_trans:
  assumes "calm f f'" and "calm f' f''"
  shows "calm f f''"
proof -
  have "list_all2 calm_query (fw_objs f) (fw_objs f'')"
    by (rule list_all2_trans [of calm_query calm_query calm_query "fw_objs f" "fw_objs f'"])
      (use assms calm_query_trans in \<open>simp_all add: calm_def\<close>)
  moreover have "list_all2 calm_consumer (fw_consumers f) (fw_consumers f'')"
    by (rule list_all2_trans [of calm_consumer calm_consumer calm_consumer "fw_consumers f" "fw_consumers f'"])
      (use assms calm_consumer_trans in \<open>simp_all add: calm_def\<close>)
  ultimately show ?thesis by (simp add: calm_def)
qed

lemma calm_upd:
  "calm_query (fw_objs f ! i) (g (fw_objs f ! i)) \<Longrightarrow> calm f (upd_query i g f)"
  "calm_consumer (fw_consumers f ! k) (h (fw_consumers f ! k)) \<Longrightarrow> calm f (upd_consumer k h f)"
  "calm f (cancelConsumer c f)"
proof -
  show "calm_query (fw_objs f ! i) (g (fw_objs f ! i)) \<Longrightarrow> calm f (upd_query i g f)"
    by (auto simp: calm_def list_all2_conv_all_nth nth_upd)
  show u: "calm_consumer (fw_consumers f ! k) (h (fw_consumers f ! k)) \<Longrightarrow> calm f (upd_consumer k h f)" for k h
    by (auto simp: calm_def list_all2_conv_all_nth nth_upd)
  have "calm_consumer c (cancel_context c)" for c by (auto simp: calm_consumer_def cancel_context_def in_hand_def split: consumer_pc.splits)
  then show "calm f (cancelConsumer c f)" using u by (simp add: cancelConsumer_def split: option.split)
qed

lemma hands_calm: "list_all2 calm_consumer cs cs' \<Longrightarrow> hands i cs' = hands i cs"
  by (induction rule: list_all2_induct) (simp_all add: hands_def calm_consumer_def)

lemma calm_flow:
  assumes "calm f f'" and "flow_inv U details f"
  shows "flow_inv U details f'"
proof -
  have all: "list_all2 calm_query (fw_objs f) (fw_objs f')" "list_all2 calm_consumer (fw_consumers f) (fw_consumers f')"
    using assms(1) by (simp_all add: calm_def)
  have l: "length (fw_objs f') = length (fw_objs f)" "length (fw_consumers f') = length (fw_consumers f)"
    using all list_all2_lengthD by metis+
  have q: "\<And>i. i < length (fw_objs f) \<Longrightarrow> calm_query (fw_objs f ! i) (fw_objs f' ! i)" by (rule list_all2_nthD [OF all(1)])
  have c: "\<And>k. k < length (fw_consumers f) \<Longrightarrow> calm_consumer (fw_consumers f ! k) (fw_consumers f' ! k)" by (rule list_all2_nthD [OF all(2)])
  have h: "\<And>i. hands i (fw_consumers f') = hands i (fw_consumers f)" by (rule hands_calm [OF all(2)])
  have co: "co_query (fw_consumers f' ! k) = co_query (fw_consumers f ! k)" if "k < length (fw_consumers f)" for k
    using c [OF that] by (simp add: calm_consumer_def)
  have us: "unused f' i = unused f i" "sole f' i k = sole f i k" for i k using co l(2) by (auto simp: unused_def sole_def)
  have "fed U details (fw_objs f' ! i) (fw_consumers f' ! k)"
    if "i < length (fw_objs f)" "sole f i k" "\<not> co_cancelled (fw_consumers f' ! k)" for i k
  proof -
    have k: "k < length (fw_consumers f)" using that(2) by (simp add: sole_def)
    with c [OF k] that(3) have "\<not> co_cancelled (fw_consumers f ! k)" by (simp add: calm_consumer_def)
    with that assms(2) have "fed U details (fw_objs f ! i) (fw_consumers f ! k)" by (simp add: flow_inv_def)
    with q [OF that(1)] c [OF k] that(3) show ?thesis by (auto simp: fed_def calm_query_def calm_consumer_def)
  qed
  with assms(2) q show ?thesis by (auto simp: flow_inv_def l h us calm_query_def)
qed


lemma hands_append: "hands i (xs @ ys) = hands i xs @ hands i ys"
  by (simp add: hands_def)

lemma hands_Cons: "hands i (c # cs) = (if co_query c = i then in_hand c else []) @ hands i cs"
  by (simp add: hands_def)

lemma hands_update:
  assumes "k < length cs"
  shows "mset (hands i (cs[k := c])) + mset (if co_query (cs ! k) = i then in_hand (cs ! k) else []) =
    mset (hands i cs) + mset (if co_query c = i then in_hand c else [])"
proof -
  define xs ys where "xs = take k cs" and "ys = drop (Suc k) cs"
  have cs: "cs = xs @ cs ! k # ys" and u: "cs[k := c] = xs @ c # ys"
    using assms by (simp_all add: xs_def ys_def id_take_nth_drop [symmetric] upd_conv_take_nth_drop)
  have "hands i cs = hands i xs @ (if co_query (cs ! k) = i then in_hand (cs ! k) else []) @ hands i ys"
    by (subst cs) (simp add: hands_append hands_Cons)
  moreover have "hands i (cs[k := c]) = hands i xs @ (if co_query c = i then in_hand c else []) @ hands i ys"
    unfolding u by (simp add: hands_append hands_Cons)
  ultimately show ?thesis by (simp only: mset_append ac_simps)
qed

lemma sole_upd:
  assumes "co_query (h (fw_consumers f ! k)) = co_query (fw_consumers f ! k)"
  shows "sole (upd_consumer k h f) i j = sole f i j" and "unused (upd_consumer k h f) i = unused f i"
proof -
  have "co_query (fw_consumers (upd_consumer k h f) ! j) = co_query (fw_consumers f ! j)" for j using assms by (auto simp: nth_upd)
  then show "sole (upd_consumer k h f) i j = sole f i j" "unused (upd_consumer k h f) i = unused f i"
    by (simp_all add: sole_def unused_def)
qed

lemma sole_upd_query [simp]: "sole (upd_query n g f) i j = sole f i j" "unused (upd_query n g f) i = unused f i"
  by (simp_all add: sole_def unused_def)


text \<open>The three parts of the invariant for one query.\<close>

definition balanced :: "forwarder \<Rightarrow> nat \<Rightarrow> bool" where
  "balanced f i \<longleftrightarrow> mset (aq_accepted (fw_objs f ! i)) =
     mset (aq_handled (fw_objs f ! i)) + mset (hands i (fw_consumers f)) + mset (queryResultCh (fw_objs f ! i))"

lemma flow_inv_alt:
  "flow_inv U details f \<longleftrightarrow> (\<forall>i < length (fw_objs f). balanced f i \<and>
     (unused f i \<longrightarrow> aq_handled (fw_objs f ! i) = [] \<and> aq_accepted (fw_objs f ! i) = queryResultCh (fw_objs f ! i)) \<and>
     (\<forall>k. sole f i k \<and> \<not> co_cancelled (fw_consumers f ! k) \<longrightarrow> fed U details (fw_objs f ! i) (fw_consumers f ! k)))"
  by (simp add: flow_inv_def balanced_def)

lemma balance:
  assumes "A = H + X + (Q :: 'a multiset)" and "X' + w = X + w'" and "H' + w' + Q' = H + w + Q"
  shows "A = H' + X' + Q'"
proof -
  have "A + w = H + w + Q + X" using assms(1) by (simp add: ac_simps)
  also have "\<dots> = H' + Q' + (X + w')" using assms(3) by (simp add: ac_simps flip: assms(3))
  also have "\<dots> = H' + X' + Q' + w" using assms(2) by (simp add: ac_simps flip: assms(2))
  finally show ?thesis by simp
qed

text \<open>A step of consumer \<open>k\<close> that changes the messages of its query.\<close>

lemma consumer_step_flow:
  assumes inv: "flow_inv U details f" and k: "k < length (fw_consumers f)" and i: "i = co_query (fw_consumers f ! k)" "i < length (fw_objs f)"
    and co: "co_query (h (fw_consumers f ! k)) = i" "co_cancelled (h (fw_consumers f ! k)) = co_cancelled (fw_consumers f ! k)"
    and acc: "aq_accepted (g (fw_objs f ! i)) = aq_accepted (fw_objs f ! i)"
    and all: "mset (aq_handled (g (fw_objs f ! i))) + mset (in_hand (h (fw_consumers f ! k))) + mset (queryResultCh (g (fw_objs f ! i))) =
       mset (aq_handled (fw_objs f ! i)) + mset (in_hand (fw_consumers f ! k)) + mset (queryResultCh (fw_objs f ! i))"
    and fed: "fed U details (fw_objs f ! i) (fw_consumers f ! k) \<Longrightarrow> fed U details (g (fw_objs f ! i)) (h (fw_consumers f ! k))"
  shows "flow_inv U details (upd_consumer k h (upd_query i g f))" (is "flow_inv U details ?f")
  unfolding flow_inv_alt
proof (intro allI impI conjI)
  fix j assume "j < length (fw_objs ?f)"
  then have j: "j < length (fw_objs f)" by simp
  have h: "mset (hands j (fw_consumers ?f)) + mset (if i = j then in_hand (fw_consumers f ! k) else []) =
      mset (hands j (fw_consumers f)) + mset (if i = j then in_hand (h (fw_consumers f ! k)) else [])"
    using hands_update [OF k, of j "h (fw_consumers f ! k)"] co(1) i(1) by simp
  have b: "balanced f j" using inv j by (simp add: flow_inv_alt)
  have us: "unused ?f j = unused f j" "sole ?f j l = sole f j l" for l using sole_upd [of h "upd_query i g f" k] co(1) i(1) by simp_all
  show "balanced ?f j"
  proof (cases "j = i")
    case True
    from h True have "mset (hands i (fw_consumers ?f)) + mset (in_hand (fw_consumers f ! k)) =
        mset (hands i (fw_consumers f)) + mset (in_hand (h (fw_consumers f ! k)))" by simp
    from balance [OF b [unfolded True balanced_def] this all] show ?thesis using True i(2) acc by (simp add: balanced_def nth_upd)
  next
    case False
    with h have "mset (hands j (fw_consumers ?f)) = mset (hands j (fw_consumers f))" by simp
    with b False show ?thesis by (simp add: balanced_def nth_upd)
  qed
  assume "unused ?f j"
  then have un: "unused f j" by (simp only: us)
  then have "j \<noteq> i" using k i(1) by (auto simp: unused_def)
  with un inv j show "aq_handled (fw_objs ?f ! j) = []" "aq_accepted (fw_objs ?f ! j) = queryResultCh (fw_objs ?f ! j)"
    by (simp_all add: flow_inv_alt nth_upd)
next
  fix j l assume "j < length (fw_objs ?f)" and l: "sole ?f j l \<and> \<not> co_cancelled (fw_consumers ?f ! l)"
  then have j: "j < length (fw_objs f)" by simp
  have s: "sole f j l" using l sole_upd(1) [of h "upd_query i g f" k] co(1) i(1) by simp
  have lk: "l = k \<longleftrightarrow> j = i" using s k i(1) by (auto simp: sole_def)
  have nc: "\<not> co_cancelled (fw_consumers f ! l)" using l k co(2) by (auto simp: nth_upd split: if_splits)
  with inv j s have "fed U details (fw_objs f ! j) (fw_consumers f ! l)" by (simp add: flow_inv_alt)
  with fed lk j k show "fed U details (fw_objs ?f ! j) (fw_consumers ?f ! l)" by (cases "l = k") (simp_all add: nth_upd)
qed


lemma fed_handled:
  assumes "fed U details a c" and "co_pc c = Checking m" and "handleRequest U details m a = (b, rs, e)"
    and "core a = fst (run_chunks U details (origin a) (aq_handled a))"
  shows "fed U details (b\<lparr>aq_handled := aq_handled b @ [m]\<rparr>) (c\<lparr>co_pc := Emitting rs e\<rparr>)"
proof -
  note h = handleRequest_fields [OF assms(3)]
  have o: "origin (b\<lparr>aq_handled := x\<rparr>) = origin a" for x using h by (simp add: origin_def newActiveQuery_def)
  have f: "aq_accepted a = aq_handled a @ [m] @ queryResultCh a" "co_out c = snd (run_chunks U details (origin a) (aq_handled a))"
    using assms(1,2) by (simp_all add: fed_def in_hand_def to_send_def)
  have r: "run_chunks U details (origin a) (aq_handled a) = (core a, co_out c)" using assms(4) f(2) by (simp add: prod_eq_iff)
  have "handleRequest U details m (core a) = (core b, rs, e)" using assms(3) by (simp add: handleRequest_core)
  then have "run_chunks U details (origin a) (aq_handled a @ [m]) = (core b, co_out c @ rs)" using r by (simp add: run_chunks_snoc)
  with f(1) h show ?thesis by (simp add: fed_def o in_hand_def to_send_def)
qed

lemma accepted_flow:
  assumes inv: "flow_inv U details f" and i: "i < length (fw_objs f)"
  shows "flow_inv U details (upd_query i (\<lambda>a. a\<lparr>queryResultCh := queryResultCh a @ [m], aq_accepted := aq_accepted a @ [m]\<rparr>) f)"
    (is "flow_inv U details ?f")
  unfolding flow_inv_alt
proof (intro allI impI conjI)
  have o: "origin (a\<lparr>queryResultCh := x, aq_accepted := y\<rparr>) = origin a" for a x y by (simp add: origin_def newActiveQuery_def)
  fix j assume "j < length (fw_objs ?f)"
  then have j: "j < length (fw_objs f)" by simp
  show "balanced ?f j" using inv j by (auto simp: flow_inv_alt balanced_def nth_upd)
  show "aq_handled (fw_objs ?f ! j) = []" "aq_accepted (fw_objs ?f ! j) = queryResultCh (fw_objs ?f ! j)" if "unused ?f j"
    using inv j that by (auto simp: flow_inv_alt nth_upd)
  fix l assume "sole ?f j l \<and> \<not> co_cancelled (fw_consumers ?f ! l)"
  with inv j have "fed U details (fw_objs f ! j) (fw_consumers f ! l)" by (simp add: flow_inv_alt)
  then show "fed U details (fw_objs ?f ! j) (fw_consumers ?f ! l)" by (auto simp: nth_upd fed_def o)
qed

lemma flow_registered:
  assumes inv: "flow_inv U details f" and wf: "\<forall>k < length (fw_consumers f). co_query (fw_consumers f ! k) < length (fw_objs f)"
    and r: "RegisterQuery queryID tables t opts f = (f', None)"
  shows "flow_inv U details f'"
proof -
  let ?a = "newActiveQuery queryID tables t opts"
  have f': "fw_objs f' = fw_objs f @ [?a]" "fw_consumers f' = fw_consumers f" using r by (auto simp: RegisterQuery_def split: if_splits)
  have "hands i cs = []" if "\<forall>c\<in>set cs. co_query c \<noteq> i" for i cs using that by (induction cs) (simp_all add: hands_def)
  then have "hands (length (fw_objs f)) (fw_consumers f) = []" using wf by (metis in_set_conv_nth less_irrefl)
  then have n: "balanced f' (length (fw_objs f))" by (simp add: balanced_def f' newActiveQuery_def)
  have s: "\<not> sole f' (length (fw_objs f)) k" for k using wf by (auto simp: sole_def f')
  have us: "unused f' i = unused f i" "sole f' i k = sole f i k" for i k by (simp_all add: unused_def sole_def f')
  show ?thesis unfolding flow_inv_alt
  proof (intro allI impI)
    fix i assume "i < length (fw_objs f')"
    then consider "i < length (fw_objs f)" | "i = length (fw_objs f)" by (auto simp: f' less_Suc_eq)
    then show "balanced f' i \<and> (unused f' i \<longrightarrow> aq_handled (fw_objs f' ! i) = [] \<and> aq_accepted (fw_objs f' ! i) = queryResultCh (fw_objs f' ! i)) \<and>
        (\<forall>k. sole f' i k \<and> \<not> co_cancelled (fw_consumers f' ! k) \<longrightarrow> fed U details (fw_objs f' ! i) (fw_consumers f' ! k))"
    proof cases
      case 1
      then show ?thesis using inv by (simp add: flow_inv_alt us balanced_def f' nth_append)
    next
      case 2
      then show ?thesis using n s by (simp add: f' newActiveQuery_def)
    qed
  qed
qed


lemma flow_streaming:
  assumes inv: "flow_inv U details f" and i: "i < length (fw_objs f)"
  shows "flow_inv U details
    (f\<lparr>fw_consumers := fw_consumers f @ [\<lparr>co_query = i, co_pc = Registering, co_cancelled = False, co_out = []\<rparr>]\<rparr>)"
    (is "flow_inv U details ?f")
  unfolding flow_inv_alt
proof (intro allI impI conjI)
  let ?c = "\<lparr>co_query = i, co_pc = Registering, co_cancelled = False, co_out = []\<rparr>"
  let ?n = "length (fw_consumers f)"
  fix j assume "j < length (fw_objs ?f)"
  then have j: "j < length (fw_objs f)" by simp
  have "hands j (fw_consumers f @ [?c]) = hands j (fw_consumers f)" by (simp add: hands_def in_hand_def)
  with inv j show "balanced ?f j" by (simp add: flow_inv_alt balanced_def)
  have un: "unused ?f j \<longleftrightarrow> unused f j \<and> j \<noteq> i" by (auto simp: unused_def nth_append less_Suc_eq)
  with inv j show "unused ?f j \<Longrightarrow> aq_handled (fw_objs ?f ! j) = []" "unused ?f j \<Longrightarrow> aq_accepted (fw_objs ?f ! j) = queryResultCh (fw_objs ?f ! j)"
    by (simp_all add: flow_inv_alt)
  fix k assume "sole ?f j k \<and> \<not> co_cancelled (fw_consumers ?f ! k)"
  then have s: "sole ?f j k" and nc: "\<not> co_cancelled (fw_consumers ?f ! k)" by simp_all
  show "fed U details (fw_objs ?f ! j) (fw_consumers ?f ! k)"
  proof (cases "k = ?n")
    case True
    have "co_query (fw_consumers f ! l) \<noteq> j" if "l < ?n" for l
      using s that True by (auto simp: sole_def nth_append dest!: spec [of _ l])
    then have "unused f j" by (simp add: unused_def)
    with inv j True show ?thesis by (simp add: flow_inv_alt fed_def in_hand_def to_send_def)
  next
    case False
    with s have k: "k < ?n" by (simp add: sole_def less_Suc_eq)
    have "l = k" if "l < ?n" "co_query (fw_consumers f ! l) = j" for l
      using s that by (auto simp: sole_def nth_append dest!: spec [of _ l])
    with s k have "sole f j k" by (simp add: sole_def nth_append)
    with inv j nc k show ?thesis by (simp add: flow_inv_alt nth_append)
  qed
qed

lemma cancelQuery_calm: "calm f (upd_query i (cancelQuery e) f)"
  by (rule calm_upd) (simp add: calm_query_def cancelQuery_def origin_def)

lemma flow_inv_step:
  "forward_step U details f f' \<Longrightarrow> flow_inv U details f \<Longrightarrow> forward_inv U details f \<Longrightarrow> flow_inv U details f'"
proof (induction rule: forward_step.induct)
  case (registered tables queryID t opts f f')
  then show ?case using flow_registered by (simp add: forward_inv_def)
next
  case (streaming f queryID i)
  then show ?case using flow_streaming by (simp add: forward_inv_def)
next
  case (attached k f i old)
  let ?f1 = "cancelConsumer old f" and ?g = "\<lambda>a. a\<lparr>aq_watchdog := Watching (Some k)\<rparr>"
  have "calm f ?f1" by (rule calm_upd)
  moreover have "calm ?f1 (upd_query i ?g ?f1)" by (rule calm_upd) (simp add: calm_query_def origin_def)
  moreover have "co_pc (fw_consumers ?f1 ! k) = Registering" using attached(2) by (auto simp: nth_upd split: option.split)
  then have "calm (upd_query i ?g ?f1) (upd_consumer k (\<lambda>c. c\<lparr>co_pc := Awaiting\<rparr>) (upd_query i ?g ?f1))"
    by (intro calm_upd) (simp add: calm_consumer_def in_hand_def to_send_def)
  ultimately show ?case using calm_flow attached(5) by blast
next
  case (not_attached k f)
  then have "calm f (upd_consumer k (\<lambda>c. c\<lparr>co_pc := Finished (Some (ErrMsg ''timedout trying to register consumer''))\<rparr>) f)"
    by (intro calm_upd) (simp add: calm_consumer_def in_hand_def to_send_def)
  then show ?case using not_attached(3) by (rule calm_flow)
next
  case (client_gone k f)
  have "calm f (cancelConsumer (Some k) f)" by (rule calm_upd)
  then show ?case using client_gone(2) by (simp add: cancelConsumer_def calm_flow)
next
  case (received k f i m ms)
  have i: "i < length (fw_objs f)" using received(1,3,6) by (simp add: forward_inv_def)
  have o: "origin (a\<lparr>queryResultCh := ms\<rparr>) = origin a" for a by (simp add: origin_def)
  show ?case using received(2,4)
    by (intro consumer_step_flow [OF received(5,1,3) i]) (simp_all add: received(3) in_hand_def to_send_def fed_def o)
next
  case (handled k f m i a rs e)
  have i: "i < length (fw_objs f)" using handled(1,3,8) by (simp add: forward_inv_def)
  have c: "core (fw_objs f ! i) = fst (run_chunks U details (origin (fw_objs f ! i)) (aq_handled (fw_objs f ! i)))"
    using handled(8) i by (simp add: forward_inv_def list_all_length query_inv_def)
  note h = handleRequest_fields [OF handled(5)]
  show ?case
  proof (rule consumer_step_flow [OF handled(7,1,3) i])
    assume "fed U details (fw_objs f ! i) (fw_consumers f ! k)"
    then show "fed U details (a\<lparr>aq_handled := aq_handled a @ [m]\<rparr>) ((fw_consumers f ! k)\<lparr>co_pc := Emitting rs e\<rparr>)"
      by (rule fed_handled [OF _ handled(2,5) c])
  qed (use h handled(2,3) in \<open>simp_all add: in_hand_def\<close>)
next
  case (emitted k f r rs e)
  then have "calm f (upd_consumer k (\<lambda>c. c\<lparr>co_pc := Emitting rs e, co_out := co_out c @ [r]\<rparr>) f)"
    by (intro calm_upd) (simp add: calm_consumer_def in_hand_def to_send_def)
  then show ?case using emitted(3) by (rule calm_flow)
next
  case (abandoned k f r rs e)
  then have "calm f (upd_consumer k (\<lambda>c. c\<lparr>co_pc := Emitting [] None\<rparr>) f)"
    by (intro calm_upd) (simp add: calm_consumer_def in_hand_def to_send_def)
  then show ?case using abandoned(4) by (rule calm_flow)
next
  case (failed k f e i)
  then have "calm (upd_query i (cancelQuery (Some e)) f) (upd_consumer k (\<lambda>c. c\<lparr>co_pc := Finished (Some e)\<rparr>) (upd_query i (cancelQuery (Some e)) f))"
    by (intro calm_upd) (simp add: calm_consumer_def in_hand_def to_send_def)
  from calm_flow [OF this] calm_flow [OF cancelQuery_calm failed(4)] show ?case by blast
next
  case (completed k f i)
  then have "calm (upd_query i (cancelQuery None) f) (upd_consumer k (\<lambda>c. c\<lparr>co_pc := Finished None\<rparr>) (upd_query i (cancelQuery None) f))"
    by (intro calm_upd) (simp add: calm_consumer_def in_hand_def to_send_def)
  from calm_flow [OF this] calm_flow [OF cancelQuery_calm completed(5)] show ?case by blast
next
  case (continued k f i)
  then have "calm f (upd_consumer k (\<lambda>c. c\<lparr>co_pc := Awaiting\<rparr>) f)"
    by (intro calm_upd) (simp add: calm_consumer_def in_hand_def to_send_def)
  then show ?case using continued(5) by (rule calm_flow)
next
  case (left k f i)
  then have "calm f (upd_consumer k (\<lambda>c. c\<lparr>co_pc := Finished (cancelQueryError (fw_objs f ! i))\<rparr>) f)"
    by (intro calm_upd) (simp add: calm_consumer_def in_hand_def to_send_def)
  then show ?case using left(5) by (rule calm_flow)
next
  case (init_timeout k f i)
  then show ?case using calm_flow [OF cancelQuery_calm] by blast
next
  case (forwarded pick ctx_done msg f f' e)
  have "map_of (activeQueries f) q = Some i \<Longrightarrow> i < length (fw_objs f)" for q i using forwarded(3) by (simp add: forward_inv_def)
  with forwarded show ?case using accepted_flow calm_flow [OF cancelQuery_calm]
    by (auto simp: ForwardQueryResult_def Let_def split: option.splits forward_pick.splits if_splits)
next
  case (producer_cancelled f queryID e)
  then show ?case using calm_flow [OF cancelQuery_calm] by (auto simp: ProducerCancelStream_def split: option.splits)
next
  case (timed_out i f c)
  have "calm f (upd_query i (\<lambda>a. a\<lparr>cancelQueryError := Some (ErrMsg ''timedout''), aq_watchdog := Deleting c\<rparr>) f)"
    by (rule calm_upd) (simp add: calm_query_def origin_def)
  then show ?case using timed_out(3) by (rule calm_flow)
next
  case (watchdog_cancelled i f c)
  have "calm f (upd_query i (\<lambda>a. a\<lparr>aq_watchdog := Deleting c\<rparr>) f)" by (rule calm_upd) (simp add: calm_query_def origin_def)
  then show ?case using watchdog_cancelled(4) by (rule calm_flow)
next
  case (deleted i f c)
  let ?g = "\<lambda>a. a\<lparr>producer_done := True, aq_watchdog := Ending c\<rparr>"
  have "calm f (upd_query i ?g f)" by (rule calm_upd) (simp add: calm_query_def origin_def)
  then have "calm f (upd_query i ?g (f\<lparr>activeQueries := AList.delete (aq_queryID (fw_objs f ! i)) (activeQueries f)\<rparr>))"
    by (simp add: calm_def upd_query_def)
  then show ?case using deleted(3) by (rule calm_flow)
next
  case (ended i f c)
  have "calm f (cancelConsumer c f)" by (rule calm_upd)
  moreover have "calm (cancelConsumer c f) (upd_query i (\<lambda>a. a\<lparr>aq_watchdog := Ended\<rparr>) (cancelConsumer c f))"
    by (rule calm_upd) (simp add: calm_query_def origin_def)
  ultimately show ?case using calm_flow ended(3) by blast
qed


lemma flow_inv_new: "flow_inv U details NewQueryResultForwarder"
  by (simp add: flow_inv_def NewQueryResultForwarder_def)

lemma flow_reachable:
  "(forward_step U details)\<^sup>*\<^sup>* NewQueryResultForwarder f \<Longrightarrow> flow_inv U details f \<and> forward_inv U details f"
  by (induction rule: rtranclp_induct) (auto intro: flow_inv_new forward_inv_new flow_inv_step forward_inv_step)




section \<open>A run\<close>

definition sample_uuids :: uuid_ops where
  "sample_uuids = \<lparr>uuid_String = (\<lambda>_. ''q''), uuid_FromString = (\<lambda>_. Inr 1)\<rparr>"

definition sample_eos :: result_chunk where
  "sample_eos = \<lparr>rc_QueryID = Some \<lparr>HighBits = 1, LowBits = 1\<rparr>,
     rc_Result = Some (QueryResult ''t'' (Some \<lparr>rb_Cols = [], rb_NumRows = 0, rb_Eow = True, rb_Eos = True\<rparr>))\<rparr>"

definition sample_qid :: uuid where
  "sample_qid = UUIDFromProtoOrNil (rc_QueryID sample_eos)"

definition sample_query :: active_query where
  "sample_query = newActiveQuery sample_qid [(''t'', ''id'')] 3 None"

definition sample_fw :: "active_query \<Rightarrow> consumer list \<Rightarrow> forwarder" where
  "sample_fw a cs = \<lparr>activeQueries = [(sample_qid, 0)], fw_objs = [a], fw_consumers = cs\<rparr>"

definition sample_consumer :: "consumer_pc \<Rightarrow> consumer" where
  "sample_consumer pc = \<lparr>co_query = 0, co_pc = pc, co_cancelled = False, co_out = []\<rparr>"

definition sample_eos_response :: script_response where
  "sample_eos_response = (empty_response ''q'')\<lparr>sr_Result := Some (BatchResult
     \<lparr>vb_TableID = ''id'', vb_Cols = [], vb_NumRows = 0, vb_Eow = True, vb_Eos = True\<rparr>)\<rparr>"

definition sample_after :: active_query where
  "sample_after = sample_query\<lparr>aq_watchdog := Watching (Some 0), aq_accepted := [sample_eos], aq_handled := [sample_eos],
     uninitializedTables := [], remainingTableEos := [], allTablesConnected := True\<rparr>"

lemma sample_registered: "forward_step U details NewQueryResultForwarder (sample_fw sample_query [])"
  by (rule forward_step.registered [of "[(''t'', ''id'')]" sample_qid 3 None])
    (simp_all add: RegisterQuery_def NewQueryResultForwarder_def sample_fw_def sample_query_def)

lemma sample_attached:
  "(forward_step U details)\<^sup>*\<^sup>* NewQueryResultForwarder (sample_fw (sample_query\<lparr>aq_watchdog := Watching (Some 0)\<rparr>) [sample_consumer Awaiting])"
proof -
  have 1: "forward_step U details (sample_fw sample_query []) (sample_fw sample_query [sample_consumer Registering])"
    using forward_step.streaming [of "sample_fw sample_query []" sample_qid 0 U details] by (simp add: sample_fw_def sample_consumer_def)
  have "aq_watchdog sample_query = Watching None" by (simp add: sample_query_def newActiveQuery_def)
  then have 2: "forward_step U details (sample_fw sample_query [sample_consumer Registering])
      (sample_fw (sample_query\<lparr>aq_watchdog := Watching (Some 0)\<rparr>) [sample_consumer Awaiting])"
    using forward_step.attached [of 0 "sample_fw sample_query [sample_consumer Registering]" 0 None U details]
    by (simp add: sample_fw_def sample_consumer_def upd_consumer_def upd_query_def cancelConsumer_def)
  show ?thesis using sample_registered 1 2 by (meson rtranclp.rtrancl_refl rtranclp.rtrancl_into_rtrancl)
qed

lemma sample_run:
  "(forward_step sample_uuids details)\<^sup>*\<^sup>* NewQueryResultForwarder (sample_fw sample_after [sample_consumer (Emitting [sample_eos_response] None)])"
proof -
  let ?a = "sample_query\<lparr>aq_watchdog := Watching (Some 0)\<rparr>"
  let ?b = "?a\<lparr>queryResultCh := [sample_eos], aq_accepted := [sample_eos]\<rparr>"
  let ?c = "?a\<lparr>aq_accepted := [sample_eos]\<rparr>"
  have ch: "queryResultCh ?a = []" "aq_accepted ?a = []" by (simp_all add: sample_query_def newActiveQuery_def)
  have 1: "forward_step sample_uuids details (sample_fw ?a [sample_consumer Awaiting]) (sample_fw ?b [sample_consumer Awaiting])"
    by (rule forward_step.forwarded [of PickSend False sample_eos _ _ None])
      (use ch in \<open>simp add: ForwardQueryResult_def sample_fw_def sample_qid_def activeQueryBufferSize_def upd_query_def\<close>)
  have 2: "forward_step sample_uuids details (sample_fw ?b [sample_consumer Awaiting]) (sample_fw ?c [sample_consumer (Checking sample_eos)])"
    using forward_step.received [of 0 "sample_fw ?b [sample_consumer Awaiting]" 0 sample_eos "[]" sample_uuids details]
    by (simp add: sample_fw_def sample_consumer_def upd_consumer_def upd_query_def) (simp add: sample_query_def newActiveQuery_def)
  have h: "handleRequest sample_uuids details sample_eos ?c = (sample_after\<lparr>aq_handled := []\<rparr>, [sample_eos_response], None)"
    by (simp add: handleRequest_def updateQueryState_def sample_eos_def and_then_def table_connected_def set_exists_def set_remove_def set_size_def
        sample_query_def newActiveQuery_def set_add_def note_agent_stats_def plan_responses_def queryComplete_def BuildExecuteScriptResponse_def
        RowBatchToVizierRowBatch_def bind_res_def empty_response_def sample_uuids_def sample_eos_response_def sample_after_def Let_def List.insert_def)
  have "sample_after\<lparr>aq_handled := [sample_eos]\<rparr> = sample_after" by (simp add: sample_after_def)
  then have 3: "forward_step sample_uuids details (sample_fw ?c [sample_consumer (Checking sample_eos)])
      (sample_fw sample_after [sample_consumer (Emitting [sample_eos_response] None)])"
    using forward_step.handled [of 0 "sample_fw ?c [sample_consumer (Checking sample_eos)]" sample_eos 0 sample_uuids details] h
    by (simp add: sample_fw_def sample_consumer_def upd_consumer_def upd_query_def no_panic_def)
  from 1 2 3 sample_attached show ?thesis by (meson rtranclp.rtrancl_into_rtrancl)
qed


section \<open>Properties\<close>

text \<open>
  C10. The results of a query reach its client in order. However agents, consumers, timers and the watchdog interleave,
  the messages accepted for a query are, as a multiset, those handled, those a consumer has in hand and those in the channel: none
  is lost or duplicated. When the query has one consumer and it is not cancelled, the accepted messages are these three in
  this order, and what the consumer has sent and is about to send is exactly the responses to the handled messages,
  in order.
\<close>

theorem results_reach_client:
  assumes "(forward_step U details)\<^sup>*\<^sup>* NewQueryResultForwarder f" and "i < length (fw_objs f)"
  shows "mset (aq_accepted (fw_objs f ! i)) =
      mset (aq_handled (fw_objs f ! i)) + mset (hands i (fw_consumers f)) + mset (queryResultCh (fw_objs f ! i)) \<and>
    (\<forall>k. sole f i k \<and> \<not> co_cancelled (fw_consumers f ! k) \<longrightarrow>
       aq_accepted (fw_objs f ! i) = aq_handled (fw_objs f ! i) @ in_hand (fw_consumers f ! k) @ queryResultCh (fw_objs f ! i) \<and>
       co_out (fw_consumers f ! k) @ to_send (fw_consumers f ! k) =
         snd (run_chunks U details (origin (fw_objs f ! i)) (aq_handled (fw_objs f ! i))))"
  using flow_reachable [OF assms(1)] assms(2) by (simp add: flow_inv_def fed_def)

theorem results_reach_client_witness:
  "\<exists>f. (forward_step sample_uuids (\<lambda>_. None))\<^sup>*\<^sup>* NewQueryResultForwarder f \<and> aq_accepted (fw_objs f ! 0) = [sample_eos] \<and>
     [sample_eos_response] = snd (run_chunks sample_uuids (\<lambda>_. None) (origin (fw_objs f ! 0)) [sample_eos])"
proof -
  let ?f = "sample_fw sample_after [sample_consumer (Emitting [sample_eos_response] None)]"
  have "0 < length (fw_objs ?f)" by (simp add: sample_fw_def)
  moreover have "sole ?f 0 0" by (simp add: sole_def sample_fw_def sample_consumer_def)
  ultimately have "co_out (fw_consumers ?f ! 0) @ to_send (fw_consumers ?f ! 0) =
      snd (run_chunks sample_uuids (\<lambda>_. None) (origin (fw_objs ?f ! 0)) (aq_handled (fw_objs ?f ! 0)))"
    using results_reach_client [OF sample_run, where i = 0 and details = "\<lambda>_. None"] by (auto simp: sample_fw_def sample_consumer_def)
  moreover have "co_out (fw_consumers ?f ! 0) @ to_send (fw_consumers ?f ! 0) = [sample_eos_response]" "aq_handled (fw_objs ?f ! 0) = [sample_eos]"
    "aq_accepted (fw_objs ?f ! 0) = [sample_eos]"
    by (simp_all add: sample_fw_def sample_consumer_def to_send_def sample_after_def)
  ultimately show ?thesis using sample_run by (intro exI [of _ ?f]) simp
qed






section \<open>Where the code does less\<close>

text \<open>
  A query without tables. The signal that all tables are connected is given when the last one connects, so it is never given for a
  query that has none, and the timer of its consumer cancels the query although no table is missing.
\<close>

theorem query_without_tables_cancelled:
  "\<exists>f f'. (forward_step U details)\<^sup>*\<^sup>* NewQueryResultForwarder f \<and> tableIDMap (fw_objs f ! 0) = [] \<and> uninitializedTables (fw_objs f ! 0) = [] \<and>
     \<not> query_cancelled (fw_objs f ! 0) \<and> forward_step U details f f' \<and> query_cancelled (fw_objs f' ! 0) \<and>
     cancelQueryError (fw_objs f' ! 0) = Some (ErrMsg ''failed to initialize all result tables within the deadline'')"
proof -
  let ?q = "newActiveQuery 1 [] 3 None"
  let ?f = "\<lambda>q cs. \<lparr>activeQueries = [(1, 0)], fw_objs = [q], fw_consumers = cs\<rparr>"
  let ?g = "?f (?q\<lparr>aq_watchdog := Watching (Some 0)\<rparr>) [sample_consumer Awaiting]"
  have 1: "forward_step U details NewQueryResultForwarder (?f ?q [])"
    by (rule forward_step.registered [of "[]" 1 3 None]) (simp_all add: RegisterQuery_def NewQueryResultForwarder_def)
  have 2: "forward_step U details (?f ?q []) (?f ?q [sample_consumer Registering])"
    using forward_step.streaming [of "?f ?q []" 1 0 U details] by (simp add: sample_consumer_def)
  have 3: "forward_step U details (?f ?q [sample_consumer Registering]) ?g"
    using forward_step.attached [of 0 "?f ?q [sample_consumer Registering]" 0 None U details]
    by (simp add: sample_consumer_def upd_consumer_def upd_query_def cancelConsumer_def newActiveQuery_def)
  have r: "(forward_step U details)\<^sup>*\<^sup>* NewQueryResultForwarder ?g" using 1 2 3 by (meson rtranclp.rtrancl_refl rtranclp.rtrancl_into_rtrancl)
  have "forward_step U details ?g (upd_query 0 (cancelQuery (Some (ErrMsg ''failed to initialize all result tables within the deadline''))) ?g)"
    by (rule forward_step.init_timeout [of 0]) (simp_all add: sample_consumer_def newActiveQuery_def)
  moreover have "fw_objs (upd_query 0 h ?g) ! 0 = h (?q\<lparr>aq_watchdog := Watching (Some 0)\<rparr>)" for h by (simp add: upd_query_def)
  moreover have "fw_objs ?g ! 0 = ?q\<lparr>aq_watchdog := Watching (Some 0)\<rparr>" by simp
  moreover have "tableIDMap ?q = []" "uninitializedTables ?q = []" "\<not> query_cancelled ?q" by (simp_all add: newActiveQuery_def)
  ultimately show ?thesis using r
    by (intro exI [of _ ?g] exI [of _ "upd_query 0 (cancelQuery (Some (ErrMsg ''failed to initialize all result tables within the deadline''))) ?g"])
      (simp add: cancelQuery_def)
qed

text \<open>
  An error that is reported as success. The table of codes has no entry for a failed precondition (13) nor for an operation that is not
  implemented (10), so the response to such an execution error carries the code OK and the query goes on.
\<close>

theorem execution_error_reported_ok:
  assumes "c = 10 \<or> c = 13" and "\<not> queryComplete a"
  shows "\<exists>r s. handleRequest U (\<lambda>_. None) \<lparr>rc_QueryID = q, rc_Result = Some (ExecutionError \<lparr>sp_ErrCode = c, sp_Msg = m, sp_Context = x\<rparr>)\<rparr> a =
    (a, [r], None) \<and> sr_Status r = Some s \<and> vs_Code s = 0"
  using assms
  by (auto simp: handleRequest_def updateQueryState_def note_agent_stats_def plan_responses_def BuildExecuteScriptResponse_def StatusToVizierStatus_def
      getErrorsFromStatusContext_def bind_res_def statusCodeToGRPCCode_def empty_response_def Let_def)

text \<open>\<open>StatusToError\<close> passes the number of an internal code on as a gRPC code, which for these codes is another error.\<close>

theorem status_codes_confused:
  "\<forall>c \<in> {8, 9, 11, 12}. \<exists>g. StatusToError \<lparr>sp_ErrCode = c, sp_Msg = m, sp_Context = x\<rparr> = Some (GrpcErr g m) \<and> g \<noteq> statusCodeToGRPCCode c"
  by (simp add: StatusToError_def grpc_error_def statusCodeToGRPCCode_def)

end
