(* ===== verification/CronScript.thy ===== *)
theory CronScript
  imports Datastore Uuid
begin

text \<open>
  \<open>src/vizier/services/metadata/controllers/cronscript\<close>: the scripts the vizier runs periodically
  and the results of their runs (\<open>store.go\<close>), and the service in front of them (\<open>server.go\<close>).

  A script is stored under its id. The results of a script are a ring buffer of ten slots, whose
  position is stored beside the slots. The store is any implementation of the datastore
  interface; the codecs of the two messages and the text form of UUIDs are parameters.
\<close>

section \<open>Data\<close>

text \<open>
  \<open>cvmsgspb.CronScript\<close>, \<open>storepb.CronScriptResult\<close> and the requests of the service. Time stamps and
  statuses are only carried along.
\<close>

record cron_script =
  cron_ID :: "uuidpb option"
  cron_Script :: string
  CronExpression :: string
  cron_Configs :: string
  FrequencyS :: int

record cron_result =
  cr_ScriptID :: "uuidpb option"
  cr_Timestamp :: "int option"
  cr_Error :: "string option"
  cr_ExecutionTimeNs :: int
  cr_CompilationTimeNs :: int
  cr_BytesProcessed :: int
  cr_RecordsProcessed :: int

record cron_exec_stats =
  ces_ExecutionTimeNs :: int
  ces_CompilationTimeNs :: int
  ces_BytesProcessed :: int
  ces_RecordsProcessed :: int

text \<open>The two cases of the \<open>oneof\<close>, each holding a pointer.\<close>

datatype cron_outcome = OutcomeError "string option" | OutcomeStats "cron_exec_stats option"

record cron_execution =
  ce_ScriptID :: "uuidpb option"
  ce_Timestamp :: "int option"
  ce_Result :: "cron_outcome option"

record 'd cron_env =
  cron_ds :: "'d kvops"
  cron_uuid :: uuid_ops
  cron_script_codec :: "cron_script codec"
  cron_result_codec :: "cron_result codec"
  cron_range :: "uuid list \<Rightarrow> uuid list"

section \<open>Keys\<close>

definition cronScriptPrefix :: string where
  "cronScriptPrefix = ''/cronScript/''"

definition scriptResultsPrefix :: string where
  "scriptResultsPrefix = ''/cronScriptResults''"

definition maxResultsPerCronScript :: int where
  "maxResultsPerCronScript = 10"

text \<open>The verb \<open>%04d\<close>: the sign counts towards the width.\<close>

definition fmt_04d :: "int \<Rightarrow> string" where
  "fmt_04d i =
     (if i < 0 then CHR ''-'' # replicate (3 - length (nat_dec (nat (- i)))) CHR ''0'' @ nat_dec (nat (- i))
      else replicate (4 - length (nat_dec (nat i))) CHR ''0'' @ nat_dec (nat i))"

text \<open>The remainder of the language truncates towards zero.\<close>

definition go_rem :: "int \<Rightarrow> int \<Rightarrow> int" where
  "go_rem a b = sgn a * (\<bar>a\<bar> mod \<bar>b\<bar>)"

definition path_Base :: "string \<Rightarrow> string" where
  "path_Base p =
     (if p = [] then ''.''
      else let q = rev (dropWhile (\<lambda>c. c = CHR ''/'') (rev p))
           in if q = [] then ''/'' else last (split_on CHR ''/'' q))"

definition getCronScriptKey :: "uuid_ops \<Rightarrow> uuid \<Rightarrow> string" where
  "getCronScriptKey U scriptID = path_Join [cronScriptPrefix, uuid_String U scriptID]"

definition getCronScriptResultsKey :: "uuid_ops \<Rightarrow> uuid \<Rightarrow> string" where
  "getCronScriptResultsKey U scriptID = path_Join [scriptResultsPrefix, uuid_String U scriptID, ''results'']"

definition getCronScriptSpecificResultKey :: "uuid_ops \<Rightarrow> uuid \<Rightarrow> int \<Rightarrow> string" where
  "getCronScriptSpecificResultKey U scriptID index = path_Join [getCronScriptResultsKey U scriptID, fmt_04d index]"

definition getCronScriptResultsIndexKey :: "uuid_ops \<Rightarrow> uuid \<Rightarrow> string" where
  "getCronScriptResultsIndexKey U scriptID = path_Join [scriptResultsPrefix, uuid_String U scriptID, ''index'']"

section \<open>Scripts\<close>

text \<open>A value that does not unmarshal leaves a nil entry in the list.\<close>

definition decode_or_nil :: "'m codec \<Rightarrow> string \<Rightarrow> 'm option" where
  "decode_or_nil C val = (case Unmarshal C val of Inl _ \<Rightarrow> None | Inr pb \<Rightarrow> Some pb)"

definition GetCronScripts :: "'d cron_env \<Rightarrow> 'd \<Rightarrow> cron_script option list res" where
  "GetCronScripts C d =
     bind_res (kv_GetWithPrefix (cron_ds C) d cronScriptPrefix) (\<lambda>(_, vals).
       Inr (map (decode_or_nil (cron_script_codec C)) vals))"

definition script_uuid :: "cron_script \<Rightarrow> uuid" where
  "script_uuid s = UUIDFromProtoOrNil (cron_ID s)"

definition UpsertCronScript :: "'d cron_env \<Rightarrow> 'd \<Rightarrow> cron_script option \<Rightarrow> 'd \<times> err option" where
  "UpsertCronScript C d script =
     (case script of
        None \<Rightarrow> (d, Some (Panic ''nil pointer dereference: CronScript''))
      | Some s \<Rightarrow>
          with_res (Marshal (cron_script_codec C) s) d (\<lambda>val.
            kv_Set (cron_ds C) d (getCronScriptKey (cron_uuid C) (script_uuid s)) val))"

definition DeleteCronScript :: "'d cron_env \<Rightarrow> 'd \<Rightarrow> uuid \<Rightarrow> 'd \<times> err option" where
  "DeleteCronScript C d i =
     and_then (kv_DeleteWithPrefix (cron_ds C) d (getCronScriptKey (cron_uuid C) i)) (\<lambda>d1.
       kv_DeleteWithPrefix (cron_ds C) d1 (getCronScriptResultsKey (cron_uuid C) i))"

text \<open>The ids of the existing scripts, as the keys of a map.\<close>

definition existing_ids :: "cron_script option list \<Rightarrow> (uuid, unit) gomap" where
  "existing_ids existingScripts =
     foldl (\<lambda>ids es. case es of None \<Rightarrow> ids | Some s \<Rightarrow> AList.update (script_uuid s) () ids) [] existingScripts"

text \<open>
  The loop over the given scripts. An error is remembered and the loop goes on; a nil entry panics,
  which ends the whole call.
\<close>

fun upsert_loop :: "'d cron_env \<Rightarrow> 'd \<Rightarrow> (uuid, unit) gomap \<Rightarrow> err option \<Rightarrow> cron_script option list \<Rightarrow>
    'd \<times> (uuid, unit) gomap \<times> err option" where
  "upsert_loop C d removed lastError [] = (d, removed, lastError)"
| "upsert_loop C d removed lastError (None # ss) = (d, removed, Some (Panic ''nil pointer dereference: CronScript''))"
| "upsert_loop C d removed lastError (Some s # ss) =
     (let (d1, e) = UpsertCronScript C d (Some s)
      in upsert_loop C d1 (AList.delete (script_uuid s) removed) (case e of None \<Rightarrow> lastError | Some _ \<Rightarrow> e) ss)"

fun delete_loop :: "'d cron_env \<Rightarrow> 'd \<Rightarrow> err option \<Rightarrow> uuid list \<Rightarrow> 'd \<times> err option" where
  "delete_loop C d lastError [] = (d, lastError)"
| "delete_loop C d lastError (k # ks) =
     (let (d1, e) = DeleteCronScript C d k
      in delete_loop C d1 (case e of None \<Rightarrow> lastError | Some _ \<Rightarrow> e) ks)"

definition SetCronScripts :: "'d cron_env \<Rightarrow> 'd \<Rightarrow> cron_script option list \<Rightarrow> 'd \<times> err option" where
  "SetCronScripts C d scripts =
     with_res (GetCronScripts C d) d (\<lambda>existingScripts.
       case upsert_loop C d (existing_ids existingScripts) None scripts of
         (d1, _, Some e) \<Rightarrow> (d1, Some e)
       | (d1, removed, None) \<Rightarrow> delete_loop C d1 None (map fst (go_range (cron_range C) removed)))"

section \<open>Results\<close>

definition GetCronScriptResults :: "'d cron_env \<Rightarrow> 'd \<Rightarrow> uuid \<Rightarrow> cron_result option list res" where
  "GetCronScriptResults C d i =
     bind_res (kv_GetWithPrefix (cron_ds C) d (getCronScriptResultsKey (cron_uuid C) i)) (\<lambda>(_, vals).
       Inr (map (decode_or_nil (cron_result_codec C)) vals))"

text \<open>An index that does not parse counts as zero.\<close>

definition getCronScriptResultsIndex :: "'d cron_env \<Rightarrow> 'd \<Rightarrow> uuid \<Rightarrow> int res" where
  "getCronScriptResultsIndex C d scriptID =
     bind_res (kv_Get (cron_ds C) d (getCronScriptResultsIndexKey (cron_uuid C) scriptID)) (\<lambda>val.
       case val of
         None \<Rightarrow> Inr 0
       | Some s \<Rightarrow> if s = [] then Inr 0 else (case parse_int64 s of Inl _ \<Rightarrow> Inr 0 | Inr i \<Rightarrow> Inr i))"

definition result_uuid :: "cron_result \<Rightarrow> uuid" where
  "result_uuid r = UUIDFromProtoOrNil (cr_ScriptID r)"

definition RecordCronScriptResult :: "'d cron_env \<Rightarrow> 'd \<Rightarrow> cron_result \<Rightarrow> 'd \<times> err option" where
  "RecordCronScriptResult C d result =
     (let scriptID = result_uuid result in
      with_res (getCronScriptResultsIndex C d scriptID) d (\<lambda>idx.
      with_res (Marshal (cron_result_codec C) result) d (\<lambda>val.
        and_then (kv_Set (cron_ds C) d (getCronScriptSpecificResultKey (cron_uuid C) scriptID idx) val) (\<lambda>d1.
          kv_Set (cron_ds C) d1 (getCronScriptResultsIndexKey (cron_uuid C) scriptID)
            (int_dec (go_rem (wrap64 (idx + 1)) maxResultsPerCronScript))))))"

fun decode_results :: "cron_result codec \<Rightarrow> (string \<times> string) list \<Rightarrow> cron_result list res" where
  "decode_results C [] = Inr []"
| "decode_results C ((k, v) # kvs) =
     (if path_Base k = ''index'' then decode_results C kvs
      else bind_res (Unmarshal C v) (\<lambda>r. bind_res (decode_results C kvs) (\<lambda>rs. Inr (r # rs))))"

definition GetAllCronScriptResults :: "'d cron_env \<Rightarrow> 'd \<Rightarrow> cron_result list res" where
  "GetAllCronScriptResults C d =
     bind_res (kv_GetWithPrefix (cron_ds C) d scriptResultsPrefix) (\<lambda>(keys, vals).
       decode_results (cron_result_codec C) (zip keys vals))"

section \<open>The service\<close>

text \<open>\<open>GetScripts\<close> reads the id of every entry of the list, and a nil entry panics.\<close>

fun scripts_by_id :: "uuid_ops \<Rightarrow> (string, cron_script) gomap \<Rightarrow> cron_script option list \<Rightarrow> (string, cron_script) gomap res" where
  "scripts_by_id U scMap [] = Inr scMap"
| "scripts_by_id U scMap (None # ss) = Inl (Panic ''nil pointer dereference: CronScript'')"
| "scripts_by_id U scMap (Some s # ss) = scripts_by_id U (AList.update (uuid_String U (script_uuid s)) s scMap) ss"

definition GetScripts :: "'d cron_env \<Rightarrow> 'd \<Rightarrow> (string, cron_script) gomap res" where
  "GetScripts C d = bind_res (GetCronScripts C d) (scripts_by_id (cron_uuid C) [])"

definition AddOrUpdateScript :: "'d cron_env \<Rightarrow> 'd \<Rightarrow> cron_script option \<Rightarrow> 'd \<times> err option" where
  "AddOrUpdateScript C d script = UpsertCronScript C d script"

definition DeleteScript :: "'d cron_env \<Rightarrow> 'd \<Rightarrow> uuidpb option \<Rightarrow> 'd \<times> err option" where
  "DeleteScript C d scriptID = DeleteCronScript C d (UUIDFromProtoOrNil scriptID)"

text \<open>The scripts of the request are the values of a map, in the order of its iteration.\<close>

definition SetScripts :: "'d cron_env \<Rightarrow> range_order \<Rightarrow> 'd \<Rightarrow> (string, cron_script option) gomap \<Rightarrow> 'd \<times> err option" where
  "SetScripts C rng d scripts = SetCronScripts C d (map snd (go_range rng scripts))"

definition outcome_error :: "cron_outcome option \<Rightarrow> string option" where
  "outcome_error r = (case r of Some (OutcomeError e) \<Rightarrow> e | _ \<Rightarrow> None)"

definition outcome_stats :: "cron_outcome option \<Rightarrow> cron_exec_stats option" where
  "outcome_stats r = (case r of Some (OutcomeStats s) \<Rightarrow> s | _ \<Rightarrow> None)"

definition execution_result :: "cron_execution \<Rightarrow> cron_result" where
  "execution_result req =
     (let result = \<lparr>cr_ScriptID = ce_ScriptID req, cr_Timestamp = ce_Timestamp req, cr_Error = outcome_error (ce_Result req),
        cr_ExecutionTimeNs = 0, cr_CompilationTimeNs = 0, cr_BytesProcessed = 0, cr_RecordsProcessed = 0\<rparr>
      in case outcome_stats (ce_Result req) of
           None \<Rightarrow> result
         | Some s \<Rightarrow> result\<lparr>cr_ExecutionTimeNs := ces_ExecutionTimeNs s, cr_CompilationTimeNs := ces_CompilationTimeNs s,
             cr_BytesProcessed := ces_BytesProcessed s, cr_RecordsProcessed := ces_RecordsProcessed s\<rparr>)"

definition RecordExecutionResult :: "'d cron_env \<Rightarrow> 'd \<Rightarrow> cron_execution \<Rightarrow> 'd \<times> err option" where
  "RecordExecutionResult C d req = RecordCronScriptResult C d (execution_result req)"

definition result_execution :: "cron_result \<Rightarrow> cron_execution" where
  "result_execution res =
     \<lparr>ce_ScriptID = cr_ScriptID res, ce_Timestamp = cr_Timestamp res,
      ce_Result = Some (case cr_Error res of
          Some e \<Rightarrow> OutcomeError (Some e)
        | None \<Rightarrow> OutcomeStats (Some \<lparr>ces_ExecutionTimeNs = cr_ExecutionTimeNs res,
            ces_CompilationTimeNs = cr_CompilationTimeNs res, ces_BytesProcessed = cr_BytesProcessed res,
            ces_RecordsProcessed = cr_RecordsProcessed res\<rparr>))\<rparr>"

definition GetAllExecutionResults :: "'d cron_env \<Rightarrow> 'd \<Rightarrow> cron_execution list res" where
  "GetAllExecutionResults C d =
     bind_res (GetAllCronScriptResults C d) (\<lambda>results. Inr (map result_execution results))"

end
