(* ===== verification/CronScriptCorrect.thy ===== *)
theory CronScriptCorrect
  imports CronScript Pebbledb
begin

text \<open>
  The store of periodic scripts refines a pair of maps: from the id of a script to the script, and
  from the id to its last ten results, newest first. The ring buffer with its stored position is
  shown to keep exactly these results. The locale \<open>cron_store\<close> is the contract of the environment;
  its lemmas give the effect of every operation on the abstraction, and the properties are about
  runs of requests to the service.
\<close>

section \<open>Ring buffer\<close>

text \<open>How many results were written after the one in slot \<open>j\<close>, when \<open>n\<close> is the next slot.\<close>

definition slot_age :: "nat \<Rightarrow> nat \<Rightarrow> nat" where
  "slot_age n j = (if j < n then n - 1 - j else n + 9 - j)"

definition ring :: "nat \<Rightarrow> (nat \<Rightarrow> 'a option) \<Rightarrow> 'a list \<Rightarrow> bool" where
  "ring n s rs \<longleftrightarrow> n < 10 \<and> length rs \<le> 10 \<and>
     (\<forall>j < 10. s j = (if slot_age n j < length rs then Some (rs ! slot_age n j) else None))"

lemma ring_empty: "n < 10 \<Longrightarrow> (\<And>j. j < 10 \<Longrightarrow> s j = None) \<Longrightarrow> ring n s []"
  by (simp add: ring_def)

lemma ring_cong: "(\<And>j. j < 10 \<Longrightarrow> s j = s' j) \<Longrightarrow> ring n s rs \<longleftrightarrow> ring n s' rs"
  by (simp add: ring_def)

lemma slot_age_bij: "n < 10 \<Longrightarrow> bij_betw (slot_age n) {..<10} {..<10}"
  by (rule bij_betw_byWitness [where f' = "\<lambda>k. if k < n then n - 1 - k else n + 9 - k"])
    (auto simp: slot_age_def)

lemma ring_push:
  assumes "ring n s rs"
  shows "ring ((n + 1) mod 10) (s(n := Some r)) (take 10 (r # rs))"
proof -
  have n: "n < 10" and l: "length rs \<le> 10" using assms by (simp_all add: ring_def)
  have s: "s j = (if slot_age n j < length rs then Some (rs ! slot_age n j) else None)" if "j < 10" for j
    using assms that by (simp_all add: ring_def)
  have age: "slot_age ((n + 1) mod 10) j = (if j = n then 0 else Suc (slot_age n j))" if "j < 10" for j
  proof (cases "n = 9")
    case False
    with n have "(n + 1) mod 10 = n + 1" by simp
    with that show ?thesis by (auto simp: slot_age_def)
  qed (use that in \<open>auto simp: slot_age_def\<close>)
  have bound: "slot_age n j < 9" if "j < 10" "j \<noteq> n" for j using n that by (auto simp: slot_age_def)
  have "(s(n := Some r)) j = (if slot_age ((n + 1) mod 10) j < length (take 10 (r # rs))
      then Some (take 10 (r # rs) ! slot_age ((n + 1) mod 10) j) else None)" if j: "j < 10" for j
    using age [OF j] bound [OF j] s [OF j] l by (cases "j = n") (simp_all add: min_def)
  then show ?thesis by (simp add: ring_def)
qed

text \<open>The slots hold the results, each once.\<close>

lemma map_filter_image: "List.map_filter f (map g xs) = List.map_filter (f \<circ> g) xs"
  by (induction xs) (auto split: option.splits)

lemma map_filter_agree: "(\<And>x. x \<in> set xs \<Longrightarrow> f x = g x) \<Longrightarrow> List.map_filter f xs = List.map_filter g xs"
  by (induction xs) (auto split: option.splits)

lemma map_filter_total: "(\<And>x. x \<in> set xs \<Longrightarrow> f x = Some (g x)) \<Longrightarrow> List.map_filter f xs = map g xs"
  by (induction xs) auto

lemma map_filter_none: "(\<And>x. x \<in> set xs \<Longrightarrow> f x = None) \<Longrightarrow> List.map_filter f xs = []"
  by (induction xs) auto

lemma map_filter_append: "List.map_filter f (xs @ ys) = List.map_filter f xs @ List.map_filter f ys"
  by (induction xs) (auto split: option.splits)

lemma mset_map_filter: "mset (List.map_filter f xs) = image_mset (the \<circ> f) (filter_mset (\<lambda>x. f x \<noteq> None) (mset xs))"
  by (simp add: List.map_filter_def)

lemma ring_contents:
  assumes "ring n s rs"
  shows "mset (List.map_filter s [0..<10]) = mset rs"
proof -
  let ?f = "\<lambda>k. if k < length rs then Some (rs ! k) else None"
  have n: "n < 10" and l: "length rs \<le> 10" using assms by (simp_all add: ring_def)
  have inj: "inj_on (slot_age n) {..<10}" and im: "slot_age n ` {..<10} = {..<10}"
    using slot_age_bij [OF n] by (simp_all add: bij_betw_def)
  have "distinct (map (slot_age n) [0..<10])" using inj unfolding distinct_map set_upt atLeast0LessThan by simp
  moreover have "set (map (slot_age n) [0..<10]) = set [0..<10]" using im unfolding set_map set_upt atLeast0LessThan .
  ultimately have perm: "mset (map (slot_age n) [0..<10]) = mset [0..<10]"
    by (metis distinct_upt set_eq_iff_mset_eq_distinct)
  have "List.map_filter s [0..<10] = List.map_filter ?f (map (slot_age n) [0..<10])"
    unfolding map_filter_image by (rule map_filter_agree) (use assms in \<open>simp only: ring_def comp_def set_upt atLeastLessThan_iff\<close>)
  then have "mset (List.map_filter s [0..<10]) = mset (List.map_filter ?f [0..<10])"
    by (simp only: mset_map_filter perm)
  also have "List.map_filter ?f [0..<10] = List.map_filter ?f ([0..<length rs] @ [length rs..<10])"
    using l upt_add_eq_append [of 0 "length rs" "10 - length rs"] by (simp only: le_add_diff_inverse zero_le)
  also have "List.map_filter ?f ([0..<length rs] @ [length rs..<10]) = map ((!) rs) [0..<length rs] @ []"
    unfolding map_filter_append by (intro arg_cong2 [where f = append] map_filter_total map_filter_none) auto
  finally show ?thesis by (simp only: map_nth append_Nil2)
qed

section \<open>Keys\<close>

lemma fmt_04d_digit: "j < 10 \<Longrightarrow> fmt_04d (int j) = ''000'' @ [digit j]"
  by (simp add: fmt_04d_def nat_dec.simps [of j] numeral_eq_Suc)

lemma digit_inj: "i < 10 \<Longrightarrow> j < 10 \<Longrightarrow> digit i = digit j \<longleftrightarrow> i = j"
proof
  assume "i < 10" "j < 10" "digit i = digit j"
  then have "(of_char (digit i) :: nat) = of_char (digit j)" by simp
  with \<open>i < 10\<close> \<open>j < 10\<close> show "i = j" by simp
qed simp

lemma digit_no_slash: "j < 10 \<Longrightarrow> digit j \<noteq> CHR ''/''"
proof
  assume "j < 10" "digit j = CHR ''/''"
  then have "(of_char (digit j) :: nat) = of_char CHR ''/''" by simp
  with \<open>j < 10\<close> show False by simp
qed

definition slot_key :: "uuid_ops \<Rightarrow> uuid \<Rightarrow> nat \<Rightarrow> string" where
  "slot_key U u j = getCronScriptSpecificResultKey U u (int j)"

lemma script_key: "uuid_ok U \<Longrightarrow> getCronScriptKey U u = ''/cronScript/'' @ uuid_String U u"
  using path_Join_dir [of "''cronScript''" "uuid_String U u" "[]"]
  by (simp add: getCronScriptKey_def cronScriptPrefix_def path_seg_def [of "''cronScript''"])

lemma results_segs: "path_seg ''cronScriptResults''" "path_seg ''results''" "path_seg ''index''"
  by (simp_all add: path_seg_def)

lemma results_key: "uuid_ok U \<Longrightarrow> getCronScriptResultsKey U u = ''/cronScriptResults/'' @ uuid_String U u @ ''/results''"
  using path_Join_segs [of "''cronScriptResults''" "[uuid_String U u, ''results'']"] results_segs
  by (simp add: getCronScriptResultsKey_def scriptResultsPrefix_def)

lemma index_key: "uuid_ok U \<Longrightarrow> getCronScriptResultsIndexKey U u = ''/cronScriptResults/'' @ uuid_String U u @ ''/index''"
  using path_Join_segs [of "''cronScriptResults''" "[uuid_String U u, ''index'']"] results_segs
  by (simp add: getCronScriptResultsIndexKey_def scriptResultsPrefix_def)

lemma slot_key:
  assumes "uuid_ok U" and "j < 10"
  shows "slot_key U u j = ''/cronScriptResults/'' @ uuid_String U u @ ''/results/000'' @ [digit j]"
proof -
  have "path_seg (fmt_04d (int j))" using assms(2) by (simp add: fmt_04d_digit path_seg_def digit_no_slash [symmetric])
  moreover have "path_seg (uuid_String U u)" using assms(1) by simp
  ultimately have "list_all path_seg (split_on CHR ''/''
      (''cronScriptResults'' @ CHR ''/'' # uuid_String U u @ CHR ''/'' # ''results'' @ CHR ''/'' # fmt_04d (int j)))"
    using results_segs unfolding split_on_app by (simp add: path_seg_split)
  from path_Clean_id [OF this] show ?thesis
    using assms by (simp add: slot_key_def getCronScriptSpecificResultKey_def results_key path_Join_def fmt_04d_digit)
qed

text \<open>Texts of ids have one length, so that a key determines the id in it.\<close>

lemma uuid_append_eq: "uuid_ok U \<Longrightarrow> uuid_String U u @ x = uuid_String U v @ y \<longleftrightarrow> u = v \<and> x = y"
  using uuid_ok_length [of U u v] by (auto simp: uuid_ok_inj)

lemma uuid_append_prefix: "uuid_ok U \<Longrightarrow> prefix (uuid_String U u @ x) (uuid_String U v @ y) \<longleftrightarrow> u = v \<and> prefix x y"
  by (auto simp: prefix_def uuid_append_eq)

lemma uuid_text_prefix: "uuid_ok U \<Longrightarrow> prefix (uuid_String U u) (uuid_String U v @ y) \<longleftrightarrow> u = v"
  using uuid_append_prefix [of U u "[]" v y] by simp

lemmas cron_key_forms = script_key results_key index_key slot_key
lemmas uuid_texts = uuid_append_eq uuid_append_prefix uuid_text_prefix uuid_ok_inj uuid_ok_prefix

lemma cron_key_eqs:
  assumes "uuid_ok U"
  shows "getCronScriptKey U u = getCronScriptKey U v \<longleftrightarrow> u = v"
    "getCronScriptResultsIndexKey U u = getCronScriptResultsIndexKey U v \<longleftrightarrow> u = v"
    "i < 10 \<Longrightarrow> j < 10 \<Longrightarrow> slot_key U u i = slot_key U v j \<longleftrightarrow> u = v \<and> i = j"
    "j < 10 \<Longrightarrow> getCronScriptKey U u \<noteq> slot_key U v j" "getCronScriptKey U u \<noteq> getCronScriptResultsIndexKey U v"
    "j < 10 \<Longrightarrow> slot_key U v j \<noteq> getCronScriptResultsIndexKey U u"
  using assms by (simp_all add: cron_key_forms uuid_texts digit_inj)

lemma cron_key_prefixes:
  assumes "uuid_ok U"
  shows "prefix cronScriptPrefix (getCronScriptKey U u)"
    "j < 10 \<Longrightarrow> \<not> prefix cronScriptPrefix (slot_key U u j)" "\<not> prefix cronScriptPrefix (getCronScriptResultsIndexKey U u)"
    "prefix (getCronScriptKey U u) (getCronScriptKey U v) \<longleftrightarrow> u = v"
    "j < 10 \<Longrightarrow> \<not> prefix (getCronScriptKey U u) (slot_key U v j)"
    "\<not> prefix (getCronScriptKey U u) (getCronScriptResultsIndexKey U v)"
    "\<not> prefix (getCronScriptResultsKey U u) (getCronScriptKey U v)"
    "j < 10 \<Longrightarrow> prefix (getCronScriptResultsKey U u) (slot_key U v j) \<longleftrightarrow> u = v"
    "\<not> prefix (getCronScriptResultsKey U u) (getCronScriptResultsIndexKey U v)"
    "\<not> prefix scriptResultsPrefix (getCronScriptKey U v)"
    "j < 10 \<Longrightarrow> prefix scriptResultsPrefix (slot_key U v j)" "prefix scriptResultsPrefix (getCronScriptResultsIndexKey U v)"
  using assms by (simp_all add: cron_key_forms uuid_texts cronScriptPrefix_def scriptResultsPrefix_def)

lemma cron_key_bases:
  assumes "uuid_ok U"
  shows "path_Base (getCronScriptResultsIndexKey U u) = ''index''" "j < 10 \<Longrightarrow> path_Base (slot_key U u j) \<noteq> ''index''"
proof -
  have "split_on CHR ''/'' (getCronScriptResultsIndexKey U u) = [[], ''cronScriptResults'', uuid_String U u, ''index'']"
    using assms split_on_app [of "CHR ''/''" "[]"] split_on_app [of "CHR ''/''" "''cronScriptResults''"]
      split_on_app [of "CHR ''/''" "uuid_String U u"] by (simp add: index_key path_seg_split)
  then show "path_Base (getCronScriptResultsIndexKey U u) = ''index''"
    using assms by (simp add: path_Base_def index_key)
  show "path_Base (slot_key U u j) \<noteq> ''index''" if j: "j < 10"
  proof -
    have "split_on CHR ''/'' ([digit j]) = [[digit j]]" using digit_no_slash [OF j] by (simp add: split_on_no_sep)
    have "last (split_on CHR ''/'' (slot_key U u j)) = ''000'' @ [digit j]"
      using assms j split_on_app [of "CHR ''/''" "''/cronScriptResults/'' @ uuid_String U u @ ''/results''" "''000'' @ [digit j]"]
        digit_no_slash [OF j] by (simp add: slot_key split_on_no_sep)
    moreover have "rev (dropWhile (\<lambda>c. c = CHR ''/'') (rev (slot_key U u j))) = slot_key U u j" "slot_key U u j \<noteq> []"
      using assms j digit_no_slash [OF j] by (simp_all add: slot_key)
    ultimately show ?thesis by (simp add: path_Base_def)
  qed
qed

section \<open>Abstraction\<close>

text \<open>The scripts by id, and the last ten results of every script, newest first.\<close>

record cron_abs =
  ab_scripts :: "uuid \<rightharpoonup> cron_script"
  ab_results :: "uuid \<Rightarrow> cron_result list"

definition abs_upsert :: "cron_abs \<Rightarrow> cron_script \<Rightarrow> cron_abs" where
  "abs_upsert a s = a\<lparr>ab_scripts := (ab_scripts a)(script_uuid s \<mapsto> s)\<rparr>"

definition abs_delete :: "cron_abs \<Rightarrow> uuid \<Rightarrow> cron_abs" where
  "abs_delete a i = a\<lparr>ab_scripts := (ab_scripts a)(i := None), ab_results := (ab_results a)(i := [])\<rparr>"

definition abs_set :: "cron_abs \<Rightarrow> cron_script list \<Rightarrow> cron_abs" where
  "abs_set a ss =
     \<lparr>ab_scripts = map_of (rev (map (\<lambda>s. (script_uuid s, s)) ss)),
      ab_results = (\<lambda>u. if u \<in> dom (ab_scripts a) - script_uuid ` set ss then [] else ab_results a u)\<rparr>"

definition abs_record :: "cron_abs \<Rightarrow> cron_result \<Rightarrow> cron_abs" where
  "abs_record a r =
     a\<lparr>ab_results := (ab_results a)(result_uuid r := take 10 (r # ab_results a (result_uuid r)))\<rparr>"

lemmas abs_ops = abs_upsert_def abs_delete_def abs_set_def abs_record_def

text \<open>The keys of the store that belong to scripts and results.\<close>

definition cron_key :: "uuid_ops \<Rightarrow> string \<Rightarrow> bool" where
  "cron_key U k \<longleftrightarrow>
     (\<exists>u. k = getCronScriptKey U u \<or> k = getCronScriptResultsIndexKey U u \<or> (\<exists>j < 10. k = slot_key U u j))"

definition index_is :: "nat \<Rightarrow> string option \<Rightarrow> bool" where
  "index_is n v = (case v of None \<Rightarrow> n = 0 | Some s \<Rightarrow> s = nat_dec n)"

definition script_at :: "'d cron_env \<Rightarrow> (string \<rightharpoonup> string) \<Rightarrow> uuid \<Rightarrow> cron_script option option" where
  "script_at C m u = map_option (decode_or_nil (cron_script_codec C)) (m (getCronScriptKey (cron_uuid C) u))"

definition slot_at :: "'d cron_env \<Rightarrow> (string \<rightharpoonup> string) \<Rightarrow> uuid \<Rightarrow> nat \<Rightarrow> cron_result option option" where
  "slot_at C m u j = map_option (decode_or_nil (cron_result_codec C)) (m (slot_key (cron_uuid C) u j))"

definition scripts_rel :: "'d cron_env \<Rightarrow> (string \<rightharpoonup> string) \<Rightarrow> cron_abs \<Rightarrow> bool" where
  "scripts_rel C m a \<longleftrightarrow>
     (\<forall>u. script_at C m u = map_option Some (ab_scripts a u) \<and> (\<forall>s. ab_scripts a u = Some s \<longrightarrow> script_uuid s = u))"

definition ring_rel :: "'d cron_env \<Rightarrow> (string \<rightharpoonup> string) \<Rightarrow> uuid \<Rightarrow> cron_result list \<Rightarrow> bool" where
  "ring_rel C m u rs \<longleftrightarrow>
     (\<exists>n. index_is n (m (getCronScriptResultsIndexKey (cron_uuid C) u)) \<and> ring n (slot_at C m u) (map Some rs)) \<and>
     (\<forall>r\<in>set rs. result_uuid r = u)"

definition keys_rel :: "'d cron_env \<Rightarrow> (string \<rightharpoonup> string) \<Rightarrow> bool" where
  "keys_rel C m \<longleftrightarrow> (\<forall>k\<in>dom m. prefix ''/cronScript'' k \<longrightarrow> cron_key (cron_uuid C) k)"

definition cron_rel :: "'d cron_env \<Rightarrow> (string \<rightharpoonup> string) \<Rightarrow> cron_abs \<Rightarrow> bool" where
  "cron_rel C m a \<longleftrightarrow> keys_rel C m \<and> scripts_rel C m a \<and> (\<forall>u. ring_rel C m u (ab_results a u))"

definition abs_empty :: cron_abs where
  "abs_empty = \<lparr>ab_scripts = Map.empty, ab_results = (\<lambda>_. [])\<rparr>"

lemma cron_rel_empty:
  assumes "uuid_ok (cron_uuid C)" and none: "\<And>k. prefix ''/cronScript'' k \<Longrightarrow> m k = None"
  shows "cron_rel C m abs_empty"
proof -
  have "m (getCronScriptKey (cron_uuid C) u) = None" "m (getCronScriptResultsIndexKey (cron_uuid C) u) = None"
    "j < 10 \<Longrightarrow> m (slot_key (cron_uuid C) u j) = None" for u j
    using assms(1) by (simp_all add: none cron_key_forms)
  moreover have "keys_rel C m" using none by (fastforce simp: keys_rel_def)
  ultimately show ?thesis
    by (auto simp: cron_rel_def scripts_rel_def ring_rel_def abs_empty_def script_at_def slot_at_def index_is_def
        intro: ring_empty)
qed

section \<open>Contract of the environment\<close>

locale cron_store = kv_store "cron_ds C" view
  for C :: "'d cron_env" and view :: "'d \<Rightarrow> string \<rightharpoonup> string" +
  assumes uuids: "uuid_ok (cron_uuid C)"
    and script_codec: "codec_ok (cron_script_codec C)"
    and result_codec: "codec_ok (cron_result_codec C)"
    and ranges: "range_order_ok (cron_range C)"
begin

lemmas key_eqs = cron_key_eqs [OF uuids]
lemmas key_prefixes = cron_key_prefixes [OF uuids]
lemmas key_bases = cron_key_bases [OF uuids]

lemma cron_keys_update: "keys_rel C m \<Longrightarrow> cron_key (cron_uuid C) k \<Longrightarrow> keys_rel C (m(k \<mapsto> v))"
  by (auto simp: keys_rel_def)

lemma cron_keys_restrict: "keys_rel C m \<Longrightarrow> keys_rel C (m |` S)"
  by (auto simp: keys_rel_def)

lemma upsert_refines:
  assumes rel: "cron_rel C (view d) a" and ok: "UpsertCronScript C d script = (d', None)"
  obtains s where "script = Some s" "cron_rel C (view d') (abs_upsert a s)"
proof -
  obtain s where s: "script = Some s" using ok by (cases script) (simp_all add: UpsertCronScript_def)
  then obtain b where b: "Marshal (cron_script_codec C) s = Inr b"
    and st: "kv_Set (cron_ds C) d (getCronScriptKey (cron_uuid C) (script_uuid s)) b = (d', None)"
    using ok by (cases "Marshal (cron_script_codec C) s") (simp_all add: UpsertCronScript_def with_res_def)
  have v: "view d' = (view d)(getCronScriptKey (cron_uuid C) (script_uuid s) \<mapsto> b)" using st by (rule set_ok)
  have dec: "decode_or_nil (cron_script_codec C) b = Some s"
    using codec_okD [OF script_codec b] by (simp add: decode_or_nil_def)
  have "scripts_rel C (view d') (abs_upsert a s)"
    using rel dec by (auto simp: cron_rel_def scripts_rel_def abs_upsert_def v script_at_def key_eqs)
  moreover have "slot_at C (view d') u j = slot_at C (view d) u j" if "j < 10" for u j
    using that by (simp add: slot_at_def v key_eqs(4) [symmetric])
  then have "ring n (slot_at C (view d') u) xs \<longleftrightarrow> ring n (slot_at C (view d) u) xs" for n u xs
    by (rule ring_cong)
  moreover have "keys_rel C (view d')"
    unfolding v by (rule cron_keys_update) (use rel in \<open>auto simp: cron_rel_def cron_key_def\<close>)
  ultimately have "cron_rel C (view d') (abs_upsert a s)"
    using rel by (simp add: cron_rel_def ring_rel_def abs_upsert_def v key_eqs(5) [symmetric])
  with s show thesis by (rule that)
qed

end


context cron_store
begin

lemma delete_refines:
  assumes rel: "cron_rel C (view d) a" and ok: "DeleteCronScript C d i = (d', None)"
  shows "cron_rel C (view d') (abs_delete a i)"
proof -
  obtain d1 where d1: "kv_DeleteWithPrefix (cron_ds C) d (getCronScriptKey (cron_uuid C) i) = (d1, None)"
    and d2: "kv_DeleteWithPrefix (cron_ds C) d1 (getCronScriptResultsKey (cron_uuid C) i) = (d', None)"
    using ok unfolding DeleteCronScript_def and_then_def by (auto split: prod.splits option.splits)
  have v: "view d' = (view d |` {k. \<not> prefix (getCronScriptKey (cron_uuid C) i) k}) |`
      {k. \<not> prefix (getCronScriptResultsKey (cron_uuid C) i) k}"
    using delete_prefix_ok [OF d1] delete_prefix_ok [OF d2] by simp
  have "scripts_rel C (view d') (abs_delete a i)"
    using rel by (auto simp: cron_rel_def scripts_rel_def abs_delete_def v script_at_def key_prefixes)
  moreover have "keys_rel C (view d')" unfolding v using rel by (simp add: cron_keys_restrict cron_rel_def)
  moreover have "ring_rel C (view d') u (ab_results (abs_delete a i) u)" for u
  proof -
    obtain n where n: "index_is n (view d (getCronScriptResultsIndexKey (cron_uuid C) u))"
      "ring n (slot_at C (view d) u) (map Some (ab_results a u))"
      using rel unfolding cron_rel_def ring_rel_def by blast
    have ix: "view d' (getCronScriptResultsIndexKey (cron_uuid C) u) = view d (getCronScriptResultsIndexKey (cron_uuid C) u)"
      by (simp add: v key_prefixes)
    have slots: "slot_at C (view d') u j = (if u = i then None else slot_at C (view d) u j)" if "j < 10" for j
      using that by (auto simp: slot_at_def v key_prefixes)
    have "ring n (slot_at C (view d') u) (map Some (ab_results (abs_delete a i) u))"
    proof (cases "u = i")
      case True
      with slots n(2) show ?thesis by (simp add: abs_delete_def ring_empty ring_def)
    next
      case False
      with slots n(2) show ?thesis using ring_cong [of "slot_at C (view d') u" "slot_at C (view d) u"]
        by (simp add: abs_delete_def)
    qed
    with n(1) ix rel show ?thesis by (auto simp: ring_rel_def cron_rel_def abs_delete_def)
  qed
  ultimately show ?thesis by (simp add: cron_rel_def)
qed

lemma index_read:
  assumes "index_is n (view d (getCronScriptResultsIndexKey (cron_uuid C) u))" and "n < 10"
    and "getCronScriptResultsIndex C d u = Inr idx"
  shows "idx = int n"
proof -
  have "nat_dec n \<noteq> []" by (simp add: nat_dec.simps [of n])
  then show ?thesis
    using assms get [of d "getCronScriptResultsIndexKey (cron_uuid C) u"]
    by (auto simp: getCronScriptResultsIndex_def index_is_def bind_res_Inr_iff parse_int64_nat_dec
        split: option.splits)
qed

lemma next_index: "n < 10 \<Longrightarrow> int_dec (go_rem (wrap64 (int n + 1)) maxResultsPerCronScript) = nat_dec ((n + 1) mod 10)"
proof -
  assume "n < 10"
  then have "wrap64 (int n + 1) = int (n + 1)" using wrap64_nat [of "n + 1"] by (simp add: add.commute)
  moreover have "go_rem (int (n + 1)) 10 = int ((n + 1) mod 10)" by (simp add: go_rem_def zmod_int)
  ultimately show ?thesis by (simp add: int_dec_def maxResultsPerCronScript_def del: of_nat_Suc of_nat_add)
qed

lemma record_effect:
  assumes ix: "index_is n (view d (getCronScriptResultsIndexKey (cron_uuid C) (result_uuid r)))" and n: "n < 10"
    and ok: "RecordCronScriptResult C d r = (d', None)"
  obtains b where "decode_or_nil (cron_result_codec C) b = Some r"
    "view d' = (view d)(slot_key (cron_uuid C) (result_uuid r) n \<mapsto> b,
       getCronScriptResultsIndexKey (cron_uuid C) (result_uuid r) \<mapsto> nat_dec ((n + 1) mod 10))"
proof -
  let ?u = "result_uuid r"
  obtain idx where idx: "getCronScriptResultsIndex C d ?u = Inr idx"
    using ok by (cases "getCronScriptResultsIndex C d ?u") (simp_all add: RecordCronScriptResult_def with_res_def)
  obtain b where b: "Marshal (cron_result_codec C) r = Inr b"
    using ok idx by (cases "Marshal (cron_result_codec C) r") (simp_all add: RecordCronScriptResult_def with_res_def)
  obtain d1 where d1: "kv_Set (cron_ds C) d (slot_key (cron_uuid C) ?u n) b = (d1, None)"
    and d2: "kv_Set (cron_ds C) d1 (getCronScriptResultsIndexKey (cron_uuid C) ?u) (nat_dec ((n + 1) mod 10)) = (d', None)"
    using ok idx b index_read [OF ix n idx] next_index [OF n]
    by (auto simp: RecordCronScriptResult_def Let_def seq_iffs slot_key_def)
  have "decode_or_nil (cron_result_codec C) b = Some r" using codec_okD [OF result_codec b] by (simp add: decode_or_nil_def)
  moreover note set_ok [OF d2, unfolded set_ok [OF d1]]
  ultimately show thesis by (rule that)
qed

lemma record_refines:
  assumes rel: "cron_rel C (view d) a" and ok: "RecordCronScriptResult C d r = (d', None)"
  shows "cron_rel C (view d') (abs_record a r)"
proof -
  let ?u = "result_uuid r"
  obtain n where ix: "index_is n (view d (getCronScriptResultsIndexKey (cron_uuid C) ?u))"
    and rg: "ring n (slot_at C (view d) ?u) (map Some (ab_results a ?u))"
    using rel unfolding cron_rel_def ring_rel_def by blast
  have n: "n < 10" using rg by (simp add: ring_def)
  obtain b where dec: "decode_or_nil (cron_result_codec C) b = Some r"
    and v: "view d' = (view d)(slot_key (cron_uuid C) ?u n \<mapsto> b,
       getCronScriptResultsIndexKey (cron_uuid C) ?u \<mapsto> nat_dec ((n + 1) mod 10))"
    using ix n ok by (rule record_effect)
  have "scripts_rel C (view d') (abs_record a r)"
    using rel n by (simp add: cron_rel_def scripts_rel_def abs_record_def v script_at_def key_eqs)
  moreover have "keys_rel C (view d')" unfolding v
    by (intro cron_keys_update) (use rel n in \<open>auto simp: cron_rel_def cron_key_def\<close>)
  moreover have "ring_rel C (view d') u (ab_results (abs_record a r) u)" for u
  proof -
    have slots: "slot_at C (view d') u j = (if u = ?u then ((slot_at C (view d) u)(n := Some (Some r))) j else slot_at C (view d) u j)"
      if "j < 10" for j using that n dec by (auto simp: slot_at_def v key_eqs)
    show ?thesis
    proof (cases "u = ?u")
      case True
      with ring_push [OF rg, of "Some r"] slots
      have "ring ((n + 1) mod 10) (slot_at C (view d') u) (map Some (ab_results (abs_record a r) u))"
        using ring_cong [of "slot_at C (view d') u" "(slot_at C (view d) u)(n := Some (Some r))"]
        by (simp add: abs_record_def take_map)
      moreover have "x \<in> set (ab_results (abs_record a r) u) \<Longrightarrow> result_uuid x = u" for x
        using rel True by (auto simp: cron_rel_def ring_rel_def abs_record_def dest: in_set_takeD)
      ultimately show ?thesis using True by (auto simp: ring_rel_def index_is_def v)
    next
      case False
      then have "view d' (getCronScriptResultsIndexKey (cron_uuid C) u) = view d (getCronScriptResultsIndexKey (cron_uuid C) u)"
        using n by (simp add: v key_eqs key_eqs(6) [symmetric])
      with False slots rel show ?thesis using ring_cong [of "slot_at C (view d') u" "slot_at C (view d) u"]
        by (simp add: ring_rel_def cron_rel_def abs_record_def)
    qed
  qed
  ultimately show ?thesis by (simp add: cron_rel_def)
qed

end


section \<open>Replacing all scripts\<close>

lemma foldl_upsert:
  "ab_scripts (foldl abs_upsert a ss) = ab_scripts a ++ map_of (rev (map (\<lambda>s. (script_uuid s, s)) ss)) \<and>
   ab_results (foldl abs_upsert a ss) = ab_results a"
  by (induction ss arbitrary: a) (simp_all add: abs_upsert_def)

lemma foldl_delete:
  "ab_scripts (foldl abs_delete a ks) = ab_scripts a |` (- set ks) \<and>
   ab_results (foldl abs_delete a ks) = (\<lambda>u. if u \<in> set ks then [] else ab_results a u)"
  by (induction ks arbitrary: a) (auto simp: abs_delete_def restrict_map_def fun_eq_iff)

lemma dom_given: "dom (map_of (rev (map (\<lambda>s. (script_uuid s, s)) ss))) = script_uuid ` set ss"
  by (simp add: dom_map_of_conv_image_fst image_image)

lemma set_is_upsert_delete:
  assumes "set ks = dom (ab_scripts a) - script_uuid ` set ss"
  shows "foldl abs_delete (foldl abs_upsert a ss) ks = abs_set a ss"
proof (rule cron_abs.equality)
  let ?g = "map_of (rev (map (\<lambda>s. (script_uuid s, s)) ss))"
  have "((ab_scripts a ++ ?g) |` (- set ks)) u = ?g u" for u
    using assms dom_given [of ss] by (cases "?g u") (auto simp: restrict_map_def map_add_def)
  then show "ab_scripts (foldl abs_delete (foldl abs_upsert a ss) ks) = ab_scripts (abs_set a ss)"
    by (simp add: foldl_upsert foldl_delete abs_set_def fun_eq_iff)
  show "ab_results (foldl abs_delete (foldl abs_upsert a ss) ks) = ab_results (abs_set a ss)"
    using assms by (simp add: foldl_upsert foldl_delete abs_set_def fun_eq_iff)
qed simp

lemma foldl_existing:
  "gomap_ok ids \<Longrightarrow>
   gomap_ok (foldl (\<lambda>ids es. case es of None \<Rightarrow> ids | Some s \<Rightarrow> AList.update (script_uuid s) () ids) ids (map Some ss)) \<and>
   gomap_keys (foldl (\<lambda>ids es. case es of None \<Rightarrow> ids | Some s \<Rightarrow> AList.update (script_uuid s) () ids) ids (map Some ss)) =
     gomap_keys ids \<union> script_uuid ` set ss"
  by (induction ss arbitrary: ids) (auto simp: distinct_update dom_update)

lemma existing_ids_keys: "gomap_ok (existing_ids (map Some ss))" "gomap_keys (existing_ids (map Some ss)) = script_uuid ` set ss"
  using foldl_existing [of "[]" ss] by (simp_all add: existing_ids_def)

lemma upsert_loop_error: "upsert_loop C d removed (Some e) ss = (d', removed', r) \<Longrightarrow> r \<noteq> None"
proof (induction C d removed "Some e" ss arbitrary: e rule: upsert_loop.induct)
  case (3 C d removed s ss)
  obtain d1 e1 where u: "UpsertCronScript C d (Some s) = (d1, e1)" by fastforce
  show ?case
  proof (cases e1)
    case None
    with 3 u show ?thesis by simp
  next
    case (Some e2)
    with 3 u show ?thesis by simp
  qed
qed auto

lemma delete_loop_error: "delete_loop C d (Some e) ks = (d', r) \<Longrightarrow> r \<noteq> None"
proof (induction ks arbitrary: d e)
  case (Cons k ks)
  obtain d1 e1 where "DeleteCronScript C d k = (d1, e1)" by fastforce
  with Cons show ?case by (cases e1) auto
qed auto

context cron_store
begin

lemma upsert_loop_refines:
  "cron_rel C (view d) a \<Longrightarrow> upsert_loop C d removed None scripts = (d', removed', None) \<Longrightarrow>
   \<exists>ss. scripts = map Some ss \<and> cron_rel C (view d') (foldl abs_upsert a ss) \<and>
     removed' = foldl (\<lambda>r s. AList.delete (script_uuid s) r) removed ss"
proof (induction scripts arbitrary: d a removed)
  case (Cons x xs)
  obtain s where x: "x = Some s" using Cons.prems(2) by (cases x) auto
  obtain d1 e1 where u: "UpsertCronScript C d (Some s) = (d1, e1)" by fastforce
  have e1: "e1 = None" using Cons.prems(2) x u upsert_loop_error by (cases e1) fastforce+
  have rel: "cron_rel C (view d1) (abs_upsert a s)"
    using upsert_refines [OF Cons.prems(1) u [unfolded e1]] by blast
  obtain ss where "xs = map Some ss" "cron_rel C (view d') (foldl abs_upsert (abs_upsert a s) ss)"
    "removed' = foldl (\<lambda>r s. AList.delete (script_uuid s) r) (AList.delete (script_uuid s) removed) ss"
    using Cons.IH [OF rel, of "AList.delete (script_uuid s) removed"] Cons.prems(2) x u e1 by auto
  with x show ?case by (intro exI [of _ "s # ss"]) simp
qed simp

lemma delete_loop_refines:
  "cron_rel C (view d) a \<Longrightarrow> delete_loop C d None ks = (d', None) \<Longrightarrow> cron_rel C (view d') (foldl abs_delete a ks)"
proof (induction ks arbitrary: d a)
  case (Cons k ks)
  obtain d1 e1 where u: "DeleteCronScript C d k = (d1, e1)" by fastforce
  have "e1 = None" using Cons.prems(2) u delete_loop_error by (cases e1) fastforce+
  with u have u: "DeleteCronScript C d k = (d1, None)" by simp
  with Cons.prems(2) Cons.IH [OF delete_refines [OF Cons.prems(1) u]] show ?case by simp
qed simp

lemma scripts_listed:
  assumes rel: "cron_rel C (view d) a" and g: "GetCronScripts C d = Inr l"
  obtains ss where "l = map Some ss" "set ss = ran (ab_scripts a)" "distinct (map script_uuid ss)"
proof -
  let ?key = "getCronScriptKey (cron_uuid C)"
  obtain ks vs where kv: "kv_GetWithPrefix (cron_ds C) d cronScriptPrefix = Inr (ks, vs)"
    and l: "l = map (decode_or_nil (cron_script_codec C)) vs"
    using g by (auto simp: GetCronScripts_def bind_res_Inr_iff)
  have ks: "distinct ks" "set ks = {k. prefix cronScriptPrefix k \<and> k \<in> dom (view d)}" "map Some vs = map (view d) ks"
    using get_prefix [OF kv] by (simp_all add: lists_keys_def)
  define f where "f = (\<lambda>k. the (decode_or_nil (cron_script_codec C) (the (view d k))))"
  have at: "script_at C (view d) u = map_option Some (ab_scripts a u)" "ab_scripts a u = Some s \<Longrightarrow> script_uuid s = u" for u s
    using rel by (simp_all add: cron_rel_def scripts_rel_def)
  have entry: "\<exists>u. k = ?key u \<and> ab_scripts a u = Some (f k) \<and> decode_or_nil (cron_script_codec C) (the (view d k)) = Some (f k)"
    if kin: "k \<in> set ks" for k
  proof -
    have k: "prefix cronScriptPrefix k" "k \<in> dom (view d)" using kin ks(2) by auto
    have "prefix ''/cronScript'' cronScriptPrefix" by (simp add: cronScriptPrefix_def)
    then have "prefix ''/cronScript'' k" using k(1) by (rule prefix_order.trans)
    with k rel have "cron_key (cron_uuid C) k" by (simp add: cron_rel_def keys_rel_def)
    with k(1) obtain u where u: "k = ?key u" by (auto simp: cron_key_def key_prefixes)
    with k(2) at(1) [of u] show ?thesis by (intro exI [of _ u]) (cases "ab_scripts a u", auto simp: script_at_def f_def)
  qed
  have "vs = map (the \<circ> view d) ks" using arg_cong [OF ks(3), of "map the"] by (simp add: comp_def)
  then have 1: "l = map Some (map f ks)" using entry l by auto
  have "s \<in> f ` set ks" if s: "ab_scripts a u = Some s" for u s
  proof -
    from s at(1) [of u] have "?key u \<in> set ks" "f (?key u) = s"
      unfolding ks(2) f_def script_at_def by (auto simp: key_prefixes)
    then show ?thesis by blast
  qed
  with entry have 2: "set (map f ks) = ran (ab_scripts a)" by (fastforce simp: ran_def)
  have key: "k = ?key (script_uuid (f k))" if "k \<in> set ks" for k using entry [OF that] at(2) by auto
  have "distinct (map script_uuid (map f ks))"
    unfolding distinct_map map_map using ks(1) by (auto intro!: inj_onI) (metis key)
  with 1 2 show thesis by (rule that)
qed

lemma removed_keys:
  "gomap_ok r \<Longrightarrow> gomap_ok (foldl (\<lambda>r s. AList.delete (script_uuid s) r) r ss) \<and>
   gomap_keys (foldl (\<lambda>r s. AList.delete (script_uuid s) r) r ss) = gomap_keys r - script_uuid ` set ss"
proof (induction ss arbitrary: r)
  case (Cons s ss)
  then have "gomap_ok (AList.delete (script_uuid s) r)" by (simp add: distinct_delete)
  moreover have "gomap_keys (AList.delete (script_uuid s) r) = gomap_keys r - {script_uuid s}" by (auto simp: delete_keys)
  ultimately show ?case using Cons.IH [of "AList.delete (script_uuid s) r"] by auto
qed simp

lemma set_refines:
  assumes rel: "cron_rel C (view d) a" and ok: "SetCronScripts C d scripts = (d', None)"
  obtains ss where "scripts = map Some ss" "cron_rel C (view d') (abs_set a ss)"
proof -
  obtain l d1 removed where g: "GetCronScripts C d = Inr l"
    and u: "upsert_loop C d (existing_ids l) None scripts = (d1, removed, None)"
    and del: "delete_loop C d1 None (map fst (go_range (cron_range C) removed)) = (d', None)"
    using ok unfolding SetCronScripts_def with_res_None_iff by (elim exE conjE) (split prod.splits option.splits, auto)+
  obtain es where es: "l = map Some es" "set es = ran (ab_scripts a)" using rel g by (rule scripts_listed)
  obtain ss where ss: "scripts = map Some ss" "cron_rel C (view d1) (foldl abs_upsert a ss)"
    "removed = foldl (\<lambda>r s. AList.delete (script_uuid s) r) (existing_ids l) ss"
    using upsert_loop_refines [OF rel u] by blast
  have "script_uuid ` ran (ab_scripts a) = dom (ab_scripts a)"
    using rel by (force simp: cron_rel_def scripts_rel_def ran_def)
  then have "gomap_keys removed = dom (ab_scripts a) - script_uuid ` set ss"
    using removed_keys [of "existing_ids l" ss] existing_ids_keys [of es] es ss(3) by simp
  then have "set (map fst (go_range (cron_range C) removed)) = dom (ab_scripts a) - script_uuid ` set ss"
    using range_order_set [OF ranges, of "map fst removed"] by (simp only: map_fst_go_range set_map)
  from set_is_upsert_delete [OF this] delete_loop_refines [OF ss(2) del] ss(1) show thesis by (metis that)
qed

end


section \<open>Reading\<close>

lemma scripts_by_id_listed:
  "scripts_by_id U m (map Some ss) = Inr (foldl (\<lambda>m s. AList.update (uuid_String U (script_uuid s)) s m) m ss)"
  by (induction ss arbitrary: m) simp_all

lemma map_of_by_id:
  "map_of (foldl (\<lambda>m s. AList.update (f s) s m) m ss) = map_of m ++ map_of (rev (map (\<lambda>s. (f s, s)) ss))"
  by (induction ss arbitrary: m) (simp_all add: update_conv')

lemma decode_results_ok:
  "decode_results C kvs = Inr rs \<Longrightarrow>
   map Some rs = map (\<lambda>(k, v). decode_or_nil C v) (filter (\<lambda>(k, v). path_Base k \<noteq> ''index'') kvs)"
proof (induction C kvs arbitrary: rs rule: decode_results.induct)
  case (2 C k v kvs)
  then show ?case by (auto simp: bind_res_Inr_iff decode_or_nil_def split: if_splits)
qed simp

lemma decode_results_error:
  "decode_results C kvs = Inl e \<Longrightarrow> \<exists>(k, v)\<in>set kvs. path_Base k \<noteq> ''index'' \<and> decode_or_nil C v = None"
proof (induction C kvs rule: decode_results.induct)
  case (2 C k v kvs)
  then show ?case by (auto simp: bind_res_Inl_iff decode_or_nil_def split: if_splits)
qed simp

lemma slots_mset:
  assumes "distinct ks" and "set ks = {slot_key (cron_uuid C) u j | j. j < 10 \<and> m (slot_key (cron_uuid C) u j) \<noteq> None}"
    and "uuid_ok (cron_uuid C)"
  shows "mset (map (\<lambda>k. decode_or_nil (cron_result_codec C) (the (m k))) ks) =
    mset (List.map_filter (slot_at C m u) [0..<10])"
proof -
  let ?key = "slot_key (cron_uuid C) u" and ?dec = "\<lambda>k. decode_or_nil (cron_result_codec C) (the (m k))"
  let ?js = "filter (\<lambda>j. m (?key j) \<noteq> None) [0..<10]"
  have "distinct (map ?key ?js)"
    unfolding distinct_map using cron_key_eqs(3) [OF assms(3)] by (auto intro!: inj_onI simp del: upt_rec_numeral)
  moreover have "set (map ?key ?js) = set ks" unfolding assms(2) by (auto simp del: upt_rec_numeral)
  ultimately have "mset ks = mset (map ?key ?js)" using assms(1) by (metis set_eq_iff_mset_eq_distinct)
  then have "mset (map ?dec ks) = mset (map ?dec (map ?key ?js))" unfolding mset_map by (simp only:)
  also have "map ?dec (map ?key js) = List.map_filter (slot_at C m u) js"
    if "\<forall>j\<in>set js. m (?key j) \<noteq> None" for js
    using that by (induction js) (auto simp: slot_at_def)
  then have "map ?dec (map ?key ?js) = List.map_filter (slot_at C m u) ?js" by (simp del: upt_rec_numeral map_map)
  also have "List.map_filter (slot_at C m u) (filter (\<lambda>j. m (?key j) \<noteq> None) xs) = List.map_filter (slot_at C m u) xs" for xs
    by (induction xs) (auto simp: slot_at_def)
  finally show ?thesis .
qed

context cron_store
begin

lemma cron_key_of: "cron_rel C (view d) a \<Longrightarrow> k \<in> dom (view d) \<Longrightarrow> prefix ''/cronScript'' k \<Longrightarrow> cron_key (cron_uuid C) k"
  by (simp add: cron_rel_def keys_rel_def)

lemma results_listed:
  assumes rel: "cron_rel C (view d) a" and g: "GetCronScriptResults C d u = Inr rs"
  shows "mset rs = mset (map Some (ab_results a u))"
proof -
  let ?key = "slot_key (cron_uuid C) u"
  obtain ks vs where kv: "kv_GetWithPrefix (cron_ds C) d (getCronScriptResultsKey (cron_uuid C) u) = Inr (ks, vs)"
    and rs: "rs = map (decode_or_nil (cron_result_codec C)) vs"
    using g by (auto simp: GetCronScriptResults_def bind_res_Inr_iff)
  have ks: "distinct ks" "set ks = {k. prefix (getCronScriptResultsKey (cron_uuid C) u) k \<and> k \<in> dom (view d)}"
    "map Some vs = map (view d) ks"
    using get_prefix [OF kv] by (simp_all add: lists_keys_def)
  have pre: "prefix ''/cronScript'' (getCronScriptResultsKey (cron_uuid C) u)" using uuids by (simp add: results_key)
  have "\<exists>j < 10. k = ?key j" if k: "prefix (getCronScriptResultsKey (cron_uuid C) u) k" "k \<in> dom (view d)" for k
    using cron_key_of [OF rel k(2) prefix_order.trans [OF pre k(1)]] k(1) by (auto simp: cron_key_def key_prefixes)
  then have "set ks = {?key j | j. j < 10 \<and> view d (?key j) \<noteq> None}"
    unfolding ks(2) by (auto simp: key_prefixes) blast
  note slots_mset [OF ks(1) this uuids]
  moreover have "vs = map (\<lambda>k. the (view d k)) ks" using arg_cong [OF ks(3), of "map the"] by (simp add: comp_def)
  then have "rs = map (\<lambda>k. decode_or_nil (cron_result_codec C) (the (view d k))) ks" by (simp add: rs)
  moreover obtain n where "ring n (slot_at C (view d) u) (map Some (ab_results a u))"
    using rel unfolding cron_rel_def ring_rel_def by blast
  ultimately show ?thesis by (simp only: ring_contents)
qed

lemma slot_result:
  assumes rel: "cron_rel C (view d) a" and "j < 10" and "view d (slot_key (cron_uuid C) u j) = Some b"
  obtains r where "decode_or_nil (cron_result_codec C) b = Some r" "result_uuid r = u"
proof -
  obtain n where n: "ring n (slot_at C (view d) u) (map Some (ab_results a u))"
    and ids: "\<forall>r\<in>set (ab_results a u). result_uuid r = u"
    using rel unfolding cron_rel_def ring_rel_def by blast
  have "slot_at C (view d) u j = Some (decode_or_nil (cron_result_codec C) b)" using assms(3) by (simp add: slot_at_def)
  with n assms(2) have "decode_or_nil (cron_result_codec C) b = map Some (ab_results a u) ! slot_age n j"
    "slot_age n j < length (ab_results a u)" by (auto simp: ring_def split: if_splits)
  then show thesis using ids that [of "ab_results a u ! slot_age n j"] by simp
qed

lemma result_entry:
  assumes rel: "cron_rel C (view d) a" and k: "prefix scriptResultsPrefix k" "view d k = Some b" "path_Base k \<noteq> ''index''"
  shows "\<exists>v. \<exists>j < 10. k = slot_key (cron_uuid C) v j \<and> (\<exists>r. decode_or_nil (cron_result_codec C) b = Some r \<and> result_uuid r = v)"
proof -
  have "prefix ''/cronScript'' scriptResultsPrefix" by (simp add: scriptResultsPrefix_def)
  from cron_key_of [OF rel domI [of "view d", OF k(2)] prefix_order.trans [OF this k(1)]] k
  obtain v j where vj: "j < 10" "k = slot_key (cron_uuid C) v j" by (auto simp: cron_key_def key_prefixes key_bases)
  with slot_result [OF rel vj(1)] k(2) show ?thesis by metis
qed

lemma all_results_error:
  assumes rel: "cron_rel C (view d) a" and g: "GetAllCronScriptResults C d = Inl e"
  shows "kv_GetWithPrefix (cron_ds C) d scriptResultsPrefix = Inl e"
proof (cases "kv_GetWithPrefix (cron_ds C) d scriptResultsPrefix")
  case (Inr p)
  obtain ks vs where p: "p = (ks, vs)" by fastforce
  have l: "lists_keys (view d) (prefix scriptResultsPrefix) ks vs" using Inr p get_prefix by simp
  have "decode_results (cron_result_codec C) (zip ks vs) = Inl e" using g Inr p by (simp add: GetAllCronScriptResults_def)
  then obtain k v where "(k, v) \<in> set (zip ks vs)" "path_Base k \<noteq> ''index''" "decode_or_nil (cron_result_codec C) v = None"
    using decode_results_error by blast
  with result_entry [OF rel, of k v] lists_keys_zip [OF l] show ?thesis by auto
qed (use g in \<open>simp add: GetAllCronScriptResults_def\<close>)

lemma all_results_listed:
  assumes rel: "cron_rel C (view d) a" and g: "GetAllCronScriptResults C d = Inr rs"
  shows "mset (filter (\<lambda>r. result_uuid r = u) rs) = mset (ab_results a u)"
proof -
  let ?dec = "\<lambda>k. decode_or_nil (cron_result_codec C) (the (view d k))"
  let ?mine = "\<lambda>k. \<exists>j < 10. k = slot_key (cron_uuid C) u j"
  obtain ks vs where kv: "kv_GetWithPrefix (cron_ds C) d scriptResultsPrefix = Inr (ks, vs)"
    and dr: "decode_results (cron_result_codec C) (zip ks vs) = Inr rs"
    using g by (auto simp: GetAllCronScriptResults_def bind_res_Inr_iff)
  have ks: "distinct ks" "set ks = {k. prefix scriptResultsPrefix k \<and> k \<in> dom (view d)}" "map Some vs = map (view d) ks"
    using get_prefix [OF kv] by (simp_all add: lists_keys_def)
  have vs: "vs = map (\<lambda>k. the (view d k)) ks" using arg_cong [OF ks(3), of "map the"] by (simp add: comp_def)
  let ?ks = "filter (\<lambda>k. path_Base k \<noteq> ''index'') ks"
  have rs: "map Some rs = map ?dec ?ks"
    using decode_results_ok [OF dr] unfolding vs zip_map2 zip_same_conv_map
    by (simp add: filter_map comp_def split_def)
  have slot: "\<exists>v. \<exists>j < 10. k = slot_key (cron_uuid C) v j \<and> (\<exists>r. ?dec k = Some r \<and> result_uuid r = v)"
    if kin: "k \<in> set ?ks" for k
  proof -
    have "prefix scriptResultsPrefix k" "k \<in> dom (view d)" "path_Base k \<noteq> ''index''" using kin ks(2) by auto
    with result_entry [OF rel, of k] show ?thesis by (metis domD option.sel)
  qed
  have mine: "result_uuid (the (?dec k)) = u \<longleftrightarrow> ?mine k" if "k \<in> set ?ks" for k
    using slot [OF that] by (auto simp: key_eqs)
  have some: "Some (the (?dec k)) = ?dec k" if "k \<in> set ks" "path_Base k \<noteq> ''index''" for k
    using slot [of k] that by auto
  have "rs = map (the \<circ> ?dec) ?ks" using arg_cong [OF rs, of "map the"] by (simp add: comp_def)
  then have "filter (\<lambda>r. result_uuid r = u) rs = map (the \<circ> ?dec) (filter (\<lambda>k. result_uuid (the (?dec k)) = u) ?ks)"
    by (simp add: filter_map comp_def)
  also have "filter (\<lambda>k. result_uuid (the (?dec k)) = u) ?ks = filter ?mine ?ks" using mine by (rule filter_cong [OF refl])
  finally have "map Some (filter (\<lambda>r. result_uuid r = u) rs) = map ?dec (filter ?mine ?ks)"
    by (auto simp: some simp del: filter_filter)
  moreover have "set (filter ?mine ?ks) = {slot_key (cron_uuid C) u j | j. j < 10 \<and> view d (slot_key (cron_uuid C) u j) \<noteq> None}"
    using ks(2) by (auto simp: key_prefixes key_bases)
  with ks(1) have "mset (map ?dec (filter ?mine ?ks)) = mset (List.map_filter (slot_at C (view d) u) [0..<10])"
    by (intro slots_mset uuids) (simp_all del: filter_filter)
  moreover obtain n where "ring n (slot_at C (view d) u) (map Some (ab_results a u))"
    using rel unfolding cron_rel_def ring_rel_def by blast
  ultimately have "mset (map Some (filter (\<lambda>r. result_uuid r = u) rs)) = mset (map Some (ab_results a u))"
    by (simp only: ring_contents)
  then have "image_mset the (image_mset Some (mset (filter (\<lambda>r. result_uuid r = u) rs))) =
      image_mset the (image_mset Some (mset (ab_results a u)))" by (simp only: mset_map)
  then show ?thesis by (simp add: image_mset.compositionality comp_def)
qed

end


section \<open>Requests to the service\<close>

datatype cron_request =
  AddReq "cron_script option" | DeleteReq "uuidpb option" | SetReq range_order "(string, cron_script option) gomap"
| RecordReq cron_execution

definition cron_handle :: "'d cron_env \<Rightarrow> 'd \<Rightarrow> cron_request \<Rightarrow> 'd \<times> err option" where
  "cron_handle C d req =
     (case req of
        AddReq s \<Rightarrow> AddOrUpdateScript C d s
      | DeleteReq i \<Rightarrow> DeleteScript C d i
      | SetReq rng m \<Rightarrow> SetScripts C rng d m
      | RecordReq e \<Rightarrow> RecordExecutionResult C d e)"

definition abs_request :: "cron_abs \<Rightarrow> cron_request \<Rightarrow> cron_abs" where
  "abs_request a req =
     (case req of
        AddReq s \<Rightarrow> abs_upsert a (the s)
      | DeleteReq i \<Rightarrow> abs_delete a (UUIDFromProtoOrNil i)
      | SetReq rng m \<Rightarrow> abs_set a (map the (map snd (go_range rng m)))
      | RecordReq e \<Rightarrow> abs_record a (execution_result e))"

definition no_cron_keys :: "(string \<rightharpoonup> string) \<Rightarrow> bool" where
  "no_cron_keys m \<longleftrightarrow> (\<forall>k\<in>dom m. \<not> prefix ''/cronScript'' k)"

context cron_store
begin

lemma handle_refines:
  assumes rel: "cron_rel C (view d) a" and ok: "cron_handle C d req = (d', None)"
  shows "cron_rel C (view d') (abs_request a req)"
proof (cases req)
  case (AddReq s)
  with ok have "UpsertCronScript C d s = (d', None)" by (simp add: cron_handle_def AddOrUpdateScript_def)
  then obtain s' where "s = Some s'" "cron_rel C (view d') (abs_upsert a s')" by (rule upsert_refines [OF rel])
  with AddReq show ?thesis by (simp add: abs_request_def)
next
  case (SetReq rng m)
  with ok have "SetCronScripts C d (map snd (go_range rng m)) = (d', None)" by (simp add: cron_handle_def SetScripts_def)
  then obtain ss where ss: "map snd (go_range rng m) = map Some ss" "cron_rel C (view d') (abs_set a ss)"
    by (rule set_refines [OF rel])
  moreover have "map the (map Some ss) = ss" by (simp add: comp_def)
  ultimately show ?thesis using SetReq by (simp add: abs_request_def del: map_map)
qed (use rel ok delete_refines record_refines in \<open>auto simp: cron_handle_def abs_request_def DeleteScript_def RecordExecutionResult_def\<close>)

lemma run_refines:
  "cron_rel C (view d) a \<Longrightarrow> for_each (cron_handle C) d reqs = (d', None) \<Longrightarrow>
   cron_rel C (view d') (foldl abs_request a reqs)"
  by (induction reqs arbitrary: d a) (auto simp: and_then_None_iff dest: handle_refines)

lemma fresh_run:
  assumes "no_cron_keys (view d)" and "for_each (cron_handle C) d reqs = (d', None)"
  shows "cron_rel C (view d') (foldl abs_request abs_empty reqs)"
  using _ assms(2)
  by (rule run_refines) (rule cron_rel_empty [OF uuids], use assms(1) in \<open>auto simp: no_cron_keys_def\<close>)

lemma scripts_served:
  assumes rel: "cron_rel C (view d) a"
  shows "GetScripts C d = Inr mp \<Longrightarrow> map_of mp (uuid_String (cron_uuid C) u) = ab_scripts a u"
    and "GetScripts C d = Inr mp \<Longrightarrow> gomap_keys mp = uuid_String (cron_uuid C) ` dom (ab_scripts a)"
    and "GetScripts C d = Inl e \<Longrightarrow> kv_GetWithPrefix (cron_ds C) d cronScriptPrefix = Inl e"
proof -
  let ?f = "\<lambda>s. uuid_String (cron_uuid C) (script_uuid s)"
  have at: "ab_scripts a u = Some s \<Longrightarrow> script_uuid s = u" for u s using rel by (simp add: cron_rel_def scripts_rel_def)
  { assume "GetScripts C d = Inr mp"
    then obtain l where l: "GetCronScripts C d = Inr l" "scripts_by_id (cron_uuid C) [] l = Inr mp"
      by (auto simp: GetScripts_def bind_res_Inr_iff)
    obtain ss where ss: "l = map Some ss" "set ss = ran (ab_scripts a)" "distinct (map script_uuid ss)"
      using rel l(1) by (rule scripts_listed)
    let ?al = "rev (map (\<lambda>s. (?f s, s)) ss)"
    have mp: "map_of mp = map_of ?al" using l(2) ss(1) by (auto simp: scripts_by_id_listed map_of_by_id)
    have "map fst ?al = rev (map (uuid_String (cron_uuid C)) (map script_uuid ss))" by (simp add: rev_map comp_def)
    then have "gomap_ok ?al" using ss(3) uuid_ok_inj [OF uuids] by (simp add: distinct_map inj_on_def)
    then have "map_of mp k = Some s \<longleftrightarrow> k = ?f s \<and> s \<in> ran (ab_scripts a)" for k s
      unfolding mp by (subst map_of_eq_Some_iff) (auto simp: ss(2))
    then have val: "map_of mp k = Some s \<longleftrightarrow> (\<exists>u. k = uuid_String (cron_uuid C) u \<and> ab_scripts a u = Some s)" for k s
      using at by (auto simp: ran_def)
    show "map_of mp (uuid_String (cron_uuid C) u) = ab_scripts a u"
      by (rule option.exhaust [of "ab_scripts a u"]) (use val [of "uuid_String (cron_uuid C) u"] uuid_ok_inj [OF uuids] in \<open>force simp: not_None_eq [symmetric]\<close>)+
    show "gomap_keys mp = uuid_String (cron_uuid C) ` dom (ab_scripts a)"
      unfolding dom_map_of_conv_image_fst [symmetric] using val by (auto simp: dom_def) }
  assume "GetScripts C d = Inl e"
  then show "kv_GetWithPrefix (cron_ds C) d cronScriptPrefix = Inl e"
    unfolding GetScripts_def bind_res_Inl_iff
  proof (elim disjE exE conjE)
    fix l assume "GetCronScripts C d = Inr l" "scripts_by_id (cron_uuid C) [] l = Inl e"
    moreover obtain ss where "l = map Some ss" using rel \<open>GetCronScripts C d = Inr l\<close> by (rule scripts_listed)
    ultimately show ?thesis by (simp add: scripts_by_id_listed)
  qed (auto simp: GetCronScripts_def bind_res_Inl_iff)
qed

end


context cron_store
begin

lemma executions_listed:
  assumes rel: "cron_rel C (view d) a" and g: "GetAllExecutionResults C d = Inr xs"
  shows "mset (filter (\<lambda>x. UUIDFromProtoOrNil (ce_ScriptID x) = u) xs) = mset (map result_execution (ab_results a u))"
proof -
  obtain all where all: "GetAllCronScriptResults C d = Inr all" "xs = map result_execution all"
    using g by (auto simp: GetAllExecutionResults_def bind_res_Inr_iff)
  have "(\<lambda>x. UUIDFromProtoOrNil (ce_ScriptID x) = u) \<circ> result_execution = (\<lambda>r. result_uuid r = u)"
    by (simp add: fun_eq_iff result_execution_def result_uuid_def)
  then have "filter (\<lambda>x. UUIDFromProtoOrNil (ce_ScriptID x) = u) xs = map result_execution (filter (\<lambda>r. result_uuid r = u) all)"
    by (simp add: all(2) filter_map)
  then show ?thesis using all_results_listed [OF rel all(1), of u] by simp
qed

end

section \<open>A concrete run\<close>

definition cron_id :: uuid where
  "cron_id = 0x00000000000000010000000000000002"

definition sample_cron :: cron_script where
  "sample_cron = \<lparr>cron_ID = Some (ProtoFromUUID cron_id), cron_Script = ''px'', CronExpression = [], cron_Configs = [], FrequencyS = 10\<rparr>"

definition sample_execution :: "int \<Rightarrow> cron_execution" where
  "sample_execution t = \<lparr>ce_ScriptID = Some (ProtoFromUUID cron_id), ce_Timestamp = Some t, ce_Result = Some (OutcomeError (Some ''e''))\<rparr>"

definition sample_cron_env :: "(string, string) gomap pebble_ds cron_env" where
  "sample_cron_env =
     \<lparr>cron_ds = pebble_kv ref_pebble, cron_uuid = ref_uuid, cron_script_codec = table_codec [sample_cron],
      cron_result_codec = table_codec (map (execution_result \<circ> sample_execution) [1, 2]), cron_range = rev\<rparr>"

interpretation sample_cs: cron_store sample_cron_env "pebble_view map_of"
proof (rule cron_store.intro)
  show "kv_store (cron_ds sample_cron_env) (pebble_view map_of)" using ref.kv_contract by (simp add: sample_cron_env_def)
qed (unfold_locales, simp_all add: sample_cron_env_def)

definition sample_requests :: "cron_request list" where
  "sample_requests = [SetReq id [(''a'', Some sample_cron)], RecordReq (sample_execution 1), RecordReq (sample_execution 2)]"

definition cron_after :: "(string, string) gomap pebble_ds" where
  "cron_after = fst (for_each (cron_handle sample_cron_env) (pebble_New []) sample_requests)"

lemma cron_after_run: "for_each (cron_handle sample_cron_env) (pebble_New []) sample_requests = (cron_after, None)"
  unfolding cron_after_def by (rule prod_eqI) (simp, code_simp)

lemma cron_fresh: "no_cron_keys (pebble_view map_of (pebble_New []))"
  by (simp add: no_cron_keys_def pebble_view_def pebble_New_def)

section \<open>Properties\<close>

text \<open>
  C13. After any run of requests that all succeeded, on a store without earlier scripts,
  \<open>GetScripts\<close> returns exactly the scripts of the specification, each under the text of its id:
  those added since they were last deleted, or given to the last \<open>SetScripts\<close>. It fails only when
  the datastore does; in particular it finds no nil entry.
\<close>

theorem cron_scripts_refine:
  assumes "cron_store C view" and "no_cron_keys (view d)" and "for_each (cron_handle C) d reqs = (d', None)"
  shows "case GetScripts C d' of
      Inl e \<Rightarrow> kv_GetWithPrefix (cron_ds C) d' cronScriptPrefix = Inl e
    | Inr mp \<Rightarrow> gomap_keys mp = uuid_String (cron_uuid C) ` dom (ab_scripts (foldl abs_request abs_empty reqs)) \<and>
        (\<forall>u. map_of mp (uuid_String (cron_uuid C) u) = ab_scripts (foldl abs_request abs_empty reqs) u)"
proof -
  note rel = cron_store.fresh_run [OF assms]
  show ?thesis
    using cron_store.scripts_served [OF assms(1) rel] by (auto split: sum.split)
qed

theorem cron_scripts_refine_witness:
  "cron_store sample_cron_env (pebble_view map_of) \<and> no_cron_keys (pebble_view map_of (pebble_New [])) \<and>
   for_each (cron_handle sample_cron_env) (pebble_New []) sample_requests = (cron_after, None) \<and>
   (case GetScripts sample_cron_env cron_after of
      Inl e \<Rightarrow> kv_GetWithPrefix (cron_ds sample_cron_env) cron_after cronScriptPrefix = Inl e
    | Inr mp \<Rightarrow> gomap_keys mp = uuid_String (cron_uuid sample_cron_env) ` dom (ab_scripts (foldl abs_request abs_empty sample_requests)) \<and>
        (\<forall>u. map_of mp (uuid_String (cron_uuid sample_cron_env) u) = ab_scripts (foldl abs_request abs_empty sample_requests) u))"
  using cron_scripts_refine [OF sample_cs.cron_store_axioms cron_fresh cron_after_run]
    sample_cs.cron_store_axioms cron_fresh cron_after_run by blast

text \<open>
  C12. The ring buffer keeps the last ten results: after any run of requests that all succeeded, on a
  store without earlier scripts, both \<open>GetCronScriptResults\<close> and \<open>GetAllExecutionResults\<close> return for every script the
  last ten results recorded since it was last deleted, each once.
\<close>

theorem cron_results_last_ten:
  assumes "cron_store C view" and "no_cron_keys (view d)" and "for_each (cron_handle C) d reqs = (d', None)"
  shows "(case GetCronScriptResults C d' u of
        Inl e \<Rightarrow> kv_GetWithPrefix (cron_ds C) d' (getCronScriptResultsKey (cron_uuid C) u) = Inl e
      | Inr rs \<Rightarrow> mset rs = mset (map Some (ab_results (foldl abs_request abs_empty reqs) u))) \<and>
    (case GetAllExecutionResults C d' of
        Inl e \<Rightarrow> kv_GetWithPrefix (cron_ds C) d' scriptResultsPrefix = Inl e
      | Inr xs \<Rightarrow> mset (filter (\<lambda>x. UUIDFromProtoOrNil (ce_ScriptID x) = u) xs) =
          mset (map result_execution (ab_results (foldl abs_request abs_empty reqs) u)))"
proof -
  note rel = cron_store.fresh_run [OF assms]
  have "kv_GetWithPrefix (cron_ds C) d' (getCronScriptResultsKey (cron_uuid C) u) = Inl e"
    if "GetCronScriptResults C d' u = Inl e" for e
    using that by (auto simp: GetCronScriptResults_def bind_res_Inl_iff)
  moreover have "kv_GetWithPrefix (cron_ds C) d' scriptResultsPrefix = Inl e" if "GetAllExecutionResults C d' = Inl e" for e
    using that cron_store.all_results_error [OF assms(1) rel] by (auto simp: GetAllExecutionResults_def bind_res_Inl_iff)
  ultimately show ?thesis
    using cron_store.results_listed [OF assms(1) rel] cron_store.executions_listed [OF assms(1) rel]
    by (auto split: sum.split)
qed

theorem cron_results_last_ten_witness:
  "cron_store sample_cron_env (pebble_view map_of) \<and> no_cron_keys (pebble_view map_of (pebble_New [])) \<and>
   for_each (cron_handle sample_cron_env) (pebble_New []) sample_requests = (cron_after, None) \<and>
   (case GetCronScriptResults sample_cron_env cron_after cron_id of
      Inl e \<Rightarrow> kv_GetWithPrefix (cron_ds sample_cron_env) cron_after (getCronScriptResultsKey (cron_uuid sample_cron_env) cron_id) = Inl e
    | Inr rs \<Rightarrow> mset rs = mset (map Some (ab_results (foldl abs_request abs_empty sample_requests) cron_id)))"
  using cron_results_last_ten [OF sample_cs.cron_store_axioms cron_fresh cron_after_run, of cron_id]
    sample_cs.cron_store_axioms cron_fresh cron_after_run by blast

text \<open>
  The position of the ring buffer outlives its script: \<open>DeleteCronScript\<close> deletes the results below
  \<open>results\<close> only, and nothing else ever deletes the key \<open>index\<close> beside it.
\<close>

theorem DeleteCronScript_keeps_index:
  assumes "cron_store C view" and "DeleteCronScript C d i = (d', None)"
  shows "view d' (getCronScriptResultsIndexKey (cron_uuid C) i) = view d (getCronScriptResultsIndexKey (cron_uuid C) i)"
proof -
  have kv: "kv_store (cron_ds C) view" and U: "uuid_ok (cron_uuid C)"
    using assms(1) by (simp_all add: cron_store_def cron_store_axioms_def)
  obtain d1 where "kv_DeleteWithPrefix (cron_ds C) d (getCronScriptKey (cron_uuid C) i) = (d1, None)"
    "kv_DeleteWithPrefix (cron_ds C) d1 (getCronScriptResultsKey (cron_uuid C) i) = (d', None)"
    using assms(2) by (auto simp: DeleteCronScript_def and_then_None_iff)
  with kv_store.delete_prefix_ok [OF kv] cron_key_prefixes [OF U] show ?thesis by simp
qed

text \<open>
  A stored script that does not unmarshal is a nil entry of the list that \<open>GetCronScripts\<close> returns, and \<open>GetScripts\<close>
  dereferences it.
\<close>

theorem GetScripts_nil_panics:
  assumes "kv_GetWithPrefix (cron_ds C) d cronScriptPrefix = Inr (ks, vs)" and "v \<in> set vs"
    and "Unmarshal (cron_script_codec C) v = Inl e"
  shows "GetScripts C d = Inl (Panic ''nil pointer dereference: CronScript'')"
proof -
  have "scripts_by_id U m l = Inl (Panic ''nil pointer dereference: CronScript'')" if "None \<in> set l" for U m l
    using that by (induction U m l rule: scripts_by_id.induct) auto
  moreover have "None \<in> set (map (decode_or_nil (cron_script_codec C)) vs)"
    using assms(2,3) by (force simp: decode_or_nil_def)
  ultimately show ?thesis using assms(1) by (simp add: GetScripts_def GetCronScripts_def)
qed

end
