(* ===== verification/MutationExecutor.thy ===== *)
theory MutationExecutor
  imports AgentTracker QueryFlags QueryProto
begin

text \<open>
  \<open>query_broker/controllers/mutation_executor.go\<close> and the requests of \<open>proto_utils.go\<close> to the planner: a script that
  traces, deletes tracepoints or changes configurations is compiled to a list of mutations, which are sent to
  the metadata service; then the state of the tracepoints is asked for.

  The planner is a C++ library and a parameter. The metadata service is reached through a client, which is a
  parameter over the state of the service; theory \<open>MutationExecutorCorrect\<close> connects it to the handlers of
  theory \<open>MetadataServer\<close>. The token of the caller is only passed on.
\<close>

section \<open>Requests to the planner\<close>

record exec_func =
  ef_FuncName :: string
  ef_ArgValues :: "(string \<times> string) option list"
  ef_OutputTablePrefix :: string

record planner_func =
  pf_FuncName :: string
  pf_ArgValues :: "(string \<times> string) list"
  pf_OutputTablePrefix :: string

record otel_config =
  otel_URL :: string
  otel_Headers :: "(string, string) gomap"
  otel_Insecure :: bool
  otel_Timeout :: int

record plugin_config =
  plugin_StartTimeNs :: int
  plugin_EndTimeNs :: int

record script_configs =
  cfg_OTel :: "otel_config option"
  cfg_Plugin :: "plugin_config option"

record script_request =
  sq_QueryStr :: string
  sq_ExecFuncs :: "exec_func option list"
  sq_Configs :: "script_configs option"
  sq_Mutation :: bool
  sq_QueryID :: string
  sq_QueryName :: string

record planner_state =
  ps_DistributedState :: distributed_state
  ps_PlanOptions :: plan_options
  ps_ResultAddress :: string
  ps_ResultSSLTargetName :: string
  ps_RedactionOptions :: "redaction_options option"
  ps_OTelEndpointConfig :: "otel_config option"
  ps_PluginConfig :: "plugin_config option"
  ps_DebugInfo :: "(string \<times> string) list option"

record planner_request =
  pq_QueryStr :: string
  pq_ExecFuncs :: "planner_func list"
  pq_Configs :: "script_configs option"
  pq_State :: "planner_state option"

text \<open>A nil element of a list of messages is dereferenced.\<close>

definition convert_func :: "exec_func option \<Rightarrow> planner_func res" where
  "convert_func f =
     (case f of
        None \<Rightarrow> Inl nil_deref
      | Some f \<Rightarrow>
          bind_res (map_res (\<lambda>arg. case arg of None \<Rightarrow> Inl nil_deref | Some a \<Rightarrow> Inr a) (ef_ArgValues f)) (\<lambda>args.
            Inr \<lparr>pf_FuncName = ef_FuncName f, pf_ArgValues = args, pf_OutputTablePrefix = ef_OutputTablePrefix f\<rparr>))"

definition convertExecFuncs :: "exec_func option list \<Rightarrow> planner_func list res" where
  "convertExecFuncs inputFuncs = map_res convert_func inputFuncs"

definition convertConfigs :: "script_configs option \<Rightarrow> script_configs option" where
  "convertConfigs config =
     (case config of
        None \<Rightarrow> None
      | Some c \<Rightarrow>
          Some \<lparr>cfg_OTel = (case cfg_OTel c of
                    None \<Rightarrow> None
                  | Some oc \<Rightarrow> Some \<lparr>otel_URL = otel_URL oc, otel_Headers = otel_Headers oc, otel_Insecure = otel_Insecure oc, otel_Timeout = otel_Timeout oc\<rparr>),
                cfg_Plugin = (case cfg_Plugin c of
                    None \<Rightarrow> None
                  | Some p \<Rightarrow> Some \<lparr>plugin_StartTimeNs = plugin_StartTimeNs p, plugin_EndTimeNs = plugin_EndTimeNs p\<rparr>)\<rparr>)"

definition VizierQueryRequestToPlannerQueryRequest :: "script_request \<Rightarrow> planner_request res" where
  "VizierQueryRequestToPlannerQueryRequest vpb =
     bind_res (convertExecFuncs (sq_ExecFuncs vpb)) (\<lambda>fs.
       Inr \<lparr>pq_QueryStr = sq_QueryStr vpb, pq_ExecFuncs = fs, pq_Configs = convertConfigs (sq_Configs vpb), pq_State = None\<rparr>)"

text \<open>The request for mutations has the same fields.\<close>

definition VizierQueryRequestToPlannerMutationRequest :: "script_request \<Rightarrow> planner_request res" where
  "VizierQueryRequestToPlannerMutationRequest vpb =
     bind_res (convertExecFuncs (sq_ExecFuncs vpb)) (\<lambda>fs.
       Inr \<lparr>pq_QueryStr = sq_QueryStr vpb, pq_ExecFuncs = fs, pq_Configs = convertConfigs (sq_Configs vpb), pq_State = None\<rparr>)"

section \<open>Mutations\<close>

record config_update =
  cu_Key :: string
  cu_Value :: string
  cu_AgentPodName :: string

datatype mutation = MTrace tracepoint_deployment | MDeleteTracepoint string | MConfigUpdate config_update | MOther

record compile_response =
  cm_Status :: "exec_status option"
  cm_Mutations :: "mutation list"

text \<open>A response of the service holds a status, which may be nil.\<close>

record 's mutation_env =
  mx_CompileMutations :: "planner_request \<Rightarrow> compile_response res"
  mx_auth :: "err option"
  mx_RegisterTracepoint :: "'s \<Rightarrow> register_request list \<Rightarrow> 's \<times> (exec_status option \<times> register_status list) res"
  mx_RemoveTracepoint :: "'s \<Rightarrow> string list \<Rightarrow> 's \<times> exec_status option res"
  mx_UpdateConfig :: "'s \<Rightarrow> config_update \<Rightarrow> 's \<times> exec_status option res"
  mx_GetTracepointInfo :: "'s \<Rightarrow> uuidpb option list \<Rightarrow> tracepoint_state list res"
  mx_range :: range_order

record active_tracepoint =
  at_Name :: string
  at_ID :: uuid
  at_Status :: "nat option"

record mutation_executor =
  activeTracepoints :: "(string, active_tracepoint) gomap"
  mx_outputTables :: "string list"
  mx_distributedState :: distributed_state

definition NewMutationExecutor :: "distributed_state \<Rightarrow> mutation_executor" where
  "NewMutationExecutor ds = \<lparr>activeTracepoints = [], mx_outputTables = [], mx_distributedState = ds\<rparr>"

definition ErrTracepointRegistrationFailed :: err where
  "ErrTracepointRegistrationFailed = Sentinel ''failed to register tracepoints''"

definition ErrTracepointDeletionFailed :: err where
  "ErrTracepointDeletionFailed = Sentinel ''failed to delete tracepoints''"

definition ErrConfigUpdateFailed :: err where
  "ErrConfigUpdateFailed = Sentinel ''failed to update config''"

definition bad_status :: "exec_status option \<Rightarrow> bool" where
  "bad_status s = (case s of None \<Rightarrow> False | Some st \<Rightarrow> sp_ErrCode st \<noteq> status_OK)"

text \<open>The requests that the mutations of a script amount to.\<close>

record gathered =
  ga_register :: "register_request list"
  ga_delete :: "string list"
  ga_config :: "config_update list"
  ga_tables :: "(string, bool) gomap"

definition no_requests :: gathered where
  "no_requests = \<lparr>ga_register = [], ga_delete = [], ga_config = [], ga_tables = []\<rparr>"

fun mark_tables :: "(string, bool) gomap \<Rightarrow> tracepoint_program option list \<Rightarrow> (string, bool) gomap res" where
  "mark_tables m [] = Inr m"
| "mark_tables m (None # ps) = Inl nil_deref"
| "mark_tables m (Some p # ps) = mark_tables (AList.update (TableName p) True m) ps"

definition gather_mutation :: "mutation_executor \<times> gathered \<Rightarrow> mutation \<Rightarrow> (mutation_executor \<times> gathered) \<times> err option" where
  "gather_mutation = (\<lambda>(m, g) mut.
     case mut of
       MTrace dep \<Rightarrow>
         let g1 = g\<lparr>ga_register := ga_register g @ [\<lparr>reg_TTL = dep_TTL dep, reg_Deployment = Some dep, reg_Name = dep_Name dep\<rparr>]\<rparr> in
         if map_of (activeTracepoints m) (dep_Name dep) \<noteq> None
         then ((m, g1), Some (ErrMsg (''tracepoint with name '' @ dep_Name dep @ '' already used'')))
         else with_res (mark_tables (ga_tables g) (Programs dep)) (m, g1) (\<lambda>tables.
           ((m\<lparr>activeTracepoints := AList.update (dep_Name dep) \<lparr>at_Name = dep_Name dep, at_ID = uuid_Nil, at_Status = None\<rparr> (activeTracepoints m)\<rparr>,
             g1\<lparr>ga_tables := tables\<rparr>), None))
     | MDeleteTracepoint n \<Rightarrow> ((m, g\<lparr>ga_delete := ga_delete g @ [n]\<rparr>), None)
     | MConfigUpdate u \<Rightarrow> ((m, g\<lparr>ga_config := ga_config g @ [u]\<rparr>), None)
     | MOther \<Rightarrow> ((m, g), None))"

text \<open>A tracepoint of the response that is not in the map is a nil pointer.\<close>

definition note_registered :: "mutation_executor \<Rightarrow> register_status \<Rightarrow> mutation_executor \<times> err option" where
  "note_registered m tp =
     (case map_of (activeTracepoints m) (rs_Name tp) of
        None \<Rightarrow> (m, Some nil_deref)
      | Some a \<Rightarrow> (m\<lparr>activeTracepoints := AList.update (rs_Name tp)
          (a\<lparr>at_ID := UUIDFromProtoOrNil (Some (rs_ID tp)), at_Status := Some (rs_ErrCode tp)\<rparr>) (activeTracepoints m)\<rparr>, None))"

definition register_all :: "'s mutation_env \<Rightarrow> 's \<Rightarrow> mutation_executor \<Rightarrow> register_request list \<Rightarrow>
    's \<times> mutation_executor \<times> exec_status option \<times> err option" where
  "register_all X s m reqs =
     (if reqs = [] then (s, m, None, None)
      else (case mx_RegisterTracepoint X s reqs of
        (s', Inl _) \<Rightarrow> (s', m, None, Some ErrTracepointRegistrationFailed)
      | (s', Inr (status, tps)) \<Rightarrow>
          if bad_status status then (s', m, status, Some ErrTracepointRegistrationFailed)
          else (case for_each note_registered m tps of (m', e) \<Rightarrow> (s', m', None, e))))"

definition delete_all :: "'s mutation_env \<Rightarrow> 's \<Rightarrow> mutation_executor \<Rightarrow> string list \<Rightarrow>
    's \<times> mutation_executor \<times> exec_status option \<times> err option" where
  "delete_all X s m names =
     (if names = [] then (s, m, None, None)
      else (case mx_RemoveTracepoint X s names of
        (s', Inl _) \<Rightarrow> (s', m, None, Some ErrTracepointDeletionFailed)
      | (s', Inr status) \<Rightarrow>
          if bad_status status then (s', m, status, Some ErrTracepointDeletionFailed)
          else (s', m\<lparr>activeTracepoints := foldl (\<lambda>a n. AList.delete n a) (activeTracepoints m) names\<rparr>, None, None)))"

definition update_config :: "'s mutation_env \<Rightarrow> 's \<Rightarrow> config_update \<Rightarrow> 's \<times> err option" where
  "update_config X s u =
     (case mx_UpdateConfig X s u of
        (s', Inl _) \<Rightarrow> (s', Some ErrConfigUpdateFailed)
      | (s', Inr status) \<Rightarrow> (s', if bad_status status then Some ErrConfigUpdateFailed else None))"

definition apply_mutations :: "'s mutation_env \<Rightarrow> 's \<Rightarrow> mutation_executor \<Rightarrow> mutation list \<Rightarrow>
    's \<times> mutation_executor \<times> exec_status option \<times> err option" where
  "apply_mutations X s m muts =
     (case for_each gather_mutation (m, no_requests) muts of
        ((m1, g), Some e) \<Rightarrow> (s, m1, None, Some e)
      | ((m1, g), None) \<Rightarrow>
          (case register_all X s m1 (ga_register g) of
             (s2, m2, st, Some e) \<Rightarrow> (s2, m2, st, Some e)
           | (s2, m2, _, None) \<Rightarrow>
               (case delete_all X s2 m2 (ga_delete g) of
                  (s3, m3, st, Some e) \<Rightarrow> (s3, m3, st, Some e)
                | (s3, m3, _, None) \<Rightarrow>
                    (case for_each (update_config X) s3 (ga_config g) of
                       (s4, Some e) \<Rightarrow> (s4, m3, None, Some e)
                     | (s4, None) \<Rightarrow>
                         (s4, m3\<lparr>mx_outputTables := map fst (go_range (mx_range X) (ga_tables g))\<rparr>, None, None)))))"

definition mutation_request :: "mutation_executor \<Rightarrow> script_request \<Rightarrow> plan_options \<Rightarrow> planner_request res" where
  "mutation_request m req planOpts =
     bind_res (VizierQueryRequestToPlannerMutationRequest req) (\<lambda>convertedReq.
       let state = \<lparr>ps_DistributedState = mx_distributedState m, ps_PlanOptions = planOpts, ps_ResultAddress = [],
             ps_ResultSSLTargetName = [], ps_RedactionOptions = None,
             ps_OTelEndpointConfig = Option.bind (pq_Configs convertedReq) cfg_OTel,
             ps_PluginConfig = Option.bind (sq_Configs req) cfg_Plugin, ps_DebugInfo = None\<rparr>
       in Inr (convertedReq\<lparr>pq_State := Some state\<rparr>))"

definition Execute :: "'s mutation_env \<Rightarrow> 's \<Rightarrow> mutation_executor \<Rightarrow> script_request \<Rightarrow> plan_options \<Rightarrow>
    's \<times> mutation_executor \<times> exec_status option \<times> err option" where
  "Execute X s m req planOpts =
     (case bind_res (mutation_request m req planOpts) (mx_CompileMutations X) of
        Inl e \<Rightarrow> (s, m, None, Some e)
      | Inr mutations \<Rightarrow>
          if bad_status (cm_Status mutations) then (s, m, cm_Status mutations, None)
          else (case mx_auth X of
            Some e \<Rightarrow> (s, m, None, Some e)
          | None \<Rightarrow>
              if cm_Mutations mutations = [] then (s, m, None, None)
              else apply_mutations X s m (cm_Mutations mutations)))"

section \<open>The state of the tracepoints\<close>

definition convertLifeCycleStateToVizierLifeCycleState :: "life_cycle_state \<Rightarrow> nat" where
  "convertLifeCycleStateToVizierLifeCycleState st =
     (case st of UNKNOWN_STATE \<Rightarrow> 0 | PENDING_STATE \<Rightarrow> 1 | RUNNING_STATE \<Rightarrow> 2 | FAILED_STATE \<Rightarrow> 3 | TERMINATED_STATE \<Rightarrow> 4)"

definition isSchemaReady :: "mutation_executor \<Rightarrow> bool" where
  "isSchemaReady m \<longleftrightarrow>
     (let schemaNames = foldl (\<lambda>names s. AList.update (si_Name s) True names) [] (SchemaInfo (mx_distributedState m))
      in list_all (\<lambda>s. map_of schemaNames s \<noteq> None) (mx_outputTables m))"

definition codes_Unavailable :: nat where
  "codes_Unavailable = 14"

definition MutationInfo :: "'s mutation_env \<Rightarrow> uuid_ops \<Rightarrow> 's \<Rightarrow> mutation_executor \<Rightarrow> (vizier_status \<times> mutation_state list) res" where
  "MutationInfo X U s m =
     (let ids = map (\<lambda>(_, tp). Some (ProtoFromUUID (at_ID tp))) (go_range (mx_range X) (activeTracepoints m)) in
      case mx_auth X of
        Some e \<Rightarrow> Inl e
      | None \<Rightarrow>
          bind_res (mx_GetTracepointInfo X s ids) (\<lambda>tps.
            let states = map (\<lambda>tp. \<lparr>mu_ID = uuid_String U (UUIDFromProtoOrNil (ts_ID tp)),
                  mu_State = convertLifeCycleStateToVizierLifeCycleState (ts_State tp), mu_Name = ts_Name tp\<rparr>) tps;
                tpReady = list_all (\<lambda>tp. ts_State tp = RUNNING_STATE) tps in
            Inr (if \<not> tpReady
                 then (\<lparr>vs_Code = codes_Unavailable, vs_Message = ''probe installation in progress'', vs_Details = []\<rparr>, states)
                 else if \<not> isSchemaReady m
                 then (\<lparr>vs_Code = codes_Unavailable, vs_Message = ''Schema is not ready yet'', vs_Details = []\<rparr>, states)
                 else (\<lparr>vs_Code = 0, vs_Message = [], vs_Details = []\<rparr>, states))))"

end
