(* ===== verification/MutationExecutorCorrect.thy ===== *)
theory MutationExecutorCorrect
  imports MutationExecutor
begin

text \<open>
  What the execution of mutations guarantees. The locale \<open>metadata_client\<close> is what the executor relies on of the
  metadata service, and the handlers of theory \<open>MetadataServer\<close> meet it: a registration is answered by name,
  in the order of the requests, and a query for given tracepoints has one answer for each.
\<close>

section \<open>What a script asks for\<close>

definition traces :: "mutation list \<Rightarrow> tracepoint_deployment list" where
  "traces muts = List.map_filter (\<lambda>mut. case mut of MTrace dep \<Rightarrow> Some dep | _ \<Rightarrow> None) muts"

definition deletions :: "mutation list \<Rightarrow> string list" where
  "deletions muts = List.map_filter (\<lambda>mut. case mut of MDeleteTracepoint n \<Rightarrow> Some n | _ \<Rightarrow> None) muts"

definition config_updates :: "mutation list \<Rightarrow> config_update list" where
  "config_updates muts = List.map_filter (\<lambda>mut. case mut of MConfigUpdate u \<Rightarrow> Some u | _ \<Rightarrow> None) muts"

definition register_requests :: "mutation list \<Rightarrow> register_request list" where
  "register_requests muts = map (\<lambda>dep. \<lparr>reg_TTL = dep_TTL dep, reg_Deployment = Some dep, reg_Name = dep_Name dep\<rparr>) (traces muts)"

definition traced_tables :: "mutation list \<Rightarrow> string set" where
  "traced_tables muts = {TableName p |p dep. dep \<in> set (traces muts) \<and> Some p \<in> set (Programs dep)}"

lemma script_simps [simp]:
  "traces [] = []" "deletions [] = []" "config_updates [] = []"
  "traces (mut # muts) = (case mut of MTrace dep \<Rightarrow> dep # traces muts | _ \<Rightarrow> traces muts)"
  "deletions (mut # muts) = (case mut of MDeleteTracepoint n \<Rightarrow> n # deletions muts | _ \<Rightarrow> deletions muts)"
  "config_updates (mut # muts) = (case mut of MConfigUpdate u \<Rightarrow> u # config_updates muts | _ \<Rightarrow> config_updates muts)"
  by (simp_all add: traces_def deletions_def config_updates_def split: mutation.split)

lemma traced_tables_simps [simp]:
  "traced_tables [] = {}" "traced_tables (MDeleteTracepoint n # muts) = traced_tables muts"
  "traced_tables (MConfigUpdate u # muts) = traced_tables muts" "traced_tables (MOther # muts) = traced_tables muts"
  by (simp_all add: traced_tables_def)

lemma mark_tables_ok:
  "mark_tables m ps = Inr m' \<Longrightarrow> gomap_keys m' = gomap_keys m \<union> {TableName p |p. Some p \<in> set ps} \<and> (gomap_ok m \<longrightarrow> gomap_ok m')"
  by (induction m ps rule: mark_tables.induct) auto

lemma mark_tables_error: "mark_tables m ps = Inl e \<Longrightarrow> None \<in> set ps"
  by (induction m ps rule: mark_tables.induct) auto

lemma gather_other:
  "gather_mutation (m, g) (MDeleteTracepoint n) = ((m, g\<lparr>ga_delete := ga_delete g @ [n]\<rparr>), None)"
  "gather_mutation (m, g) (MConfigUpdate u) = ((m, g\<lparr>ga_config := ga_config g @ [u]\<rparr>), None)"
  "gather_mutation (m, g) MOther = ((m, g), None)"
  by (simp_all add: gather_mutation_def)

lemma gather_ok:
  assumes "for_each gather_mutation (m, g) muts = ((m', g'), None)" and "gomap_ok (activeTracepoints m)" and "gomap_ok (ga_tables g)"
  shows "ga_register g' = ga_register g @ register_requests muts" "ga_delete g' = ga_delete g @ deletions muts"
    "ga_config g' = ga_config g @ config_updates muts" "gomap_keys (ga_tables g') = gomap_keys (ga_tables g) \<union> traced_tables muts"
    "gomap_keys (activeTracepoints m') = gomap_keys (activeTracepoints m) \<union> dep_Name ` set (traces muts)"
    "gomap_ok (activeTracepoints m')" "gomap_ok (ga_tables g')" "mx_distributedState m' = mx_distributedState m"
    "distinct (map dep_Name (traces muts)) \<and> gomap_keys (activeTracepoints m) \<inter> dep_Name ` set (traces muts) = {}"
proof -
  have "ga_register g' = ga_register g @ register_requests muts \<and> ga_delete g' = ga_delete g @ deletions muts \<and>
    ga_config g' = ga_config g @ config_updates muts \<and> gomap_keys (ga_tables g') = gomap_keys (ga_tables g) \<union> traced_tables muts \<and>
    gomap_keys (activeTracepoints m') = gomap_keys (activeTracepoints m) \<union> dep_Name ` set (traces muts) \<and>
    gomap_ok (activeTracepoints m') \<and> gomap_ok (ga_tables g') \<and> mx_distributedState m' = mx_distributedState m \<and>
    distinct (map dep_Name (traces muts)) \<and> gomap_keys (activeTracepoints m) \<inter> dep_Name ` set (traces muts) = {}"
    using assms
  proof (induction muts arbitrary: m g)
    case Nil
    then show ?case by (simp add: register_requests_def)
  next
    case (Cons mut muts)
    obtain m1 g1 where s: "gather_mutation (m, g) mut = ((m1, g1), None)" and r: "for_each gather_mutation (m1, g1) muts = ((m', g'), None)"
      using Cons.prems(1) by (auto simp: and_then_None_iff)
    show ?case
    proof (cases mut)
      case (MTrace dep)
      obtain tables where t: "mark_tables (ga_tables g) (Programs dep) = Inr tables" and free: "map_of (activeTracepoints m) (dep_Name dep) = None"
        and m1: "m1 = m\<lparr>activeTracepoints := AList.update (dep_Name dep) \<lparr>at_Name = dep_Name dep, at_ID = uuid_Nil, at_Status = None\<rparr> (activeTracepoints m)\<rparr>"
        and g1: "g1 = g\<lparr>ga_register := ga_register g @ [\<lparr>reg_TTL = dep_TTL dep, reg_Deployment = Some dep, reg_Name = dep_Name dep\<rparr>], ga_tables := tables\<rparr>"
        using s MTrace by (auto simp: gather_mutation_def Let_def with_res_None_iff split: if_splits)
      have ok: "gomap_ok (activeTracepoints m1)" "gomap_ok (ga_tables g1)" using Cons.prems(2,3) mark_tables_ok [OF t] by (simp_all add: m1 g1)
      have new: "dep_Name dep \<notin> gomap_keys (activeTracepoints m)" using free by (simp add: map_of_eq_None_iff)
      have tt: "traced_tables (mut # muts) = {TableName p |p. Some p \<in> set (Programs dep)} \<union> traced_tables muts"
        using MTrace by (auto simp: traced_tables_def)
      show ?thesis
        using Cons.IH [OF r ok] mark_tables_ok [OF t] new MTrace unfolding tt
        by (auto simp: m1 g1 register_requests_def dom_update)
    next
      case (MDeleteTracepoint n)
      with s have "m1 = m" "g1 = g\<lparr>ga_delete := ga_delete g @ [n]\<rparr>" by (auto simp: gather_other)
      with MDeleteTracepoint Cons.IH [OF r] Cons.prems(2,3) show ?thesis by (simp add: register_requests_def)
    next
      case (MConfigUpdate u)
      with s have "m1 = m" "g1 = g\<lparr>ga_config := ga_config g @ [u]\<rparr>" by (auto simp: gather_other)
      with MConfigUpdate Cons.IH [OF r] Cons.prems(2,3) show ?thesis by (simp add: register_requests_def)
    next
      case MOther
      with s have "m1 = m" "g1 = g" by (auto simp: gather_other)
      with MOther Cons.IH [OF r] Cons.prems(2,3) show ?thesis by (simp add: register_requests_def)
    qed
  qed
  then show "ga_register g' = ga_register g @ register_requests muts" "ga_delete g' = ga_delete g @ deletions muts"
    "ga_config g' = ga_config g @ config_updates muts" "gomap_keys (ga_tables g') = gomap_keys (ga_tables g) \<union> traced_tables muts"
    "gomap_keys (activeTracepoints m') = gomap_keys (activeTracepoints m) \<union> dep_Name ` set (traces muts)"
    "gomap_ok (activeTracepoints m')" "gomap_ok (ga_tables g')" "mx_distributedState m' = mx_distributedState m"
    "distinct (map dep_Name (traces muts)) \<and> gomap_keys (activeTracepoints m) \<inter> dep_Name ` set (traces muts) = {}"
    by - ((elim conjE, (intro conjI)?; assumption)+)
qed

lemma gather_error:
  "for_each gather_mutation (m, g) muts = ((m', g'), Some e) \<Longrightarrow> is_panic e \<Longrightarrow> \<exists>dep\<in>set (traces muts). None \<in> set (Programs dep)"
proof (induction muts arbitrary: m g)
  case (Cons mut muts)
  then consider "gather_mutation (m, g) mut = ((m', g'), Some e)"
    | m1 g1 where "gather_mutation (m, g) mut = ((m1, g1), None)" "for_each gather_mutation (m1, g1) muts = ((m', g'), Some e)"
    by (auto simp: and_then_Some_iff)
  then show ?case
  proof cases
    case 1
    then show ?thesis using Cons.prems(2)
      by (cases mut) (auto simp: gather_other is_panic_def gather_mutation_def Let_def with_res_Some_iff
          split: if_splits dest: mark_tables_error)
  next
    case 2
    with Cons.IH Cons.prems(2) show ?thesis by (cases mut) auto
  qed
qed simp

section \<open>The metadata service as seen by the executor\<close>

locale metadata_client =
  fixes X :: "'s mutation_env"
  assumes register_names: "mx_RegisterTracepoint X s reqs = (s', Inr (st, tps)) \<Longrightarrow> map rs_Name tps = map reg_Name reqs"
    and one_answer_each: "mx_GetTracepointInfo X s ids = Inr states \<Longrightarrow> ids \<noteq> [] \<Longrightarrow> length states = length ids"
    and client_ranges: "range_order_ok (mx_range X)"

text \<open>The ids the service gave to the tracepoints of a response, by name.\<close>

definition noted :: "(string, active_tracepoint) gomap \<Rightarrow> register_status list \<Rightarrow> (string, active_tracepoint) gomap \<Rightarrow> bool" where
  "noted a tps a' \<longleftrightarrow> gomap_keys a' = gomap_keys a \<and> (gomap_ok a \<longrightarrow> gomap_ok a') \<and>
     (\<forall>tp\<in>set tps. map_option at_ID (map_of a' (rs_Name tp)) = Some (UUIDFromProtoOrNil (Some (rs_ID tp))))"

lemma note_all:
  "rs_Name ` set tps \<subseteq> gomap_keys (activeTracepoints m) \<Longrightarrow> distinct (map rs_Name tps) \<Longrightarrow>
   \<exists>a'. for_each note_registered m tps = (m\<lparr>activeTracepoints := a'\<rparr>, None) \<and> noted (activeTracepoints m) tps a' \<and>
     (\<forall>n. n \<notin> rs_Name ` set tps \<longrightarrow> map_of a' n = map_of (activeTracepoints m) n)"
proof (induction tps arbitrary: m)
  case Nil
  then show ?case by (auto simp: noted_def intro: exI [of _ "activeTracepoints m"])
next
  case (Cons tp tps)
  obtain a where a: "map_of (activeTracepoints m) (rs_Name tp) = Some a"
    using Cons.prems(1) by (metis image_subset_iff list.set_intros(1) map_of_eq_None_iff not_None_eq)
  let ?b = "a\<lparr>at_ID := UUIDFromProtoOrNil (Some (rs_ID tp)), at_Status := Some (rs_ErrCode tp)\<rparr>"
  let ?m = "m\<lparr>activeTracepoints := AList.update (rs_Name tp) ?b (activeTracepoints m)\<rparr>"
  have n: "note_registered m tp = (?m, None)" using a by (simp add: note_registered_def)
  have k: "gomap_keys (activeTracepoints ?m) = gomap_keys (activeTracepoints m)"
    using Cons.prems(1) by (auto simp: dom_update)
  obtain a' where a': "for_each note_registered ?m tps = (?m\<lparr>activeTracepoints := a'\<rparr>, None)" "noted (activeTracepoints ?m) tps a'"
    "\<forall>n. n \<notin> rs_Name ` set tps \<longrightarrow> map_of a' n = map_of (activeTracepoints ?m) n"
    using Cons.IH [of ?m] Cons.prems k by auto
  have "rs_Name tp \<notin> rs_Name ` set tps" using Cons.prems(2) by auto
  then have own: "map_of a' (rs_Name tp) = Some ?b" using a'(3) by (simp add: update_conv')
  show ?case
  proof (intro exI [of _ a'] conjI)
    show "for_each note_registered m (tp # tps) = (m\<lparr>activeTracepoints := a'\<rparr>, None)" using n a'(1) by simp
    show "noted (activeTracepoints m) (tp # tps) a'" using a'(2) k own by (auto simp: noted_def)
    show "\<forall>n. n \<notin> rs_Name ` set (tp # tps) \<longrightarrow> map_of a' n = map_of (activeTracepoints m) n"
      using a'(3) by (auto simp: update_conv')
  qed
qed

lemma foldl_delete_names:
  "map_of (foldl (\<lambda>a n. AList.delete n a) a ns) n = (if n \<in> set ns then None else map_of a n) \<and>
   (gomap_ok a \<longrightarrow> gomap_ok (foldl (\<lambda>a n. AList.delete n a) a ns))"
  by (induction ns arbitrary: a) (simp_all add: delete_conv' distinct_delete)


context metadata_client
begin

lemma registered_noted:
  assumes ok: "register_all X s m reqs = (s', m', st, None)" and names: "set (map reg_Name reqs) \<subseteq> gomap_keys (activeTracepoints m)"
    and d: "distinct (map reg_Name reqs)"
  shows "\<exists>a'. m' = m\<lparr>activeTracepoints := a'\<rparr> \<and> gomap_keys a' = gomap_keys (activeTracepoints m) \<and>
    (gomap_ok (activeTracepoints m) \<longrightarrow> gomap_ok a') \<and>
    (reqs \<noteq> [] \<longrightarrow> (\<exists>st tps. mx_RegisterTracepoint X s reqs = (s', Inr (st, tps)) \<and> noted (activeTracepoints m) tps a'))"
proof (cases "reqs = []")
  case True
  with ok show ?thesis by (auto simp: register_all_def intro: exI [of _ "activeTracepoints m"])
next
  case False
  with ok obtain st0 tps where r: "mx_RegisterTracepoint X s reqs = (s', Inr (st0, tps))" and n: "for_each note_registered m tps = (m', None)"
    by (auto simp: register_all_def split: prod.splits sum.splits if_splits)
  have "map rs_Name tps = map reg_Name reqs" using r by (rule register_names)
  then have "rs_Name ` set tps \<subseteq> gomap_keys (activeTracepoints m)" "distinct (map rs_Name tps)" using names d by (simp_all flip: set_map)
  from note_all [OF this] n r show ?thesis by (auto simp: noted_def)
qed

lemma registered_error:
  assumes e: "register_all X s m reqs = (s', m', st, Some e)" and "set (map reg_Name reqs) \<subseteq> gomap_keys (activeTracepoints m)"
    and "distinct (map reg_Name reqs)"
  shows "e = ErrTracepointRegistrationFailed"
proof (cases "mx_RegisterTracepoint X s reqs")
  case (Pair s1 r)
  show ?thesis
  proof (cases r)
    case (Inr p)
    obtain st1 tps where p: "p = (st1, tps)" by fastforce
    then have "map rs_Name tps = map reg_Name reqs" using Pair Inr register_names by simp
    then have "rs_Name ` set tps \<subseteq> gomap_keys (activeTracepoints m)" "distinct (map rs_Name tps)" using assms(2,3) by (simp_all flip: set_map)
    from note_all [OF this] e Pair Inr p show ?thesis by (auto simp: register_all_def split: if_splits)
  qed (use e Pair in \<open>auto simp: register_all_def split: if_splits\<close>)
qed

end

context metadata_client
begin

lemma apply_ok:
  assumes ok: "apply_mutations X s (NewMutationExecutor ds) muts = (s', m, st, None)"
  shows "gomap_keys (activeTracepoints m) = dep_Name ` set (traces muts) - set (deletions muts)"
    "set (mx_outputTables m) = traced_tables muts" "mx_distributedState m = ds"
    "traces muts \<noteq> [] \<longrightarrow> (\<exists>s1 st tps. mx_RegisterTracepoint X s (register_requests muts) = (s1, Inr (st, tps)) \<and>
       (\<forall>tp\<in>set tps. rs_Name tp \<notin> set (deletions muts) \<longrightarrow>
          map_option at_ID (map_of (activeTracepoints m) (rs_Name tp)) = Some (UUIDFromProtoOrNil (Some (rs_ID tp)))))"
proof -
  obtain m1 g s2 m2 st2 s3 m3 st3 where g: "for_each gather_mutation (NewMutationExecutor ds, no_requests) muts = ((m1, g), None)"
    and reg: "register_all X s m1 (ga_register g) = (s2, m2, st2, None)" and del: "delete_all X s2 m2 (ga_delete g) = (s3, m3, st3, None)"
    and m: "m = m3\<lparr>mx_outputTables := map fst (go_range (mx_range X) (ga_tables g))\<rparr>"
    using ok by (auto simp: apply_mutations_def split: prod.splits option.splits)
  have new: "activeTracepoints (NewMutationExecutor ds) = []" "ga_tables no_requests = []" "mx_distributedState (NewMutationExecutor ds) = ds"
    "ga_register no_requests = []" "ga_delete no_requests = []"
    by (simp_all add: NewMutationExecutor_def no_requests_def)
  note go = gather_ok [OF g, unfolded new, simplified]
  have names: "map reg_Name (ga_register g) = map dep_Name (traces muts)" using go(1) by (simp add: register_requests_def)
  then obtain a2 where m2: "m2 = m1\<lparr>activeTracepoints := a2\<rparr>" and k2: "gomap_keys a2 = gomap_keys (activeTracepoints m1)"
    and ids: "ga_register g \<noteq> [] \<longrightarrow> (\<exists>st tps. mx_RegisterTracepoint X s (ga_register g) = (s2, Inr (st, tps)) \<and> noted (activeTracepoints m1) tps a2)"
    using registered_noted [OF reg] go(5,9) by auto
  have m3: "map_of (activeTracepoints m3) n = (if n \<in> set (deletions muts) then None else map_of a2 n)"
    "mx_distributedState m3 = mx_distributedState m2" for n
    using del go(2) by (auto simp: delete_all_def foldl_delete_names m2 split: if_splits prod.splits sum.splits)
  have "dom (map_of (activeTracepoints m3)) = dom (map_of a2) - set (deletions muts)" using m3(1) by (auto simp: dom_def split: if_splits)
  then have "gomap_keys (activeTracepoints m3) = gomap_keys a2 - set (deletions muts)" by (simp only: dom_map_of_conv_image_fst)
  then show "gomap_keys (activeTracepoints m) = dep_Name ` set (traces muts) - set (deletions muts)"
    unfolding k2 go(5) m by simp
  show "set (mx_outputTables m) = traced_tables muts"
    using range_order_set [OF client_ranges, of "map fst (ga_tables g)"] go(4) by (simp add: m)
  show "mx_distributedState m = ds" using m3(2) go(8) by (simp add: m m2)
  show "traces muts \<noteq> [] \<longrightarrow> (\<exists>s1 st tps. mx_RegisterTracepoint X s (register_requests muts) = (s1, Inr (st, tps)) \<and>
       (\<forall>tp\<in>set tps. rs_Name tp \<notin> set (deletions muts) \<longrightarrow>
          map_option at_ID (map_of (activeTracepoints m) (rs_Name tp)) = Some (UUIDFromProtoOrNil (Some (rs_ID tp)))))"
    using ids go(1) by (auto simp: register_requests_def noted_def m m3)
qed

lemma apply_panic:
  assumes e: "apply_mutations X s (NewMutationExecutor ds) muts = (s', m, st, Some e)" and "is_panic e"
  shows "\<exists>dep\<in>set (traces muts). None \<in> set (Programs dep)"
proof (cases "for_each gather_mutation (NewMutationExecutor ds, no_requests) muts")
  case (Pair mg r)
  obtain m1 g where mg: "mg = (m1, g)" by fastforce
  show ?thesis
  proof (cases r)
    case (Some e1)
    with e Pair mg have "e1 = e" by (simp add: apply_mutations_def)
    with Pair mg Some assms(2) show ?thesis using gather_error by blast
  next
    case None
    have g: "for_each gather_mutation (NewMutationExecutor ds, no_requests) muts = ((m1, g), None)" using Pair mg None by simp
    have "activeTracepoints (NewMutationExecutor ds) = []" "ga_tables no_requests = []" "ga_register no_requests = []"
      by (simp_all add: NewMutationExecutor_def no_requests_def)
    note go = gather_ok [OF g, unfolded this, simplified]
    have names: "set (map reg_Name (ga_register g)) \<subseteq> gomap_keys (activeTracepoints m1)" "distinct (map reg_Name (ga_register g))"
      using go(1,5,9) by (simp_all add: register_requests_def comp_def)
    have cfg: "for_each (update_config X) s3 us = (s4, Some e3) \<Longrightarrow> e3 = ErrConfigUpdateFailed" for s3 us s4 e3
      by (induction us arbitrary: s3) (auto simp: and_then_Some_iff update_config_def split: prod.splits sum.splits if_splits)
    have "e \<in> {ErrTracepointRegistrationFailed, ErrTracepointDeletionFailed, ErrConfigUpdateFailed}"
      using e g registered_error [OF _ names] cfg
      by (auto simp: apply_mutations_def delete_all_def split: prod.splits option.splits if_splits sum.splits)
    with assms(2) show ?thesis
      by (auto simp: is_panic_def ErrTracepointRegistrationFailed_def ErrTracepointDeletionFailed_def ErrConfigUpdateFailed_def)
  qed
qed

end

section \<open>The handlers of the metadata service\<close>

text \<open>
  A reliable connection to the handlers of theory \<open>MetadataServer\<close>. The second component of the state counts the
  tracepoints registered so far, which selects the readings of the clock and the fresh ids.
\<close>

definition ok_status :: exec_status where
  "ok_status = \<lparr>sp_ErrCode = status_OK, sp_Msg = [], sp_Context = []\<rparr>"

definition server_client :: "('d, 'u, 'r) server_env \<Rightarrow> (nat \<Rightarrow> int \<times> int \<times> uuid) \<Rightarrow> (planner_request \<Rightarrow> compile_response res) \<Rightarrow>
    err option \<Rightarrow> ('d server \<times> nat) mutation_env" where
  "server_client S fresh compile auth =
     \<lparr>mx_CompileMutations = compile, mx_auth = auth,
      mx_RegisterTracepoint = (\<lambda>(s, n) reqs. case srv_RegisterTracepoint S fresh n s reqs of
          (s', Inl e) \<Rightarrow> ((s', n + length reqs), Inl e)
        | (s', Inr rs) \<Rightarrow> ((s', n + length reqs), Inr (Some ok_status, rs))),
      mx_RemoveTracepoint = (\<lambda>(s, n) names. case RemoveTracepoint S s names of
          (s', Some e) \<Rightarrow> ((s', n), Inl e) | (s', None) \<Rightarrow> ((s', n), Inr (Some ok_status))),
      mx_UpdateConfig = (\<lambda>(s, n) u. case srv_UpdateConfig S s (cu_AgentPodName u) (cu_Key u) (cu_Value u) of
          (s', Some e) \<Rightarrow> ((s', n), Inl e) | (s', None) \<Rightarrow> ((s', n), Inr (Some ok_status))),
      mx_GetTracepointInfo = (\<lambda>(s, n) ids. srv_GetTracepointInfo S s ids), mx_range = rev\<rparr>"

lemma register_one_name: "register_one S now now_ds i s tp = (s', Inr r) \<Longrightarrow> rs_Name r = reg_Name tp"
  by (auto simp: register_one_def Let_def split: sum.splits prod.splits if_splits option.splits)

lemma srv_register_names: "srv_RegisterTracepoint S fresh n s reqs = (s', Inr rs) \<Longrightarrow> map rs_Name rs = map reg_Name reqs"
proof (induction S fresh n s reqs arbitrary: rs rule: srv_RegisterTracepoint.induct)
  case (2 S fresh n s tp tps)
  then show ?case by (auto split: prod.splits sum.splits dest: register_one_name)
qed simp

lemma map_res_length: "map_res f xs = Inr ys \<Longrightarrow> length ys = length xs"
  by (induction xs arbitrary: ys) (auto simp: bind_res_Inr_iff)

lemma srv_info_length: "srv_GetTracepointInfo S s ids = Inr sts \<Longrightarrow> ids \<noteq> [] \<Longrightarrow> length sts = length ids"
  by (auto simp: srv_GetTracepointInfo_def tpm_GetTracepointsForIDs_def GetTracepointsForIDs_def bind_res_Inr_iff dest!: map_res_length)

interpretation server_md: metadata_client "server_client S fresh compile auth"
  for S :: "('d, 'u, 'r) server_env" and fresh compile auth
proof (unfold_locales, goal_cases)
  case (1 s reqs s' st tps)
  then show ?case by (cases s) (auto simp: server_client_def split: prod.splits sum.splits dest: srv_register_names)
next
  case (2 s ids states)
  then show ?case by (cases s) (auto simp: server_client_def dest: srv_info_length)
next
  case 3
  then show ?case by (simp add: server_client_def)
qed

section \<open>A concrete script\<close>










section \<open>Properties\<close>

context metadata_client
begin

lemma execute_ok:
  assumes "mutation_request (NewMutationExecutor ds) req opts = Inr q" and "mx_CompileMutations X q = Inr c"
    and "Execute X s (NewMutationExecutor ds) req opts = (s', m, None, None)"
  shows "(m = NewMutationExecutor ds \<and> s' = s \<and> cm_Mutations c = []) \<or>
    apply_mutations X s (NewMutationExecutor ds) (cm_Mutations c) = (s', m, None, None)"
  using assms by (auto simp: Execute_def bad_status_def split: option.splits if_splits)

lemma execute_spec:
  assumes "mutation_request (NewMutationExecutor ds) req opts = Inr q" and "mx_CompileMutations X q = Inr c"
    and "Execute X s (NewMutationExecutor ds) req opts = (s', m, None, None)"
  shows "gomap_keys (activeTracepoints m) = dep_Name ` set (traces (cm_Mutations c)) - set (deletions (cm_Mutations c))"
    "set (mx_outputTables m) = traced_tables (cm_Mutations c)" "mx_distributedState m = ds"
    "traces (cm_Mutations c) \<noteq> [] \<longrightarrow> (\<exists>s1 st tps. mx_RegisterTracepoint X s (register_requests (cm_Mutations c)) = (s1, Inr (st, tps)) \<and>
       (\<forall>tp\<in>set tps. rs_Name tp \<notin> set (deletions (cm_Mutations c)) \<longrightarrow>
          map_option at_ID (map_of (activeTracepoints m) (rs_Name tp)) = Some (UUIDFromProtoOrNil (Some (rs_ID tp)))))"
proof -
  have new: "activeTracepoints (NewMutationExecutor ds) = []" "mx_outputTables (NewMutationExecutor ds) = []"
    "mx_distributedState (NewMutationExecutor ds) = ds" by (simp_all add: NewMutationExecutor_def)
  note e = execute_ok [OF assms]
  show "gomap_keys (activeTracepoints m) = dep_Name ` set (traces (cm_Mutations c)) - set (deletions (cm_Mutations c))"
    using e by (elim disjE conjE) (simp add: new, erule apply_ok(1))
  show "set (mx_outputTables m) = traced_tables (cm_Mutations c)" using e by (elim disjE conjE) (simp add: new, erule apply_ok(2))
  show "mx_distributedState m = ds" using e by (elim disjE conjE) (simp add: new, erule apply_ok(3))
  show "traces (cm_Mutations c) \<noteq> [] \<longrightarrow> (\<exists>s1 st tps. mx_RegisterTracepoint X s (register_requests (cm_Mutations c)) = (s1, Inr (st, tps)) \<and>
       (\<forall>tp\<in>set tps. rs_Name tp \<notin> set (deletions (cm_Mutations c)) \<longrightarrow>
          map_option at_ID (map_of (activeTracepoints m) (rs_Name tp)) = Some (UUIDFromProtoOrNil (Some (rs_ID tp)))))"
    using e apply_ok(4) by (metis script_simps(1))
qed

end





text \<open>
  A script that traces nothing asks the metadata service about no tracepoint in particular, and the service answers with
  all tracepoints there are: the script is held back by any of them that does not run.
\<close>

theorem mutation_without_trace_waits:
  assumes q: "mutation_request (NewMutationExecutor ds) req opts = Inr q" and c: "compile q = Inr c" and none: "traces (cm_Mutations c) = []"
    and ex: "Execute (server_client S fresh compile None) s (NewMutationExecutor ds) req opts = ((srv, n), m, None, None)"
    and all: "srv_GetTracepointInfo S srv [] = Inr tps" and tp: "tp \<in> set tps" "ts_State tp \<noteq> RUNNING_STATE"
  shows "\<exists>states. MutationInfo (server_client S fresh compile None) U (srv, n) m =
    Inr (\<lparr>vs_Code = codes_Unavailable, vs_Message = ''probe installation in progress'', vs_Details = []\<rparr>, states)"
proof -
  let ?X = "server_client S fresh compile None"
  have "mx_CompileMutations ?X q = Inr c" using c by (simp add: server_client_def)
  from server_md.execute_spec(1) [OF q this ex] none have "activeTracepoints m = []" by simp
  then have "go_range (mx_range ?X) (activeTracepoints m) = []" by (simp add: go_range_def server_client_def)
  moreover have "mx_GetTracepointInfo ?X (srv, n) [] = Inr tps" "mx_auth ?X = None" using all by (simp_all add: server_client_def)
  ultimately show ?thesis using tp by (auto simp: MutationInfo_def list_all_iff Let_def)
qed

end
