(* ===== verification/Spec2Isabelle.thy ===== *)
theory Spec2Isabelle
  imports Etcd BrokerStream AgentTopicListenerCorrect ActiveSetCorrect ExportControllerCorrect QueryFlagsCorrect ResultForwarderCorrect CronScriptCorrect MutationExecutorCorrect
begin

text \<open>
  A verification of the metadata service of Pixie's Vizier, of the part of the query broker that
  follows it and returns the results of queries, and of the core of the adaptive export. Paths below are relative to \<open>src/src\<close>; all file and function names are those of the Go
  sources.

  \<^bold>\<open>The program.\<close> Agents (PEMs, which collect data, and Kelvins, which do not) register with the metadata
  service over a message bus and send heartbeats. \<open>agent_topic_listener.go\<close> runs one goroutine per
  agent; it calls the agent manager, which keeps agents, data summaries, processes and table schemas in
  the agent store, and the tracepoint manager, which deploys tracepoints to agents and reaps expired
  ones. All of them, and the store of Kubernetes metadata, write one key-value datastore, on Pebble or
  on etcd. \<open>server.go\<close> offers this state over gRPC; its \<open>GetAgentUpdates\<close> streams changes of the agents to
  the query broker, whose tracker (\<open>query_broker/tracker\<close>) assembles the state the planner uses. The broker also
  applies the mutations of a script through the metadata service and forwards the results of a query from the
  agents to its client; the scripts it runs periodically and their results are kept by the metadata service. The adaptive export (\<open>adaptive_export\<close>) is a
  service beside them: for every workload with an anomaly its controller keeps a window in time open, copies
  what Pixie has recorded in the window to ClickHouse, and keeps the set of pods to stream, from which the
  scanners of the tables get their filter.

  \<^bold>\<open>Conventions.\<close> A Go string or byte slice is a \<^typ>\<open>string\<close>; a result with an error is a sum whose left
  side is the error; an operation that changes the state returns the new state with an optional error.
  A nil dereference, an index out of range or another panic is the error \<open>Panic\<close>. A map is an association
  list, and the order of an iteration over it is a parameter that permutes the keys. Readings of the
  clock and fresh identifiers are arguments. Third-party code is a parameter: Pebble, the etcd client, the
  UUID package, the protocol buffer codecs, the hash functions, NATS, ClickHouse and Pixie's query interface. What is assumed of it is stated in
  the locales \<open>pebble_db\<close> and \<open>etcd_db\<close> and the predicates \<open>uuid_ok\<close> and \<open>codec_ok\<close>; each has a concrete
  instance, on which the witnesses are computed. The components use the datastore through the locale
  \<open>kv_store\<close> and its extensions \<open>agent_store\<close>, \<open>tracepoint_store\<close>, \<open>ordered_kv\<close> and \<open>cron_store\<close>.

  \<^bold>\<open>Theories.\<close>
  \<^item> \<open>Prelude\<close>: results and sequencing, Go maps, splitting and joining of strings and paths, decimal
    numbers, words; shared lemmas.
  \<^item> \<open>Datastore\<close>: the interface of \<open>vizier/utils/datastore/datastore.go\<close> as a record of operations and the
    locale of what its clients rely on.
  \<^item> \<open>Pebbledb\<close>, \<open>Etcd\<close>: the two implementations (\<open>pebbledb/*.go\<close>, \<open>etcd/*.go\<close>). Both refine the interface; the
    lemmas cover prefix bounds, the expiry of keys by a tick of the reaper and the batching of etcd
    transactions.
  \<^item> \<open>Uuid\<close>, \<open>Upid\<close>: \<open>utils/uuid.go\<close>, \<open>shared/k8s/upid.go\<close>, \<open>shared/types/gotypes/types.go\<close>; round trips and order.
  \<^item> \<open>AgentStore\<close>, \<open>AgentStoreCorrect\<close>: \<open>agent/agent_store.go\<close>. Each operation is described by its effect on
    the keys of the store; \<open>UpdateSchemas\<close> refines an update of the relation between tables and agents; a
    well-formedness invariant holds in all reachable stores.
  \<^item> \<open>AgentManager\<close>, \<open>AgentManagerCorrect\<close>: \<open>agent/agent.go\<close>. A client that replays the updates of its cursor
    follows the store under every interleaving of the two halves of writes and reads, which is how the
    mutexes of the manager allow them to interleave.
  \<^item> \<open>Tracepoint\<close>, \<open>TracepointRegister\<close>, \<open>TracepointStore\<close>, \<open>TracepointCorrect\<close>: \<open>tracepoint/*.go\<close>. Which program
    is sent to which agent, the life cycle of a tracepoint, its expiry, and the keys it may touch.
  \<^item> \<open>K8sStore\<close>, \<open>K8sStoreCorrect\<close>: \<open>k8smeta/k8s_metadata_store.go\<close>. Updates come back merged in the order of
    their versions; the lookup of pods by labels.
  \<^item> \<open>MetadataServer\<close>, \<open>MetadataServerCorrect\<close>: \<open>server.go\<close>, all handlers. The loop of the update stream ends
    and sends a batch in order; the state of a tracepoint over all agents.
  \<^item> \<open>AgentTracker\<close>, \<open>AgentTrackerCorrect\<close>: \<open>query_broker/tracker/agents_info.go\<close> and the message loop of
    \<open>agents.go\<close>, with the objects that pending and published state share in an explicit heap.
  \<^item> \<open>AgentTopicListener\<close>, \<open>AgentTopicListenerCorrect\<close>: \<open>agent_topic_listener.go\<close> as a step relation over the
    receiving goroutine and the goroutines of the handlers, with their channels and wait groups.
  \<^item> \<open>PxlQuery\<close>, \<open>PxlQueryCorrect\<close>: \<open>adaptive_export/internal/pxl/*.go\<close> and \<open>anomaly/hash.go\<close>. The scripts sent to
    Pixie, that names are escaped, where template and script agree, and that the hash identifies a workload.
  \<^item> \<open>ActiveSet\<close>, \<open>ActiveSetCorrect\<close>: \<open>activeset/activeset.go\<close>, \<open>streaming/notifier.go\<close>, \<open>streaming/filter.go\<close>. The filters
    of the scanners follow the set under every interleaving of changes, broadcasts, timers and readers.
  \<^item> \<open>ExportController\<close>, \<open>ExportControllerCorrect\<close>: \<open>controller/controller.go\<close> as a step relation over the handler of events,
    the pruning and the goroutines that copy data: at most one goroutine for a workload, slices without gap or
    overlap, and the agreement of windows and streamed pods.
  \<^item> \<open>QueryFlags\<close>, \<open>QueryFlagsCorrect\<close>: \<open>query_broker/controllers/query_flags.go\<close> and \<open>data_privacy.go\<close>; what the broker
    reads from the scripts of the adaptive export.
  \<^item> \<open>QueryProto\<close>, \<open>ResultForwarder\<close>, \<open>ResultForwarderCorrect\<close>: \<open>query_broker/controllers/proto_utils.go\<close> and
    \<open>query_result_forwarder.go\<close> as a step relation over watchdogs, consumers and producers: no result is lost or
    duplicated, when a query is complete, and the supervision of consumers.
  \<^item> \<open>MutationExecutor\<close>, \<open>MutationExecutorCorrect\<close>: \<open>query_broker/controllers/mutation_executor.go\<close> and the requests to the planner; which
    tracepoints a script follows and when it is ready. The locale \<open>metadata_client\<close> is what the broker relies on of the
    metadata service, and the handlers of \<open>MetadataServer\<close> are shown to meet it.
  \<^item> \<open>CronScript\<close>, \<open>CronScriptCorrect\<close>: \<open>metadata/controllers/cronscript\<close>, the store of periodic scripts and the service in
    front of it; they refine a map of scripts and the last ten results of each, kept in a ring buffer.
  \<^item> \<open>BrokerStream\<close> and this theory: the composition of store, manager, stream and tracker.

  \<^bold>\<open>Bounds and fuel.\<close> Only the loop that sends the chunks of a batch has fuel (\<open>chunk_loop\<close>), because for a
  negative chunk size it does not end in any reasonable time; for a positive one the number of full chunks
  plus one is enough, which is proved. Indices of that loop wrap at 64 bits, so batches are assumed
  shorter than \<open>2 ^ 63\<close>. Short identifiers are 32-bit words, kernel versions triples of 32-bit words, UUIDs
  128-bit words. All other definitions are total functions.

  \<^bold>\<open>Not modelled.\<close> Goroutines that only call a modelled operation on a timer (the ticker of the
  reapers), constructors, logging and metrics; the opening and retrying of gRPC streams
  (\<open>streamUpdates\<close>, \<open>Start\<close>); the NATS subscriptions of \<open>message_bus.go\<close>; the Kubernetes informers and the
  conversion of their objects (\<open>k8s_metadata_handler.go\<close>); the compilation and start of queries in the broker (\<open>query_executor.go\<close>,
  \<open>launch_query.go\<close>) and its gRPC handlers (\<open>server.go\<close>);
  of the adaptive export the loops of the scanners and writers, the trigger, the encoding of rows and the
  control server, which are HTTP, SQL and JSON around what is modelled; the cloud connector, the operator, the cloud services, the command line and the
  C++ data plane. The contract of the databases is that a failed write leaves the store as it was;
  nothing is assumed of what a failed deletion leaves.
\<close>

section \<open>From the store to the planner\<close>



end
